(* ===== verification/LT_Prelude.thy ===== *)
theory LT_Prelude
  imports Main "HOL-Library.Multiset" "HOL-Library.AList"
begin

text \<open>
  The vocabulary shared by the components: Go strings as byte lists with the functions of the
  packages \<open>strings\<close> and \<open>unicode\<close> that the hub calls, instants and durations, results with an
  error side, and the generic lemmas on lists and maps.

  \<^item> A Go \<open>string\<close> is an Isabelle \<open>string\<close>, one character per byte. The classification functions
    (\<open>unicode.IsSpace\<close>, \<open>unicode.IsControl\<close>, \<open>strings.ToLower\<close>, \<open>strings.EqualFold\<close>) are given by
    their ASCII tables, so they are exact on ASCII text; a byte above 127 is an ordinary
    character without case.
  \<^item> An instant (\<open>time.Time\<close>) and a duration (\<open>time.Duration\<close>) are integers, in nanoseconds.
    The clock is an argument of the operation that reads it.
  \<^item> A Go \<open>int\<close> is an \<open>int\<close>. Where the code can reach the width of a machine integer the
    wrap-around or the range check is written out in the component.
\<close>

section \<open>Collections of rewrite rules\<close>

named_theorems go_string_simps \<open>evaluation of the Go string functions\<close>
named_theorems policy_simps \<open>definitions of the authorisation components\<close>
named_theorems store_simps \<open>definitions of the keyed in-memory stores\<close>
named_theorems queue_simps \<open>definitions of the job queue operations\<close>

section \<open>Types\<close>

type_synonym gtime = int
type_synonym duration = int

abbreviation second :: duration where "second \<equiv> 1000000000"
abbreviation millisecond :: duration where "millisecond \<equiv> 1000000"

text \<open>The zero value of \<open>time.Time\<close>, the first instant of the year 1.\<close>

definition zero_time :: gtime where "zero_time = - 62135596800 * second"
abbreviation minute :: duration where "minute \<equiv> 60 * second"

section \<open>Characters and strings\<close>

abbreviation byte_of :: "char \<Rightarrow> nat" where "byte_of c \<equiv> of_char c"

definition is_space :: "char \<Rightarrow> bool" where
  "is_space c = (byte_of c = 32 \<or> (9 \<le> byte_of c \<and> byte_of c \<le> 13))"

definition is_control :: "char \<Rightarrow> bool" where
  "is_control c = (byte_of c < 32 \<or> byte_of c = 127)"

definition lower_char :: "char \<Rightarrow> char" where
  "lower_char c = (if 65 \<le> byte_of c \<and> byte_of c \<le> 90 then char_of (byte_of c + 32) else c)"

text \<open>The classes of a character by its bits, for evaluation.\<close>

lemma is_space_code [code]:
  "is_space (Char b0 b1 b2 b3 b4 b5 b6 b7) =
     (\<not> b7 \<and> \<not> b6 \<and> \<not> b4 \<and> (b5 \<and> \<not> b3 \<and> \<not> b2 \<and> \<not> b1 \<and> \<not> b0 \<or> \<not> b5 \<and> b3 \<and> (\<not> b2 \<and> (b1 \<or> b0) \<or> b2 \<and> \<not> b1)))"
  by (cases b0; cases b1; cases b2; cases b3; cases b4; cases b5; cases b6; cases b7; simp add: is_space_def)

lemma is_control_code [code]:
  "is_control (Char b0 b1 b2 b3 b4 b5 b6 b7) = (\<not> b7 \<and> (\<not> b6 \<and> \<not> b5 \<or> b6 \<and> b5 \<and> b4 \<and> b3 \<and> b2 \<and> b1 \<and> b0))"
  by (cases b0; cases b1; cases b2; cases b3; cases b4; cases b5; cases b6; cases b7; simp add: is_control_def)

lemma lower_char_code [code]:
  "lower_char (Char b0 b1 b2 b3 b4 b5 b6 b7) =
     (if \<not> b7 \<and> b6 \<and> \<not> b5 \<and> (b0 \<or> b1 \<or> b2 \<or> b3 \<or> b4) \<and> \<not> (b4 \<and> b3 \<and> (b2 \<or> b1 \<and> b0))
      then Char b0 b1 b2 b3 b4 True b6 b7 else Char b0 b1 b2 b3 b4 b5 b6 b7)"
  by (cases b0; cases b1; cases b2; cases b3; cases b4; cases b5; cases b6; cases b7; simp add: lower_char_def char_of_def bit_0)

definition to_lower :: "string \<Rightarrow> string" where
  "to_lower s = map lower_char s"

definition equal_fold :: "string \<Rightarrow> string \<Rightarrow> bool" where
  "equal_fold a b = (to_lower a = to_lower b)"

definition trim_left_by :: "('a \<Rightarrow> bool) \<Rightarrow> 'a list \<Rightarrow> 'a list" where
  "trim_left_by p s = dropWhile p s"

definition trim_right_by :: "('a \<Rightarrow> bool) \<Rightarrow> 'a list \<Rightarrow> 'a list" where
  "trim_right_by p s = rev (dropWhile p (rev s))"

definition trim_space :: "string \<Rightarrow> string" where
  "trim_space s = trim_right_by is_space (trim_left_by is_space s)"

definition has_prefix :: "'a list \<Rightarrow> 'a list \<Rightarrow> bool" where
  "has_prefix s p = (take (length p) s = p)"

definition has_suffix :: "'a list \<Rightarrow> 'a list \<Rightarrow> bool" where
  "has_suffix s p = (length p \<le> length s \<and> drop (length s - length p) s = p)"

definition trim_prefix :: "'a list \<Rightarrow> 'a list \<Rightarrow> 'a list" where
  "trim_prefix s p = (if has_prefix s p then drop (length p) s else s)"

definition trim_suffix :: "'a list \<Rightarrow> 'a list \<Rightarrow> 'a list" where
  "trim_suffix s p = (if has_suffix s p then take (length s - length p) s else s)"

fun contains :: "'a list \<Rightarrow> 'a list \<Rightarrow> bool" where
  "contains [] p = (p = [])"
| "contains (c # s) p = (has_prefix (c # s) p \<or> contains s p)"

text \<open>\<open>strings.Join\<close>.\<close>

fun join_with :: "string \<Rightarrow> string list \<Rightarrow> string" where
  "join_with sep [] = []"
| "join_with sep [x] = x"
| "join_with sep (x # xs) = x @ sep @ join_with sep xs"

text \<open>\<open>strings.IndexByte\<close>: the position of the first occurrence.\<close>

fun index_of :: "'a \<Rightarrow> 'a list \<Rightarrow> nat option" where
  "index_of c [] = None"
| "index_of c (d # s) = (if d = c then Some 0 else map_option Suc (index_of c s))"

text \<open>The part of a string after the last character that satisfies \<open>p\<close> (all of it if none does).\<close>

definition after_last :: "('a \<Rightarrow> bool) \<Rightarrow> 'a list \<Rightarrow> 'a list" where
  "after_last p s = rev (takeWhile (\<lambda>c. \<not> p c) (rev s))"

text \<open>\<open>strings.Split\<close> with a one-byte separator.\<close>

fun split_on :: "'a \<Rightarrow> 'a list \<Rightarrow> 'a list list" where
  "split_on c [] = [[]]"
| "split_on c (d # s) =
     (if d = c then [] # split_on c s
      else case split_on c s of [] \<Rightarrow> [[d]] | p # ps \<Rightarrow> (d # p) # ps)"

lemma has_prefix_iff: "has_prefix s p \<longleftrightarrow> (\<exists>t. s = p @ t)"
proof
  assume "has_prefix s p"
  then have "s = p @ drop (length p) s"
    unfolding has_prefix_def by (metis append_take_drop_id)
  then show "\<exists>t. s = p @ t" ..
qed (auto simp: has_prefix_def)

lemma has_suffix_iff: "has_suffix s p \<longleftrightarrow> (\<exists>t. s = t @ p)"
proof
  assume "has_suffix s p"
  then have "s = take (length s - length p) s @ p"
    unfolding has_suffix_def by (metis append_take_drop_id)
  then show "\<exists>t. s = t @ p" ..
qed (auto simp: has_suffix_def)

lemma trim_suffix_append [simp]: "trim_suffix (t @ p) p = t"
  by (simp add: trim_suffix_def has_suffix_iff)

lemma trim_prefix_append [simp]: "trim_prefix (p @ t) p = t"
  by (simp add: trim_prefix_def has_prefix_iff)

lemma contains_iff: "contains s p \<longleftrightarrow> (\<exists>u v. s = u @ p @ v)"
proof (induction s)
  case Nil
  then show ?case by auto
next
  case (Cons c s)
  have "(\<exists>u v. c # s = u @ p @ v) \<longleftrightarrow> (\<exists>v. c # s = p @ v) \<or> (\<exists>u v. s = u @ p @ v)"
  proof
    assume "\<exists>u v. c # s = u @ p @ v"
    then obtain u v where *: "c # s = u @ p @ v" by blast
    then show "(\<exists>v. c # s = p @ v) \<or> (\<exists>u v. s = u @ p @ v)"
      by (cases u) auto
  next
    assume "(\<exists>v. c # s = p @ v) \<or> (\<exists>u v. s = u @ p @ v)"
    then show "\<exists>u v. c # s = u @ p @ v"
      by (metis append_Cons append_Nil)
  qed
  with Cons.IH show ?case by (simp add: has_prefix_iff)
qed

lemma contains_single [simp]: "contains s [c] \<longleftrightarrow> c \<in> set s"
  by (auto simp: contains_iff in_set_conv_decomp)

lemma trim_left_by_set: "set (trim_left_by p s) \<subseteq> set s"
  by (auto simp: trim_left_by_def dest: set_dropWhileD)

lemma trim_space_set: "set (trim_space s) \<subseteq> set s"
  unfolding trim_space_def trim_right_by_def trim_left_by_def
  by (metis set_dropWhileD set_rev subsetI)

lemma trim_space_Nil [simp]: "trim_space [] = []"
  by (simp add: trim_space_def trim_left_by_def trim_right_by_def)

lemma dropWhile_eq_self_hd: "xs \<noteq> [] \<Longrightarrow> \<not> p (hd xs) \<Longrightarrow> dropWhile p xs = xs"
  by (cases xs) auto

lemma hd_dropWhile': "dropWhile p xs \<noteq> [] \<Longrightarrow> \<not> p (hd (dropWhile p xs))"
  by (induction xs) auto

lemma last_trim_right_by: "trim_right_by p xs \<noteq> [] \<Longrightarrow> \<not> p (last (trim_right_by p xs))"
  unfolding trim_right_by_def by (metis hd_dropWhile' last_rev rev_is_Nil_conv)

lemma trim_right_by_prefix: "\<exists>t. xs = trim_right_by p xs @ t"
proof
  show "xs = trim_right_by p xs @ rev (takeWhile p (rev xs))"
    unfolding trim_right_by_def
    by (metis rev_append rev_rev_ident takeWhile_dropWhile_id)
qed

text \<open>Trimming is idempotent: every trimmed identifier is a fixed point.\<close>

lemma trim_space_idem [simp]: "trim_space (trim_space s) = trim_space s"
proof (cases "trim_space s = []")
  case False
  let ?l = "dropWhile is_space s"
  have ne: "trim_right_by is_space ?l \<noteq> []"
    using False by (simp add: trim_space_def trim_left_by_def)
  obtain t where t: "?l = trim_right_by is_space ?l @ t"
    using trim_right_by_prefix by blast
  then have "hd (trim_right_by is_space ?l) = hd ?l"
    using ne by (metis hd_append2)
  moreover have "?l \<noteq> []"
    using ne t by (metis Nil_is_append_conv)
  ultimately have "\<not> is_space (hd (trim_right_by is_space ?l))"
    by (simp add: hd_dropWhile')
  then have 1: "trim_left_by is_space (trim_space s) = trim_space s"
    using ne by (simp add: trim_space_def trim_left_by_def dropWhile_eq_self_hd)
  have "\<not> is_space (last (trim_space s))"
    using last_trim_right_by False by (simp add: trim_space_def)
  then have "trim_right_by is_space (trim_space s) = trim_space s"
    unfolding trim_right_by_def using False
    by (metis dropWhile_eq_self_hd hd_rev rev_is_Nil_conv rev_rev_ident)
  with 1 show ?thesis by (simp add: trim_space_def)
qed simp

lemma trim_space_fixed:
  assumes "s \<noteq> []" "\<not> is_space (hd s)" "\<not> is_space (last s)"
  shows "trim_space s = s"
proof -
  have "dropWhile is_space s = s" using assms by (simp add: dropWhile_eq_self_hd)
  moreover have "dropWhile is_space (rev s) = rev s" using assms by (simp add: dropWhile_eq_self_hd hd_rev)
  ultimately show ?thesis by (simp add: trim_space_def trim_left_by_def trim_right_by_def)
qed

lemma to_lower_length [simp]: "length (to_lower s) = length s"
  by (simp add: to_lower_def)

lemma lower_char_idem [simp]: "lower_char (lower_char c) = lower_char c"
  by (auto simp: lower_char_def)

lemma to_lower_idem [simp]: "to_lower (to_lower s) = to_lower s"
  by (simp add: to_lower_def)

lemma equal_fold_refl [simp]: "equal_fold s s"
  by (simp add: equal_fold_def)

lemma equal_fold_sym: "equal_fold a b \<Longrightarrow> equal_fold b a"
  by (simp add: equal_fold_def)

lemma equal_fold_trans: "equal_fold a b \<Longrightarrow> equal_fold b c \<Longrightarrow> equal_fold a c"
  by (simp add: equal_fold_def)

lemmas go_string_defs [go_string_simps] =
  is_space_def is_control_def lower_char_def to_lower_def equal_fold_def
  trim_left_by_def trim_right_by_def trim_space_def has_prefix_def has_suffix_def
  trim_prefix_def trim_suffix_def after_last_def

section \<open>Lists\<close>

text \<open>The first element that satisfies a predicate, as a Go range loop with an early return.\<close>

fun find_first :: "('a \<Rightarrow> bool) \<Rightarrow> 'a list \<Rightarrow> 'a option" where
  "find_first p [] = None"
| "find_first p (x # xs) = (if p x then Some x else find_first p xs)"

lemma find_first_SomeD: "find_first p xs = Some x \<Longrightarrow> x \<in> set xs \<and> p x"
  by (induction xs) (auto split: if_splits)

lemma find_first_None_iff: "find_first p xs = None \<longleftrightarrow> (\<forall>x \<in> set xs. \<not> p x)"
  by (induction xs) auto

text \<open>Remove the first element that satisfies a predicate (\<open>append(xs[:i], xs[i+1:]...)\<close>).\<close>

fun remove_first :: "('a \<Rightarrow> bool) \<Rightarrow> 'a list \<Rightarrow> 'a list" where
  "remove_first p [] = []"
| "remove_first p (x # xs) = (if p x then xs else x # remove_first p xs)"

lemma remove_first_subset: "set (remove_first p xs) \<subseteq> set xs"
  by (induction xs) auto

lemma remove_first_id: "(\<forall>x \<in> set xs. \<not> p x) \<Longrightarrow> remove_first p xs = xs"
  by (induction xs) auto

lemma distinct_map_remove_first:
  "distinct (map f xs) \<Longrightarrow> distinct (map f (remove_first p xs))"
  by (induction xs) (auto dest: remove_first_subset [THEN subsetD])

text \<open>Update every element that satisfies a predicate, as an SQL \<open>UPDATE ... WHERE\<close>.\<close>

definition update_where :: "('a \<Rightarrow> bool) \<Rightarrow> ('a \<Rightarrow> 'a) \<Rightarrow> 'a list \<Rightarrow> 'a list" where
  "update_where p f xs = map (\<lambda>x. if p x then f x else x) xs"

lemma length_update_where [simp]: "length (update_where p f xs) = length xs"
  by (simp add: update_where_def)

lemma map_update_where_frame:
  "(\<And>x. p x \<Longrightarrow> g (f x) = g x) \<Longrightarrow> map g (update_where p f xs) = map g xs"
  by (auto simp: update_where_def)

lemma update_where_mem:
  "x \<in> set (update_where p f xs) \<longleftrightarrow>
     (\<exists>y \<in> set xs. x = (if p y then f y else y))"
  by (auto simp: update_where_def)

text \<open>Update the first element that satisfies a predicate (a range loop that assigns and returns).\<close>

fun update_first :: "('a \<Rightarrow> bool) \<Rightarrow> ('a \<Rightarrow> 'a) \<Rightarrow> 'a list \<Rightarrow> 'a list" where
  "update_first p f [] = []"
| "update_first p f (x # xs) = (if p x then f x # xs else x # update_first p f xs)"

lemma length_update_first [simp]: "length (update_first p f xs) = length xs"
  by (induction xs) auto

lemma map_update_first_frame:
  "(\<And>x. p x \<Longrightarrow> g (f x) = g x) \<Longrightarrow> map g (update_first p f xs) = map g xs"
  by (induction xs) auto

lemma update_first_mem:
  "x \<in> set (update_first p f xs) \<Longrightarrow> x \<in> set xs \<or> (\<exists>y \<in> set xs. p y \<and> x = f y)"
  by (induction xs) (auto split: if_splits)

lemma find_first_update_first_same:
  "(\<And>x. p x \<Longrightarrow> p (f x)) \<Longrightarrow>
   find_first p (update_first p f xs) = map_option f (find_first p xs)"
  by (induction xs) auto

lemma find_first_update_first_other:
  "(\<And>x. p x \<Longrightarrow> \<not> q x \<and> \<not> q (f x)) \<Longrightarrow>
   find_first q (update_first p f xs) = find_first q xs"
  by (induction xs) auto

section \<open>Association lists\<close>

text \<open>A Go map that is iterated is an association list with distinct keys, in iteration order.\<close>

lemma map_of_alist [simp]:
  "map_of (AList.delete k xs) a = (if a = k then None else map_of xs a)"
  "map_of (AList.update k v xs) a = (if a = k then Some v else map_of xs a)"
  by (simp_all add: delete_conv' update_conv')

lemma length_alist_update:
  "length (AList.update k v xs) = length xs + (if map_of xs k = None then 1 else 0)"
  by (induction xs) auto

lemma length_alist_delete:
  "distinct (map fst xs) \<Longrightarrow> map_of xs k \<noteq> None \<Longrightarrow> Suc (length (AList.delete k xs)) = length xs"
proof (induction xs)
  case (Cons x xs)
  then show ?case by (cases x) (auto, blast)
qed simp

lemma delete_update_fresh: "k \<notin> fst ` set xs \<Longrightarrow> AList.delete k (AList.update k v xs) = xs"
  by (induction xs) auto

lemma alist_delete_subset: "set (AList.delete k xs) \<subseteq> set xs"
  by (auto simp: AList.delete_eq)

lemma alist_update_subset: "set (AList.update k v xs) \<subseteq> insert (k, v) (set xs)"
  by (induction xs) auto

lemma alist_update_keys: "fst ` set (AList.update k v xs) = insert k (fst ` set xs)"
  by (induction xs) auto

section \<open>Decimal numerals\<close>

text \<open>\<open>fmt.Sprintf("%d", n)\<close> for a natural number.\<close>

definition digit_char :: "nat \<Rightarrow> char" where
  "digit_char d = char_of (48 + d)"

fun itoa :: "nat \<Rightarrow> string" where
  "itoa n = (if n < 10 then [digit_char n] else itoa (n div 10) @ [digit_char (n mod 10)])"

declare itoa.simps [simp del]

definition atoi_digits :: "string \<Rightarrow> nat" where
  "atoi_digits s = foldl (\<lambda>acc c. 10 * acc + (byte_of c - 48)) 0 s"

lemma byte_of_digit_char [simp]: "d < 10 \<Longrightarrow> byte_of (digit_char d) = 48 + d"
  by (simp add: digit_char_def)

lemma atoi_itoa [simp]: "atoi_digits (itoa n) = n"
proof (induction n rule: itoa.induct)
  case (1 n)
  show ?case
  proof (cases "n < 10")
    case False
    then have "atoi_digits (itoa n) = 10 * atoi_digits (itoa (n div 10)) + n mod 10"
      by (subst itoa.simps) (simp add: atoi_digits_def)
    with 1 False show ?thesis by simp
  qed (simp add: itoa.simps [of n] atoi_digits_def)
qed

lemma itoa_inject [simp]: "itoa m = itoa n \<longleftrightarrow> m = n"
  by (metis atoi_itoa)

lemma last_itoa: "itoa n \<noteq> [] \<and> last (itoa n) = digit_char (n mod 10)"
  by (subst (1 2) itoa.simps) simp

lemma digit_not_space: "d < 10 \<Longrightarrow> \<not> is_space (digit_char d)"
  by (simp add: is_space_def)

section \<open>Machine integers\<close>

text \<open>Two's complement wrap-around of a 64-bit \<open>int\<close> or \<open>time.Duration\<close>.\<close>

definition wrap64 :: "int \<Rightarrow> int" where
  "wrap64 x = (x + 2 ^ 63) mod 2 ^ 64 - 2 ^ 63"

lemma wrap64_id: "- (2 ^ 63) \<le> x \<Longrightarrow> x < 2 ^ 63 \<Longrightarrow> wrap64 x = x"
  by (simp add: wrap64_def)

section \<open>Results\<close>

text \<open>A Go function \<open>(T, error)\<close> returns \<open>Inl e\<close> for a non-nil error and \<open>Inr v\<close> otherwise.\<close>

type_synonym ('e, 'a) res = "'e + 'a"

definition is_ok :: "('e, 'a) res \<Rightarrow> bool" where
  "is_ok r = (case r of Inl _ \<Rightarrow> False | Inr _ \<Rightarrow> True)"

lemma is_ok_simps [simp]: "is_ok (Inr v)" "\<not> is_ok (Inl e)"
  by (simp_all add: is_ok_def)

section \<open>Invariants of step relations\<close>

lemma rtranclp_invariant:
  assumes "R\<^sup>*\<^sup>* s t" "P s" "\<And>x y. R x y \<Longrightarrow> P x \<Longrightarrow> P y"
  shows "P t"
  using assms(1) by (induction rule: rtranclp_induct) (auto intro: assms(2,3))

end
