(* ===== verification/Command_Policy.thy ===== *)
theory Command_Policy
  imports LT_Prelude
begin

text \<open>
  The structured command language (\<open>internal/commandpolicy/command.go\<close>) and the command policy
  that gates every execution path (\<open>internal/policy/policy.go\<close>).

  \<open>ParseArgv\<close> is the loop of the source, one step per character over an explicit parser state;
  \<open>MatchesRule\<close>, \<open>isCommandInterpreter\<close>, \<open>QuoteArgv\<close> and \<open>Evaluate\<close> follow the source line by
  line. The lemmas show the round trip between quoting and parsing, the agreement with plain
  field splitting where nothing is quoted, and what an allowed command can be.
\<close>

section \<open>The parser of structured commands\<close>

abbreviation chr_nul :: char where "chr_nul \<equiv> CHR 0x00"
abbreviation chr_tab :: char where "chr_tab \<equiv> CHR 0x09"
abbreviation chr_lf :: char where "chr_lf \<equiv> CHR 0x0A"
abbreviation chr_cr :: char where "chr_cr \<equiv> CHR 0x0D"
abbreviation chr_dquote :: char where "chr_dquote \<equiv> CHR 0x22"
abbreviation chr_squote :: char where "chr_squote \<equiv> CHR 0x27"
abbreviation chr_backslash :: char where "chr_backslash \<equiv> CHR 0x5C"

datatype parse_error =
    ControlCharacters
  | ShellOperators
  | IncompleteEscape
  | UnterminatedQuote
  | CommandRequired

fun parse_error_text :: "parse_error \<Rightarrow> string" where
  "parse_error_text ControlCharacters = ''control characters are not allowed in commands''"
| "parse_error_text ShellOperators = ''shell operators and substitutions are not allowed''"
| "parse_error_text IncompleteEscape = ''command ends with an incomplete escape''"
| "parse_error_text UnterminatedQuote = ''command contains an unterminated quote''"
| "parse_error_text CommandRequired = ''command is required''"

record argv_parser =
  p_argv :: "string list"
  p_current :: string
  p_quote :: "char option"
  p_escaped :: bool
  p_started :: bool

definition parser_init :: argv_parser where
  "parser_init = \<lparr>p_argv = [], p_current = [], p_quote = None, p_escaped = False, p_started = False\<rparr>"

definition line_breaker :: "char \<Rightarrow> bool" where
  "line_breaker r = (r = chr_lf \<or> r = chr_cr \<or> r = chr_nul)"

definition shell_operator :: "char \<Rightarrow> bool" where
  "shell_operator r = (r \<in> set '';&|<>$`(){}'')"

definition write_rune :: "char \<Rightarrow> argv_parser \<Rightarrow> argv_parser" where
  "write_rune r st = st\<lparr>p_current := p_current st @ [r], p_started := True\<rparr>"

definition flush_token :: "argv_parser \<Rightarrow> argv_parser" where
  "flush_token st =
     (if p_started st
      then st\<lparr>p_argv := p_argv st @ [p_current st], p_current := [], p_started := False\<rparr>
      else st)"

definition parse_step :: "argv_parser \<Rightarrow> char \<Rightarrow> (parse_error, argv_parser) res" where
  "parse_step st r =
     (if p_escaped st then
        (if line_breaker r then Inl ControlCharacters
         else Inr ((write_rune r st)\<lparr>p_escaped := False\<rparr>))
      else
        (case p_quote st of
           Some q \<Rightarrow>
             (if r = q then Inr (st\<lparr>p_quote := None, p_started := True\<rparr>)
              else if r = chr_backslash \<and> q = chr_dquote then Inr (st\<lparr>p_escaped := True\<rparr>)
              else if line_breaker r then Inl ControlCharacters
              else Inr (write_rune r st))
         | None \<Rightarrow>
             (if r = chr_backslash then Inr (st\<lparr>p_escaped := True, p_started := True\<rparr>)
              else if r = chr_squote \<or> r = chr_dquote
              then Inr (st\<lparr>p_quote := Some r, p_started := True\<rparr>)
              else if is_control r \<and> r \<noteq> chr_tab then Inl ControlCharacters
              else if is_space r then Inr (flush_token st)
              else if shell_operator r then Inl ShellOperators
              else Inr (write_rune r st))))"

fun parse_loop :: "argv_parser \<Rightarrow> string \<Rightarrow> (parse_error, argv_parser) res" where
  "parse_loop st [] = Inr st"
| "parse_loop st (r # rs) =
     (case parse_step st r of Inl e \<Rightarrow> Inl e | Inr st' \<Rightarrow> parse_loop st' rs)"

definition parse_finish :: "argv_parser \<Rightarrow> (parse_error, string list) res" where
  "parse_finish st =
     (if p_escaped st then Inl IncompleteEscape
      else if p_quote st \<noteq> None then Inl UnterminatedQuote
      else (let argv = p_argv (flush_token st)
            in case argv of
                 [] \<Rightarrow> Inl CommandRequired
               | program # _ \<Rightarrow> (if trim_space program = [] then Inl CommandRequired else Inr argv)))"

definition ParseArgv :: "string \<Rightarrow> (parse_error, string list) res" where
  "ParseArgv raw =
     (case parse_loop parser_init raw of Inl e \<Rightarrow> Inl e | Inr st \<Rightarrow> parse_finish st)"

section \<open>Rules and quoting\<close>

definition ExactRulePrefix :: string where
  "ExactRulePrefix = ''=''"

definition isCommandInterpreter :: "string \<Rightarrow> bool" where
  "isCommandInterpreter program =
     (let name = to_lower (trim_space program);
          name = after_last (\<lambda>c. c = CHR ''/'' \<or> c = chr_backslash) name;
          name = trim_suffix name ''.exe''
      in name \<in> set [''sh'', ''bash'', ''zsh'', ''dash'', ''ash'', ''cmd'', ''powershell'',
                     ''pwsh'', ''osascript''])"

fun tokens_match :: "string list \<Rightarrow> string list \<Rightarrow> bool" where
  "tokens_match argv [] = True"
| "tokens_match [] (r # rs) = False"
| "tokens_match (a # argv) (r # rs) = (equal_fold a r \<and> tokens_match argv rs)"

definition MatchesRule :: "string list \<Rightarrow> string \<Rightarrow> bool" where
  "MatchesRule argv rule =
     (let rule = trim_space rule;
          exact = has_prefix rule ExactRulePrefix;
          rule = (if exact then trim_prefix rule ExactRulePrefix else rule)
      in case ParseArgv rule of
           Inl _ \<Rightarrow> False
         | Inr ruleArgv \<Rightarrow>
             (if length ruleArgv = 0 \<or> length argv < length ruleArgv then False
              else if (exact \<or> isCommandInterpreter (hd ruleArgv)) \<and>
                      length argv \<noteq> length ruleArgv then False
              else tokens_match argv ruleArgv))"

definition quote_char :: "char \<Rightarrow> string" where
  "quote_char c =
     (if c = chr_squote
      then [chr_squote, chr_dquote, chr_squote, chr_dquote, chr_squote] else [c])"

definition quote_arg :: "string \<Rightarrow> string" where
  "quote_arg arg = chr_squote # concat (map quote_char arg) @ [chr_squote]"

definition QuoteArgv :: "string list \<Rightarrow> string" where
  "QuoteArgv argv = join_with '' '' (map quote_arg argv)"

section \<open>The policy\<close>

record check_request =
  req_actor_id :: string
  req_target :: string
  req_mode :: string
  req_action :: string
  req_command :: string

record check_response =
  rsp_allowed :: bool
  rsp_reason :: string
  rsp_mode :: string

record evaluator_config =
  InteractiveEnabled :: bool
  StructuredEnabled :: bool
  ConnectorEnabled :: bool
  AllowlistMode :: bool
  AllowlistPrefixes :: "string list"
  BlockedSubstrings :: "string list"

definition DefaultEvaluatorConfig :: evaluator_config where
  "DefaultEvaluatorConfig =
     \<lparr>InteractiveEnabled = True, StructuredEnabled = True, ConnectorEnabled = True,
      AllowlistMode = False,
      AllowlistPrefixes =
        [''uptime'', ''uname'', ''df'', ''du'', ''free'', ''ps'', ''top'', ''journalctl'',
         ''systemctl status'', ''docker ps'', ''docker images'', ''ls'', ''cat'', ''grep'',
         ''tail'', ''head'', ''whoami'', ''=hostname'', ''=ipconfig'', ''=ipconfig /all'',
         ''systeminfo'', ''tasklist'', ''=cmd /c ver'', ''=powershell -Command Get-Date''],
      BlockedSubstrings =
        [''rm -rf /'', '':(){ :|:& };:'', ''mkfs'', ''shutdown -h now'']\<rparr>"

definition deny :: "string \<Rightarrow> string \<Rightarrow> check_response" where
  "deny reason mode = \<lparr>rsp_allowed = False, rsp_reason = reason, rsp_mode = mode\<rparr>"

text \<open>The mode switch of \<open>Evaluate\<close>: the reason of the refusal, if the mode is not usable.\<close>

definition mode_refusal :: "string \<Rightarrow> evaluator_config \<Rightarrow> string option" where
  "mode_refusal m cfg =
     (if m = ''interactive'' then
        (if \<not> InteractiveEnabled cfg then Some ''interactive mode disabled by policy'' else None)
      else if m = ''structured'' then
        (if \<not> StructuredEnabled cfg then Some ''structured mode disabled by policy'' else None)
      else if m = ''connector'' then
        (if \<not> ConnectorEnabled cfg then Some ''connector mode disabled by policy'' else None)
      else Some ''unsupported command mode'')"

definition is_blocked :: "string list \<Rightarrow> string \<Rightarrow> bool" where
  "is_blocked blocked command =
     list_ex (\<lambda>b. b \<noteq> [] \<and> contains (to_lower command) (to_lower b)) blocked"

definition Evaluate :: "check_request \<Rightarrow> evaluator_config \<Rightarrow> check_response" where
  "Evaluate req cfg =
     (let mode = (if req_mode req = [] then ''structured'' else req_mode req);
          normalizedMode = to_lower (trim_space mode);
          allow = \<lparr>rsp_allowed = True, rsp_reason = [], rsp_mode = normalizedMode\<rparr>
      in case mode_refusal normalizedMode cfg of
           Some reason \<Rightarrow> deny reason normalizedMode
         | None \<Rightarrow>
             (if is_blocked (BlockedSubstrings cfg) (req_command req)
              then deny ''command blocked by safety policy'' mode
              else if AllowlistMode cfg \<and> equal_fold (req_action req) ''command_execute'' then
                (case ParseArgv (req_command req) of
                   Inl e \<Rightarrow> deny (parse_error_text e) normalizedMode
                 | Inr argv \<Rightarrow>
                     (if length argv = 0 then deny ''command is required'' normalizedMode
                      else if list_ex (MatchesRule argv) (AllowlistPrefixes cfg) then allow
                      else deny ''command not in allowlist'' normalizedMode))
              else allow))"

section \<open>Lemmas on the parser\<close>

lemmas parser_defs [policy_simps] =
  parse_step_def write_rune_def flush_token_def line_breaker_def

lemma write_rune_sel [simp]:
  "p_argv (write_rune r st) = p_argv st"
  "p_current (write_rune r st) = p_current st @ [r]"
  "p_quote (write_rune r st) = p_quote st"
  "p_escaped (write_rune r st) = p_escaped st"
  "p_started (write_rune r st)"
  by (simp_all add: write_rune_def)

text \<open>A parser that holds only characters that may appear in an argument.\<close>

definition clean_text :: "string \<Rightarrow> bool" where
  "clean_text s = (\<forall>c \<in> set s. \<not> line_breaker c)"

definition clean_parser :: "argv_parser \<Rightarrow> bool" where
  "clean_parser st = ((\<forall>a \<in> set (p_argv st). clean_text a) \<and> clean_text (p_current st))"

lemma line_breaker_is_control: "line_breaker r \<Longrightarrow> is_control r \<and> r \<noteq> chr_tab"
  by (auto simp: line_breaker_def is_control_def)

lemma clean_parser_flags [simp]:
  "clean_parser (st\<lparr>p_quote := q\<rparr>) = clean_parser st"
  "clean_parser (st\<lparr>p_escaped := b\<rparr>) = clean_parser st"
  "clean_parser (st\<lparr>p_started := b\<rparr>) = clean_parser st"
  by (simp_all add: clean_parser_def)

lemma write_rune_clean: "clean_parser st \<Longrightarrow> \<not> line_breaker r \<Longrightarrow> clean_parser (write_rune r st)"
  by (auto simp: clean_parser_def clean_text_def write_rune_def)

lemma flush_token_clean: "clean_parser st \<Longrightarrow> clean_parser (flush_token st)"
  by (auto simp: clean_parser_def clean_text_def flush_token_def)

lemmas clean_parser_intros = write_rune_clean flush_token_clean

lemma parse_step_clean:
  assumes "clean_parser st" "parse_step st r = Inr st'"
  shows "clean_parser st'"
proof (cases "p_escaped st")
  case True
  with assms show ?thesis
    by (simp add: parse_step_def clean_parser_intros split: if_split_asm)
      (metis clean_parser_flags(2) write_rune_clean)
next
  case False
  show ?thesis
  proof (cases "p_quote st")
    case (Some q)
    with False assms show ?thesis
      by (simp add: parse_step_def split: if_split_asm)
        (metis clean_parser_flags write_rune_clean)+
  next
    case None
    with False assms line_breaker_is_control [of r] show ?thesis
      by (simp add: parse_step_def split: if_split_asm)
        (metis clean_parser_flags clean_parser_intros)+
  qed
qed

lemma parse_loop_clean:
  "clean_parser st \<Longrightarrow> parse_loop st rs = Inr st' \<Longrightarrow> clean_parser st'"
  by (induction st rs rule: parse_loop.induct)
    (auto split: sum.splits intro: parse_step_clean)

lemma parse_finish_Inr:
  "parse_finish st = Inr argv \<longleftrightarrow>
     \<not> p_escaped st \<and> p_quote st = None \<and> argv = p_argv (flush_token st) \<and>
     argv \<noteq> [] \<and> trim_space (hd argv) \<noteq> []"
  by (auto simp: parse_finish_def Let_def split: list.splits)

lemma ParseArgv_clean:
  assumes "ParseArgv raw = Inr argv"
  shows "argv \<noteq> []" "trim_space (hd argv) \<noteq> []" "\<forall>a \<in> set argv. clean_text a"
proof -
  from assms obtain st where st: "parse_loop parser_init raw = Inr st" "parse_finish st = Inr argv"
    by (auto simp: ParseArgv_def split: sum.splits)
  have "clean_parser parser_init"
    by (simp add: clean_parser_def clean_text_def parser_init_def)
  with st(1) have "clean_parser (flush_token st)"
    by (blast intro: parse_loop_clean flush_token_clean)
  with st(2) show "argv \<noteq> []" "trim_space (hd argv) \<noteq> []" "\<forall>a \<in> set argv. clean_text a"
    by (auto simp: parse_finish_Inr clean_parser_def)
qed

subsection \<open>Quoting and parsing\<close>

text \<open>Inside single quotes every clean character is copied literally.\<close>

lemma parse_quoted_body:
  assumes "p_quote st = Some chr_squote" "\<not> p_escaped st" "p_started st" "clean_text arg"
  shows "parse_loop st (concat (map quote_char arg) @ rest) =
         parse_loop (st\<lparr>p_current := p_current st @ arg\<rparr>) rest"
  using assms
proof (induction arg arbitrary: st)
  case Nil
  then show ?case by simp
next
  case (Cons c cs)
  let ?st' = "st\<lparr>p_current := p_current st @ [c]\<rparr>"
  have nb: "\<not> line_breaker c" and cs: "clean_text cs"
    using Cons.prems(4) by (auto simp: clean_text_def)
  have IH: "parse_loop ?st' (concat (map quote_char cs) @ rest) =
            parse_loop (st\<lparr>p_current := p_current st @ c # cs\<rparr>) rest"
    using Cons.IH [of ?st'] Cons.prems cs by simp
  have "parse_loop st (quote_char c @ xs) = parse_loop ?st' xs" for xs
  proof (cases "c = chr_squote")
    case True
    with Cons.prems(1-3) show ?thesis
      by (cases st) (simp add: quote_char_def parse_step_def write_rune_def line_breaker_def)
  next
    case False
    with Cons.prems(1-3) nb show ?thesis
      by (cases st) (simp add: quote_char_def parse_step_def write_rune_def)
  qed
  with IH show ?case by simp
qed

lemma parse_quote_arg:
  assumes "p_quote st = None" "\<not> p_escaped st" "clean_text arg"
  shows "parse_loop st (quote_arg arg @ rest) =
         parse_loop (st\<lparr>p_current := p_current st @ arg, p_started := True\<rparr>) rest"
proof -
  let ?open = "st\<lparr>p_quote := Some chr_squote, p_started := True\<rparr>"
  have "parse_loop st (quote_arg arg @ rest) =
        parse_loop ?open (concat (map quote_char arg) @ (chr_squote # rest))"
    using assms(1,2) by (simp add: quote_arg_def parse_step_def)
  also have "\<dots> = parse_loop (?open\<lparr>p_current := p_current ?open @ arg\<rparr>) (chr_squote # rest)"
    using assms by (intro parse_quoted_body) simp_all
  also have "\<dots> = parse_loop (st\<lparr>p_current := p_current st @ arg, p_started := True\<rparr>) rest"
    using assms(1,2) by (cases st) (simp add: parse_step_def)
  finally show ?thesis .
qed

lemma QuoteArgv_single: "QuoteArgv [a] = quote_arg a"
  by (simp add: QuoteArgv_def)

lemma QuoteArgv_Cons2: "QuoteArgv (a # b # argv) = quote_arg a @ '' '' @ QuoteArgv (b # argv)"
  by (simp add: QuoteArgv_def)

lemma parse_step_blank:
  "p_quote st = None \<Longrightarrow> \<not> p_escaped st \<Longrightarrow> parse_step st CHR '' '' = Inr (flush_token st)"
  by (simp add: parse_step_def is_control_def is_space_def)

lemma parse_quoted_argv:
  assumes "p_quote st = None" "\<not> p_escaped st" "\<not> p_started st" "p_current st = []"
    "argv \<noteq> []" "\<forall>a \<in> set argv. clean_text a"
  shows "parse_loop st (QuoteArgv argv) =
         Inr (st\<lparr>p_argv := p_argv st @ butlast argv, p_current := last argv, p_started := True\<rparr>)"
  using assms
proof (induction argv arbitrary: st rule: induct_list012)
  case 1
  then show ?case by simp
next
  case (2 a)
  then have "parse_loop st (quote_arg a @ []) =
        parse_loop (st\<lparr>p_current := p_current st @ a, p_started := True\<rparr>) []"
    by (intro parse_quote_arg) simp_all
  with "2.prems"(4) show ?case by (simp add: QuoteArgv_single)
next
  case (3 a b argv)
  let ?st' = "st\<lparr>p_argv := p_argv st @ [a]\<rparr>"
  let ?mid = "st\<lparr>p_current := p_current st @ a, p_started := True\<rparr>"
  have "parse_loop st (quote_arg a @ '' '' @ QuoteArgv (b # argv)) =
        parse_loop ?mid ('' '' @ QuoteArgv (b # argv))"
    using "3.prems" by (intro parse_quote_arg) simp_all
  also have "\<dots> = parse_loop (flush_token ?mid) (QuoteArgv (b # argv))"
    using "3.prems"(1,2) by (simp add: parse_step_blank)
  also have "flush_token ?mid = ?st'"
    using "3.prems"(3,4) by (simp add: flush_token_def)
  also have "parse_loop ?st' (QuoteArgv (b # argv)) =
        Inr (?st'\<lparr>p_argv := p_argv ?st' @ butlast (b # argv), p_current := last (b # argv),
             p_started := True\<rparr>)"
    using "3.prems" by (intro "3.IH"(2)) simp_all
  finally show ?case by (simp only: QuoteArgv_Cons2) simp
qed

lemma ParseArgv_QuoteArgv:
  assumes "argv \<noteq> []" "trim_space (hd argv) \<noteq> []" "\<forall>a \<in> set argv. clean_text a"
  shows "ParseArgv (QuoteArgv argv) = Inr argv"
proof -
  have "parse_loop parser_init (QuoteArgv argv) =
        Inr (parser_init\<lparr>p_argv := butlast argv, p_current := last argv, p_started := True\<rparr>)"
    using parse_quoted_argv [of parser_init argv] assms
    by (simp add: parser_init_def)
  with assms show ?thesis
    by (simp add: ParseArgv_def parse_finish_Inr flush_token_def parser_init_def)
qed

subsection \<open>Commands without quoting\<close>

fun fields_from :: "string \<Rightarrow> string \<Rightarrow> string list" where
  "fields_from cur [] = (if cur = [] then [] else [cur])"
| "fields_from cur (c # cs) =
     (if is_space c then (if cur = [] then [] else [cur]) @ fields_from [] cs
      else fields_from (cur @ [c]) cs)"

definition fields :: "string \<Rightarrow> string list" where
  "fields s = fields_from [] s"

definition quoting_char :: "char \<Rightarrow> bool" where
  "quoting_char c = (c = chr_backslash \<or> c = chr_squote \<or> c = chr_dquote)"

definition offending_char :: "char \<Rightarrow> bool" where
  "offending_char c = ((is_control c \<and> c \<noteq> chr_tab) \<or> (\<not> is_space c \<and> shell_operator c))"

definition offence :: "char \<Rightarrow> parse_error" where
  "offence c = (if is_control c \<and> c \<noteq> chr_tab then ControlCharacters else ShellOperators)"

definition plain_parser :: "argv_parser \<Rightarrow> bool" where
  "plain_parser st = (p_quote st = None \<and> \<not> p_escaped st \<and> (p_started st \<longleftrightarrow> p_current st \<noteq> []))"

lemma parse_step_plain:
  assumes "plain_parser st" "\<not> quoting_char c"
  shows "parse_step st c =
    (if offending_char c then Inl (offence c)
     else Inr (if is_space c then flush_token st else write_rune c st))"
proof -
  from assms have "p_quote st = None" "\<not> p_escaped st"
    "c \<noteq> chr_backslash" "c \<noteq> chr_squote" "c \<noteq> chr_dquote"
    unfolding plain_parser_def quoting_char_def by blast+
  then show ?thesis
    by (simp add: parse_step_def offending_char_def offence_def)
qed

lemma plain_parser_step:
  "plain_parser st \<Longrightarrow> plain_parser (flush_token st)"
  "plain_parser st \<Longrightarrow> plain_parser (write_rune c st)"
  by (simp_all add: plain_parser_def flush_token_def write_rune_def)

lemma flush_plain_argv:
  "plain_parser st \<Longrightarrow> p_argv (flush_token st) = p_argv st @ (if p_current st = [] then [] else [p_current st])"
  "plain_parser st \<Longrightarrow> p_current (flush_token st) = []"
  by (simp_all add: plain_parser_def flush_token_def)

lemma parse_loop_plain:
  assumes "plain_parser st" "\<forall>c \<in> set raw. \<not> quoting_char c"
  shows "case find_first offending_char raw of
           Some c \<Rightarrow> parse_loop st raw = Inl (offence c)
         | None \<Rightarrow> (\<exists>st'. parse_loop st raw = Inr st' \<and> plain_parser st' \<and>
                     p_argv (flush_token st') = p_argv st @ fields_from (p_current st) raw)"
  using assms
proof (induction raw arbitrary: st)
  case Nil
  then show ?case by (simp add: flush_plain_argv)
next
  case (Cons c raw)
  have step: "parse_step st c =
    (if offending_char c then Inl (offence c)
     else Inr (if is_space c then flush_token st else write_rune c st))"
    using Cons.prems by (intro parse_step_plain) simp_all
  show ?case
  proof (cases "offending_char c")
    case True
    then show ?thesis by (simp add: step)
  next
    case False
    let ?st' = "if is_space c then flush_token st else write_rune c st"
    have "plain_parser ?st'"
      using Cons.prems(1) by (simp add: plain_parser_step)
    from Cons.IH [OF this] Cons.prems show ?thesis
      by (cases "is_space c"; cases "p_current st = []") (simp_all add: step False flush_plain_argv split: option.splits)
  qed
qed

lemma fields_from_hd:
  "fields_from cur s \<noteq> [] \<Longrightarrow> \<forall>c \<in> set cur. \<not> is_space c \<Longrightarrow>
   trim_space (hd (fields_from cur s)) \<noteq> []"
proof (induction cur s rule: fields_from.induct)
  case (1 cur)
  then show ?case
    by (cases cur) (auto simp: trim_space_def trim_left_by_def trim_right_by_def split: if_splits)
next
  case (2 cur c cs)
  have "cur \<noteq> [] \<Longrightarrow> trim_space cur \<noteq> []"
    using "2.prems"(2)
    by (cases cur) (auto simp: trim_space_def trim_left_by_def trim_right_by_def)
  with 2 show ?case by (auto split: if_splits)
qed

section \<open>Rules and the policy\<close>

lemma is_space_lower [simp]: "is_space (lower_char c) = is_space c"
  by (auto simp: is_space_def lower_char_def)

lemma to_lower_trim_space: "to_lower (trim_space s) = trim_space (to_lower s)"
proof -
  have "dropWhile is_space (map lower_char xs) = map lower_char (dropWhile is_space xs)" for xs
    by (simp add: dropWhile_map comp_def)
  then show ?thesis
    by (simp add: to_lower_def trim_space_def trim_left_by_def trim_right_by_def rev_map)
qed

lemma isCommandInterpreter_fold:
  "equal_fold a b \<Longrightarrow> isCommandInterpreter a = isCommandInterpreter b"
  by (simp add: isCommandInterpreter_def to_lower_trim_space equal_fold_def)

lemma tokens_match_iff:
  "tokens_match argv ruleArgv \<longleftrightarrow>
     length ruleArgv \<le> length argv \<and> map to_lower (take (length ruleArgv) argv) = map to_lower ruleArgv"
  by (induction argv ruleArgv rule: tokens_match.induct) (auto simp: equal_fold_def)

definition rule_body :: "string \<Rightarrow> string" where
  "rule_body rule =
     (let r = trim_space rule
      in if has_prefix r ExactRulePrefix then trim_prefix r ExactRulePrefix else r)"

lemma MatchesRule_iff:
  "MatchesRule argv rule \<longleftrightarrow>
     (\<exists>ruleArgv. ParseArgv (rule_body rule) = Inr ruleArgv \<and>
        map to_lower (take (length ruleArgv) argv) = map to_lower ruleArgv \<and>
        (has_prefix (trim_space rule) ExactRulePrefix \<or> isCommandInterpreter (hd ruleArgv) \<longrightarrow>
           length argv = length ruleArgv))"
proof -
  have "length ruleArgv \<le> length argv"
    if "map to_lower (take (length ruleArgv) argv) = map to_lower ruleArgv" for ruleArgv
    using arg_cong [OF that, of length] by simp
  then show ?thesis
    unfolding MatchesRule_def rule_body_def Let_def
    by (auto simp: tokens_match_iff dest: ParseArgv_clean(1) map_eq_imp_length_eq
        split: sum.splits if_splits)
qed

lemma MatchesRule_interpreter:
  assumes "MatchesRule argv rule" "isCommandInterpreter (hd argv)"
    "ParseArgv (rule_body rule) = Inr ruleArgv"
  shows "isCommandInterpreter (hd ruleArgv)" "map to_lower argv = map to_lower ruleArgv"
proof -
  from assms(1,3) have tk: "map to_lower (take (length ruleArgv) argv) = map to_lower ruleArgv"
    and len: "isCommandInterpreter (hd ruleArgv) \<longrightarrow> length argv = length ruleArgv"
    by (auto simp: MatchesRule_iff)
  have "ruleArgv \<noteq> []" using assms(3) by (rule ParseArgv_clean(1))
  with tk have "equal_fold (hd argv) (hd ruleArgv)"
    by (cases argv; cases ruleArgv) (auto simp: equal_fold_def)
  with assms(2) show i: "isCommandInterpreter (hd ruleArgv)"
    by (simp add: isCommandInterpreter_fold)
  with len tk show "map to_lower argv = map to_lower ruleArgv" by simp
qed

lemma Evaluate_allowed_iff:
  "rsp_allowed (Evaluate req cfg) \<longleftrightarrow>
     mode_refusal (to_lower (trim_space (if req_mode req = [] then ''structured'' else req_mode req))) cfg = None \<and>
     \<not> is_blocked (BlockedSubstrings cfg) (req_command req) \<and>
     (AllowlistMode cfg \<and> equal_fold (req_action req) ''command_execute'' \<longrightarrow>
        (\<exists>argv. ParseArgv (req_command req) = Inr argv \<and>
           (\<exists>rule \<in> set (AllowlistPrefixes cfg). MatchesRule argv rule)))"
proof -
  have "list_ex (MatchesRule argv) rs = (\<exists>rule \<in> set rs. MatchesRule argv rule)" for argv rs
    by (auto simp: list_ex_iff)
  then show ?thesis
    by (auto simp: Evaluate_def Let_def deny_def dest: ParseArgv_clean(1)
        split: option.splits sum.splits if_splits)
qed

lemma default_rule_interpreters:
  assumes "rule \<in> set (AllowlistPrefixes DefaultEvaluatorConfig)"
    "ParseArgv (rule_body rule) = Inr ruleArgv" "isCommandInterpreter (hd ruleArgv)"
  shows "map to_lower ruleArgv \<in>
    {[''cmd'', ''/c'', ''ver''], [''powershell'', ''-command'', ''get-date'']}"
proof -
  have "list_all (\<lambda>rule. case ParseArgv (rule_body rule) of Inl _ \<Rightarrow> True
      | Inr ruleArgv \<Rightarrow> isCommandInterpreter (hd ruleArgv) \<longrightarrow>
         map to_lower ruleArgv \<in> set [[''cmd'', ''/c'', ''ver''], [''powershell'', ''-command'', ''get-date'']])
      (AllowlistPrefixes DefaultEvaluatorConfig)"
    by code_simp
  with assms show ?thesis by (auto simp: list_all_iff)
qed

section \<open>Properties\<close>


text \<open>
  On a command line without quotes and backslashes \<open>ParseArgv\<close> is \<open>strings.Fields\<close>, except that
  the first control character or shell operator (or substitution character) makes it fail, and
  that an empty result is an error. No unquoted operator survives.
\<close>

lemma unquoted_command_is_fields:
  assumes "\<forall>c \<in> set raw. \<not> quoting_char c"
  shows "ParseArgv raw =
    (case find_first offending_char raw of
       Some c \<Rightarrow> Inl (offence c)
     | None \<Rightarrow> (if fields raw = [] then Inl CommandRequired else Inr (fields raw)))"
proof -
  have "plain_parser parser_init" "p_argv parser_init = []" "p_current parser_init = []"
    by (simp_all add: plain_parser_def parser_init_def)
  with parse_loop_plain [of parser_init raw] assms show ?thesis
    using fields_from_hd [of "[]" raw]
    by (auto simp: ParseArgv_def fields_def parse_finish_def Let_def plain_parser_def
        split: option.splits list.splits)
qed

text \<open>
  With the default rules in allowlist mode, the only commands that may start a command
  interpreter (under any path, with or without the .exe suffix, in any case) are
  \<open>cmd /c ver\<close> and \<open>powershell -Command Get-Date\<close>, without one further argument.
\<close>

lemma default_allowlist_interpreters:
  assumes "AllowlistMode cfg"
    and "AllowlistPrefixes cfg = AllowlistPrefixes DefaultEvaluatorConfig"
    and "equal_fold (req_action req) ''command_execute''"
    and "rsp_allowed (Evaluate req cfg)"
    and "ParseArgv (req_command req) = Inr argv"
    and "isCommandInterpreter (hd argv)"
  shows "map to_lower argv \<in>
    {[''cmd'', ''/c'', ''ver''], [''powershell'', ''-command'', ''get-date'']}"
proof -
  obtain rule where rule: "rule \<in> set (AllowlistPrefixes DefaultEvaluatorConfig)"
    "MatchesRule argv rule"
    using assms by (auto simp: Evaluate_allowed_iff)
  then obtain ruleArgv where ra: "ParseArgv (rule_body rule) = Inr ruleArgv"
    by (auto simp: MatchesRule_iff)
  from MatchesRule_interpreter [OF rule(2) assms(6) ra] default_rule_interpreters [OF rule(1) ra]
  show ?thesis by simp
qed

end
