(* ===== verification/Job_Queue.thy ===== *)
theory Job_Queue
  imports LT_Prelude "HOL-Library.Product_Lexorder" "HOL-Library.List_Lexorder" "HOL-Library.Char_ord"
begin

text \<open>
  The Postgres job queue (\<open>internal/jobqueue/types.go\<close>, \<open>queue.go\<close>, \<open>recovery.go\<close>,
  \<open>dead_letter.go\<close>).

  The table \<open>job_queue\<close> is the list of its rows. Every method runs one SQL statement or one
  transaction, and is one atomic step on the database \<open>queue_db\<close>: the rows and the business
  records that a dead-letter finalizer writes in the same transaction. \<open>locked\<close> is the list of
  row ids that other transactions hold, which \<open>FOR UPDATE SKIP LOCKED\<close> passes over. A NULL column
  is \<open>None\<close>, and a comparison with NULL is not true. A failing statement or finalizer rolls the
  transaction back: the database is returned unchanged beside the error.

  Among the expressions of the statements one can fail: \<open>CAST(power(2, n) AS int)\<close> is an error of
  Postgres when the value exceeds \<open>2147483647\<close>.
\<close>

section \<open>Jobs\<close>

datatype job_status = StatusQueued | StatusProcessing | StatusCompleted | StatusFailed | StatusDeadLettered

fun status_text :: "job_status \<Rightarrow> string" where
  "status_text StatusQueued = ''queued''"
| "status_text StatusProcessing = ''processing''"
| "status_text StatusCompleted = ''completed''"
| "status_text StatusFailed = ''failed''"
| "status_text StatusDeadLettered = ''dead_lettered''"

definition ValidKinds :: "string list" where
  "ValidKinds = [''terminal_command'', ''action_run'', ''update_run'', ''schedule_run'']"

definition ValidStatuses :: "string list" where
  "ValidStatuses = map status_text
     [StatusQueued, StatusProcessing, StatusCompleted, StatusFailed, StatusDeadLettered]"

record job =
  jb_id :: string
  jb_kind :: string
  jb_status :: job_status
  jb_payload :: string
  jb_attempts :: int
  jb_max_attempts :: int
  jb_error :: string
  jb_created_at :: gtime
  jb_updated_at :: gtime
  jb_available_at :: gtime
  jb_locked_at :: "gtime option"
  jb_completed_at :: "gtime option"
  jb_lock_token :: "string option"

datatype queue_error =
  InvalidKind | InvalidStatus | DuplicateID | ErrClaimLost | IntegerOutOfRange | FinalizeFailed

definition ValidateKind :: "string \<Rightarrow> queue_error option" where
  "ValidateKind kind = (if kind \<notin> set ValidKinds then Some InvalidKind else None)"

definition ValidateStatus :: "string \<Rightarrow> queue_error option" where
  "ValidateStatus status = (if status \<notin> set ValidStatuses then Some InvalidStatus else None)"

section \<open>Configuration\<close>

record queue_config =
  qc_poll_interval :: duration
  qc_max_attempts :: int
  qc_stale_claim_at :: duration

definition New :: "duration \<Rightarrow> int \<Rightarrow> queue_config" where
  "New pollInterval maxAttempts =
     (let pollInterval = (if pollInterval \<le> 0 then 500 * millisecond else pollInterval);
          maxAttempts = (if maxAttempts \<le> 0 then 5 else maxAttempts);
          staleClaimAt = wrap64 (pollInterval * 20);
          staleClaimAt = (if staleClaimAt < 30 * second then 30 * second else staleClaimAt)
      in \<lparr>qc_poll_interval = pollInterval, qc_max_attempts = maxAttempts, qc_stale_claim_at = staleClaimAt\<rparr>)"

definition MaxAttempts :: "queue_config \<Rightarrow> int" where
  "MaxAttempts q = (if qc_max_attempts q \<le> 0 then 5 else qc_max_attempts q)"

definition SetMaxAttempts :: "queue_config \<Rightarrow> int \<Rightarrow> queue_config" where
  "SetMaxAttempts q maxAttempts = (if maxAttempts \<le> 0 then q else q\<lparr>qc_max_attempts := maxAttempts\<rparr>)"

definition leaseHeartbeatInterval :: "queue_config \<Rightarrow> duration" where
  "leaseHeartbeatInterval q =
     (if qc_stale_claim_at q \<le> 0 then 10 * second
      else let interval = qc_stale_claim_at q div 3
           in if interval < 5 * second then 5 * second else interval)"

section \<open>Operations\<close>

record 'b queue_db =
  db_jobs :: "job list"
  db_business :: 'b

type_synonym 'b finalizer = "('b \<Rightarrow> job \<Rightarrow> 'b option) option"

definition Enqueue ::
    "queue_config \<Rightarrow> 'b queue_db \<Rightarrow> gtime \<Rightarrow> string \<Rightarrow> string \<Rightarrow> string \<Rightarrow>
     (queue_error, string) res \<times> 'b queue_db" where
  "Enqueue q db now jid kind payload =
     (case ValidateKind kind of
        Some e \<Rightarrow> (Inl e, db)
      | None \<Rightarrow>
          (if jid \<in> set (map jb_id (db_jobs db)) then (Inl DuplicateID, db)
           else (Inr jid,
                 db\<lparr>db_jobs := db_jobs db @
                     [\<lparr>jb_id = jid, jb_kind = kind, jb_status = StatusQueued, jb_payload = payload,
                       jb_attempts = 0, jb_max_attempts = MaxAttempts q, jb_error = [],
                       jb_created_at = now, jb_updated_at = now, jb_available_at = now,
                       jb_locked_at = None, jb_completed_at = None, jb_lock_token = None\<rparr>]\<rparr>)))"

definition claimable :: "gtime \<Rightarrow> string list \<Rightarrow> job \<Rightarrow> bool" where
  "claimable now locked j =
     (jb_status j = StatusQueued \<and> jb_available_at j \<le> now \<and> jb_id j \<notin> set locked)"

definition older :: "job \<Rightarrow> job \<Rightarrow> bool" where
  "older a b =
     (jb_available_at a < jb_available_at b \<or>
      (jb_available_at a = jb_available_at b \<and> jb_created_at a < jb_created_at b))"

text \<open>\<open>ORDER BY available_at, created_at LIMIT 1\<close>: the first row in that order.\<close>

fun oldest :: "job list \<Rightarrow> job option" where
  "oldest [] = None"
| "oldest (j # js) = (case oldest js of None \<Rightarrow> Some j | Some k \<Rightarrow> Some (if older k j then k else j))"

definition mark_claimed :: "gtime \<Rightarrow> string \<Rightarrow> job \<Rightarrow> job" where
  "mark_claimed now lockToken j =
     j\<lparr>jb_status := StatusProcessing, jb_locked_at := Some now, jb_attempts := jb_attempts j + 1,
       jb_updated_at := now, jb_lock_token := Some lockToken\<rparr>"

definition Claim ::
    "'b queue_db \<Rightarrow> gtime \<Rightarrow> string \<Rightarrow> string list \<Rightarrow> job option \<times> 'b queue_db" where
  "Claim db now lockToken locked =
     (case oldest (filter (claimable now locked) (db_jobs db)) of
        None \<Rightarrow> (None, db)
      | Some j \<Rightarrow>
          (Some (mark_claimed now lockToken j),
           db\<lparr>db_jobs := update_where (\<lambda>x. jb_id x = jb_id j) (mark_claimed now lockToken) (db_jobs db)\<rparr>))"

definition owned :: "string \<Rightarrow> string \<Rightarrow> job \<Rightarrow> bool" where
  "owned jobID lockToken j =
     (jb_id j = jobID \<and> jb_status j = StatusProcessing \<and> jb_lock_token j = Some lockToken)"

definition mark_completed :: "gtime \<Rightarrow> job \<Rightarrow> job" where
  "mark_completed now j =
     j\<lparr>jb_status := StatusCompleted, jb_completed_at := Some now, jb_updated_at := now,
       jb_locked_at := None, jb_lock_token := None\<rparr>"

definition Complete ::
    "'b queue_db \<Rightarrow> gtime \<Rightarrow> string \<Rightarrow> string \<Rightarrow> queue_error option \<times> 'b queue_db" where
  "Complete db now jobID lockToken =
     (if \<not> list_ex (owned jobID lockToken) (db_jobs db) then (Some ErrClaimLost, db)
      else (None, db\<lparr>db_jobs := update_where (owned jobID lockToken) (mark_completed now) (db_jobs db)\<rparr>))"

definition RenewClaim ::
    "'b queue_db \<Rightarrow> gtime \<Rightarrow> string \<Rightarrow> string \<Rightarrow> queue_error option \<times> 'b queue_db" where
  "RenewClaim db now jobID lockToken =
     (if \<not> list_ex (owned jobID lockToken) (db_jobs db) then (Some ErrClaimLost, db)
      else (None, db\<lparr>db_jobs := update_where (owned jobID lockToken)
              (\<lambda>j. j\<lparr>jb_locked_at := Some now, jb_updated_at := now\<rparr>) (db_jobs db)\<rparr>))"

text \<open>
  \<open>LEAST(30, CAST(power(2, GREATEST(attempts - 1, 0)) AS int))\<close> seconds; \<open>None\<close> is the error
  "integer out of range".
\<close>

definition maxPostgresInt :: int where "maxPostgresInt = 2147483647"

definition backoff :: "int \<Rightarrow> duration option" where
  "backoff attempts =
     (let p = 2 ^ nat (max (attempts - 1) 0)
      in if p > maxPostgresInt then None else Some (min 30 p * second))"

text \<open>The columns that \<open>Fail\<close> and \<open>RecoverStaleClaims\<close> set; \<open>None\<close> when the back-off is an error.\<close>

definition exhausted :: "job \<Rightarrow> bool" where
  "exhausted j = (jb_attempts j \<ge> jb_max_attempts j)"

definition mark_failed :: "gtime \<Rightarrow> string \<Rightarrow> job \<Rightarrow> job option" where
  "mark_failed now errMsg j =
     (if exhausted j
      then Some (j\<lparr>jb_status := StatusDeadLettered, jb_error := errMsg, jb_updated_at := now,
             jb_locked_at := None, jb_lock_token := None, jb_completed_at := Some now\<rparr>)
      else case backoff (jb_attempts j) of
             None \<Rightarrow> None
           | Some d \<Rightarrow> Some (j\<lparr>jb_status := StatusQueued, jb_error := errMsg, jb_updated_at := now,
               jb_available_at := now + d, jb_locked_at := None, jb_lock_token := None\<rparr>))"

definition recovered_error :: "job \<Rightarrow> string" where
  "recovered_error j =
     (if exhausted j \<and> jb_error j = [] then ''job claim timed out after max attempts''
      else if \<not> exhausted j \<and> jb_error j = [] then ''job claim timed out; retrying''
      else jb_error j)"

definition mark_recovered :: "gtime \<Rightarrow> job \<Rightarrow> job option" where
  "mark_recovered now j =
     (if exhausted j
      then Some (j\<lparr>jb_status := StatusDeadLettered, jb_locked_at := None, jb_lock_token := None,
             jb_updated_at := now, jb_completed_at := Some now, jb_error := recovered_error j\<rparr>)
      else case backoff (jb_attempts j) of
             None \<Rightarrow> None
           | Some d \<Rightarrow> Some (j\<lparr>jb_status := StatusQueued, jb_locked_at := None, jb_lock_token := None,
               jb_updated_at := now, jb_available_at := now + d, jb_completed_at := None,
               jb_error := recovered_error j\<rparr>))"

text \<open>\<open>UPDATE ... WHERE\<close> with columns that may fail to evaluate on some row.\<close>

fun try_update_where :: "('a \<Rightarrow> bool) \<Rightarrow> ('a \<Rightarrow> 'a option) \<Rightarrow> 'a list \<Rightarrow> 'a list option" where
  "try_update_where p f [] = Some []"
| "try_update_where p f (x # xs) =
     (case (if p x then f x else Some x) of
        None \<Rightarrow> None
      | Some y \<Rightarrow> (case try_update_where p f xs of None \<Rightarrow> None | Some ys \<Rightarrow> Some (y # ys)))"

text \<open>The finalizer over the dead-lettered jobs of a transaction, stopping at the first error.\<close>

fun finalize_all :: "'b finalizer \<Rightarrow> 'b \<Rightarrow> job list \<Rightarrow> 'b option" where
  "finalize_all fin b [] = Some b"
| "finalize_all fin b (j # js) =
     (case fin of
        None \<Rightarrow> finalize_all fin b js
      | Some f \<Rightarrow> (case f b j of None \<Rightarrow> None | Some b' \<Rightarrow> finalize_all fin b' js))"

definition Fail ::
    "'b finalizer \<Rightarrow> 'b queue_db \<Rightarrow> gtime \<Rightarrow> string \<Rightarrow> string \<Rightarrow> string \<Rightarrow>
     queue_error option \<times> 'b queue_db" where
  "Fail fin db now jobID lockToken errMsg =
     (if \<not> list_ex (owned jobID lockToken) (db_jobs db) then (Some ErrClaimLost, db)
      else case try_update_where (owned jobID lockToken) (mark_failed now errMsg) (db_jobs db) of
        None \<Rightarrow> (Some IntegerOutOfRange, db)
      | Some jobs \<Rightarrow>
          (let dead = filter (\<lambda>j. jb_id j = jobID \<and> jb_status j = StatusDeadLettered) jobs
           in case finalize_all fin (db_business db) dead of
                None \<Rightarrow> (Some FinalizeFailed, db)
              | Some b \<Rightarrow> (None, db\<lparr>db_jobs := jobs, db_business := b\<rparr>)))"

text \<open>The batch of \<open>RecoverStaleClaims\<close>: at most 100 expired, unlocked rows, oldest claim first, then by id in byte
  order.\<close>

definition stale :: "gtime \<Rightarrow> string list \<Rightarrow> job \<Rightarrow> bool" where
  "stale cutoff locked j =
     (jb_status j = StatusProcessing \<and>
      (case jb_locked_at j of None \<Rightarrow> False | Some t \<Rightarrow> t < cutoff) \<and> jb_id j \<notin> set locked)"

definition stale_batch :: "gtime \<Rightarrow> string list \<Rightarrow> job list \<Rightarrow> string list" where
  "stale_batch cutoff locked jobs =
     map jb_id (take 100 (sort_key (\<lambda>j. (case jb_locked_at j of None \<Rightarrow> 0 | Some t \<Rightarrow> t, jb_id j))
       (filter (stale cutoff locked) jobs)))"

abbreviation recovered_ids :: "queue_config \<Rightarrow> 'b queue_db \<Rightarrow> gtime \<Rightarrow> string list \<Rightarrow> string list" where
  "recovered_ids q db now locked \<equiv> stale_batch (now - qc_stale_claim_at q) locked (db_jobs db)"

definition RecoverStaleClaims ::
    "queue_config \<Rightarrow> 'b finalizer \<Rightarrow> 'b queue_db \<Rightarrow> gtime \<Rightarrow> string list \<Rightarrow>
     (queue_error, job list) res \<times> 'b queue_db" where
  "RecoverStaleClaims q fin db now locked =
     (if qc_stale_claim_at q \<le> 0 then (Inr [], db)
      else let batch = recovered_ids q db now locked
           in case try_update_where (\<lambda>j. jb_id j \<in> set batch) (mark_recovered now) (db_jobs db) of
                None \<Rightarrow> (Inl IntegerOutOfRange, db)
              | Some jobs \<Rightarrow>
                  (let dead = filter (\<lambda>j. jb_id j \<in> set batch \<and> jb_status j = StatusDeadLettered) jobs
                   in case finalize_all fin (db_business db) dead of
                        None \<Rightarrow> (Inl FinalizeFailed, db)
                      | Some b \<Rightarrow> (Inr dead, db\<lparr>db_jobs := jobs, db_business := b\<rparr>)))"

definition PurgeOldJobs :: "'b queue_db \<Rightarrow> gtime \<Rightarrow> int \<times> 'b queue_db" where
  "PurgeOldJobs db olderThan =
     (let old = (\<lambda>j. (jb_status j = StatusCompleted \<or> jb_status j = StatusDeadLettered) \<and>
                     jb_updated_at j < olderThan)
      in (int (length (filter old (db_jobs db))),
          db\<lparr>db_jobs := filter (\<lambda>j. \<not> old j) (db_jobs db)\<rparr>))"

definition ListDeadLettered :: "'b queue_db \<Rightarrow> gtime \<Rightarrow> gtime \<Rightarrow> int \<Rightarrow> job list" where
  "ListDeadLettered db from to limit =
     (let limit = (if limit \<le> 0 then 100 else limit)
      in take (nat limit) (sort_key (\<lambda>j. - jb_created_at j)
           (filter (\<lambda>j. jb_status j = StatusDeadLettered \<and> from \<le> jb_created_at j \<and>
              jb_created_at j \<le> to) (db_jobs db))))"

text \<open>
  Completion inside a handler's own transaction (\<open>internal/persistence/postgres_job_execution.go\<close>):
  the claim row is locked by id, status, token, kind and payload, then completed with the
  business writes.
\<close>

definition lockJobClaim :: "'b queue_db \<Rightarrow> job \<Rightarrow> bool \<Rightarrow> queue_error option" where
  "lockJobClaim db j dead =
     (if jb_id j = [] \<or> (\<not> dead \<and> (jb_lock_token j = None \<or> jb_lock_token j = Some []))
      then Some ErrClaimLost
      else let state = (if dead then StatusDeadLettered else StatusProcessing)
           in if list_ex (\<lambda>r. jb_id r = jb_id j \<and> jb_status r = state \<and>
                   (dead \<or> (jb_lock_token r = jb_lock_token j)) \<and>
                   jb_kind r = jb_kind j \<and> jb_payload r = jb_payload j) (db_jobs db)
              then None else Some ErrClaimLost)"

definition completeLockedJob :: "'b queue_db \<Rightarrow> gtime \<Rightarrow> job \<Rightarrow> 'b queue_db" where
  "completeLockedJob db now j =
     db\<lparr>db_jobs := update_where (\<lambda>r. jb_id r = jb_id j) (mark_completed now) (db_jobs db)\<rparr>"

definition complete_in_transaction ::
    "'b queue_db \<Rightarrow> gtime \<Rightarrow> job \<Rightarrow> ('b \<Rightarrow> 'b) \<Rightarrow> queue_error option \<times> 'b queue_db" where
  "complete_in_transaction db now j write =
     (case lockJobClaim db j False of
        Some e \<Rightarrow> (Some e, db)
      | None \<Rightarrow> (None, completeLockedJob (db\<lparr>db_business := write (db_business db)\<rparr>) now j))"

section \<open>Reachable tables\<close>

text \<open>
  Everything that changes the table. The queue's configuration may change between steps
  (\<open>SetMaxAttempts\<close>), so each step has its own.
\<close>

inductive queue_step :: "'b finalizer \<Rightarrow> string set \<Rightarrow> 'b queue_db \<Rightarrow> 'b queue_db \<Rightarrow> bool"
  for fin :: "'b finalizer" and avoid :: "string set" where
  enqueue: "queue_step fin avoid db (snd (Enqueue q db now jid kind payload))"
| claim: "lockToken \<notin> avoid \<Longrightarrow> queue_step fin avoid db (snd (Claim db now lockToken locked))"
| complete: "queue_step fin avoid db (snd (Complete db now jid tok))"
| renew: "queue_step fin avoid db (snd (RenewClaim db now jid tok))"
| failed: "queue_step fin avoid db (snd (Fail fin db now jid tok msg))"
| recover: "queue_step fin avoid db (snd (RecoverStaleClaims q fin db now locked))"
| purge: "queue_step fin avoid db (snd (PurgeOldJobs db olderThan))"
| complete_tx: "queue_step fin avoid db (snd (complete_in_transaction db now j write))"

definition empty_db :: "'b \<Rightarrow> 'b queue_db" where
  "empty_db b = \<lparr>db_jobs = [], db_business = b\<rparr>"

definition job_inv :: "job \<Rightarrow> bool" where
  "job_inv j =
     (0 \<le> jb_attempts j \<and> jb_attempts j \<le> jb_max_attempts j \<and>
      (jb_status j = StatusQueued \<longrightarrow> jb_attempts j < jb_max_attempts j) \<and>
      (jb_status j = StatusProcessing \<longrightarrow> 1 \<le> jb_attempts j) \<and>
      (jb_status j = StatusDeadLettered \<longrightarrow> jb_attempts j = jb_max_attempts j) \<and>
      (jb_status j = StatusProcessing) = (jb_lock_token j \<noteq> None) \<and>
      (jb_status j = StatusProcessing) = (jb_locked_at j \<noteq> None) \<and>
      (jb_status j = StatusCompleted \<or> jb_status j = StatusDeadLettered) = (jb_completed_at j \<noteq> None) \<and>
      jb_status j \<noteq> StatusFailed)"

definition table_inv :: "job list \<Rightarrow> bool" where
  "table_inv jobs = (distinct (map jb_id jobs) \<and> list_all job_inv jobs)"

section \<open>Lemmas\<close>

lemma MaxAttempts_pos: "0 < MaxAttempts q"
  by (simp add: MaxAttempts_def)

lemma oldest_Some: "oldest js = Some j \<Longrightarrow> j \<in> set js \<and> (\<forall>k \<in> set js. \<not> older k j)"
proof (induction js arbitrary: j)
  case (Cons a js)
  have irrefl: "\<not> older a a" by (simp add: older_def)
  show ?case
  proof (cases "oldest js")
    case None
    then have "js = []" by (cases js) (auto split: option.split_asm)
    with Cons.prems irrefl show ?thesis by simp
  next
    case (Some k)
    with Cons.IH have k: "k \<in> set js" "\<forall>x \<in> set js. \<not> older x k" by auto
    show ?thesis
    proof (cases "older k a")
      case True
      then have "\<not> older a k" by (auto simp: older_def)
      with True Some k Cons.prems show ?thesis by auto
    next
      case False
      have "\<not> older x a" if "\<not> older x k" for x
        using that False by (auto simp: older_def)
      with False Some k Cons.prems irrefl show ?thesis by auto
    qed
  qed
qed simp

lemma oldest_None: "oldest js = None \<longleftrightarrow> js = []"
  by (cases js) (auto split: option.split)

lemma try_update_where_eq:
  "try_update_where p f xs =
     (if \<forall>x \<in> set xs. p x \<longrightarrow> f x \<noteq> None then Some (update_where p (\<lambda>x. the (f x)) xs) else None)"
  by (induction xs) (auto simp: update_where_def split: option.split)

text \<open>The row transformations keep the id and the invariant.\<close>

lemma mark_ids [simp]:
  "jb_id (mark_claimed now tok j) = jb_id j" "jb_id (mark_completed now j) = jb_id j"
  by (simp_all add: mark_claimed_def mark_completed_def)

lemma mark_failed_id: "mark_failed now msg j \<noteq> None \<Longrightarrow> jb_id (the (mark_failed now msg j)) = jb_id j"
  by (cases "exhausted j"; cases "backoff (jb_attempts j)") (simp_all add: mark_failed_def)

lemma mark_recovered_id: "mark_recovered now j \<noteq> None \<Longrightarrow> jb_id (the (mark_recovered now j)) = jb_id j"
  by (cases "exhausted j"; cases "backoff (jb_attempts j)") (simp_all add: mark_recovered_def)

lemma job_inv_claimed: "job_inv j \<Longrightarrow> jb_status j = StatusQueued \<Longrightarrow> job_inv (mark_claimed now tok j)"
  by (simp add: job_inv_def mark_claimed_def)

lemma job_inv_completed: "job_inv j \<Longrightarrow> jb_status j = StatusProcessing \<Longrightarrow> job_inv (mark_completed now j)"
  by (simp add: job_inv_def mark_completed_def)

lemma job_inv_failed:
  assumes "job_inv j" "jb_status j = StatusProcessing" "mark_failed now msg j \<noteq> None"
  shows "job_inv (the (mark_failed now msg j))"
proof (cases "exhausted j")
  case True
  then show ?thesis using assms(1,2) by (simp add: mark_failed_def job_inv_def exhausted_def)
next
  case False
  then obtain d where "backoff (jb_attempts j) = Some d"
    using assms(3) by (cases "backoff (jb_attempts j)") (simp_all add: mark_failed_def)
  with False show ?thesis using assms(1,2) by (simp add: mark_failed_def job_inv_def exhausted_def)
qed

lemma job_inv_recovered:
  assumes "job_inv j" "jb_status j = StatusProcessing" "mark_recovered now j \<noteq> None"
  shows "job_inv (the (mark_recovered now j))"
proof (cases "exhausted j")
  case True
  then show ?thesis using assms(1,2) by (simp add: mark_recovered_def job_inv_def exhausted_def)
next
  case False
  then obtain d where "backoff (jb_attempts j) = Some d"
    using assms(3) by (cases "backoff (jb_attempts j)") (simp_all add: mark_recovered_def)
  with False show ?thesis using assms(1,2) by (simp add: mark_recovered_def job_inv_def exhausted_def)
qed

lemma table_inv_update:
  assumes "table_inv jobs" "\<And>j. j \<in> set jobs \<Longrightarrow> p j \<Longrightarrow> jb_id (f j) = jb_id j \<and> job_inv (f j)"
  shows "table_inv (update_where p f jobs)"
proof -
  have "map jb_id (update_where p f jobs) = map jb_id jobs"
    using assms(2) by (auto simp: update_where_def)
  with assms show ?thesis
    by (auto simp: table_inv_def list_all_iff update_where_mem)
qed

lemma same_row:
  "table_inv jobs \<Longrightarrow> j \<in> set jobs \<Longrightarrow> k \<in> set jobs \<Longrightarrow> jb_id j = jb_id k \<Longrightarrow> j = k"
  by (auto simp: table_inv_def distinct_map inj_on_def)

lemma claimed_row:
  assumes "table_inv jobs" "oldest (filter (claimable now locked) jobs) = Some j" "x \<in> set jobs"
    "jb_id x = jb_id j"
  shows "x = j \<and> claimable now locked x"
  using assms oldest_Some [OF assms(2)] same_row [OF assms(1), of x j] by auto

lemma Claim_inv:
  assumes "table_inv (db_jobs db)"
  shows "table_inv (db_jobs (snd (Claim db now tok locked)))"
proof (cases "oldest (filter (claimable now locked) (db_jobs db))")
  case (Some j)
  have "job_inv (mark_claimed now tok x)" if "x \<in> set (db_jobs db)" "jb_id x = jb_id j" for x
    using assms claimed_row [OF assms Some that] that(1)
    by (auto simp: table_inv_def list_all_iff claimable_def intro!: job_inv_claimed)
  with Some assms show ?thesis by (simp add: Claim_def table_inv_update)
qed (use assms in \<open>simp add: Claim_def\<close>)

lemma table_inv_job: "table_inv jobs \<Longrightarrow> j \<in> set jobs \<Longrightarrow> job_inv j"
  by (simp add: table_inv_def list_all_iff)

lemma Complete_inv: "table_inv (db_jobs db) \<Longrightarrow> table_inv (db_jobs (snd (Complete db now jid tok)))"
  by (auto simp: Complete_def owned_def intro!: table_inv_update job_inv_completed dest: table_inv_job)

lemma RenewClaim_inv: "table_inv (db_jobs db) \<Longrightarrow> table_inv (db_jobs (snd (RenewClaim db now jid tok)))"
  by (auto simp: RenewClaim_def owned_def job_inv_def dest: table_inv_job intro!: table_inv_update)

text \<open>A committed transaction of \<open>Fail\<close> or \<open>RecoverStaleClaims\<close>, or nothing.\<close>

lemma Fail_cases:
  obtains (refused) e where "Fail fin db now jid tok msg = (Some e, db)"
  | (committed) b where "Fail fin db now jid tok msg = (None, db\<lparr>db_jobs :=
        update_where (owned jid tok) (\<lambda>j. the (mark_failed now msg j)) (db_jobs db), db_business := b\<rparr>)"
      "\<forall>j \<in> set (db_jobs db). owned jid tok j \<longrightarrow> mark_failed now msg j \<noteq> None"
      "list_ex (owned jid tok) (db_jobs db)"
proof (cases "list_ex (owned jid tok) (db_jobs db) \<and>
    (\<forall>j \<in> set (db_jobs db). owned jid tok j \<longrightarrow> mark_failed now msg j \<noteq> None)")
  case True
  let ?jobs = "update_where (owned jid tok) (\<lambda>j. the (mark_failed now msg j)) (db_jobs db)"
  let ?dead = "filter (\<lambda>j. jb_id j = jid \<and> jb_status j = StatusDeadLettered) ?jobs"
  show ?thesis
    using True refused committed
    by (cases "finalize_all fin (db_business db) ?dead") (simp_all add: Fail_def try_update_where_eq)
next
  case False
  then have "\<exists>e. Fail fin db now jid tok msg = (Some e, db)"
    by (auto simp: Fail_def try_update_where_eq)
  with refused show ?thesis by blast
qed

lemma stale_batch_stale:
  "jid \<in> set (stale_batch cutoff locked jobs) \<Longrightarrow> \<exists>j \<in> set jobs. jb_id j = jid \<and> stale cutoff locked j"
  by (auto simp: stale_batch_def dest!: in_set_takeD)

lemma Recover_cases:
  obtains (refused) r where "RecoverStaleClaims q fin db now locked = (r, db)" "\<And>x. r = Inr x \<Longrightarrow> x = []"
  | (committed) b dead where "RecoverStaleClaims q fin db now locked = (Inr dead, db\<lparr>db_jobs :=
        update_where (\<lambda>j. jb_id j \<in> set (recovered_ids q db now locked)) (\<lambda>j. the (mark_recovered now j)) (db_jobs db),
        db_business := b\<rparr>)"
      "dead = filter (\<lambda>j. jb_id j \<in> set (recovered_ids q db now locked) \<and> jb_status j = StatusDeadLettered)
        (update_where (\<lambda>j. jb_id j \<in> set (recovered_ids q db now locked)) (\<lambda>j. the (mark_recovered now j)) (db_jobs db))"
      "finalize_all fin (db_business db) dead = Some b"
      "\<forall>j \<in> set (db_jobs db). jb_id j \<in> set (recovered_ids q db now locked) \<longrightarrow> mark_recovered now j \<noteq> None"
proof (cases "0 < qc_stale_claim_at q \<and>
    (\<forall>j \<in> set (db_jobs db). jb_id j \<in> set (recovered_ids q db now locked) \<longrightarrow> mark_recovered now j \<noteq> None)")
  case True
  let ?jobs = "update_where (\<lambda>j. jb_id j \<in> set (recovered_ids q db now locked)) (\<lambda>j. the (mark_recovered now j)) (db_jobs db)"
  let ?dead = "filter (\<lambda>j. jb_id j \<in> set (recovered_ids q db now locked) \<and> jb_status j = StatusDeadLettered) ?jobs"
  have eq: "RecoverStaleClaims q fin db now locked =
      (case finalize_all fin (db_business db) ?dead of
         None \<Rightarrow> (Inl FinalizeFailed, db)
       | Some b \<Rightarrow> (Inr ?dead, db\<lparr>db_jobs := ?jobs, db_business := b\<rparr>))"
    using True by (simp add: RecoverStaleClaims_def try_update_where_eq Let_def)
  show ?thesis
  proof (cases "finalize_all fin (db_business db) ?dead")
    case None
    with eq refused [of "Inl FinalizeFailed"] show ?thesis by simp
  next
    case (Some b)
    with eq True committed [of ?dead b] show ?thesis by simp
  qed
next
  case False
  then have "\<exists>r. RecoverStaleClaims q fin db now locked = (r, db) \<and> (\<forall>x. r = Inr x \<longrightarrow> x = [])"
    by (auto simp: RecoverStaleClaims_def try_update_where_eq Let_def)
  with refused show ?thesis by blast
qed

lemma Fail_inv:
  assumes "table_inv (db_jobs db)"
  shows "table_inv (db_jobs (snd (Fail fin db now jid tok msg)))"
proof (cases rule: Fail_cases [of fin db now jid tok msg])
  case (committed b)
  have "jb_id (the (mark_failed now msg j)) = jb_id j \<and> job_inv (the (mark_failed now msg j))"
    if "j \<in> set (db_jobs db)" "owned jid tok j" for j
    using committed(2) that table_inv_job [OF assms that(1)]
    by (simp add: owned_def job_inv_failed mark_failed_id)
  with committed assms show ?thesis by (simp add: table_inv_update)
qed (use assms in simp)

lemma stale_row:
  assumes "table_inv jobs" "j \<in> set jobs" "jb_id j \<in> set (stale_batch cutoff locked jobs)"
  shows "stale cutoff locked j"
  using stale_batch_stale [OF assms(3)] same_row [OF assms(1)] assms(2) by metis

lemma Recover_inv:
  assumes "table_inv (db_jobs db)"
  shows "table_inv (db_jobs (snd (RecoverStaleClaims q fin db now locked)))"
proof (cases rule: Recover_cases [of q fin db now locked])
  case (committed b dead)
  have "jb_id (the (mark_recovered now j)) = jb_id j \<and> job_inv (the (mark_recovered now j))"
    if "j \<in> set (db_jobs db)" "jb_id j \<in> set (recovered_ids q db now locked)" for j
    using committed(4) that table_inv_job [OF assms that(1)] stale_row [OF assms that]
    by (simp add: stale_def job_inv_recovered mark_recovered_id)
  with committed assms show ?thesis by (simp add: table_inv_update)
qed (use assms in simp)

lemma Enqueue_inv: "table_inv (db_jobs db) \<Longrightarrow> table_inv (db_jobs (snd (Enqueue q db now jid kind payload)))"
  using MaxAttempts_pos [of q]
  by (auto simp: Enqueue_def table_inv_def job_inv_def split: option.split)

lemma Purge_inv: "table_inv (db_jobs db) \<Longrightarrow> table_inv (db_jobs (snd (PurgeOldJobs db olderThan)))"
  by (auto simp: PurgeOldJobs_def table_inv_def distinct_map_filter list_all_iff)

lemma complete_in_transaction_inv:
  assumes "table_inv (db_jobs db)"
  shows "table_inv (db_jobs (snd (complete_in_transaction db now j write)))"
proof (cases "lockJobClaim db j False")
  case None
  then obtain r where r: "r \<in> set (db_jobs db)" "jb_id r = jb_id j" "jb_status r = StatusProcessing"
    by (auto simp: lockJobClaim_def Let_def list_ex_iff split: if_split_asm)
  have "job_inv (mark_completed now x)" if "x \<in> set (db_jobs db)" "jb_id x = jb_id j" for x
    using same_row [OF assms that(1) r(1)] that r table_inv_job [OF assms r(1)]
    by (auto intro: job_inv_completed)
  with None assms show ?thesis
    by (simp add: complete_in_transaction_def completeLockedJob_def table_inv_update)
qed (use assms in \<open>simp add: complete_in_transaction_def\<close>)

lemmas queue_op_inv =
  Enqueue_inv Claim_inv Complete_inv RenewClaim_inv Fail_inv Recover_inv Purge_inv
  complete_in_transaction_inv

lemma queue_step_inv: "queue_step fin avoid db db' \<Longrightarrow> table_inv (db_jobs db) \<Longrightarrow> table_inv (db_jobs db')"
  by (induction rule: queue_step.induct) (simp_all add: queue_op_inv)

lemma queue_steps_inv:
  "(queue_step fin avoid)\<^sup>*\<^sup>* db db' \<Longrightarrow> table_inv (db_jobs db) \<Longrightarrow> table_inv (db_jobs db')"
  by (induction rule: rtranclp_induct) (auto intro: queue_step_inv)

text \<open>
  Ownership is never gained by the steps of others: a row owned through a token that no other
  claim uses was owned before, with the same attempt counters.
\<close>

definition job_core :: "job \<Rightarrow> string \<times> string \<times> string \<times> int \<times> int" where
  "job_core j = (jb_id j, jb_kind j, jb_payload j, jb_attempts j, jb_max_attempts j)"

lemma owned_update_where:
  assumes "x \<in> set (update_where p f jobs)" "owned jid tok x"
    and "\<And>y. y \<in> set jobs \<Longrightarrow> p y \<Longrightarrow> owned jid tok (f y) \<Longrightarrow> owned jid tok y \<and> job_core (f y) = job_core y"
  shows "\<exists>y \<in> set jobs. owned jid tok y \<and> job_core x = job_core y"
  using assms by (auto simp: update_where_mem split: if_split_asm)

lemma not_owned_marks [simp]:
  "\<not> owned jid tok (mark_completed now j)"
  "mark_failed now msg j \<noteq> None \<Longrightarrow> \<not> owned jid tok (the (mark_failed now msg j))"
  "mark_recovered now j \<noteq> None \<Longrightarrow> \<not> owned jid tok (the (mark_recovered now j))"
  by (cases "exhausted j"; cases "backoff (jb_attempts j)";
      simp add: owned_def mark_completed_def mark_failed_def mark_recovered_def)+

lemma owned_claimed: "owned jid tok (mark_claimed now t j) \<Longrightarrow> t = tok"
  by (simp add: owned_def mark_claimed_def)

lemma owned_origin:
  assumes "queue_step fin avoid db db'" "tok \<in> avoid" "x \<in> set (db_jobs db')" "owned jid tok x"
  shows "\<exists>y \<in> set (db_jobs db). owned jid tok y \<and> job_core x = job_core y"
  using assms
proof (cases rule: queue_step.cases)
  case (enqueue q now jid' kind payload)
  then show ?thesis
    using assms(3,4) by (auto simp: Enqueue_def owned_def split: option.split_asm if_split_asm)
next
  case (claim t now locked)
  then show ?thesis
    using assms(2-4)
    by (auto simp: Claim_def split: option.split_asm dest: owned_claimed elim: owned_update_where)
next
  case (complete now jid' tok')
  then show ?thesis
    using assms(3,4) by (auto simp: Complete_def split: if_split_asm elim!: owned_update_where)
next
  case (renew now jid' tok')
  then show ?thesis
    using assms(3,4)
    by (auto simp: RenewClaim_def split: if_split_asm elim!: owned_update_where)
      (auto simp: owned_def job_core_def)
next
  case (failed now jid' tok' msg)
  then show ?thesis
    using assms(3,4)
    by (cases rule: Fail_cases [of fin db now jid' tok' msg]) (auto elim!: owned_update_where)
next
  case (recover q now locked)
  then show ?thesis
    using assms(3,4)
    by (cases rule: Recover_cases [of q fin db now locked]) (auto elim!: owned_update_where)
next
  case (purge olderThan)
  then show ?thesis using assms(3,4) by (auto simp: PurgeOldJobs_def)
next
  case (complete_tx now j wr)
  then show ?thesis
    using assms(3,4)
    by (auto simp: complete_in_transaction_def completeLockedJob_def split: option.split_asm
        elim!: owned_update_where)
qed

lemma owned_origin_steps:
  assumes "(queue_step fin avoid)\<^sup>*\<^sup>* db db'" "tok \<in> avoid" "x \<in> set (db_jobs db')" "owned jid tok x"
  shows "\<exists>y \<in> set (db_jobs db). owned jid tok y \<and> job_core x = job_core y"
  using assms(1,3,4)
proof (induction arbitrary: x rule: rtranclp_induct)
  case (step db1 db2)
  then show ?case using owned_origin [OF step(2) assms(2) step(4,5)] by metis
qed auto

lemma backoff_eq:
  "backoff a = (if a \<le> 31 then Some (min 30 (2 ^ nat (max (a - 1) 0)) * second) else None)"
proof (cases "a \<le> 31")
  case True
  then have "nat (max (a - 1) 0) \<le> 30" by auto
  then have "(2 :: int) ^ nat (max (a - 1) 0) \<le> 2 ^ 30" by (intro power_increasing) auto
  with True show ?thesis by (simp add: backoff_def maxPostgresInt_def Let_def)
next
  case False
  then have "31 \<le> nat (max (a - 1) 0)" by auto
  then have "(2 :: int) ^ 31 \<le> 2 ^ nat (max (a - 1) 0)" by (intro power_increasing) auto
  with False show ?thesis by (simp add: backoff_def maxPostgresInt_def Let_def)
qed

lemma backoff_bounds: "backoff a = Some d \<Longrightarrow> second \<le> d \<and> d \<le> 30 * second"
proof -
  assume "backoff a = Some d"
  then have "d = min 30 (2 ^ nat (max (a - 1) 0)) * second"
    by (auto simp: backoff_eq split: if_split_asm)
  moreover have "(1 :: int) \<le> 2 ^ nat (max (a - 1) 0)" by simp
  ultimately show ?thesis by (auto simp: min_def)
qed

lemma Fail_live:
  assumes "table_inv (db_jobs db)" "j \<in> set (db_jobs db)" "owned jid tok j"
  shows "Fail None db now jid tok msg =
    (case mark_failed now msg j of
       None \<Rightarrow> (Some IntegerOutOfRange, db)
     | Some k \<Rightarrow> (None, db\<lparr>db_jobs := update_where (\<lambda>x. jb_id x = jid) (\<lambda>_. k) (db_jobs db)\<rparr>))"
proof -
  have row: "x = j" if "x \<in> set (db_jobs db)" "jb_id x = jid" for x
    using same_row [OF assms(1) that(1) assms(2)] that(2) assms(3) by (simp add: owned_def)
  have only: "(\<forall>x \<in> set (db_jobs db). owned jid tok x \<longrightarrow> mark_failed now msg x \<noteq> None) =
      (mark_failed now msg j \<noteq> None)"
    using row assms(2,3) by (metis owned_def)
  have upd: "update_where (owned jid tok) f (db_jobs db) = update_where (\<lambda>x. jb_id x = jid) (\<lambda>_. f j) (db_jobs db)" for f
    unfolding update_where_def using row assms(3) by (intro map_cong refl) (metis owned_def)
  have fin: "finalize_all None b js = Some b" for b :: 'c and js
    by (induction js) simp_all
  have upd_all: "try_update_where (owned jid tok) (mark_failed now msg) (db_jobs db) =
      (if mark_failed now msg j \<noteq> None then
         Some (update_where (\<lambda>x. jb_id x = jid) (\<lambda>_. the (mark_failed now msg j)) (db_jobs db)) else None)"
    unfolding try_update_where_eq only upd ..
  have "list_ex (owned jid tok) (db_jobs db)" using assms(2,3) by (auto simp: list_ex_iff)
  then show ?thesis
    by (cases "mark_failed now msg j") (simp_all add: Fail_def upd_all fin)
qed

section \<open>Properties\<close>

text \<open>
  C6: In every reachable table job ids are unique and each job was claimed at most
  \<open>max_attempts\<close> times; a queued job can still be claimed, a dead-lettered one has used all its
  attempts; exactly the processing jobs carry a lock token and a lock time, exactly the completed
  and dead-lettered ones a completion time, and the status \<open>failed\<close> never occurs.
\<close>

theorem job_table_invariant:
  assumes "(queue_step fin {})\<^sup>*\<^sup>* (empty_db b) db"
  shows "distinct (map jb_id (db_jobs db)) \<and> list_all job_inv (db_jobs db)"
proof -
  have "table_inv (db_jobs (empty_db b))" by (simp add: empty_db_def table_inv_def)
  with queue_steps_inv [OF assms] show ?thesis by (simp add: table_inv_def)
qed

definition example_db :: "nat queue_db" where
  "example_db = snd (Claim (snd (Enqueue (New 0 2) (empty_db 0) 5 ''jq_1'' ''action_run'' ''{}'')) 6 ''t1'' [])"

lemma example_db_reachable: "(queue_step fin {})\<^sup>*\<^sup>* (empty_db 0) example_db"
proof -
  have "queue_step fin {} (empty_db 0) (snd (Enqueue (New 0 2) (empty_db 0) 5 ''jq_1'' ''action_run'' ''{}''))"
    by (rule queue_step.enqueue)
  moreover have "queue_step fin {} (snd (Enqueue (New 0 2) (empty_db 0) 5 ''jq_1'' ''action_run'' ''{}''))
      example_db"
    unfolding example_db_def by (rule queue_step.claim) simp
  ultimately show ?thesis by (rule converse_rtranclp_into_rtranclp [OF _ r_into_rtranclp])
qed

theorem job_table_invariant_witness:
  "map jb_attempts (db_jobs example_db) = [1] \<and> list_all job_inv (db_jobs example_db)"
proof
  show "map jb_attempts (db_jobs example_db) = [1]" by code_simp
  show "list_all job_inv (db_jobs example_db)"
    using job_table_invariant [OF example_db_reachable [of None]] by blast
qed

text \<open>
  C7: A lost claim stays lost: once no row is owned through a lock token, then after any steps of
  other workers, recovery and purge that do not issue this token again, \<open>Complete\<close>, \<open>RenewClaim\<close> and
  \<open>Fail\<close> with it return \<open>ErrClaimLost\<close> and leave the database as it is.
\<close>

theorem lost_claim_stays_lost:
  assumes "\<not> list_ex (owned jid tok) (db_jobs db)" "(queue_step fin {tok})\<^sup>*\<^sup>* db db'"
  shows "Complete db' now jid tok = (Some ErrClaimLost, db') \<and>
    RenewClaim db' now jid tok = (Some ErrClaimLost, db') \<and>
    Fail fin db' now jid tok msg = (Some ErrClaimLost, db')"
proof -
  have "\<not> list_ex (owned jid tok) (db_jobs db')"
    using assms(1) owned_origin_steps [OF assms(2), of tok] by (force simp: list_ex_iff)
  then show ?thesis by (simp add: Complete_def RenewClaim_def Fail_def)
qed

text \<open>The claim of the example is recovered as stale, and another worker takes the job.\<close>

definition example_taken_over :: "nat queue_db" where
  "example_taken_over =
     snd (Claim (snd (RecoverStaleClaims (New 0 2) None example_db (40 * second) [])) (60 * second) ''t2'' [])"

theorem lost_claim_stays_lost_witness:
  "map jb_lock_token (db_jobs example_taken_over) = [Some ''t2''] \<and>
   Complete example_taken_over 99 ''jq_1'' ''t1'' = (Some ErrClaimLost, example_taken_over)"
proof
  show "map jb_lock_token (db_jobs example_taken_over) = [Some ''t2'']" by code_simp
  let ?r = "snd (RecoverStaleClaims (New 0 2) None example_db (40 * second) [])"
  have "\<not> list_ex (owned ''jq_1'' ''t1'') (db_jobs ?r)" by code_simp
  moreover have "queue_step None {''t1''} ?r example_taken_over"
    unfolding example_taken_over_def by (rule queue_step.claim) simp
  ultimately show "Complete example_taken_over 99 ''jq_1'' ''t1'' = (Some ErrClaimLost, example_taken_over)"
    using lost_claim_stays_lost [of "''jq_1''" "''t1''" ?r None example_taken_over] by blast
qed

text \<open>
  What \<open>Fail\<close> does with a live claim in a reachable table, when no finalizer is set: a job with
  all attempts used is dead-lettered; otherwise, up to 31 attempts, it is queued again after
  \<open>min 30 (2 ^ (attempts - 1))\<close> seconds; from 32 attempts on the back-off expression overflows,
  \<open>Fail\<close> returns an error and the job stays claimed.
\<close>

lemma fail_dead_letters_or_backs_off:
  assumes "table_inv (db_jobs db)" "j \<in> set (db_jobs db)" "owned jid tok j"
  shows "Fail None db now jid tok msg =
    (if jb_attempts j = jb_max_attempts j
     then (None, db\<lparr>db_jobs := update_where (\<lambda>x. jb_id x = jid) (\<lambda>_. j\<lparr>jb_status := StatusDeadLettered,
        jb_error := msg, jb_updated_at := now, jb_locked_at := None, jb_lock_token := None,
        jb_completed_at := Some now\<rparr>) (db_jobs db)\<rparr>)
     else if jb_attempts j \<le> 31
     then (None, db\<lparr>db_jobs := update_where (\<lambda>x. jb_id x = jid) (\<lambda>_. j\<lparr>jb_status := StatusQueued,
        jb_error := msg, jb_updated_at := now,
        jb_available_at := now + min 30 (2 ^ nat (jb_attempts j - 1)) * second,
        jb_locked_at := None, jb_lock_token := None\<rparr>) (db_jobs db)\<rparr>)
     else (Some IntegerOutOfRange, db))"
proof -
  have inv: "1 \<le> jb_attempts j" "jb_attempts j \<le> jb_max_attempts j"
    using table_inv_job [OF assms(1,2)] assms(3) by (auto simp: job_inv_def owned_def)
  then have "max (jb_attempts j - 1) 0 = jb_attempts j - 1" by simp
  with inv show ?thesis
    by (simp add: Fail_live [OF assms] mark_failed_def exhausted_def backoff_eq)
qed

text \<open>
  Stale-claim recovery is one transaction: it either changes nothing, or every recovered row
  leaves the processing state, dead-lettered exactly when its attempts are used up, all other rows
  stay as they are, at most 100 rows are recovered, and the business records are those of the
  finalizer run over exactly the jobs it returns as dead.
\<close>

lemma recovery_is_atomic:
  assumes "table_inv (db_jobs db)" "RecoverStaleClaims q fin db now locked = (r, db')"
  shows "db' = db \<or>
    (\<exists>dead. r = Inr dead \<and> finalize_all fin (db_business db) dead = Some (db_business db') \<and>
       list_all2 (\<lambda>j j'. if jb_id j \<in> set (recovered_ids q db now locked)
           then jb_id j' = jb_id j \<and> jb_status j = StatusProcessing \<and>
             jb_status j' = (if exhausted j then StatusDeadLettered else StatusQueued) \<and>
             (j' \<in> set dead) = exhausted j
           else j' = j) (db_jobs db) (db_jobs db') \<and>
       length (recovered_ids q db now locked) \<le> 100)"
proof (cases rule: Recover_cases [of q fin db now locked])
  case (refused r')
  with assms(2) show ?thesis by simp
next
  case (committed b dead)
  let ?batch = "recovered_ids q db now locked"
  let ?f = "\<lambda>j. the (mark_recovered now j)"
  have status: "jb_id (?f j) = jb_id j \<and> jb_status j = StatusProcessing \<and>
      jb_status (?f j) = (if exhausted j then StatusDeadLettered else StatusQueued)"
    if "j \<in> set (db_jobs db)" "jb_id j \<in> set ?batch" for j
    using committed(4) that stale_row [OF assms(1) that] mark_recovered_id [of now j]
    by (cases "exhausted j"; cases "backoff (jb_attempts j)") (auto simp: stale_def mark_recovered_def)
  have mem: "(?f j \<in> set dead) = exhausted j" if "j \<in> set (db_jobs db)" "jb_id j \<in> set ?batch" for j
    using status [OF that] that by (auto simp: committed(2) update_where_mem)
  have "list_all2 (\<lambda>j j'. if jb_id j \<in> set ?batch
           then jb_id j' = jb_id j \<and> jb_status j = StatusProcessing \<and>
             jb_status j' = (if exhausted j then StatusDeadLettered else StatusQueued) \<and>
             (j' \<in> set dead) = exhausted j
           else j' = j) (db_jobs db) (update_where (\<lambda>j. jb_id j \<in> set ?batch) ?f (db_jobs db))"
    using status mem by (auto simp: update_where_def list.rel_map intro!: list.rel_refl_strong)
  moreover have "length ?batch \<le> 100" by (simp add: stale_batch_def)
  ultimately show ?thesis using committed(1,3) assms(2) by auto
qed

text \<open>The finalizer of the example counts the jobs it closes.\<close>

text \<open>
  \<open>Claim\<close> hands out the oldest available job: it returns nothing exactly when no unlocked queued
  job is available, and otherwise a job that no other available one precedes, marked processing
  under the new token with its attempt counted, while every other row stays as it is.
\<close>

lemma claim_takes_oldest_available:
  assumes "table_inv (db_jobs db)" "Claim db now tok locked = (r, db')"
  shows "case r of
      None \<Rightarrow> db' = db \<and> (\<forall>j \<in> set (db_jobs db). \<not> claimable now locked j)
    | Some k \<Rightarrow> \<exists>j \<in> set (db_jobs db). claimable now locked j \<and>
        (\<forall>i \<in> set (db_jobs db). claimable now locked i \<longrightarrow> \<not> older i j) \<and>
        k = j\<lparr>jb_status := StatusProcessing, jb_locked_at := Some now,
              jb_attempts := jb_attempts j + 1, jb_updated_at := now, jb_lock_token := Some tok\<rparr> \<and>
        db_jobs db' = map (\<lambda>x. if x = j then k else x) (db_jobs db) \<and> db_business db' = db_business db"
proof (cases "oldest (filter (claimable now locked) (db_jobs db))")
  case None
  then show ?thesis
    using assms(2) by (auto simp: Claim_def oldest_None filter_empty_conv)
next
  case (Some j)
  have j: "j \<in> set (db_jobs db)" "claimable now locked j"
    "\<forall>i \<in> set (db_jobs db). claimable now locked i \<longrightarrow> \<not> older i j"
    using oldest_Some [OF Some] by auto
  have "update_where (\<lambda>x. jb_id x = jb_id j) (mark_claimed now tok) (db_jobs db) =
      map (\<lambda>x. if x = j then mark_claimed now tok j else x) (db_jobs db)"
    unfolding update_where_def using same_row [OF assms(1) _ j(1)] by (intro map_cong refl) metis
  with j Some assms(2) show ?thesis
    by (auto simp: Claim_def mark_claimed_def intro!: bexI [of _ j])
qed

text \<open>
  A heartbeat renews a claim well before it counts as stale: for every poll interval, even one
  whose product overflows 64 bits, a new queue treats claims as stale only after at least 30
  seconds, and three heartbeat intervals fit into that time.
\<close>

lemma heartbeats_fit_the_lease:
  "let q = New pollInterval maxAttempts
   in 30 * second \<le> qc_stale_claim_at q \<and> 10 * second \<le> leaseHeartbeatInterval q \<and>
      3 * leaseHeartbeatInterval q \<le> qc_stale_claim_at q"
proof -
  let ?q = "New pollInterval maxAttempts"
  have "30 * second \<le> qc_stale_claim_at ?q" by (simp add: New_def Let_def)
  moreover from this have "10 * second \<le> qc_stale_claim_at ?q div 3" by simp
  ultimately show ?thesis
    by (auto simp: leaseHeartbeatInterval_def Let_def)
qed

end
