(* ===== verification/Job_Worker.thy ===== *)
theory Job_Worker
  imports Job_Queue
begin

text \<open>
  The worker that claims jobs and runs their handlers (\<open>internal/jobqueue/worker.go\<close>).

  The worker sees the queue through the Go interface \<open>processQueue\<close>, here a record of its three
  operations over a state \<open>'s\<close>. A handler run is a function of the job and the state: while it
  runs, heartbeats, other workers and its own transactions change the state, and at its end the
  worker reads three things: what it returned or that it panicked, whether its own transaction
  completed the job, and whether the heartbeat lost the claim. The calls of the dead-letter
  callback are returned in their order; a panic in a callback is recovered and has no effect.
\<close>

section \<open>Definitions\<close>

record 's process_queue =
  pq_claim :: "'s \<Rightarrow> (string, job option) res \<times> 's"
  pq_fail :: "'s \<Rightarrow> string \<Rightarrow> string \<Rightarrow> string \<Rightarrow> queue_error option \<times> 's"
  pq_complete :: "'s \<Rightarrow> string \<Rightarrow> string \<Rightarrow> queue_error option \<times> 's"

datatype handler_return = Returned "string option" | Panicked string

record handler_run =
  hr_return :: handler_return
  hr_completed :: bool
  hr_claim_lost :: bool

type_synonym 's handler = "job \<Rightarrow> 's \<Rightarrow> handler_run \<times> 's"

record 's worker =
  wk_handlers :: "string \<Rightarrow> 's handler option"
  wk_dead_letter_cb :: bool

definition NewWorker :: "'s worker" where
  "NewWorker = \<lparr>wk_handlers = (\<lambda>_. None), wk_dead_letter_cb = False\<rparr>"

definition Register :: "'s worker \<Rightarrow> string \<Rightarrow> 's handler \<Rightarrow> 's worker" where
  "Register w kind handler = w\<lparr>wk_handlers := (wk_handlers w)(kind := Some handler)\<rparr>"

definition OnDeadLetter :: "'s worker \<Rightarrow> bool \<Rightarrow> 's worker" where
  "OnDeadLetter w cb = w\<lparr>wk_dead_letter_cb := cb\<rparr>"

definition job_token :: "job \<Rightarrow> string" where
  "job_token j = (case jb_lock_token j of None \<Rightarrow> [] | Some t \<Rightarrow> t)"

definition invokeHandler :: "handler_return \<Rightarrow> string option" where
  "invokeHandler r =
     (case r of Returned err \<Rightarrow> err | Panicked what \<Rightarrow> Some (''job handler panic: '' @ what))"

text \<open>The failing branch shared by a missing handler and a handler error.\<close>

definition fail_job ::
    "'s process_queue \<Rightarrow> 's worker \<Rightarrow> 's \<Rightarrow> job \<Rightarrow> string \<Rightarrow> (job \<times> string) list \<times> 's" where
  "fail_job q w s j err =
     (let (failErr, s') = pq_fail q s (jb_id j) (job_token j) err
      in (if failErr = None \<and> exhausted j \<and> wk_dead_letter_cb w then [(j, err)] else [], s'))"

definition processOneWithQueue ::
    "'s process_queue \<Rightarrow> 's worker \<Rightarrow> 's \<Rightarrow> bool \<times> (job \<times> string) list \<times> 's" where
  "processOneWithQueue q w s =
     (case pq_claim q s of
        (Inl _, s) \<Rightarrow> (False, [], s)
      | (Inr None, s) \<Rightarrow> (False, [], s)
      | (Inr (Some j), s) \<Rightarrow>
          (case wk_handlers w (jb_kind j) of
             None \<Rightarrow> (True, fail_job q w s j ''no handler registered for job kind'')
           | Some handler \<Rightarrow>
               (let (run, s) = handler j s
                in if hr_completed run \<or> hr_claim_lost run then (True, [], s)
                   else case invokeHandler (hr_return run) of
                          Some err \<Rightarrow> (True, fail_job q w s j err)
                        | None \<Rightarrow> (True, [], snd (pq_complete q s (jb_id j) (job_token j))))))"

text \<open>
  The heartbeat: one renewal for each tick, given by its result; the claim is reported lost at the
  first \<open>ErrClaimLost\<close>, any other error leaves the heartbeat running.
\<close>

fun claim_heartbeat :: "queue_error option list \<Rightarrow> bool" where
  "claim_heartbeat [] = False"
| "claim_heartbeat (r # rs) = (if r = Some ErrClaimLost then True else claim_heartbeat rs)"

definition handleRecoveredDeadJobs :: "'s worker \<Rightarrow> job list \<Rightarrow> (job \<times> string) list" where
  "handleRecoveredDeadJobs w jobs =
     (if \<not> wk_dead_letter_cb w then []
      else map (\<lambda>j. (j, if trim_space (jb_error j) = [] then ''job claim timed out after max attempts''
                        else trim_space (jb_error j))) jobs)"

section \<open>The contract of the queue\<close>

text \<open>
  What the worker relies on: \<open>jobs\<close> reads the table from the state, \<open>inv\<close> is the queue's invariant
  and \<open>env tok\<close> are the changes that others make without using the token \<open>tok\<close>. \<open>handlers_ok\<close> says that
  whatever happens while a handler runs is such a change.
\<close>

definition handlers_ok :: "(string \<Rightarrow> 's \<Rightarrow> 's \<Rightarrow> bool) \<Rightarrow> 's worker \<Rightarrow> bool" where
  "handlers_ok env w = (\<forall>kind handler j s run s'. wk_handlers w kind = Some handler \<longrightarrow>
     handler j s = (run, s') \<longrightarrow> env (job_token j) s s')"

locale process_queue_contract =
  fixes q :: "'s process_queue"
    and jobs :: "'s \<Rightarrow> job list"
    and inv :: "'s \<Rightarrow> bool"
    and env :: "string \<Rightarrow> 's \<Rightarrow> 's \<Rightarrow> bool"
  assumes unique: "inv s \<Longrightarrow> j \<in> set (jobs s) \<Longrightarrow> k \<in> set (jobs s) \<Longrightarrow> jb_id j = jb_id k \<Longrightarrow> j = k"
    and claimed: "inv s \<Longrightarrow> pq_claim q s = (Inr (Some j), s') \<Longrightarrow>
      inv s' \<and> j \<in> set (jobs s') \<and> owned (jb_id j) (job_token j) j"
    and failed: "inv s \<Longrightarrow> pq_fail q s jid tok msg = (None, s') \<Longrightarrow>
      \<exists>y \<in> set (jobs s). owned jid tok y \<and>
        (\<exists>y' \<in> set (jobs s'). jb_id y' = jid \<and>
           jb_status y' = (if exhausted y then StatusDeadLettered else StatusQueued))"
    and fail_error: "pq_fail q s jid tok msg = (Some e, s') \<Longrightarrow> s' = s"
    and completed: "inv s \<Longrightarrow> pq_complete q s jid tok = (None, s') \<Longrightarrow>
      \<exists>y \<in> set (jobs s). owned jid tok y"
    and complete_error: "pq_complete q s jid tok = (Some e, s') \<Longrightarrow> s' = s"
    and env_owned: "env tok s s' \<Longrightarrow> x \<in> set (jobs s') \<Longrightarrow> owned jid tok x \<Longrightarrow>
      \<exists>y \<in> set (jobs s). owned jid tok y \<and> job_core x = job_core y"
    and env_inv: "env tok s s' \<Longrightarrow> inv s \<Longrightarrow> inv s'"
begin

lemma fail_job_callback:
  assumes "inv s" "j \<in> set (jobs s)" "owned (jb_id j) (job_token j) j"
    and "env (job_token j) s s1 \<or> s1 = s" "fail_job q w s1 j err = (cbs, s')" "(k, e) \<in> set cbs"
  shows "k = j \<and> (\<exists>y \<in> set (jobs s'). jb_id y = jb_id j \<and> jb_status y = StatusDeadLettered)"
proof -
  have f: "pq_fail q s1 (jb_id j) (job_token j) err = (None, s')" "exhausted j" "k = j"
    using assms(5,6) by (auto simp: fail_job_def Let_def split: prod.split_asm if_split_asm)
  have inv1: "inv s1" using assms(1,4) env_inv by blast
  obtain y y' where y: "y \<in> set (jobs s1)" "owned (jb_id j) (job_token j) y"
    "y' \<in> set (jobs s')" "jb_id y' = jb_id j"
    "jb_status y' = (if exhausted y then StatusDeadLettered else StatusQueued)"
    using failed [OF inv1 f(1)] by blast
  have "\<exists>z \<in> set (jobs s). owned (jb_id j) (job_token j) z \<and> job_core y = job_core z"
    using assms(4) env_owned [OF _ y(1,2)] y(1,2) by blast
  then have "job_core y = job_core j"
    using unique [OF assms(1) _ assms(2)] by (auto simp: owned_def)
  with f(2) have "exhausted y" by (simp add: exhausted_def job_core_def)
  with y f(3) show ?thesis by auto
qed

lemma dead_letter_callback_sound:
  assumes "inv s" "handlers_ok env w" "processOneWithQueue q w s = (b, cbs, s')" "(k, e) \<in> set cbs"
  shows "\<exists>y \<in> set (jobs s'). jb_id y = jb_id k \<and> jb_status y = StatusDeadLettered"
proof -
  obtain j s1 where c: "pq_claim q s = (Inr (Some j), s1)"
    using assms(3,4) by (auto simp: processOneWithQueue_def split: prod.split_asm sum.split_asm option.split_asm)
  note owns = claimed [OF assms(1) c]
  have "\<exists>s2 err. (env (job_token j) s1 s2 \<or> s2 = s1) \<and> fail_job q w s2 j err = (cbs, s')"
  proof (cases "wk_handlers w (jb_kind j)")
    case None
    with c assms(3) show ?thesis by (auto simp: processOneWithQueue_def)
  next
    case (Some h)
    obtain run s2 where run: "h j s1 = (run, s2)" by fastforce
    with Some assms(2) have "env (job_token j) s1 s2" by (auto simp: handlers_ok_def)
    with c Some run assms(3,4) show ?thesis
      by (auto simp: processOneWithQueue_def split: if_split_asm option.split_asm)
  qed
  then show ?thesis using fail_job_callback [of s1 j] owns assms(4) by blast
qed

lemma lost_claim_writes_nothing:
  assumes "inv s" "handlers_ok env w" "pq_claim q s = (Inr (Some j), s1)"
    and "wk_handlers w (jb_kind j) = Some h" "h j s1 = (run, s2)"
    and "\<forall>y \<in> set (jobs s2). \<not> owned (jb_id j) (job_token j) y"
  shows "processOneWithQueue q w s = (True, [], s2)"
proof -
  have "inv s1" using claimed [OF assms(1,3)] by simp
  moreover have "env (job_token j) s1 s2" using assms(2,4,5) by (auto simp: handlers_ok_def)
  ultimately have inv2: "inv s2" using env_inv by blast
  have f: "\<exists>e. pq_fail q s2 (jb_id j) (job_token j) msg = (Some e, s2)" for msg
    using failed [OF inv2] fail_error assms(6) by (metis old.prod.exhaust option.exhaust)
  have c: "\<exists>e. pq_complete q s2 (jb_id j) (job_token j) = (Some e, s2)"
    using completed [OF inv2] complete_error assms(6) by (metis old.prod.exhaust option.exhaust)
  have "fail_job q w s2 j msg = ([], s2)" for msg
    using f [of msg] by (auto simp: fail_job_def)
  with c assms(3-5) show ?thesis
    by (auto simp: processOneWithQueue_def split: option.split)
qed

end

section \<open>The Postgres queue keeps the contract\<close>

text \<open>The queue as the worker calls it: claimed at \<open>t0\<close> under a new token, finished at \<open>t1\<close>.\<close>

definition queue_ops ::
    "'b finalizer \<Rightarrow> gtime \<Rightarrow> string \<Rightarrow> string list \<Rightarrow> gtime \<Rightarrow> 'b queue_db process_queue" where
  "queue_ops fin t0 lockToken locked t1 =
     \<lparr>pq_claim = (\<lambda>db. let (j, db') = Claim db t0 lockToken locked in (Inr j, db')),
      pq_fail = (\<lambda>db jid tok msg. Fail fin db t1 jid tok msg),
      pq_complete = (\<lambda>db jid tok. Complete db t1 jid tok)\<rparr>"

abbreviation others :: "'b finalizer \<Rightarrow> string \<Rightarrow> 'b queue_db \<Rightarrow> 'b queue_db \<Rightarrow> bool" where
  "others fin tok \<equiv> (queue_step fin {tok})\<^sup>*\<^sup>*"

lemma queue_claimed:
  assumes "table_inv (db_jobs db)" "Claim db now tok locked = (Some j, db')"
  shows "table_inv (db_jobs db') \<and> j \<in> set (db_jobs db') \<and> owned (jb_id j) (job_token j) j"
proof -
  obtain k where k: "oldest (filter (claimable now locked) (db_jobs db)) = Some k"
    "j = mark_claimed now tok k"
    "db' = db\<lparr>db_jobs := update_where (\<lambda>x. jb_id x = jb_id k) (mark_claimed now tok) (db_jobs db)\<rparr>"
    using assms(2) by (auto simp: Claim_def split: option.split_asm)
  then have "j \<in> set (db_jobs db')" using oldest_Some [OF k(1)] by (auto simp: update_where_mem)
  moreover have "owned (jb_id j) (job_token j) j"
    by (simp add: k(2) owned_def job_token_def mark_claimed_def)
  ultimately show ?thesis using Claim_inv [OF assms(1), of now tok locked] assms(2) by simp
qed

lemma queue_failed:
  assumes "table_inv (db_jobs db)" "Fail fin db now jid tok msg = (None, db')"
  shows "\<exists>y \<in> set (db_jobs db). owned jid tok y \<and>
    (\<exists>y' \<in> set (db_jobs db'). jb_id y' = jid \<and>
       jb_status y' = (if exhausted y then StatusDeadLettered else StatusQueued))"
proof (cases rule: Fail_cases [of fin db now jid tok msg])
  case (refused e)
  with assms(2) show ?thesis by simp
next
  case (committed b)
  then obtain y where y: "y \<in> set (db_jobs db)" "owned jid tok y" "mark_failed now msg y \<noteq> None"
    by (auto simp: list_ex_iff)
  let ?y' = "the (mark_failed now msg y)"
  have "?y' \<in> set (db_jobs db')"
    using committed(1) assms(2) y by (auto simp: update_where_mem)
  moreover have "jb_id ?y' = jid" using mark_failed_id [OF y(3)] y(2) by (simp add: owned_def)
  moreover have "jb_status ?y' = (if exhausted y then StatusDeadLettered else StatusQueued)"
    using y(3) by (cases "exhausted y"; cases "backoff (jb_attempts y)") (simp_all add: mark_failed_def)
  ultimately show ?thesis using y(1,2) by blast
qed

interpretation queue_worker: process_queue_contract "queue_ops fin t0 lockToken locked t1" db_jobs
  "\<lambda>db. table_inv (db_jobs db)" "others fin" for fin t0 lockToken locked t1
proof unfold_locales
  fix s s' :: "'a queue_db" and jid tok msg
  assume "table_inv (db_jobs s)" "pq_fail (queue_ops fin t0 lockToken locked t1) s jid tok msg = (None, s')"
  then show "\<exists>y \<in> set (db_jobs s). owned jid tok y \<and> (\<exists>y' \<in> set (db_jobs s'). jb_id y' = jid \<and>
      jb_status y' = (if exhausted y then StatusDeadLettered else StatusQueued))"
    by (intro queue_failed) (simp_all add: queue_ops_def)
next
  fix s s' :: "'a queue_db" and jid tok msg e
  assume "pq_fail (queue_ops fin t0 lockToken locked t1) s jid tok msg = (Some e, s')"
  then show "s' = s"
    by (cases rule: Fail_cases [of fin s t1 jid tok msg]) (auto simp: queue_ops_def)
next
  fix s s' :: "'a queue_db" and x jid tok
  assume "others fin tok s s'" "x \<in> set (db_jobs s')" "owned jid tok x"
  then show "\<exists>y \<in> set (db_jobs s). owned jid tok y \<and> job_core x = job_core y"
    using owned_origin_steps [of fin "{tok}" s s' tok x jid] by simp
qed (auto simp: queue_ops_def Let_def Complete_def list_ex_iff same_row split: prod.split_asm if_split_asm
      dest: queue_claimed queue_steps_inv)

section \<open>Properties\<close>

text \<open>
  C8: The dead-letter callback tells the truth: whenever one pass of the worker over the Postgres
  queue invokes it for a job, that job's row is dead-lettered in the resulting table, whatever
  heartbeats, other workers, recovery and purges did while the handler ran, as long as none of
  them used this worker's lock token.
\<close>

theorem dead_letter_callback_means_dead_lettered:
  assumes "table_inv (db_jobs db)" "handlers_ok (others fin) w"
    and "processOneWithQueue (queue_ops fin t0 lockToken locked t1) w db = (processed, cbs, db')"
  shows "list_all (\<lambda>(j, err). \<exists>y \<in> set (db_jobs db').
    jb_id y = jb_id j \<and> jb_status y = StatusDeadLettered) cbs"
  using queue_worker.dead_letter_callback_sound [OF assms] by (auto simp: list_all_iff)

text \<open>A worker without a handler for the kind of its job, which has one attempt.\<close>

definition example_single :: "nat queue_db" where
  "example_single = snd (Enqueue (New 0 1) (empty_db 0) 5 ''jq_1'' ''action_run'' ''{}'')"

theorem dead_letter_callback_means_dead_lettered_witness:
  "let r = processOneWithQueue (queue_ops None 6 ''t1'' [] 7) (OnDeadLetter NewWorker True) example_single
   in map (jb_id \<circ> fst) (fst (snd r)) = [''jq_1''] \<and>
      list_all (\<lambda>(j, err). \<exists>y \<in> set (db_jobs (snd (snd r))).
        jb_id y = jb_id j \<and> jb_status y = StatusDeadLettered) (fst (snd r))"
proof -
  let ?r = "processOneWithQueue (queue_ops None 6 ''t1'' [] 7) (OnDeadLetter NewWorker True) example_single"
  have "table_inv (db_jobs example_single)"
    unfolding example_single_def by (intro Enqueue_inv) (simp add: empty_db_def table_inv_def)
  moreover have "handlers_ok (others None) (OnDeadLetter NewWorker True :: nat queue_db worker)"
    by (simp add: handlers_ok_def OnDeadLetter_def NewWorker_def)
  moreover have "?r = (fst ?r, fst (snd ?r), snd (snd ?r))" by simp
  ultimately have "list_all (\<lambda>(j, err). \<exists>y \<in> set (db_jobs (snd (snd ?r))).
        jb_id y = jb_id j \<and> jb_status y = StatusDeadLettered) (fst (snd ?r))"
    by (rule dead_letter_callback_means_dead_lettered)
  moreover have "map (jb_id \<circ> fst) (fst (snd ?r)) = [''jq_1'']" by code_simp
  ultimately show ?thesis unfolding Let_def by blast
qed

text \<open>
  A worker that lost its claim writes nothing: if no row is owned through its token when its
  handler ends, the pass leaves the table as it found it and calls no callback, whether the
  handler succeeded, failed or panicked.
\<close>

lemma lost_claim_worker_writes_nothing:
  assumes "table_inv (db_jobs db)" "handlers_ok (others fin) w"
    and "Claim db t0 lockToken locked = (Some j, db1)"
    and "wk_handlers w (jb_kind j) = Some h" "h j db1 = (run, db2)"
    and "list_all (\<lambda>y. \<not> owned (jb_id j) (job_token j) y) (db_jobs db2)"
  shows "processOneWithQueue (queue_ops fin t0 lockToken locked t1) w db = (True, [], db2)"
  by (rule queue_worker.lost_claim_writes_nothing [OF assms(1,2) _ assms(4,5)])
    (use assms(3,6) in \<open>simp_all add: queue_ops_def list_all_iff\<close>)

text \<open>A worker whose handler takes so long that its claim is recovered and taken over.\<close>

definition slow_handler :: "nat queue_db handler" where
  "slow_handler j db =
     (\<lparr>hr_return = Panicked ''late'', hr_completed = False, hr_claim_lost = False\<rparr>,
      snd (RecoverStaleClaims (New 0 2) None db (100 * second) []))"

definition example_worker :: "nat queue_db worker" where
  "example_worker = OnDeadLetter (Register NewWorker ''action_run'' slow_handler) True"

lemma example_worker_ok: "handlers_ok (others None) example_worker"
  by (auto simp: handlers_ok_def example_worker_def OnDeadLetter_def Register_def NewWorker_def
      slow_handler_def intro!: r_into_rtranclp queue_step.recover split: if_split_asm)

definition example_queued :: "nat queue_db" where
  "example_queued = snd (Enqueue (New 0 2) (empty_db 0) 5 ''jq_1'' ''action_run'' ''{}'')"

lemma example_queued_inv: "table_inv (db_jobs example_queued)"
  unfolding example_queued_def by (intro Enqueue_inv) (simp add: empty_db_def table_inv_def)

end
