(* ===== verification/Agent_Manager.thy ===== *)
theory Agent_Manager
  imports LT_Prelude
begin

text \<open>
  Agent connections and their registry (\<open>internal/agentmgr/conn.go\<close>, \<open>manager.go\<close>,
  \<open>lifecycle.go\<close>).

  A \<open>*AgentConn\<close> is an identifier into the heap of connections. Registration, unregistration and
  dispatch run under the lifecycle lock of their asset, so each is one step on the manager. The
  callbacks they run (disconnect cleanups, publication) are recorded in the order of their calls in
  the list of events. A reservation of admission capacity hands out a release closure; it is an
  identifier that is live until its first use, as \<open>sync.Once\<close> prescribes. The lifecycle lock table
  itself is in the theory \<open>Agent_Lifecycle\<close>.
\<close>

section \<open>Connections\<close>

record message =
  msg_type :: string
  msg_id :: string
  msg_data :: string

datatype conn_error = ErrAgentCredentialRejected | ContextError string | SocketError string

record agent_conn =
  ac_asset_id :: string
  ac_platform :: string
  ac_connected_at :: gtime
  ac_last_message_at :: gtime
  ac_meta :: "(string \<times> string) list"
  ac_validator :: "(gtime \<Rightarrow> string option) option"
  ac_lease :: duration
  ac_valid_till :: "gtime option"
  ac_rejected :: bool
  ac_done :: bool
  ac_sent :: "message list"
  ac_pings :: nat

definition NewAgentConn :: "gtime \<Rightarrow> string \<Rightarrow> string \<Rightarrow> agent_conn" where
  "NewAgentConn now assetID platform =
     \<lparr>ac_asset_id = assetID, ac_platform = platform, ac_connected_at = now, ac_last_message_at = now,
      ac_meta = [], ac_validator = None, ac_lease = 0, ac_valid_till = None, ac_rejected = False,
      ac_done = False, ac_sent = [], ac_pings = 0\<rparr>"

definition SetCredentialValidatorWithLease ::
    "agent_conn \<Rightarrow> (gtime \<Rightarrow> string option) option \<Rightarrow> duration \<Rightarrow> agent_conn" where
  "SetCredentialValidatorWithLease c validator lease =
     c\<lparr>ac_validator := validator, ac_lease := lease, ac_valid_till := None\<rparr>"

definition SetCredentialValidator :: "agent_conn \<Rightarrow> (gtime \<Rightarrow> string option) option \<Rightarrow> agent_conn" where
  "SetCredentialValidator c validator = SetCredentialValidatorWithLease c validator 0"

definition ValidateCredential :: "agent_conn \<Rightarrow> gtime \<Rightarrow> string option \<times> agent_conn" where
  "ValidateCredential c now =
     (if ac_rejected c then (Some ''agent connection credential rejected'', c)
      else case ac_validator c of
        None \<Rightarrow> (None, c)
      | Some validator \<Rightarrow>
          (if ac_lease c > 0 \<and> (case ac_valid_till c of None \<Rightarrow> False | Some t \<Rightarrow> now < t) then (None, c)
           else case validator now of
             Some err \<Rightarrow> (Some err, c\<lparr>ac_rejected := True\<rparr>)
           | None \<Rightarrow> (None, if ac_lease c > 0 then c\<lparr>ac_valid_till := Some (now + ac_lease c)\<rparr> else c)))"

definition checkCredentialForWrite :: "agent_conn \<Rightarrow> gtime \<Rightarrow> conn_error option \<times> agent_conn" where
  "checkCredentialForWrite c now =
     (if ac_rejected c then (Some ErrAgentCredentialRejected, c)
      else let (err, c) = ValidateCredential c now
           in if err \<noteq> None then (Some ErrAgentCredentialRejected, c)
              else if ac_rejected c then (Some ErrAgentCredentialRejected, c)
              else (None, c))"

text \<open>
  The context is read at three points, \<open>e1\<close> to \<open>e3\<close>; \<open>write_err\<close> is the result of the socket write.
\<close>

definition SendContext ::
    "string option \<times> string option \<times> string option \<Rightarrow> string option \<Rightarrow> agent_conn \<Rightarrow> gtime \<Rightarrow> message \<Rightarrow>
     conn_error option \<times> agent_conn" where
  "SendContext ctx write_err c now msg =
     (let (e1, e2, e3) = ctx
      in case e1 of
           Some e \<Rightarrow> (Some (ContextError e), c)
         | None \<Rightarrow>
             (let (err, c) = checkCredentialForWrite c now
              in if err \<noteq> None then (err, c)
                 else case e2 of
                   Some e \<Rightarrow> (Some (ContextError e), c)
                 | None \<Rightarrow>
                     (case e3 of
                        Some e \<Rightarrow> (Some (ContextError e), c)
                      | None \<Rightarrow>
                          (if ac_rejected c then (Some ErrAgentCredentialRejected, c)
                           else case write_err of
                             Some e \<Rightarrow> (Some (SocketError e), c)
                           | None \<Rightarrow> (None, c\<lparr>ac_sent := ac_sent c @ [msg]\<rparr>)))))"

definition Send :: "string option \<Rightarrow> agent_conn \<Rightarrow> gtime \<Rightarrow> message \<Rightarrow> conn_error option \<times> agent_conn" where
  "Send write_err c now msg = SendContext (None, None, None) write_err c now msg"

definition WritePing :: "string option \<Rightarrow> agent_conn \<Rightarrow> gtime \<Rightarrow> conn_error option \<times> agent_conn" where
  "WritePing write_err c now =
     (let (err, c) = checkCredentialForWrite c now
      in if err \<noteq> None then (err, c)
         else if ac_rejected c then (Some ErrAgentCredentialRejected, c)
         else case write_err of
           Some e \<Rightarrow> (Some (SocketError e), c)
         | None \<Rightarrow> (None, c\<lparr>ac_pings := Suc (ac_pings c)\<rparr>))"

definition Close :: "agent_conn \<Rightarrow> agent_conn" where
  "Close c = c\<lparr>ac_rejected := True, ac_done := True\<rparr>"

definition TouchLastMessage :: "agent_conn \<Rightarrow> gtime \<Rightarrow> agent_conn" where
  "TouchLastMessage c now = c\<lparr>ac_last_message_at := now\<rparr>"

definition SetMeta :: "agent_conn \<Rightarrow> string \<Rightarrow> string \<Rightarrow> agent_conn" where
  "SetMeta c key val = c\<lparr>ac_meta := AList.update key val (ac_meta c)\<rparr>"

definition Meta :: "agent_conn \<Rightarrow> string \<Rightarrow> string" where
  "Meta c key = (case map_of (ac_meta c) key of None \<Rightarrow> [] | Some v \<Rightarrow> v)"

section \<open>The manager\<close>

type_synonym conn_ref = nat

datatype am_event =
  Connected string conn_ref bool
| Published string conn_ref
| Disconnected string conn_ref
| CleanedUp string conn_ref

record agent_manager =
  am_heap :: "conn_ref \<Rightarrow> agent_conn"
  am_conns :: "(string \<times> conn_ref) list"
  am_cleanups :: "(string \<times> bool) list"
  am_admissions :: int
  am_admissions_by_key :: "(string \<times> int) list"
  am_tickets :: "(nat \<times> string) list"
  am_next_ticket :: nat
  am_events :: "am_event list"

definition NewManager :: "(conn_ref \<Rightarrow> agent_conn) \<Rightarrow> agent_manager" where
  "NewManager heap =
     \<lparr>am_heap = heap, am_conns = [], am_cleanups = [], am_admissions = 0, am_admissions_by_key = [],
      am_tickets = [], am_next_ticket = 0, am_events = []\<rparr>"

datatype admission = AdmissionAllowed nat | AdmissionGlobalLimit | AdmissionSourceLimit

definition key_count :: "(string \<times> int) list \<Rightarrow> string \<Rightarrow> int" where
  "key_count counts key = (case map_of counts key of None \<Rightarrow> 0 | Some n \<Rightarrow> n)"

definition source_key :: "string \<Rightarrow> string" where
  "source_key sourceKey = (let k = trim_space sourceKey in if k = [] then ''unknown'' else k)"

definition TryReserveAdmission ::
    "agent_manager \<Rightarrow> string \<Rightarrow> int \<Rightarrow> int \<Rightarrow> admission \<times> agent_manager" where
  "TryReserveAdmission m sourceKey globalLimit sourceLimit =
     (if globalLimit \<le> 0 \<or> sourceLimit \<le> 0 then (AdmissionGlobalLimit, m)
      else let k = source_key sourceKey
           in if am_admissions m \<ge> globalLimit then (AdmissionGlobalLimit, m)
              else if key_count (am_admissions_by_key m) k \<ge> sourceLimit then (AdmissionSourceLimit, m)
              else (AdmissionAllowed (am_next_ticket m),
                    m\<lparr>am_admissions := am_admissions m + 1,
                      am_admissions_by_key := AList.update k (key_count (am_admissions_by_key m) k + 1)
                        (am_admissions_by_key m),
                      am_tickets := (am_next_ticket m, k) # am_tickets m,
                      am_next_ticket := Suc (am_next_ticket m)\<rparr>))"

text \<open>The release closure of a reservation; only its first call does anything.\<close>

definition release_admission :: "agent_manager \<Rightarrow> nat \<Rightarrow> agent_manager" where
  "release_admission m ticket =
     (case map_of (am_tickets m) ticket of
        None \<Rightarrow> m
      | Some k \<Rightarrow>
          m\<lparr>am_admissions := (if am_admissions m > 0 then am_admissions m - 1 else am_admissions m),
            am_admissions_by_key :=
              (if key_count (am_admissions_by_key m) k \<le> 1 then AList.delete k (am_admissions_by_key m)
               else AList.update k (key_count (am_admissions_by_key m) k - 1) (am_admissions_by_key m)),
            am_tickets := AList.delete ticket (am_tickets m)\<rparr>)"

definition AdmissionCount :: "agent_manager \<Rightarrow> int" where
  "AdmissionCount m = am_admissions m"

definition Get :: "agent_manager \<Rightarrow> string \<Rightarrow> conn_ref option" where
  "Get m assetID = map_of (am_conns m) assetID"

definition IsConnected :: "agent_manager \<Rightarrow> string \<Rightarrow> bool" where
  "IsConnected m assetID = (map_of (am_conns m) assetID \<noteq> None)"

definition ConnectedAssets :: "agent_manager \<Rightarrow> string list" where
  "ConnectedAssets m = map fst (am_conns m)"

record connected_asset_info =
  ci_id :: string
  ci_has_tmux :: bool
  ci_platform :: string

definition ConnectedAssetsInfo :: "agent_manager \<Rightarrow> connected_asset_info list" where
  "ConnectedAssetsInfo m =
     map (\<lambda>(a, c). \<lparr>ci_id = a, ci_has_tmux = (trim_space (Meta (am_heap m c) ''terminal.tmux.has'') = ''true''),
            ci_platform = ac_platform (am_heap m c)\<rparr>) (am_conns m)"

definition Count :: "agent_manager \<Rightarrow> nat" where
  "Count m = length (am_conns m)"

definition close_conn :: "conn_ref \<Rightarrow> agent_manager \<Rightarrow> agent_manager" where
  "close_conn c m = m\<lparr>am_heap := (am_heap m)(c := Close (am_heap m c))\<rparr>"

definition log_event :: "am_event \<Rightarrow> agent_manager \<Rightarrow> agent_manager" where
  "log_event e m = m\<lparr>am_events := am_events m @ [e]\<rparr>"

definition unregisterInLifecycle ::
    "agent_manager \<Rightarrow> string \<Rightarrow> conn_ref option \<Rightarrow> bool \<times> agent_manager" where
  "unregisterInLifecycle m assetID expectedConn =
     (case map_of (am_conns m) assetID of
        None \<Rightarrow> (False, m)
      | Some conn \<Rightarrow>
          (if expectedConn \<noteq> None \<and> expectedConn \<noteq> Some conn then (False, m)
           else let cleanup = (map_of (am_cleanups m) assetID = Some True);
                    m = m\<lparr>am_conns := AList.delete assetID (am_conns m),
                          am_cleanups := AList.delete assetID (am_cleanups m)\<rparr>;
                    m = log_event (Disconnected assetID conn) (close_conn conn m)
                in (True, if cleanup then log_event (CleanedUp assetID conn) m else m)))"

definition RegisterWithLifecycle :: "agent_manager \<Rightarrow> conn_ref \<Rightarrow> bool \<Rightarrow> bool \<Rightarrow> agent_manager" where
  "RegisterWithLifecycle m conn cleanup publish =
     (let assetID = ac_asset_id (am_heap m conn)
      in if Get m assetID = Some conn then m
         else let m = snd (unregisterInLifecycle m assetID None);
                  m = m\<lparr>am_conns := AList.update assetID conn (am_conns m),
                        am_cleanups := AList.update assetID cleanup (am_cleanups m)\<rparr>;
                  m = log_event (Connected assetID conn cleanup) m
              in if publish then log_event (Published assetID conn) m else m)"

definition RegisterConn :: "agent_manager \<Rightarrow> conn_ref \<Rightarrow> agent_manager" where
  "RegisterConn m conn = RegisterWithLifecycle m conn False False"

definition UnregisterIfMatch :: "agent_manager \<Rightarrow> string \<Rightarrow> conn_ref option \<Rightarrow> bool \<times> agent_manager" where
  "UnregisterIfMatch m assetID expectedConn = unregisterInLifecycle m assetID expectedConn"

definition Unregister :: "agent_manager \<Rightarrow> string \<Rightarrow> agent_manager" where
  "Unregister m assetID = snd (UnregisterIfMatch m assetID None)"

text \<open>\<open>handle\<close> is what the callback does to the manager; it runs only for the current, open connection.\<close>

definition DispatchIfCurrent ::
    "agent_manager \<Rightarrow> conn_ref \<Rightarrow> (agent_manager \<Rightarrow> agent_manager) \<Rightarrow> bool \<times> agent_manager" where
  "DispatchIfCurrent m conn handle =
     (let assetID = ac_asset_id (am_heap m conn)
      in if Get m assetID \<noteq> Some conn then (False, m)
         else if ac_done (am_heap m conn) then (False, snd (unregisterInLifecycle m assetID (Some conn)))
         else let m = handle m
              in (True, if ac_done (am_heap m conn)
                        then snd (unregisterInLifecycle m assetID (Some conn)) else m))"

datatype send_error = AgentNotConnected | ConnError conn_error

definition SendToAgent ::
    "string option \<Rightarrow> agent_manager \<Rightarrow> gtime \<Rightarrow> string \<Rightarrow> message \<Rightarrow> send_error option \<times> agent_manager" where
  "SendToAgent write_err m now assetID msg =
     (case Get m assetID of
        None \<Rightarrow> (Some AgentNotConnected, m)
      | Some conn \<Rightarrow>
          (let (err, c) = Send write_err (am_heap m conn) now msg
           in (map_option ConnError err, m\<lparr>am_heap := (am_heap m)(conn := c)\<rparr>)))"

section \<open>The promised session protocol\<close>

text \<open>
  What the events of one asset must look like: connections alternate, each is disconnected before
  the next is connected, and the cleanup that was registered with a connection runs exactly once,
  right after its disconnection and before anything else happens to the asset.
\<close>

datatype phase = Offline | Online conn_ref bool | Cleaning conn_ref

fun phase_step :: "string \<Rightarrow> phase \<Rightarrow> am_event \<Rightarrow> phase option" where
  "phase_step a ph (Connected b c cl) =
     (if b \<noteq> a then Some ph else if ph = Offline then Some (Online c cl) else None)"
| "phase_step a ph (Published b c) =
     (if b \<noteq> a then Some ph else case ph of Online d cl \<Rightarrow> (if d = c then Some ph else None) | _ \<Rightarrow> None)"
| "phase_step a ph (Disconnected b c) =
     (if b \<noteq> a then Some ph
      else case ph of Online d cl \<Rightarrow> (if d = c then Some (if cl then Cleaning c else Offline) else None) | _ \<Rightarrow> None)"
| "phase_step a ph (CleanedUp b c) =
     (if b \<noteq> a then Some ph else if ph = Cleaning c then Some Offline else None)"

fun phase_run :: "string \<Rightarrow> phase \<Rightarrow> am_event list \<Rightarrow> phase option" where
  "phase_run a ph [] = Some ph"
| "phase_run a ph (e # es) = (case phase_step a ph e of None \<Rightarrow> None | Some ph' \<Rightarrow> phase_run a ph' es)"

definition current_phase :: "agent_manager \<Rightarrow> string \<Rightarrow> phase" where
  "current_phase m a =
     (case map_of (am_conns m) a of None \<Rightarrow> Offline | Some c \<Rightarrow> Online c (map_of (am_cleanups m) a = Some True))"

text \<open>
  The steps of the manager. \<open>conn_grows\<close> is what any use of a connection may do to it: its asset
  stays, and a rejected or closed connection stays so, with no further frame sent.
\<close>

definition conn_grows :: "agent_conn \<Rightarrow> agent_conn \<Rightarrow> bool" where
  "conn_grows c c' =
     (ac_asset_id c' = ac_asset_id c \<and> (ac_done c \<longrightarrow> ac_done c') \<and>
      (ac_rejected c \<longrightarrow> ac_rejected c' \<and> ac_sent c' = ac_sent c \<and> ac_pings c' = ac_pings c))"

inductive am_step :: "int \<Rightarrow> int \<Rightarrow> agent_manager \<Rightarrow> agent_manager \<Rightarrow> bool" for G L where
  register: "am_step G L m (RegisterWithLifecycle m conn cleanup publish)"
| unregister: "am_step G L m (snd (UnregisterIfMatch m assetID expectedConn))"
| dispatch: "(\<And>m. \<exists>h. handle m = m\<lparr>am_heap := h\<rparr> \<and> (\<forall>c. conn_grows (am_heap m c) (h c))) \<Longrightarrow>
    am_step G L m (snd (DispatchIfCurrent m conn handle))"
| send: "am_step G L m (snd (SendToAgent write_err m now assetID msg))"
| use_conn: "conn_grows (am_heap m c) c' \<Longrightarrow> am_step G L m (m\<lparr>am_heap := (am_heap m)(c := c')\<rparr>)"
| reserve: "am_step G L m (snd (TryReserveAdmission m key G L))"
| release: "am_step G L m (release_admission m ticket)"

definition session_inv :: "agent_manager \<Rightarrow> bool" where
  "session_inv m =
     ((\<forall>a. phase_run a Offline (am_events m) = Some (current_phase m a)) \<and>
      (\<forall>a c. map_of (am_conns m) a = Some c \<longrightarrow> ac_asset_id (am_heap m c) = a) \<and>
      (\<forall>a c. Disconnected a c \<in> set (am_events m) \<longrightarrow> ac_done (am_heap m c) \<and> ac_rejected (am_heap m c)))"

definition admission_inv :: "int \<Rightarrow> int \<Rightarrow> agent_manager \<Rightarrow> bool" where
  "admission_inv G L m =
     (am_admissions m = int (length (am_tickets m)) \<and> am_admissions m \<le> max 0 G \<and>
      distinct (map fst (am_tickets m)) \<and> (\<forall>t \<in> set (am_tickets m). fst t < am_next_ticket m) \<and>
      (\<forall>k. key_count (am_admissions_by_key m) k = int (length (filter (\<lambda>t. snd t = k) (am_tickets m)))) \<and>
      (\<forall>k. int (length (filter (\<lambda>t. snd t = k) (am_tickets m))) \<le> max 0 L))"

section \<open>Lemmas\<close>

lemma phase_run_append:
  "phase_run a ph (es @ es') = (case phase_run a ph es of None \<Rightarrow> None | Some ph' \<Rightarrow> phase_run a ph' es')"
  by (induction es arbitrary: ph) (auto split: option.split)

lemma conn_grows_refl [simp]: "conn_grows c c"
  by (simp add: conn_grows_def)

lemma conn_grows_Close [simp]: "conn_grows c (Close c)"
  by (simp add: conn_grows_def Close_def)

lemma Send_grows: "conn_grows c (snd (Send write_err c now msg))"
  by (simp add: Send_def SendContext_def checkCredentialForWrite_def ValidateCredential_def Let_def
      conn_grows_def split: option.split)

lemma rejected_send:
  "ac_rejected c \<Longrightarrow> SendContext (None, e2, e3) write_err c now msg = (Some ErrAgentCredentialRejected, c)"
  by (simp add: SendContext_def checkCredentialForWrite_def)

lemma rejected_ping: "ac_rejected c \<Longrightarrow> WritePing write_err c now = (Some ErrAgentCredentialRejected, c)"
  by (simp add: WritePing_def checkCredentialForWrite_def)

lemma current_phase_frame [simp]:
  "current_phase (m\<lparr>am_heap := h\<rparr>) a = current_phase m a"
  "current_phase (m\<lparr>am_events := es\<rparr>) a = current_phase m a"
  "current_phase (m\<lparr>am_admissions := n\<rparr>) a = current_phase m a"
  "current_phase (m\<lparr>am_admissions_by_key := ks\<rparr>) a = current_phase m a"
  "current_phase (m\<lparr>am_tickets := ts\<rparr>) a = current_phase m a"
  "current_phase (m\<lparr>am_next_ticket := t\<rparr>) a = current_phase m a"
  by (simp_all add: current_phase_def split: option.split)

lemma session_inv_run: "session_inv m \<Longrightarrow> phase_run a Offline (am_events m) = Some (current_phase m a)"
  by (simp add: session_inv_def)

lemma session_inv_asset:
  "session_inv m \<Longrightarrow> map_of (am_conns m) a = Some c \<Longrightarrow> ac_asset_id (am_heap m c) = a"
  by (simp add: session_inv_def)

lemma session_inv_closed:
  "session_inv m \<Longrightarrow> Disconnected a c \<in> set (am_events m) \<Longrightarrow> ac_done (am_heap m c) \<and> ac_rejected (am_heap m c)"
  unfolding session_inv_def by blast

lemma session_invI:
  assumes "\<And>a. phase_run a Offline (am_events m) = Some (current_phase m a)"
    and "\<And>a c. map_of (am_conns m) a = Some c \<Longrightarrow> ac_asset_id (am_heap m c) = a"
    and "\<And>a c. Disconnected a c \<in> set (am_events m) \<Longrightarrow> ac_done (am_heap m c) \<and> ac_rejected (am_heap m c)"
  shows "session_inv m"
  using assms unfolding session_inv_def by blast

lemma session_inv_heap:
  assumes "session_inv m" "\<And>c. conn_grows (am_heap m c) (h c)"
  shows "session_inv (m\<lparr>am_heap := h\<rparr>)"
  using assms unfolding session_inv_def conn_grows_def by simp

lemma unregister_session_inv:
  assumes inv: "session_inv m"
  shows "session_inv (snd (unregisterInLifecycle m a e))"
proof (cases "map_of (am_conns m) a")
  case None
  with inv show ?thesis by (simp add: unregisterInLifecycle_def)
next
  case (Some c)
  have run: "phase_run x Offline (am_events m) = Some (current_phase m x)" for x
    using inv by (simp add: session_inv_def)
  show ?thesis
    using inv Some
    by (auto simp: unregisterInLifecycle_def session_inv_def log_event_def close_conn_def Let_def
        phase_run_append current_phase_def Close_def run split: option.split)
qed

lemma unregister_None: "map_of (am_conns (snd (unregisterInLifecycle m a None))) a = None"
  by (auto simp: unregisterInLifecycle_def log_event_def close_conn_def Let_def split: option.split)

lemma unregister_asset [simp]:
  "ac_asset_id (am_heap (snd (unregisterInLifecycle m a e)) c) = ac_asset_id (am_heap m c)"
  by (auto simp: unregisterInLifecycle_def log_event_def close_conn_def Close_def Let_def split: option.split)

lemma register_session_inv:
  assumes "session_inv m"
  shows "session_inv (RegisterWithLifecycle m c cleanup publish)"
proof (cases "Get m (ac_asset_id (am_heap m c)) = Some c")
  case True
  with assms show ?thesis by (simp add: RegisterWithLifecycle_def)
next
  case False
  let ?a = "ac_asset_id (am_heap m c)"
  let ?m' = "RegisterWithLifecycle m c cleanup publish"
  obtain u where u: "u = snd (unregisterInLifecycle m ?a None)" by blast
  have inv: "session_inv u" unfolding u by (rule unregister_session_inv [OF assms])
  have asset: "ac_asset_id (am_heap u x) = ac_asset_id (am_heap m x)" for x by (simp add: u)
  have m': "am_events ?m' = am_events u @ Connected ?a c cleanup # (if publish then [Published ?a c] else [])"
    "am_heap ?m' = am_heap u" "am_conns ?m' = AList.update ?a c (am_conns u)"
    "am_cleanups ?m' = AList.update ?a cleanup (am_cleanups u)"
    using False by (simp_all add: RegisterWithLifecycle_def Let_def log_event_def u)
  have "current_phase u ?a = Offline" by (simp add: current_phase_def unregister_None u)
  then show ?thesis
    using session_inv_run [OF inv] session_inv_asset [OF inv] session_inv_closed [OF inv]
    by (intro session_invI)
      (auto simp: m' phase_run_append asset current_phase_def split: if_split_asm option.split)
qed

lemma dispatch_session_inv:
  assumes "session_inv m"
    and "\<exists>h. handle m = m\<lparr>am_heap := h\<rparr> \<and> (\<forall>c. conn_grows (am_heap m c) (h c))"
  shows "session_inv (snd (DispatchIfCurrent m conn handle))"
proof -
  have "session_inv (handle m)" using assms session_inv_heap by metis
  with assms(1) show ?thesis
    by (simp add: DispatchIfCurrent_def Let_def unregister_session_inv)
qed

lemma send_session_inv:
  assumes "session_inv m"
  shows "session_inv (snd (SendToAgent write_err m now a msg))"
proof (cases "Get m a")
  case (Some c)
  have "session_inv (m\<lparr>am_heap := (am_heap m)(c := snd (Send write_err (am_heap m c) now msg))\<rparr>)"
    by (rule session_inv_heap [OF assms]) (simp add: Send_grows)
  with Some show ?thesis by (simp add: SendToAgent_def split_beta)
qed (use assms in \<open>simp add: SendToAgent_def\<close>)

lemma admission_session_inv:
  "session_inv m \<Longrightarrow> session_inv (snd (TryReserveAdmission m key G L))"
  "session_inv m \<Longrightarrow> session_inv (release_admission m ticket)"
  by (auto simp: TryReserveAdmission_def release_admission_def session_inv_def Let_def split: option.split)

lemma am_step_session_inv: "am_step G L m m' \<Longrightarrow> session_inv m \<Longrightarrow> session_inv m'"
proof (induction rule: am_step.induct)
  case (dispatch handle m conn)
  then show ?case by (intro dispatch_session_inv)
next
  case (use_conn m c c')
  then show ?case by (intro session_inv_heap) (simp_all add: fun_upd_apply)
qed (simp_all add: register_session_inv UnregisterIfMatch_def unregister_session_inv send_session_inv
      admission_session_inv)

lemma am_run_session_inv:
  assumes "(am_step G L)\<^sup>*\<^sup>* (NewManager heap) m"
  shows "session_inv m"
proof -
  have "session_inv (NewManager heap)"
    by (rule session_invI) (simp_all add: NewManager_def current_phase_def)
  with assms show ?thesis
    by (induction rule: rtranclp_induct) (auto intro: am_step_session_inv)
qed

text \<open>Only the two admission operations touch the counters.\<close>

lemma admission_frame:
  assumes "am_admissions m' = am_admissions m" "am_admissions_by_key m' = am_admissions_by_key m"
    "am_tickets m' = am_tickets m" "am_next_ticket m' = am_next_ticket m"
  shows "admission_inv G L m' = admission_inv G L m"
  by (simp add: admission_inv_def assms)

lemma unregister_admission [simp]:
  "admission_inv G L (snd (unregisterInLifecycle m a e)) = admission_inv G L m"
  by (rule admission_frame)
    (auto simp: unregisterInLifecycle_def log_event_def close_conn_def Let_def split: option.split)

lemma register_admission [simp]:
  "admission_inv G L (RegisterWithLifecycle m c cleanup publish) = admission_inv G L m"
proof -
  have "admission_inv G L (RegisterWithLifecycle m c cleanup publish) =
      admission_inv G L (if Get m (ac_asset_id (am_heap m c)) = Some c then m
        else snd (unregisterInLifecycle m (ac_asset_id (am_heap m c)) None))"
    by (rule admission_frame) (simp_all add: RegisterWithLifecycle_def Let_def log_event_def)
  then show ?thesis by simp
qed

lemma key_count_alist:
  "key_count (AList.update k n ks) a = (if a = k then n else key_count ks a)"
  "key_count (AList.delete k ks) a = (if a = k then 0 else key_count ks a)"
  by (simp_all add: key_count_def)

lemma reserve_admission_inv:
  assumes "admission_inv G L m"
  shows "admission_inv G L (snd (TryReserveAdmission m key G L))"
proof -
  have "am_next_ticket m \<notin> fst ` set (am_tickets m)"
    using assms by (auto simp: admission_inv_def)
  with assms show ?thesis
    by (auto simp: TryReserveAdmission_def Let_def admission_inv_def key_count_alist)
qed

lemma delete_ticket:
  assumes "distinct (map fst ts)" "map_of ts t = Some k"
  shows "length ts = Suc (length (AList.delete t ts))"
    and "length (filter (\<lambda>x. snd x = a) ts) =
         (if a = k then 1 else 0) + length (filter (\<lambda>x. snd x = a) (AList.delete t ts))"
  using assms
proof (induction ts)
  case (Cons x ts)
  { case 1 then show ?case using Cons.IH(1) by (cases x) auto }
  { case 2 then show ?case using Cons.IH(2) by (cases x) auto }
qed simp_all

lemma release_admission_inv:
  assumes "admission_inv G L m"
  shows "admission_inv G L (release_admission m ticket)"
proof (cases "map_of (am_tickets m) ticket")
  case (Some k)
  have d: "distinct (map fst (am_tickets m))" using assms by (simp add: admission_inv_def)
  note len = delete_ticket(1) [OF d Some] and cnt = delete_ticket(2) [OF d Some]
  have lim: "int (length (filter (\<lambda>t. snd t = a) (AList.delete ticket (am_tickets m)))) \<le> max 0 L" for a
  proof -
    have "int (length (filter (\<lambda>t. snd t = a) (am_tickets m))) \<le> max 0 L"
      using assms by (simp add: admission_inv_def)
    with cnt [of a] show ?thesis by (cases "a = k") simp_all
  qed
  have "key_count (am_admissions_by_key m) k \<le> 1 \<longleftrightarrow>
      length (filter (\<lambda>x. snd x = k) (AList.delete ticket (am_tickets m))) = 0"
    using assms cnt [of k] by (simp add: admission_inv_def)
  moreover have "set (AList.delete ticket (am_tickets m)) \<subseteq> set (am_tickets m)"
    by (auto simp: AList.delete_eq)
  moreover have "distinct (map fst (AList.delete ticket (am_tickets m)))"
    using d by (simp add: distinct_delete)
  ultimately show ?thesis
    using assms Some len cnt lim
    by (auto simp: release_admission_def admission_inv_def key_count_alist)
qed (use assms in \<open>simp add: release_admission_def\<close>)

lemma am_step_admission_inv: "am_step G L m m' \<Longrightarrow> admission_inv G L m \<Longrightarrow> admission_inv G L m'"
proof (induction rule: am_step.induct)
  case (dispatch handle m conn)
  then obtain h where "handle m = m\<lparr>am_heap := h\<rparr>" by blast
  then have "admission_inv G L (handle m)"
    using dispatch.prems by (simp add: admission_frame [of "m\<lparr>am_heap := h\<rparr>" m])
  with dispatch.prems show ?case by (simp add: DispatchIfCurrent_def Let_def)
next
  case (send m write_err now assetID msg)
  have "admission_inv G L (snd (SendToAgent write_err m now assetID msg)) = admission_inv G L m"
    by (rule admission_frame) (simp_all add: SendToAgent_def split_beta split: option.split)
  with send show ?case by simp
next
  case (use_conn m c c')
  then show ?case using admission_frame [of "m\<lparr>am_heap := (am_heap m)(c := c')\<rparr>" m] by simp
qed (simp_all add: UnregisterIfMatch_def reserve_admission_inv release_admission_inv)

section \<open>Properties\<close>

text \<open>
  C9: The registry keeps the session protocol of every asset, in every reachable state: its events
  form an alternation of connect and disconnect in which each registered cleanup runs exactly once,
  directly after its disconnect and before a replacement is connected or published; the current
  connection is the one the registry holds, and it belongs to that asset.
\<close>

theorem asset_sessions_follow_protocol:
  assumes "(am_step G L)\<^sup>*\<^sup>* (NewManager heap) m"
  shows "phase_run a Offline (am_events m) =
      Some (case Get m a of None \<Rightarrow> Offline | Some c \<Rightarrow> Online c (map_of (am_cleanups m) a = Some True)) \<and>
    (case Get m a of None \<Rightarrow> True | Some c \<Rightarrow> ac_asset_id (am_heap m c) = a)"
proof -
  have "session_inv m" by (rule am_run_session_inv [OF assms])
  then show ?thesis
    using session_inv_run [of m a] session_inv_asset [of m a]
    by (simp add: Get_def current_phase_def split: option.split)
qed

definition example_heap :: "conn_ref \<Rightarrow> agent_conn" where
  "example_heap c = NewAgentConn 0 ''srv1'' ''linux''"

definition example_manager :: agent_manager where
  "example_manager = RegisterWithLifecycle (RegisterWithLifecycle (NewManager example_heap) 1 True True) 2 True True"

lemma example_manager_reachable: "(am_step G L)\<^sup>*\<^sup>* (NewManager example_heap) example_manager"
  unfolding example_manager_def
  by (rule converse_rtranclp_into_rtranclp [OF am_step.register r_into_rtranclp [of "am_step G L", OF am_step.register]])

theorem asset_sessions_follow_protocol_witness:
  "am_events example_manager =
     [Connected ''srv1'' 1 True, Published ''srv1'' 1, Disconnected ''srv1'' 1, CleanedUp ''srv1'' 1,
      Connected ''srv1'' 2 True, Published ''srv1'' 2] \<and>
   phase_run ''srv1'' Offline (am_events example_manager) = Some (Online 2 True)"
proof
  show "am_events example_manager =
     [Connected ''srv1'' 1 True, Published ''srv1'' 1, Disconnected ''srv1'' 1, CleanedUp ''srv1'' 1,
      Connected ''srv1'' 2 True, Published ''srv1'' 2]"
    by code_simp
  have "Get example_manager ''srv1'' = Some 2" "map_of (am_cleanups example_manager) ''srv1'' = Some True"
    by (code_simp, code_simp)
  then show "phase_run ''srv1'' Offline (am_events example_manager) = Some (Online 2 True)"
    using asset_sessions_follow_protocol [OF example_manager_reachable [of 1 1], of "''srv1''"] by simp
qed

text \<open>
  A disconnected connection is dead: in every reachable state a connection with a disconnect
  event is closed and rejected, and a send or a ping on it fails without writing a frame.
\<close>

lemma disconnected_conn_sends_nothing:
  assumes "(am_step G L)\<^sup>*\<^sup>* (NewManager heap) m" "Disconnected a c \<in> set (am_events m)"
  shows "ac_done (am_heap m c) \<and>
    SendContext (None, e2, e3) write_err (am_heap m c) now msg =
      (Some ErrAgentCredentialRejected, am_heap m c) \<and>
    WritePing write_err (am_heap m c) now = (Some ErrAgentCredentialRejected, am_heap m c)"
proof -
  from session_inv_closed [OF am_run_session_inv [OF assms(1)] assms(2)] show ?thesis
    by (simp add: rejected_send rejected_ping)
qed

text \<open>
  C10: Admission control counts exactly: in every reachable state the global counter is the number
  of reservations not yet released and each source counter the number of those of that source, so
  that neither exceeds its limit, however often a release is called.
\<close>

theorem admissions_are_exact_and_bounded:
  assumes "(am_step G L)\<^sup>*\<^sup>* (NewManager heap) m" "0 < G" "0 < L"
  shows "AdmissionCount m = int (length (am_tickets m)) \<and> AdmissionCount m \<le> G \<and>
    key_count (am_admissions_by_key m) k = int (length (filter (\<lambda>t. snd t = k) (am_tickets m))) \<and>
    key_count (am_admissions_by_key m) k \<le> L"
proof -
  have "admission_inv G L (NewManager heap)"
    by (simp add: admission_inv_def NewManager_def key_count_def)
  with assms(1) have "admission_inv G L m"
    by (induction rule: rtranclp_induct) (auto intro: am_step_admission_inv)
  with assms(2,3) show ?thesis by (simp add: admission_inv_def AdmissionCount_def)
qed

theorem admissions_are_exact_and_bounded_witness:
  "let m = snd (TryReserveAdmission (NewManager example_heap) '' 10.0.0.1 '' 5 2)
   in AdmissionCount m = 1 \<and> key_count (am_admissions_by_key m) ''10.0.0.1'' \<le> 2"
proof -
  let ?m = "snd (TryReserveAdmission (NewManager example_heap) '' 10.0.0.1 '' 5 2)"
  have "(am_step 5 2)\<^sup>*\<^sup>* (NewManager example_heap) ?m"
    by (rule r_into_rtranclp) (rule am_step.reserve)
  moreover have "AdmissionCount ?m = 1" by code_simp
  ultimately show ?thesis
    using admissions_are_exact_and_bounded [of 5 2 example_heap ?m "''10.0.0.1''"] unfolding Let_def by simp
qed

end
