(* ===== verification/Power_Control.thy ===== *)
theory Power_Control
  imports Agent_Manager
begin

text \<open>
  Power actions (\<open>internal/powercontrol/coordinator.go\<close>) and their wire contract
  (\<open>internal/agentmgr/protocol_power_compat.go\<close>).

  \<open>Execute\<close> waits between sending the action and its end, so it is two steps: \<open>execute_begin\<close> up to
  the wait, and \<open>execute_finish\<close> from the case that the select statement takes. Between them other
  requests run and \<open>HandleResult\<close> delivers agent results. The buffered result channel of a pending
  action is an optional result, the admission channel is its fill level. The agent manager is
  reached through the interface \<open>Sender\<close>; the strict JSON decoder and the JSON encoder are
  arguments.
\<close>

section \<open>Wire contract\<close>

definition MsgPowerAction :: string where "MsgPowerAction = ''power.action''"
definition MsgPowerResult :: string where "MsgPowerResult = ''power.result''"

definition PowerAction_Valid :: "string \<Rightarrow> bool" where
  "PowerAction_Valid a = (a = ''reboot'' \<or> a = ''shutdown'')"

definition PowerResultStatus_Valid :: "string \<Rightarrow> bool" where
  "PowerResultStatus_Valid s = (s \<in> set [''accepted'', ''unsupported'', ''rejected'', ''failed''])"

record power_action_data =
  pa_request_id :: string
  pa_asset_id :: string
  pa_action :: string

record power_result =
  pr_request_id :: string
  pr_asset_id :: string
  pr_action :: string
  pr_status :: string
  pr_code :: string
  pr_message :: string

definition zero_result :: power_result where
  "zero_result = \<lparr>pr_request_id = [], pr_asset_id = [], pr_action = [], pr_status = [], pr_code = [],
     pr_message = []\<rparr>"

definition PowerActionData_Validate :: "power_action_data \<Rightarrow> bool" where
  "PowerActionData_Validate d =
     (if trim_space (pa_request_id d) = [] \<or> length (pa_request_id d) > 128 then False
      else if trim_space (pa_asset_id d) = [] \<or> length (pa_asset_id d) > 256 then False
      else PowerAction_Valid (pa_action d))"

definition PowerResultData_Validate :: "power_result \<Rightarrow> bool" where
  "PowerResultData_Validate d =
     (if \<not> PowerActionData_Validate \<lparr>pa_request_id = pr_request_id d, pa_asset_id = pr_asset_id d,
             pa_action = pr_action d\<rparr> then False
      else if \<not> PowerResultStatus_Valid (pr_status d) then False
      else if length (pr_message d) > 256 then False
      else if pr_status d = ''accepted'' then pr_code d = []
      else if pr_status d = ''unsupported'' then pr_code d = ''unsupported_platform''
      else if pr_status d = ''rejected'' then
        pr_code d \<in> set [''invalid_request'', ''asset_mismatch'', ''capability_denied'', ''busy'']
      else if pr_status d = ''failed'' then
        pr_code d \<in> set [''execution_failed'', ''execution_timeout'']
      else True)"

section \<open>The coordinator\<close>

datatype error_kind =
  ErrorInvalid | ErrorAgentOffline | ErrorSendFailed | ErrorTimedOut | ErrorCanceled | ErrorBusy
| ErrorUnsupported | ErrorRejected | ErrorExecutionFail

record action_error =
  ae_kind :: error_kind
  ae_request_id :: string
  ae_code :: string
  ae_message :: string

record pending_action =
  pd_request_id :: string
  pd_asset_id :: string
  pd_action :: string
  pd_result :: "power_result option"
  pd_delivered :: bool

record coordinator =
  co_timeout :: duration
  co_capacity :: int
  co_in_flight :: int
  co_pending :: "(string \<times> pending_action) list"

record 's sender =
  sd_is_connected :: "'s \<Rightarrow> string \<Rightarrow> bool"
  sd_send :: "'s \<Rightarrow> string \<Rightarrow> message \<Rightarrow> bool \<times> 's"

definition DefaultActionTimeout :: duration where "DefaultActionTimeout = 15 * second"
definition DefaultMaxConcurrentActions :: int where "DefaultMaxConcurrentActions = 128"

definition NewWithLimit :: "duration \<Rightarrow> int \<Rightarrow> coordinator" where
  "NewWithLimit timeout maxConcurrent =
     \<lparr>co_timeout = (if timeout \<le> 0 then DefaultActionTimeout else timeout),
      co_capacity = (if maxConcurrent \<le> 0 then DefaultMaxConcurrentActions else maxConcurrent),
      co_in_flight = 0, co_pending = []\<rparr>"

definition NewCoordinator :: "duration \<Rightarrow> coordinator" where
  "NewCoordinator timeout = NewWithLimit timeout DefaultMaxConcurrentActions"

definition failure :: "error_kind \<Rightarrow> string \<Rightarrow> string \<Rightarrow> action_error" where
  "failure kind requestID msg =
     \<lparr>ae_kind = kind, ae_request_id = requestID, ae_code = [], ae_message = msg\<rparr>"

definition new_pending :: "string \<Rightarrow> string \<Rightarrow> string \<Rightarrow> pending_action" where
  "new_pending rid asset action =
     \<lparr>pd_request_id = rid, pd_asset_id = asset, pd_action = action, pd_result = None, pd_delivered = False\<rparr>"

definition admit :: "coordinator \<Rightarrow> coordinator" where
  "admit c = c\<lparr>co_in_flight := co_in_flight c + 1\<rparr>"

text \<open>The two deferred calls at the end of \<open>Execute\<close>: the pending entry and the admission go.\<close>

definition retire :: "coordinator \<Rightarrow> string \<Rightarrow> coordinator" where
  "retire c requestID =
     c\<lparr>co_pending := AList.delete requestID (co_pending c), co_in_flight := co_in_flight c - 1\<rparr>"

definition execute_begin ::
    "'s sender \<Rightarrow> (power_action_data \<Rightarrow> string option) \<Rightarrow> coordinator \<Rightarrow> 's \<Rightarrow> string \<Rightarrow> string \<Rightarrow> string \<Rightarrow>
     (power_result \<times> action_error, string) res \<times> coordinator \<times> 's" where
  "execute_begin sender marshal c s requestID assetID action =
     (let assetID = trim_space assetID
      in if assetID = [] \<or> length assetID > 256 \<or> \<not> PowerAction_Valid action
         then (Inl (zero_result, failure ErrorInvalid [] ''invalid power action request''), c, s)
         else if \<not> sd_is_connected sender s assetID
         then (Inl (zero_result, failure ErrorAgentOffline [] ''asset agent is not connected''), c, s)
         else if co_in_flight c \<ge> co_capacity c
         then (Inl (zero_result\<lparr>pr_asset_id := assetID, pr_action := action\<rparr>,
                    failure ErrorBusy [] ''too many power actions are already in progress''), c, s)
         else let c = admit c;
                  c = c\<lparr>co_pending := AList.update requestID (new_pending requestID assetID action)
                        (co_pending c)\<rparr>
              in case marshal \<lparr>pa_request_id = requestID, pa_asset_id = assetID, pa_action = action\<rparr> of
                   None \<Rightarrow> (Inl (zero_result, failure ErrorInvalid requestID ''failed to encode power action''),
                            retire c requestID, s)
                 | Some data \<Rightarrow>
                     (let (ok, s) = sd_send sender s assetID
                                \<lparr>msg_type = MsgPowerAction, msg_id = requestID, msg_data = data\<rparr>
                      in if \<not> ok
                         then (Inl (zero_result, failure ErrorSendFailed requestID
                                 ''failed to deliver power action to agent''), retire c requestID, s)
                         else (Inr requestID, c, s)))"

datatype wake = GotResult | CtxDone bool | TimerFired

definition result_outcome :: "string \<Rightarrow> power_result \<Rightarrow> action_error option" where
  "result_outcome requestID r =
     (let err = (\<lambda>kind. Some \<lparr>ae_kind = kind, ae_request_id = requestID, ae_code = pr_code r,
                              ae_message = pr_message r\<rparr>)
      in if pr_status r = ''accepted'' then None
         else if pr_status r = ''unsupported'' then err ErrorUnsupported
         else if pr_status r = ''rejected'' then err ErrorRejected
         else if pr_status r = ''failed'' then err ErrorExecutionFail
         else Some (failure ErrorExecutionFail requestID ''agent returned an invalid power result''))"

text \<open>
  The end of \<open>Execute\<close>; \<open>None\<close> when the case is not ready: no such request waits, or its channel is
  empty. The flag of \<open>CtxDone\<close> says that the context's deadline passed.
\<close>

definition execute_finish ::
    "coordinator \<Rightarrow> string \<Rightarrow> wake \<Rightarrow> ((power_result \<times> action_error option) \<times> coordinator) option" where
  "execute_finish c requestID w =
     (case map_of (co_pending c) requestID of
        None \<Rightarrow> None
      | Some p \<Rightarrow>
          (let blank = zero_result\<lparr>pr_request_id := requestID, pr_asset_id := pd_asset_id p,
                         pr_action := pd_action p\<rparr>
           in case w of
                GotResult \<Rightarrow>
                  (case pd_result p of
                     None \<Rightarrow> None
                   | Some r \<Rightarrow> Some ((r, result_outcome requestID r), retire c requestID))
              | CtxDone deadline \<Rightarrow>
                  Some ((blank, Some (if deadline
                     then failure ErrorTimedOut requestID ''timed out waiting for the agent power result''
                     else failure ErrorCanceled requestID ''power action request canceled'')),
                   retire c requestID)
              | TimerFired \<Rightarrow>
                  Some ((blank, Some (failure ErrorTimedOut requestID
                     ''timed out waiting for the agent power result'')), retire c requestID)))"

definition HandleResult ::
    "(string \<Rightarrow> power_result option) \<Rightarrow> coordinator \<Rightarrow> string \<Rightarrow> message \<Rightarrow> bool \<times> coordinator" where
  "HandleResult decodeStrict c connAssetID msg =
     (if msg_type msg \<noteq> MsgPowerResult then (False, c)
      else case decodeStrict (msg_data msg) of
        None \<Rightarrow> (False, c)
      | Some result \<Rightarrow>
          (if \<not> PowerResultData_Validate result then (False, c)
           else if msg_id msg = [] \<or> msg_id msg \<noteq> pr_request_id result then (False, c)
           else case map_of (co_pending c) (pr_request_id result) of
             None \<Rightarrow> (False, c)
           | Some p \<Rightarrow>
               (if connAssetID \<noteq> pd_asset_id p \<or> pr_asset_id result \<noteq> pd_asset_id p \<or>
                   pr_action result \<noteq> pd_action p \<or> pr_request_id result \<noteq> pd_request_id p
                then (False, c)
                else if pd_delivered p then (False, c)
                else (True, c\<lparr>co_pending := AList.update (pr_request_id result)
                       (p\<lparr>pd_delivered := True, pd_result := Some result\<rparr>) (co_pending c)\<rparr>))))"

section \<open>Runs\<close>

text \<open>
  The steps of a coordinator with fresh request ids. The ghost list \<open>log\<close> collects the deliveries:
  the asset of the connection and the result that \<open>HandleResult\<close> accepted.
\<close>

type_synonym delivery = "string \<times> power_result"

inductive power_step ::
    "'s sender \<Rightarrow> (power_action_data \<Rightarrow> string option) \<Rightarrow> (string \<Rightarrow> power_result option) \<Rightarrow>
     coordinator \<times> string list \<times> delivery list \<Rightarrow> coordinator \<times> string list \<times> delivery list \<Rightarrow> bool"
  for sender marshal decode where
  begin_step: "rid \<notin> set used \<Longrightarrow> execute_begin sender marshal c s rid asset action = (r, c', s') \<Longrightarrow>
     power_step sender marshal decode (c, used, log) (c', rid # used, log)"
| result_step: "HandleResult decode c conn msg = (ok, c') \<Longrightarrow>
     log' = (if ok then log @ [(conn, the (decode (msg_data msg)))] else log) \<Longrightarrow>
     power_step sender marshal decode (c, used, log) (c', used, log')"
| finish_step: "execute_finish c rid w = Some (out, c') \<Longrightarrow>
     power_step sender marshal decode (c, used, log) (c', used, log)"

definition pending_ok :: "delivery list \<Rightarrow> string \<Rightarrow> pending_action \<Rightarrow> bool" where
  "pending_ok log rid p =
     (pd_request_id p = rid \<and> (pd_delivered p = (pd_result p \<noteq> None)) \<and>
      (\<forall>r. pd_result p = Some r \<longrightarrow> PowerResultData_Validate r \<and> pr_request_id r = rid \<and>
         pr_asset_id r = pd_asset_id p \<and> pr_action r = pd_action p \<and> (pd_asset_id p, r) \<in> set log) \<and>
      (pd_result p = None \<longrightarrow> rid \<notin> (\<lambda>(_, r). pr_request_id r) ` set log))"

definition power_inv :: "coordinator \<times> string list \<times> delivery list \<Rightarrow> bool" where
  "power_inv st =
     (case st of (c, used, log) \<Rightarrow>
        distinct (map fst (co_pending c)) \<and> fst ` set (co_pending c) \<subseteq> set used \<and>
        (\<forall>rid p. map_of (co_pending c) rid = Some p \<longrightarrow> pending_ok log rid p) \<and>
        co_in_flight c = int (length (co_pending c)) \<and>
        0 < co_capacity c \<and> co_in_flight c \<le> co_capacity c \<and>
        distinct (map (\<lambda>(_, r). pr_request_id r) log) \<and>
        (\<lambda>(_, r). pr_request_id r) ` set log \<subseteq> set used)"

section \<open>Lemmas\<close>

text \<open>A request either ends at once and leaves the coordinator as it was, or waits.\<close>

lemma execute_begin_cases:
  assumes "execute_begin sender marshal c s rid asset action = (r, c', s')" "rid \<notin> fst ` set (co_pending c)"
  obtains (ended) res e where "r = Inl (res, e)" "c' = c"
  | (waits) data where "r = Inr rid" "co_in_flight c < co_capacity c"
    "c' = c\<lparr>co_in_flight := co_in_flight c + 1,
           co_pending := AList.update rid (new_pending rid (trim_space asset) action) (co_pending c)\<rparr>"
    "sd_send sender s (trim_space asset)
       \<lparr>msg_type = MsgPowerAction, msg_id = rid, msg_data = data\<rparr> = (True, s')"
    "marshal \<lparr>pa_request_id = rid, pa_asset_id = trim_space asset, pa_action = action\<rparr> = Some data"
proof (cases "trim_space asset = [] \<or> length (trim_space asset) > 256 \<or> \<not> PowerAction_Valid action \<or>
    \<not> sd_is_connected sender s (trim_space asset) \<or> co_in_flight c \<ge> co_capacity c")
  case True
  then have "\<exists>res e. r = Inl (res, e) \<and> c' = c"
    using assms(1) unfolding execute_begin_def Let_def by (auto split: if_split_asm)
  with ended show ?thesis by blast
next
  case False
  let ?a = "trim_space asset"
  let ?c = "(admit c)\<lparr>co_pending := AList.update rid (new_pending rid ?a action) (co_pending (admit c))\<rparr>"
  have undo: "retire ?c rid = c"
    using assms(2) by (simp add: retire_def admit_def delete_update_fresh)
  have eq: "execute_begin sender marshal c s rid asset action =
     (case marshal \<lparr>pa_request_id = rid, pa_asset_id = ?a, pa_action = action\<rparr> of
        None \<Rightarrow> (Inl (zero_result, failure ErrorInvalid rid ''failed to encode power action''), c, s)
      | Some data \<Rightarrow>
          (let (ok, s) = sd_send sender s ?a \<lparr>msg_type = MsgPowerAction, msg_id = rid, msg_data = data\<rparr>
           in if \<not> ok then (Inl (zero_result, failure ErrorSendFailed rid
                ''failed to deliver power action to agent''), c, s) else (Inr rid, ?c, s)))"
    using False unfolding execute_begin_def Let_def undo by simp
  show ?thesis
  proof (cases "marshal \<lparr>pa_request_id = rid, pa_asset_id = ?a, pa_action = action\<rparr>")
    case None
    with eq assms(1) ended show ?thesis by simp
  next
    case (Some data)
    obtain ok s2 where send: "sd_send sender s ?a
        \<lparr>msg_type = MsgPowerAction, msg_id = rid, msg_data = data\<rparr> = (ok, s2)" by fastforce
    show ?thesis
    proof (cases ok)
      case True
      have "co_in_flight c < co_capacity c" using False by simp
      with True eq assms(1) Some send waits [of data] show ?thesis by (simp add: admit_def)
    next
      case False
      with eq assms(1) Some send ended show ?thesis by simp
    qed
  qed
qed

lemma HandleResult_cases:
  assumes "HandleResult decode c conn msg = (ok, c')"
  obtains (dropped) "\<not> ok" "c' = c"
  | (delivered) r p where "ok" "decode (msg_data msg) = Some r" "PowerResultData_Validate r"
    "msg_id msg = pr_request_id r" "map_of (co_pending c) (pr_request_id r) = Some p"
    "conn = pd_asset_id p" "pr_asset_id r = pd_asset_id p" "pr_action r = pd_action p"
    "\<not> pd_delivered p"
    "c' = c\<lparr>co_pending := AList.update (pr_request_id r)
             (p\<lparr>pd_delivered := True, pd_result := Some r\<rparr>) (co_pending c)\<rparr>"
proof (cases "decode (msg_data msg)")
  case None
  with assms dropped show ?thesis by (simp add: HandleResult_def split: if_split_asm)
next
  case (Some r)
  show ?thesis
  proof (cases "map_of (co_pending c) (pr_request_id r)")
    case None
    with Some assms dropped show ?thesis by (simp add: HandleResult_def split: if_split_asm)
  next
    case p: (Some p)
    let ?good = "msg_type msg = MsgPowerResult \<and> PowerResultData_Validate r \<and> msg_id msg \<noteq> [] \<and>
      msg_id msg = pr_request_id r \<and> conn = pd_asset_id p \<and> pr_asset_id r = pd_asset_id p \<and>
      pr_action r = pd_action p \<and> pr_request_id r = pd_request_id p \<and> \<not> pd_delivered p"
    show ?thesis
    proof (cases ?good)
      case True
      then have "HandleResult decode c conn msg = (True, c\<lparr>co_pending := AList.update (pr_request_id r)
             (p\<lparr>pd_delivered := True, pd_result := Some r\<rparr>) (co_pending c)\<rparr>)"
        using Some p unfolding HandleResult_def by auto
      with True Some p assms delivered [of r p] show ?thesis by simp
    next
      case False
      then have "HandleResult decode c conn msg = (False, c)"
        using Some p unfolding HandleResult_def by auto
      with assms dropped show ?thesis by simp
    qed
  qed
qed

lemma execute_finish_retires:
  "execute_finish c rid w = Some (out, c') \<Longrightarrow>
     (\<exists>p. map_of (co_pending c) rid = Some p) \<and> c' = retire c rid"
  by (auto simp: execute_finish_def Let_def split: option.split_asm wake.split_asm)

lemma power_inv_begin:
  assumes inv: "power_inv (c, used, log)" and fresh: "rid \<notin> set used"
    and step: "execute_begin sender marshal c s rid asset action = (r, c', s')"
  shows "power_inv (c', rid # used, log)"
proof -
  have new: "rid \<notin> fst ` set (co_pending c)" using inv fresh by (auto simp: power_inv_def)
  from step new show ?thesis
  proof (cases rule: execute_begin_cases)
    case (ended res e)
    with inv show ?thesis by (auto simp: power_inv_def)
  next
    case (waits data)
    have "map_of (co_pending c) rid = None" using new by (simp add: map_of_eq_None_iff)
    moreover have "pending_ok log rid (new_pending rid (trim_space asset) action)"
      using inv fresh by (auto simp: pending_ok_def new_pending_def power_inv_def)
    ultimately show ?thesis
      using inv waits(2)
      by (auto simp: waits(3) power_inv_def length_alist_update distinct_update alist_update_keys)
  qed
qed

lemma power_inv_result:
  assumes inv: "power_inv (c, used, log)" and step: "HandleResult decode c conn msg = (ok, c')"
    and log': "log' = (if ok then log @ [(conn, the (decode (msg_data msg)))] else log)"
  shows "power_inv (c', used, log')"
  using step
proof (cases rule: HandleResult_cases)
  case dropped
  with inv log' show ?thesis by simp
next
  case (delivered r p)
  let ?rid = "pr_request_id r"
  have p: "pending_ok log ?rid p" using inv delivered(5) by (auto simp: power_inv_def)
  then have none: "pd_result p = None" "?rid \<notin> (\<lambda>(_, r). pr_request_id r) ` set log"
    using delivered(9) by (auto simp: pending_ok_def)
  have used: "?rid \<in> set used"
    using inv delivered(5) by (auto simp: power_inv_def dest!: map_of_SomeD)
  have l: "log' = log @ [(pd_asset_id p, r)]" using log' delivered by simp
  have "pending_ok log' ?rid (p\<lparr>pd_delivered := True, pd_result := Some r\<rparr>)"
    using p delivered(3,7,8) by (auto simp: pending_ok_def l)
  moreover have "pending_ok log' k q" if "map_of (co_pending c) k = Some q" "k \<noteq> ?rid" for k q
    using inv that by (auto simp: power_inv_def pending_ok_def l)
  ultimately show ?thesis
    using inv none(2) used delivered(5)
    by (auto simp: delivered(10) power_inv_def length_alist_update distinct_update alist_update_keys l
        dest: map_of_SomeD)
qed

lemma power_inv_finish:
  assumes inv: "power_inv (c, used, log)" and "execute_finish c rid w = Some (out, c')"
  shows "power_inv (c', used, log)"
proof -
  obtain p where p: "map_of (co_pending c) rid = Some p" "c' = retire c rid"
    using execute_finish_retires [OF assms(2)] by blast
  have d: "distinct (map fst (co_pending c))" using inv by (simp add: power_inv_def)
  have "Suc (length (AList.delete rid (co_pending c))) = length (co_pending c)"
    using d p(1) by (intro length_alist_delete) auto
  moreover have "distinct (map fst (AList.delete rid (co_pending c)))" using d by (simp add: distinct_delete)
  ultimately show ?thesis
    using inv alist_delete_subset [of rid "co_pending c"]
    by (auto simp: power_inv_def p(2) retire_def)
qed

lemma power_step_inv: "power_step sender marshal decode st st' \<Longrightarrow> power_inv st \<Longrightarrow> power_inv st'"
  by (induction rule: power_step.induct) (auto intro: power_inv_begin power_inv_result power_inv_finish)

lemma power_inv_new: "power_inv (NewWithLimit timeout limit, [], [])"
  by (simp add: power_inv_def NewWithLimit_def DefaultMaxConcurrentActions_def)

lemma power_run_inv:
  "(power_step sender marshal decode)\<^sup>*\<^sup>* (NewWithLimit timeout limit, [], []) st \<Longrightarrow> power_inv st"
  by (induction rule: rtranclp_induct) (auto intro: power_inv_new power_step_inv)

lemma filter_key_unique:
  "distinct (map f xs) \<Longrightarrow> x \<in> set xs \<Longrightarrow> f x = k \<Longrightarrow> filter (\<lambda>y. f y = k) xs = [x]"
proof (induction xs)
  case (Cons y xs)
  then show ?case by (cases "y = x") (auto simp: filter_empty_conv image_iff)
qed simp

lemma power_inv_pending:
  "power_inv (c, used, log) \<Longrightarrow> map_of (co_pending c) rid = Some p \<Longrightarrow> pending_ok log rid p"
  by (simp add: power_inv_def)

lemma accepted_outcome: "result_outcome rid r = None \<longleftrightarrow> pr_status r = ''accepted''"
  by (simp add: result_outcome_def Let_def)

lemma execute_finish_success:
  assumes "execute_finish c rid w = Some ((r, None), c')"
  shows "\<exists>p. map_of (co_pending c) rid = Some p \<and> w = GotResult \<and> pd_result p = Some r \<and> pr_status r = ''accepted''"
  using assms
  by (auto simp: execute_finish_def Let_def accepted_outcome split: option.split_asm wake.split_asm)

section \<open>The contract of the agent manager\<close>

text \<open>
  What \<open>Execute\<close> relies on of its \<open>Sender\<close>: \<open>frames s a\<close> are the frames written on the current
  connection of asset \<open>a\<close>, if it has one. A successful send appends one frame to that asset's
  connection, a failed one writes nothing, and no other connection is touched.
\<close>

locale power_sender =
  fixes sender :: "'s sender" and frames :: "'s \<Rightarrow> string \<Rightarrow> message list option" and good :: "'s \<Rightarrow> bool"
  assumes connected: "sd_is_connected sender s a \<longleftrightarrow> frames s a \<noteq> None"
    and sent: "good s \<Longrightarrow> sd_send sender s a msg = (True, s') \<Longrightarrow>
        frames s' = (frames s)(a \<mapsto> the (frames s a) @ [msg])"
    and unsent: "good s \<Longrightarrow> sd_send sender s a msg = (False, s') \<Longrightarrow> frames s' = frames s"
    and kept: "good s \<Longrightarrow> sd_send sender s a msg = (ok, s') \<Longrightarrow> good s'"
begin

lemma begin_ended:
  assumes "good s" "execute_begin sender marshal c s rid asset action = (Inl (res, e), c', s')"
  shows "frames s' = frames s \<and> good s'"
proof (cases "trim_space asset = [] \<or> length (trim_space asset) > 256 \<or> \<not> PowerAction_Valid action \<or>
    \<not> sd_is_connected sender s (trim_space asset) \<or> co_in_flight c \<ge> co_capacity c \<or>
    marshal \<lparr>pa_request_id = rid, pa_asset_id = trim_space asset, pa_action = action\<rparr> = None")
  case True
  then have "s' = s"
    using assms(2) unfolding execute_begin_def Let_def by (auto split: if_split_asm)
  with assms(1) show ?thesis by simp
next
  case False
  then obtain data where
    data: "marshal \<lparr>pa_request_id = rid, pa_asset_id = trim_space asset, pa_action = action\<rparr> = Some data"
    by blast
  obtain ok s2 where send: "sd_send sender s (trim_space asset)
      \<lparr>msg_type = MsgPowerAction, msg_id = rid, msg_data = data\<rparr> = (ok, s2)" by fastforce
  have "\<not> ok \<and> s' = s2"
    using False data send assms(2) unfolding execute_begin_def Let_def by (auto split: if_split_asm)
  with send unsent [OF assms(1), of "trim_space asset"] kept [OF assms(1) send] show ?thesis by simp
qed

lemma begin_waits:
  assumes "good s" "execute_begin sender marshal c s rid asset action = (Inr rid', c', s')"
    and "rid \<notin> fst ` set (co_pending c)"
  shows "\<exists>data. marshal \<lparr>pa_request_id = rid, pa_asset_id = trim_space asset, pa_action = action\<rparr> = Some data \<and>
    frames s' = (frames s)(trim_space asset \<mapsto> the (frames s (trim_space asset)) @
        [\<lparr>msg_type = MsgPowerAction, msg_id = rid, msg_data = data\<rparr>]) \<and> good s'"
  using assms(2,3)
proof (cases rule: execute_begin_cases)
  case (waits data)
  from sent [OF assms(1) waits(4)] kept [OF assms(1) waits(4)] waits(5) show ?thesis by simp
qed simp

end

definition agent_sender :: "string option \<Rightarrow> gtime \<Rightarrow> agent_manager sender" where
  "agent_sender write_err now =
     \<lparr>sd_is_connected = IsConnected,
      sd_send = (\<lambda>m a msg. let (err, m') = SendToAgent write_err m now a msg in (err = None, m'))\<rparr>"

definition agent_frames :: "agent_manager \<Rightarrow> string \<Rightarrow> message list option" where
  "agent_frames m a = map_option (\<lambda>c. ac_sent (am_heap m c)) (Get m a)"

lemma Send_sent:
  "ac_sent (snd (Send write_err c now msg)) =
     (if fst (Send write_err c now msg) = None then ac_sent c @ [msg] else ac_sent c)"
  by (simp add: Send_def SendContext_def checkCredentialForWrite_def ValidateCredential_def Let_def
      split: option.split)

lemma SendToAgent_frames:
  assumes "session_inv m"
  shows "agent_frames (snd (SendToAgent write_err m now a msg)) =
    (if fst (SendToAgent write_err m now a msg) = None
     then (agent_frames m)(a \<mapsto> the (agent_frames m a) @ [msg]) else agent_frames m)"
proof (cases "Get m a")
  case None
  then show ?thesis by (simp add: SendToAgent_def)
next
  case (Some c)
  have other: "d \<noteq> c" if "map_of (am_conns m) b = Some d" "b \<noteq> a" for b d
    using that Some session_inv_asset [OF assms] unfolding Get_def by metis
  show ?thesis
    using Some other
    by (auto simp: SendToAgent_def split_beta agent_frames_def Get_def Send_sent fun_eq_iff
        intro!: map_option_cong)
qed

interpretation manager_sender: power_sender "agent_sender write_err now" agent_frames session_inv
proof
  show "sd_is_connected (agent_sender write_err now) s a \<longleftrightarrow> agent_frames s a \<noteq> None" for s a
    by (simp add: agent_sender_def IsConnected_def agent_frames_def Get_def)
next
  fix s s' :: agent_manager and a msg assume "session_inv s"
    and "sd_send (agent_sender write_err now) s a msg = (True, s')"
  then show "agent_frames s' = (agent_frames s)(a \<mapsto> the (agent_frames s a) @ [msg])"
    using SendToAgent_frames [of s write_err now a msg] by (auto simp: agent_sender_def split_beta)
next
  fix s s' :: agent_manager and a msg assume "session_inv s"
    and "sd_send (agent_sender write_err now) s a msg = (False, s')"
  then show "agent_frames s' = agent_frames s"
    using SendToAgent_frames [of s write_err now a msg] by (auto simp: agent_sender_def split_beta)
next
  fix s s' :: agent_manager and a msg ok assume "session_inv s"
    and "sd_send (agent_sender write_err now) s a msg = (ok, s')"
  then show "session_inv s'"
    using send_session_inv [of s write_err now a msg] by (auto simp: agent_sender_def split_beta)
qed

section \<open>Properties\<close>

text \<open>
  C11: No false success. In every interleaving of requests, agent results, timeouts and
  cancellations, an \<open>Execute\<close> that returns no error returns a validated result with status
  \<open>accepted\<close> that carries the request's own id, asset and action, and that was delivered over the
  connection of that asset; it is the only result ever delivered for that request id.
\<close>

theorem power_success_is_earned:
  assumes "(power_step sender marshal decode)\<^sup>*\<^sup>* (NewWithLimit timeout limit, [], []) (c, used, log)"
    and "execute_finish c rid w = Some ((r, None), c')"
  shows "pr_status r = ''accepted'' \<and> PowerResultData_Validate r \<and> pr_request_id r = rid \<and>
    (\<exists>p. map_of (co_pending c) rid = Some p \<and> pr_asset_id r = pd_asset_id p \<and> pr_action r = pd_action p \<and>
       filter (\<lambda>(_, q). pr_request_id q = rid) log = [(pd_asset_id p, r)])"
proof -
  have inv: "power_inv (c, used, log)" by (rule power_run_inv [OF assms(1)])
  obtain p where p: "map_of (co_pending c) rid = Some p" "pd_result p = Some r" "pr_status r = ''accepted''"
    using execute_finish_success [OF assms(2)] by blast
  note ok = power_inv_pending [OF inv p(1), unfolded pending_ok_def]
  have "distinct (map (\<lambda>(_, q). pr_request_id q) log)" using inv by (simp add: power_inv_def)
  then have "filter (\<lambda>x. (\<lambda>(_, q). pr_request_id q) x = rid) log = [(pd_asset_id p, r)]"
    using ok p(2) by (intro filter_key_unique) auto
  with ok p show ?thesis by (auto simp: split_def)
qed

definition example_marshal :: "power_action_data \<Rightarrow> string option" where
  "example_marshal d = Some (pa_request_id d @ pa_asset_id d @ pa_action d)"

definition example_result :: power_result where
  "example_result = \<lparr>pr_request_id = ''power-1'', pr_asset_id = ''srv1'', pr_action = ''reboot'',
     pr_status = ''accepted'', pr_code = [], pr_message = ''ok''\<rparr>"

definition example_decode :: "string \<Rightarrow> power_result option" where
  "example_decode raw = (if raw = ''ok'' then Some example_result else None)"

definition example_waiting :: coordinator where
  "example_waiting = (NewWithLimit 0 1)\<lparr>co_in_flight := 1,
     co_pending := [(''power-1'', new_pending ''power-1'' ''srv1'' ''reboot'')]\<rparr>"

definition example_delivered :: coordinator where
  "example_delivered = example_waiting\<lparr>co_pending := [(''power-1'',
     (new_pending ''power-1'' ''srv1'' ''reboot'')\<lparr>pd_delivered := True, pd_result := Some example_result\<rparr>)]\<rparr>"

lemma example_begin:
  "execute_begin (agent_sender None 0) example_marshal (NewWithLimit 0 1) example_manager ''power-1'' '' srv1 '' ''reboot'' =
     (Inr ''power-1'', example_waiting, snd (snd (execute_begin (agent_sender None 0) example_marshal
        (NewWithLimit 0 1) example_manager ''power-1'' '' srv1 '' ''reboot'')))"
proof -
  have "fst (execute_begin (agent_sender None 0) example_marshal (NewWithLimit 0 1) example_manager
      ''power-1'' '' srv1 '' ''reboot'') = Inr ''power-1''" by code_simp
  moreover have "fst (snd (execute_begin (agent_sender None 0) example_marshal (NewWithLimit 0 1) example_manager
      ''power-1'' '' srv1 '' ''reboot'')) = example_waiting" by code_simp
  ultimately show ?thesis by (metis prod.collapse)
qed

lemma example_delivery:
  "HandleResult example_decode example_waiting ''srv1''
     \<lparr>msg_type = ''power.result'', msg_id = ''power-1'', msg_data = ''ok''\<rparr> = (True, example_delivered)"
  by code_simp

lemma example_power_run:
  "(power_step (agent_sender None 0) example_marshal example_decode)\<^sup>*\<^sup>* (NewWithLimit 0 1, [], [])
     (example_delivered, [''power-1''], [(''srv1'', example_result)])"
proof -
  have "power_step (agent_sender None 0) example_marshal example_decode (NewWithLimit 0 1, [], [])
      (example_waiting, [''power-1''], [])"
    by (rule power_step.begin_step [OF _ example_begin]) simp
  moreover have "power_step (agent_sender None 0) example_marshal example_decode
      (example_waiting, [''power-1''], []) (example_delivered, [''power-1''], [(''srv1'', example_result)])"
    by (rule power_step.result_step [OF example_delivery]) (simp add: example_decode_def)
  ultimately show ?thesis by (meson r_into_rtranclp rtranclp_trans)
qed

theorem power_success_is_earned_witness:
  "execute_finish example_delivered ''power-1'' GotResult =
     Some ((example_result, None), retire example_delivered ''power-1'') \<and>
   PowerResultData_Validate example_result"
proof -
  have fin: "execute_finish example_delivered ''power-1'' GotResult =
     Some ((example_result, None), retire example_delivered ''power-1'')" by code_simp
  with power_success_is_earned [OF example_power_run fin] show ?thesis by blast
qed

text \<open>
  The admission bound is exact: the admissions in use are as many as the requests that wait, at
  most the capacity, under distinct ids; and each request's end gives its admission back.
\<close>

lemma power_actions_bounded:
  assumes "(power_step sender marshal decode)\<^sup>*\<^sup>* (NewWithLimit timeout limit, [], []) (c, used, log)"
  shows "co_in_flight c = int (length (co_pending c)) \<and> co_in_flight c \<le> co_capacity c \<and>
    distinct (map fst (co_pending c)) \<and>
    (\<forall>rid w out c'. execute_finish c rid w = Some (out, c') \<longrightarrow>
       co_in_flight c' = co_in_flight c - 1 \<and> map_of (co_pending c') rid = None)"
  using power_run_inv [OF assms]
  by (auto simp: power_inv_def retire_def dest!: execute_finish_retires)

text \<open>
  A request that waits has written exactly one \<open>power.action\<close> frame, under its own request id,
  on the current connection of the asset it names, and nothing on any other agent's connection; a
  request that ends at once has written nothing to any agent.
\<close>

lemma power_action_reaches_one_agent:
  assumes "(am_step G L)\<^sup>*\<^sup>* (NewManager heap) m" "rid \<notin> fst ` set (co_pending c)"
    and "execute_begin (agent_sender write_err now) marshal c m rid asset action = (r, c', m')"
  shows "case r of
      Inl _ \<Rightarrow> agent_frames m' = agent_frames m
    | Inr _ \<Rightarrow> (\<exists>data. marshal \<lparr>pa_request_id = rid, pa_asset_id = trim_space asset, pa_action = action\<rparr> = Some data \<and>
        agent_frames m' = (agent_frames m)(trim_space asset \<mapsto> the (agent_frames m (trim_space asset)) @
          [\<lparr>msg_type = MsgPowerAction, msg_id = rid, msg_data = data\<rparr>]))"
proof -
  have inv: "session_inv m" by (rule am_run_session_inv [OF assms(1)])
  show ?thesis
  proof (cases r)
    case (Inl x)
    with manager_sender.begin_ended [OF inv] assms(3) show ?thesis by (cases x) auto
  next
    case (Inr x)
    from manager_sender.begin_waits [OF inv assms(3) [unfolded Inr] assms(2)] show ?thesis
      unfolding Inr sum.case by blast
  qed
qed

end
