(* ===== verification/Keyed_Locks.thy ===== *)
theory Keyed_Locks
  imports LT_Prelude
begin

text \<open>
  Reference-counted locks under a key, the scheme that the agent manager, the login challenge store
  and the session stream registry share: a table maps a key to an entry with a mutex and a count of
  its users; the entry is created by the first user of its key and removed by the last one. This
  theory has the threads that use such a table, one atomic step for each critical section, and the
  contract under which they exclude each other; the tables themselves are in the theories of their
  components, which interpret the contract.
\<close>

section \<open>Threads\<close>

type_synonym entry_ref = nat
type_synonym thread = nat

datatype lock_pc = Idle | Waiting string entry_ref | Inside string entry_ref | Leaving string entry_ref

fun pc_entry :: "lock_pc \<Rightarrow> (string \<times> entry_ref) option" where
  "pc_entry Idle = None"
| "pc_entry (Waiting k r) = Some (k, r)"
| "pc_entry (Inside k r) = Some (k, r)"
| "pc_entry (Leaving k r) = Some (k, r)"

record 's lock_system =
  ls_table :: 's
  ls_holder :: "entry_ref \<Rightarrow> thread option"
  ls_pc :: "thread \<Rightarrow> lock_pc"

definition lock_start :: "'s \<Rightarrow> 's lock_system" where
  "lock_start s = \<lparr>ls_table = s, ls_holder = (\<lambda>_. None), ls_pc = (\<lambda>_. Idle)\<rparr>"

inductive lock_step ::
    "('s \<Rightarrow> string \<Rightarrow> entry_ref \<times> 's) \<Rightarrow> ('s \<Rightarrow> string \<Rightarrow> entry_ref \<Rightarrow> 's) \<Rightarrow> 's lock_system \<Rightarrow> 's lock_system \<Rightarrow> bool"
  for retain release where
  retain_entry: "ls_pc S t = Idle \<Longrightarrow> retain (ls_table S) k = (r, s') \<Longrightarrow>
     lock_step retain release S (S\<lparr>ls_table := s', ls_pc := (ls_pc S)(t := Waiting k r)\<rparr>)"
| lock_entry: "ls_pc S t = Waiting k r \<Longrightarrow> ls_holder S r = None \<Longrightarrow>
     lock_step retain release S (S\<lparr>ls_holder := (ls_holder S)(r \<mapsto> t), ls_pc := (ls_pc S)(t := Inside k r)\<rparr>)"
| unlock_entry: "ls_pc S t = Inside k r \<Longrightarrow>
     lock_step retain release S (S\<lparr>ls_holder := (ls_holder S)(r := None), ls_pc := (ls_pc S)(t := Leaving k r)\<rparr>)"
| release_entry: "ls_pc S t = Leaving k r \<Longrightarrow>
     lock_step retain release S (S\<lparr>ls_table := release (ls_table S) k r, ls_pc := (ls_pc S)(t := Idle)\<rparr>)"

definition lockers :: "'s lock_system \<Rightarrow> string \<Rightarrow> entry_ref \<Rightarrow> thread set" where
  "lockers S k r = {t. pc_entry (ls_pc S t) = Some (k, r)}"

lemma lockers_table [simp]:
  "lockers (S\<lparr>ls_table := s\<rparr>) = lockers S" "lockers (S\<lparr>ls_holder := h\<rparr>) = lockers S"
  by (simp_all add: lockers_def fun_eq_iff)

lemma lockers_pc:
  "lockers (S\<lparr>ls_pc := (ls_pc S)(t := p)\<rparr>) k r =
     (if pc_entry p = Some (k, r) then insert t (lockers S k r) else lockers S k r - {t})"
  by (auto simp: lockers_def)

lemma in_lockers: "t \<in> lockers S k r \<longleftrightarrow> pc_entry (ls_pc S t) = Some (k, r)"
  by (simp add: lockers_def)

lemma lockers_same: "pc_entry p = pc_entry (ls_pc S t) \<Longrightarrow> lockers (S\<lparr>ls_pc := (ls_pc S)(t := p)\<rparr>) = lockers S"
  by (auto simp: lockers_def fun_eq_iff)

text \<open>
  The table holds exactly the keys that some thread uses, each with one entry and the exact count,
  and the mutex of an entry is held exactly by the thread that is inside.
\<close>

definition lock_inv ::
    "('s \<Rightarrow> string \<Rightarrow> entry_ref option) \<Rightarrow> ('s \<Rightarrow> entry_ref \<Rightarrow> int) \<Rightarrow> ('s \<Rightarrow> entry_ref set) \<Rightarrow> 's lock_system \<Rightarrow> bool" where
  "lock_inv entry users allocated S =
     ((\<forall>t k r. t \<in> lockers S k r \<longrightarrow> entry (ls_table S) k = Some r) \<and>
      (\<forall>k r. entry (ls_table S) k = Some r \<longrightarrow>
         finite (lockers S k r) \<and> lockers S k r \<noteq> {} \<and> users (ls_table S) r = int (card (lockers S k r)) \<and>
         r \<in> allocated (ls_table S)) \<and>
      (\<forall>k k' r. entry (ls_table S) k = Some r \<longrightarrow> entry (ls_table S) k' = Some r \<longrightarrow> k = k') \<and>
      (\<forall>r t. ls_holder S r = Some t \<longleftrightarrow> (\<exists>k. ls_pc S t = Inside k r)))"

lemma lock_inv_entry: "lock_inv entry users allocated S \<Longrightarrow> t \<in> lockers S k r \<Longrightarrow> entry (ls_table S) k = Some r"
  by (simp add: lock_inv_def)

lemma lock_inv_counted:
  "lock_inv entry users allocated S \<Longrightarrow> entry (ls_table S) k = Some r \<Longrightarrow>
     finite (lockers S k r) \<and> lockers S k r \<noteq> {} \<and> users (ls_table S) r = int (card (lockers S k r)) \<and>
     r \<in> allocated (ls_table S)"
  by (simp add: lock_inv_def)

lemma lock_inv_inj:
  "lock_inv entry users allocated S \<Longrightarrow> entry (ls_table S) k = Some r \<Longrightarrow> entry (ls_table S) k' = Some r \<Longrightarrow> k = k'"
  unfolding lock_inv_def by blast

lemma lock_inv_holder:
  "lock_inv entry users allocated S \<Longrightarrow> ls_holder S r = Some t \<longleftrightarrow> (\<exists>k. ls_pc S t = Inside k r)"
  by (simp add: lock_inv_def)

lemma lock_invI:
  assumes "\<And>t k r. t \<in> lockers S k r \<Longrightarrow> entry (ls_table S) k = Some r"
    and "\<And>k r. entry (ls_table S) k = Some r \<Longrightarrow>
       finite (lockers S k r) \<and> lockers S k r \<noteq> {} \<and> users (ls_table S) r = int (card (lockers S k r)) \<and>
       r \<in> allocated (ls_table S)"
    and "\<And>k k' r. entry (ls_table S) k = Some r \<Longrightarrow> entry (ls_table S) k' = Some r \<Longrightarrow> k = k'"
    and "\<And>r t. ls_holder S r = Some t \<longleftrightarrow> (\<exists>k. ls_pc S t = Inside k r)"
  shows "lock_inv entry users allocated S"
  using assms unfolding lock_inv_def by blast

section \<open>The contract\<close>

locale keyed_locks =
  fixes retain :: "'s \<Rightarrow> string \<Rightarrow> entry_ref \<times> 's" and release :: "'s \<Rightarrow> string \<Rightarrow> entry_ref \<Rightarrow> 's"
    and entry :: "'s \<Rightarrow> string \<Rightarrow> entry_ref option" and users :: "'s \<Rightarrow> entry_ref \<Rightarrow> int"
    and allocated :: "'s \<Rightarrow> entry_ref set"
  assumes retain_entry: "entry (snd (retain s k)) = (entry s)(k \<mapsto> fst (retain s k))"
    and retain_hit: "entry s k = Some r \<Longrightarrow> fst (retain s k) = r"
    and retain_new: "entry s k = None \<Longrightarrow> fst (retain s k) \<notin> allocated s"
    and retain_users: "users (snd (retain s k)) = (users s)(fst (retain s k) :=
        (if entry s k = None then 1 else users s (fst (retain s k)) + 1))"
    and retain_allocated: "allocated (snd (retain s k)) =
        (if entry s k = None then insert (fst (retain s k)) (allocated s) else allocated s)"
    and release_entry: "entry (release s k r) = (if users s r = 1 then (entry s)(k := None) else entry s)"
    and release_users: "users (release s k r) = (users s)(r := users s r - 1)"
    and release_allocated: "allocated (release s k r) = allocated s"
begin

lemma lock_inv_retain:
  assumes inv: "lock_inv entry users allocated S" and idle: "ls_pc S t = Idle"
    and step: "retain (ls_table S) k = (r, s')"
  shows "lock_inv entry users allocated (S\<lparr>ls_table := s', ls_pc := (ls_pc S)(t := Waiting k r)\<rparr>)"
proof -
  let ?s = "ls_table S" and ?S = "S\<lparr>ls_table := s', ls_pc := (ls_pc S)(t := Waiting k r)\<rparr>"
  have r: "fst (retain ?s k) = r" "snd (retain ?s k) = s'" using step by simp_all
  have tab: "entry s' = (entry ?s)(k \<mapsto> r)" "allocated s' = (if entry ?s k = None then insert r (allocated ?s) else allocated ?s)"
    "users s' = (users ?s)(r := (if entry ?s k = None then 1 else users ?s r + 1))"
    using retain_entry [of ?s k] retain_allocated [of ?s k] retain_users [of ?s k] by (simp_all add: r)
  have not_t: "t \<notin> lockers S k' r'" for k' r' using idle by (simp add: in_lockers)
  have own: "k' = k" if "entry ?s k' = Some r" for k'
  proof (cases "entry ?s k")
    case None
    with retain_new [of ?s k] lock_inv_counted [OF inv that] show ?thesis by (simp add: r)
  next
    case (Some r')
    with retain_hit [OF Some] lock_inv_inj [OF inv that] show ?thesis by (simp add: r)
  qed
  have hit: "r' = r" if "entry ?s k = Some r'" for r' using retain_hit [OF that] by (simp add: r)
  have L: "lockers ?S k' r' = (if k' = k \<and> r' = r then insert t (lockers S k r) else lockers S k' r')" for k' r'
    using not_t by (auto simp: lockers_def)
  show ?thesis
  proof (rule lock_invI)
    fix t' k' r' assume "t' \<in> lockers ?S k' r'"
    then show "entry (ls_table ?S) k' = Some r'"
      using lock_inv_entry [OF inv, of t' k' r'] hit [of r'] by (auto simp: L tab split: if_split_asm)
  next
    fix k' r' assume e: "entry (ls_table ?S) k' = Some r'"
    show "finite (lockers ?S k' r') \<and> lockers ?S k' r' \<noteq> {} \<and>
        users (ls_table ?S) r' = int (card (lockers ?S k' r')) \<and> r' \<in> allocated (ls_table ?S)"
    proof (cases "k' = k")
      case False
      with e own [of k'] have "entry ?s k' = Some r'" "r' \<noteq> r" by (auto simp: tab)
      with False lock_inv_counted [OF inv this(1)] show ?thesis by (simp add: L tab)
    next
      case True
      then have [simp]: "k' = k" "r' = r" using e by (simp_all add: tab)
      have "lockers S k r = {}" if "entry ?s k = None" using that lock_inv_entry [OF inv] by fastforce
      then show ?thesis
        using lock_inv_counted [OF inv, of k r] hit not_t [of k r] by (cases "entry ?s k") (auto simp: L tab)
    qed
  next
    fix k1 k2 r' assume "entry (ls_table ?S) k1 = Some r'" "entry (ls_table ?S) k2 = Some r'"
    then show "k1 = k2"
      using own lock_inv_inj [OF inv, of k1 r' k2] by (auto simp: tab split: if_split_asm)
  next
    fix r' t' show "ls_holder ?S r' = Some t' \<longleftrightarrow> (\<exists>k. ls_pc ?S t' = Inside k r')"
      using lock_inv_holder [OF inv, of r' t'] idle by simp
  qed
qed

lemma lock_inv_release:
  assumes inv: "lock_inv entry users allocated S" and at: "ls_pc S t = Leaving k r"
  shows "lock_inv entry users allocated (S\<lparr>ls_table := release (ls_table S) k r, ls_pc := (ls_pc S)(t := Idle)\<rparr>)"
proof -
  let ?s = "ls_table S" and ?S = "S\<lparr>ls_table := release (ls_table S) k r, ls_pc := (ls_pc S)(t := Idle)\<rparr>"
  have t: "t \<in> lockers S k r" using at by (simp add: in_lockers)
  note e = lock_inv_entry [OF inv t] and own = lock_inv_inj [OF inv lock_inv_entry [OF inv t]]
  note cnt = lock_inv_counted [OF inv e]
  have L: "lockers ?S k' r' = (if k' = k \<and> r' = r then lockers S k r - {t} else lockers S k' r')" for k' r'
    using at by (auto simp: lockers_def)
  have card: "int (card (lockers S k r - {t})) = users ?s r - 1"
    using cnt t by (simp add: of_nat_diff card_Diff_singleton Suc_leI card_gt_0_iff)
  then have "users ?s r = 1 \<longleftrightarrow> card (lockers S k r - {t}) = 0" by linarith
  then have last: "users ?s r = 1 \<longleftrightarrow> lockers S k r - {t} = {}" using cnt by (simp add: card_eq_0_iff)
  show ?thesis
  proof (rule lock_invI)
    fix t' k' r' assume "t' \<in> lockers ?S k' r'"
    then show "entry (ls_table ?S) k' = Some r'"
      using lock_inv_entry [OF inv, of t' k' r'] last e by (auto simp: L release_entry split: if_split_asm)
  next
    fix k' r' assume e': "entry (ls_table ?S) k' = Some r'"
    show "finite (lockers ?S k' r') \<and> lockers ?S k' r' \<noteq> {} \<and>
        users (ls_table ?S) r' = int (card (lockers ?S k' r')) \<and> r' \<in> allocated (ls_table ?S)"
    proof (cases "k' = k")
      case True
      then have "users ?s r \<noteq> 1" "r' = r" using e e' by (simp_all add: release_entry split: if_split_asm)
      with True last cnt card show ?thesis by (simp add: L release_users release_allocated)
    next
      case False
      then have old: "entry ?s k' = Some r'" using e' by (simp add: release_entry split: if_split_asm)
      then have "r' \<noteq> r" using own [of k'] False by blast
      with False lock_inv_counted [OF inv old] show ?thesis by (simp add: L release_users release_allocated)
    qed
  next
    fix k1 k2 r' assume "entry (ls_table ?S) k1 = Some r'" "entry (ls_table ?S) k2 = Some r'"
    then show "k1 = k2"
      using lock_inv_inj [OF inv, of k1 r' k2] by (auto simp: release_entry split: if_split_asm)
  next
    fix r' t' show "ls_holder ?S r' = Some t' \<longleftrightarrow> (\<exists>k. ls_pc ?S t' = Inside k r')"
      using lock_inv_holder [OF inv, of r' t'] at by simp
  qed
qed

lemma lock_inv_inside:
  assumes inv: "lock_inv entry users allocated S" and at: "pc_entry (ls_pc S t) = pc_entry p"
    and h: "\<And>r' t'. h r' = Some t' \<longleftrightarrow> (\<exists>k. ((ls_pc S)(t := p)) t' = Inside k r')"
  shows "lock_inv entry users allocated (S\<lparr>ls_holder := h, ls_pc := (ls_pc S)(t := p)\<rparr>)"
proof -
  have "lockers (S\<lparr>ls_holder := h, ls_pc := (ls_pc S)(t := p)\<rparr>) = lockers S"
    using at by (auto simp: lockers_def fun_eq_iff)
  with lock_inv_entry [OF inv] lock_inv_counted [OF inv] lock_inv_inj [OF inv] h show ?thesis
    by (intro lock_invI) simp_all
qed

lemma lock_inv_step:
  assumes "lock_step retain release S S'" "lock_inv entry users allocated S"
  shows "lock_inv entry users allocated S'"
  using assms
proof (induction rule: lock_step.induct)
  case (lock_entry S t k r)
  note hold = lock_inv_holder [OF lock_entry.prems]
  have "ls_pc S t' \<noteq> Inside k' r" for t' k' using hold [of r t'] lock_entry.hyps by auto
  then show ?case
    using lock_entry.hyps hold
    by (intro lock_inv_inside [OF lock_entry.prems]) (auto split: if_split_asm)
next
  case (unlock_entry S t k r)
  note hold = lock_inv_holder [OF unlock_entry.prems]
  have alone: "t' = t" if "ls_pc S t' = Inside k' r" for t' k'
    using that hold [of r t] hold [of r t'] unlock_entry.hyps by auto
  show ?case
  proof (rule lock_inv_inside [OF unlock_entry.prems])
    fix r' t'
    show "((ls_holder S)(r := None)) r' = Some t' \<longleftrightarrow> (\<exists>k'. ((ls_pc S)(t := Leaving k r)) t' = Inside k' r')"
    proof (cases "r' = r")
      case True
      with alone [of t'] show ?thesis by auto
    next
      case False
      with hold [of r' t'] unlock_entry.hyps show ?thesis by auto
    qed
  qed (simp add: unlock_entry.hyps)
qed (simp_all add: lock_inv_retain lock_inv_release)

lemma lock_inv_run:
  assumes "(lock_step retain release)\<^sup>*\<^sup>* (lock_start s) S" "\<And>k. entry s k = None"
  shows "lock_inv entry users allocated S"
  using assms
proof (induction rule: rtranclp_induct)
  case base
  then show ?case by (intro lock_invI) (simp_all add: lock_start_def lockers_def)
qed (simp add: lock_inv_step)

lemma exclusive:
  assumes "(lock_step retain release)\<^sup>*\<^sup>* (lock_start s) S" "\<And>k. entry s k = None"
    and "ls_pc S t = Inside k r" "ls_pc S t' = Inside k r'"
  shows "t = t'"
proof -
  note inv = lock_inv_run [OF assms(1,2)]
  have "entry (ls_table S) k = Some r" "entry (ls_table S) k = Some r'"
    using lock_inv_entry [OF inv, of t k r] lock_inv_entry [OF inv, of t' k r'] assms(3,4)
    by (simp_all add: in_lockers)
  moreover have "ls_holder S r = Some t" "ls_holder S r' = Some t'"
    using lock_inv_holder [OF inv] assms(3,4) by blast+
  ultimately show ?thesis by simp
qed

lemma no_leak:
  assumes "(lock_step retain release)\<^sup>*\<^sup>* (lock_start s) S" "\<And>k. entry s k = None"
  shows "entry (ls_table S) k \<noteq> None \<longleftrightarrow> (\<exists>t r. pc_entry (ls_pc S t) = Some (k, r))"
proof -
  note inv = lock_inv_run [OF assms]
  show ?thesis
  proof
    assume "entry (ls_table S) k \<noteq> None"
    then obtain r where "lockers S k r \<noteq> {}" using lock_inv_counted [OF inv, of k] by blast
    then show "\<exists>t r. pc_entry (ls_pc S t) = Some (k, r)" unfolding lockers_def by blast
  next
    assume "\<exists>t r. pc_entry (ls_pc S t) = Some (k, r)"
    then obtain t r where "t \<in> lockers S k r" by (auto simp: in_lockers)
    from lock_inv_entry [OF inv this] show "entry (ls_table S) k \<noteq> None" by simp
  qed
qed

lemma waiter_enters:
  assumes "(lock_step retain release)\<^sup>*\<^sup>* (lock_start s) S" "\<And>k. entry s k = None"
    and "ls_pc S t = Waiting k r" "\<And>t' r'. ls_pc S t' \<noteq> Inside k r'"
  shows "\<exists>S'. lock_step retain release S S' \<and> ls_pc S' t = Inside k r"
proof -
  note inv = lock_inv_run [OF assms(1,2)]
  have e: "entry (ls_table S) k = Some r" using lock_inv_entry [OF inv, of t k r] assms(3) by (simp add: in_lockers)
  have "ls_holder S r = None"
  proof (rule ccontr)
    assume "ls_holder S r \<noteq> None"
    then obtain t' k' where t': "ls_pc S t' = Inside k' r" using lock_inv_holder [OF inv] by blast
    then have "entry (ls_table S) k' = Some r" using lock_inv_entry [OF inv, of t' k' r] by (simp add: in_lockers)
    with lock_inv_inj [OF inv e] t' assms(4) show False by blast
  qed
  from lock_step.lock_entry [of S t k r retain release, OF assms(3) this] show ?thesis by force
qed

end

end
