(* ===== verification/Agent_Lifecycle.thy ===== *)
theory Agent_Lifecycle
  imports Keyed_Locks
begin

text \<open>
  The lifecycle locks of the agent manager (\<open>lockAssetLifecycle\<close> of
  \<open>internal/agentmgr/lifecycle.go\<close>). Every registration, unregistration and dispatch of the theory
  of the agent manager runs between its two halves: the entry is looked up or created and counted
  under \<open>lifecycleMu\<close>, then its mutex is taken; the closure it returns unlocks the mutex and counts
  down under \<open>lifecycleMu\<close>.
\<close>

record asset_lifecycle =
  al_users :: int

record lifecycle_table =
  lt_lifecycles :: "(string \<times> entry_ref) list"
  lt_heap :: "entry_ref \<Rightarrow> asset_lifecycle"
  lt_next :: entry_ref

definition no_lifecycles :: lifecycle_table where
  "no_lifecycles = \<lparr>lt_lifecycles = [], lt_heap = (\<lambda>_. \<lparr>al_users = 0\<rparr>), lt_next = 0\<rparr>"

definition lifecycle_users_add :: "int \<Rightarrow> entry_ref \<Rightarrow> lifecycle_table \<Rightarrow> lifecycle_table" where
  "lifecycle_users_add n r m = m\<lparr>lt_heap := (lt_heap m)(r := \<lparr>al_users = al_users (lt_heap m r) + n\<rparr>)\<rparr>"

definition lockAssetLifecycle :: "lifecycle_table \<Rightarrow> string \<Rightarrow> entry_ref \<times> lifecycle_table" where
  "lockAssetLifecycle m assetID =
     (case map_of (lt_lifecycles m) assetID of
        Some entry \<Rightarrow> (entry, lifecycle_users_add 1 entry m)
      | None \<Rightarrow>
          (let entry = lt_next m;
               m = m\<lparr>lt_heap := (lt_heap m)(entry := \<lparr>al_users = 0\<rparr>), lt_next := Suc entry,
                     lt_lifecycles := AList.update assetID entry (lt_lifecycles m)\<rparr>
           in (entry, lifecycle_users_add 1 entry m)))"

definition unlockAssetLifecycle :: "lifecycle_table \<Rightarrow> string \<Rightarrow> entry_ref \<Rightarrow> lifecycle_table" where
  "unlockAssetLifecycle m assetID entry =
     (let m = lifecycle_users_add (-1) entry m
      in if al_users (lt_heap m entry) = 0
         then m\<lparr>lt_lifecycles := AList.delete assetID (lt_lifecycles m)\<rparr> else m)"

lemma lifecycle_users_add_simps [simp]:
  "lt_lifecycles (lifecycle_users_add n r m) = lt_lifecycles m"
  "lt_next (lifecycle_users_add n r m) = lt_next m"
  "al_users (lt_heap (lifecycle_users_add n r m) x) = al_users (lt_heap m x) + (if x = r then n else 0)"
  by (simp_all add: lifecycle_users_add_def)

interpretation lifecycle_locks: keyed_locks lockAssetLifecycle unlockAssetLifecycle
  "\<lambda>m. map_of (lt_lifecycles m)" "\<lambda>m r. al_users (lt_heap m r)" "\<lambda>m. {..<lt_next m}"
  by unfold_locales
    (auto simp: lockAssetLifecycle_def unlockAssetLifecycle_def Let_def fun_eq_iff split: option.split)

section \<open>Properties\<close>

text \<open>
  C12: Lifecycle transitions of one asset exclude each other: with any number of goroutines in any
  interleaving, at most one is between the lock and the unlock of an asset, although entries are
  deleted and created anew meanwhile; a goroutine that waits can enter as soon as none is inside; and
  the table has an entry exactly for the assets that some goroutine uses.
\<close>

theorem asset_lifecycle_exclusive:
  assumes "(lock_step lockAssetLifecycle unlockAssetLifecycle)\<^sup>*\<^sup>* (lock_start no_lifecycles) S"
  shows "(\<forall>t t' r r'. ls_pc S t = Inside assetID r \<longrightarrow> ls_pc S t' = Inside assetID r' \<longrightarrow> t = t') \<and>
    (\<forall>t r. ls_pc S t = Waiting assetID r \<longrightarrow> (\<forall>t' r'. ls_pc S t' \<noteq> Inside assetID r') \<longrightarrow>
       (\<exists>S'. lock_step lockAssetLifecycle unlockAssetLifecycle S S' \<and> ls_pc S' t = Inside assetID r)) \<and>
    (map_of (lt_lifecycles (ls_table S)) assetID \<noteq> None \<longleftrightarrow>
       (\<exists>t r. pc_entry (ls_pc S t) = Some (assetID, r)))"
proof -
  have empty: "\<And>k. map_of (lt_lifecycles no_lifecycles) k = None" by (simp add: no_lifecycles_def)
  show ?thesis
    using lifecycle_locks.exclusive [OF assms empty] lifecycle_locks.waiter_enters [OF assms empty]
      lifecycle_locks.no_leak [OF assms empty]
    by blast
qed

text \<open>Two goroutines retain the entry of one asset and the first enters.\<close>

definition example_table :: lifecycle_table where
  "example_table = snd (lockAssetLifecycle (snd (lockAssetLifecycle no_lifecycles ''srv1'')) ''srv1'')"

definition example_lock_system :: "lifecycle_table lock_system" where
  "example_lock_system = \<lparr>ls_table = example_table, ls_holder = [0 \<mapsto> 1],
     ls_pc = (\<lambda>_. Idle)(1 := Inside ''srv1'' 0, 2 := Waiting ''srv1'' 0)\<rparr>"

lemma example_lock_run:
  "(lock_step lockAssetLifecycle unlockAssetLifecycle)\<^sup>*\<^sup>* (lock_start no_lifecycles) example_lock_system"
proof -
  let ?step = "lock_step lockAssetLifecycle unlockAssetLifecycle"
  let ?s1 = "snd (lockAssetLifecycle no_lifecycles ''srv1'')"
  let ?S1 = "\<lparr>ls_table = ?s1, ls_holder = (\<lambda>_. None), ls_pc = (\<lambda>_. Idle)(1 := Waiting ''srv1'' 0)\<rparr>"
  let ?S2 = "\<lparr>ls_table = example_table, ls_holder = (\<lambda>_. None),
      ls_pc = (\<lambda>_. Idle)(1 := Waiting ''srv1'' 0, 2 := Waiting ''srv1'' 0)\<rparr>"
  have "fst (lockAssetLifecycle no_lifecycles ''srv1'') = 0" "fst (lockAssetLifecycle ?s1 ''srv1'') = 0"
    by (code_simp, code_simp)
  then have r: "lockAssetLifecycle no_lifecycles ''srv1'' = (0, ?s1)"
    "lockAssetLifecycle ?s1 ''srv1'' = (0, example_table)"
    by (simp_all add: prod_eq_iff example_table_def)
  have "?step (lock_start no_lifecycles) ?S1"
    using lock_step.retain_entry [of "lock_start no_lifecycles" 1 lockAssetLifecycle "''srv1''" 0 ?s1] r
    by (simp add: lock_start_def)
  moreover have "?step ?S1 ?S2"
    using lock_step.retain_entry [of ?S1 2 lockAssetLifecycle "''srv1''" 0 example_table] r by simp
  moreover have "?step ?S2 example_lock_system"
    using lock_step.lock_entry [of ?S2 1 "''srv1''" 0] by (simp add: example_lock_system_def fun_upd_twist)
  ultimately show ?thesis by (meson converse_rtranclp_into_rtranclp rtranclp.rtrancl_refl)
qed

theorem asset_lifecycle_exclusive_witness:
  "{t. \<exists>r. ls_pc example_lock_system t = Inside ''srv1'' r} = {1}"
proof -
  have "ls_pc example_lock_system 1 = Inside ''srv1'' 0" by (simp add: example_lock_system_def)
  with asset_lifecycle_exclusive [OF example_lock_run, of "''srv1''"] show ?thesis by blast
qed

end
