(* ===== verification/Challenge_Store.thy ===== *)
theory Challenge_Store
  imports Keyed_Locks
begin

text \<open>
  The second-factor login challenges and the per-user authentication locks
  (\<open>internal/auth/challenge.go\<close>). The random token of \<open>Create\<close> and the clock are arguments.
\<close>

section \<open>Model\<close>

definition ChallengeTTL :: duration where "ChallengeTTL = 5 * minute"

record challenge =
  ch_user_id :: string
  ch_expires_at :: gtime

record userAuthenticationLock =
  ul_refs :: int

record challenge_store =
  cs_challenges :: "(string \<times> challenge) list"
  cs_users :: "(string \<times> entry_ref) list"
  cs_heap :: "entry_ref \<Rightarrow> userAuthenticationLock"
  cs_next :: entry_ref

definition NewChallengeStore :: challenge_store where
  "NewChallengeStore = \<lparr>cs_challenges = [], cs_users = [], cs_heap = (\<lambda>_. \<lparr>ul_refs = 0\<rparr>), cs_next = 0\<rparr>"

definition user_refs_add :: "int \<Rightarrow> entry_ref \<Rightarrow> challenge_store \<Rightarrow> challenge_store" where
  "user_refs_add n r s = s\<lparr>cs_heap := (cs_heap s)(r := \<lparr>ul_refs = ul_refs (cs_heap s r) + n\<rparr>)\<rparr>"

definition LockUser :: "challenge_store \<Rightarrow> string \<Rightarrow> entry_ref \<times> challenge_store" where
  "LockUser s userID =
     (let (entry, s) =
        (case map_of (cs_users s) userID of
           Some entry \<Rightarrow> (entry, s)
         | None \<Rightarrow>
             (cs_next s, s\<lparr>cs_heap := (cs_heap s)(cs_next s := \<lparr>ul_refs = 0\<rparr>), cs_next := Suc (cs_next s),
                           cs_users := AList.update userID (cs_next s) (cs_users s)\<rparr>))
      in (entry, user_refs_add 1 entry s))"

definition UnlockUser :: "challenge_store \<Rightarrow> string \<Rightarrow> entry_ref \<Rightarrow> challenge_store" where
  "UnlockUser s userID entry =
     (let s = user_refs_add (-1) entry s
      in if ul_refs (cs_heap s entry) = 0 then s\<lparr>cs_users := AList.delete userID (cs_users s)\<rparr> else s)"

definition Create :: "challenge_store \<Rightarrow> gtime \<Rightarrow> string \<Rightarrow> string \<Rightarrow> challenge_store" where
  "Create s now token userID =
     s\<lparr>cs_challenges := AList.update token \<lparr>ch_user_id = userID, ch_expires_at = now + ChallengeTTL\<rparr>
        (cs_challenges s)\<rparr>"

definition drop_challenge :: "challenge_store \<Rightarrow> string \<Rightarrow> challenge_store" where
  "drop_challenge s token = s\<lparr>cs_challenges := AList.delete token (cs_challenges s)\<rparr>"

definition Validate :: "challenge_store \<Rightarrow> gtime \<Rightarrow> string \<Rightarrow> (string \<times> bool) \<times> challenge_store" where
  "Validate s now token =
     (case map_of (cs_challenges s) token of
        None \<Rightarrow> (([], False), drop_challenge s token)
      | Some ch \<Rightarrow>
          (if now > ch_expires_at ch then (([], False), drop_challenge s token)
           else ((ch_user_id ch, True), s)))"

definition Consume :: "challenge_store \<Rightarrow> gtime \<Rightarrow> string \<Rightarrow> (string \<times> bool) \<times> challenge_store" where
  "Consume s now token =
     (case map_of (cs_challenges s) token of
        None \<Rightarrow> (([], False), drop_challenge s token)
      | Some ch \<Rightarrow>
          (if now > ch_expires_at ch then (([], False), drop_challenge s token)
           else ((ch_user_id ch, True), drop_challenge s token)))"

definition Cleanup :: "challenge_store \<Rightarrow> gtime \<Rightarrow> challenge_store" where
  "Cleanup s now = s\<lparr>cs_challenges := filter (\<lambda>(_, ch). \<not> now > ch_expires_at ch) (cs_challenges s)\<rparr>"

definition RevokeForUser :: "challenge_store \<Rightarrow> string \<Rightarrow> challenge_store" where
  "RevokeForUser s userID = s\<lparr>cs_challenges := filter (\<lambda>(_, ch). ch_user_id ch \<noteq> userID) (cs_challenges s)\<rparr>"

section \<open>Histories\<close>

datatype challenge_op =
  Created string string
| Validated string
| Consumed string
| CleanedUp
| RevokedUser string

fun challenge_step :: "gtime \<times> challenge_op \<Rightarrow> challenge_store \<Rightarrow> challenge_store" where
  "challenge_step (now, Created user token) s = Create s now token user"
| "challenge_step (now, Validated token) s = snd (Validate s now token)"
| "challenge_step (now, Consumed token) s = snd (Consume s now token)"
| "challenge_step (now, CleanedUp) s = Cleanup s now"
| "challenge_step (now, RevokedUser user) s = RevokeForUser s user"

definition challenge_run :: "(gtime \<times> challenge_op) list \<Rightarrow> challenge_store" where
  "challenge_run h = fold challenge_step h NewChallengeStore"

fun created_token :: "gtime \<times> challenge_op \<Rightarrow> string list" where
  "created_token (_, Created user token) = [token]"
| "created_token _ = []"

text \<open>
  What a history promises: the challenge \<open>token\<close> was issued to \<open>user\<close> at \<open>t\<close>, and neither consumed
  nor revoked since.
\<close>

definition open_challenge :: "(gtime \<times> challenge_op) list \<Rightarrow> string \<Rightarrow> string \<Rightarrow> gtime \<Rightarrow> bool" where
  "open_challenge h token user t =
     (\<exists>pre post. h = pre @ (t, Created user token) # post \<and>
        Consumed token \<notin> snd ` set post \<and> RevokedUser user \<notin> snd ` set post)"

section \<open>Lemmas\<close>

lemma open_challenge_Nil: "\<not> open_challenge [] token user t"
  by (simp add: open_challenge_def)

lemma open_challenge_snoc:
  "open_challenge (h @ [(t', x)]) token user t \<longleftrightarrow>
     (t' = t \<and> x = Created user token) \<or>
     (open_challenge h token user t \<and> x \<noteq> Consumed token \<and> x \<noteq> RevokedUser user)"
proof
  assume "open_challenge (h @ [(t', x)]) token user t"
  then obtain pre post where eq: "h @ [(t', x)] = pre @ (t, Created user token) # post"
    and "Consumed token \<notin> snd ` set post" "RevokedUser user \<notin> snd ` set post"
    by (auto simp: open_challenge_def)
  then show "(t' = t \<and> x = Created user token) \<or>
     (open_challenge h token user t \<and> x \<noteq> Consumed token \<and> x \<noteq> RevokedUser user)"
    by (cases post rule: rev_cases) (auto simp: open_challenge_def)
next
  assume "(t' = t \<and> x = Created user token) \<or>
     (open_challenge h token user t \<and> x \<noteq> Consumed token \<and> x \<noteq> RevokedUser user)"
  then show "open_challenge (h @ [(t', x)]) token user t"
  proof (elim disjE conjE)
    assume "open_challenge h token user t" "x \<noteq> Consumed token" "x \<noteq> RevokedUser user"
    then obtain pre post where "h = pre @ (t, Created user token) # post"
      "Consumed token \<notin> snd ` set (post @ [(t', x)])" "RevokedUser user \<notin> snd ` set (post @ [(t', x)])"
      by (auto simp: open_challenge_def)
    then show ?thesis unfolding open_challenge_def by (metis append.assoc append_Cons)
  qed (force simp: open_challenge_def)
qed

lemma open_challenge_created: "open_challenge h token user t \<Longrightarrow> token \<in> set (concat (map created_token h))"
  by (auto simp: open_challenge_def)

lemma map_of_filter_values:
  assumes "distinct (map fst xs)"
  shows "map_of (filter (\<lambda>(_, c). P c) xs) k = Some c \<longleftrightarrow> map_of xs k = Some c \<and> P c"
proof -
  have "distinct (map fst (filter (\<lambda>(_, c). P c) xs))" using assms by (rule distinct_map_filter)
  with assms show ?thesis by auto
qed

lemma challenge_keys_distinct: "distinct (map fst (cs_challenges (challenge_run h)))"
proof (induction h rule: rev_induct)
  case (snoc x h)
  obtain t op where x: "x = (t, op)" by fastforce
  from snoc show ?case
    by (cases op)
      (auto simp: x challenge_run_def Create_def Validate_def Consume_def drop_challenge_def Cleanup_def
        RevokeForUser_def distinct_update distinct_delete distinct_map_filter split: option.split)
qed (simp add: challenge_run_def NewChallengeStore_def)

lemma challenge_lookup_step:
  assumes "distinct (map fst (cs_challenges s))" "t' \<le> now" "now \<le> t + ChallengeTTL"
  shows "map_of (cs_challenges (challenge_step (t', op) s)) token =
      Some \<lparr>ch_user_id = user, ch_expires_at = t + ChallengeTTL\<rparr> \<longleftrightarrow>
    (if \<exists>user'. op = Created user' token then t' = t \<and> op = Created user token
     else op \<noteq> Consumed token \<and> op \<noteq> RevokedUser user \<and>
       map_of (cs_challenges s) token = Some \<lparr>ch_user_id = user, ch_expires_at = t + ChallengeTTL\<rparr>)"
  using assms
  by (cases op)
    (auto simp: Create_def Validate_def Consume_def drop_challenge_def Cleanup_def RevokeForUser_def
      map_of_filter_values [where P = "\<lambda>ch. \<not> t' > ch_expires_at ch", simplified]
      map_of_filter_values [where P = "\<lambda>ch. ch_user_id ch \<noteq> user'" for user']
      simp del: map_of_eq_Some_iff Some_eq_map_of_iff split: option.split)

lemma challenge_run_lookup:
  assumes "distinct (concat (map created_token h))" "\<forall>x \<in> set h. fst x \<le> now" "now \<le> t + ChallengeTTL"
  shows "map_of (cs_challenges (challenge_run h)) token =
      Some \<lparr>ch_user_id = user, ch_expires_at = t + ChallengeTTL\<rparr> \<longleftrightarrow> open_challenge h token user t"
  using assms
proof (induction h rule: rev_induct)
  case Nil
  show ?case by (simp add: open_challenge_Nil challenge_run_def NewChallengeStore_def)
next
  case (snoc x h)
  obtain t' op where x: "x = (t', op)" by fastforce
  let ?ch = "Some \<lparr>ch_user_id = user, ch_expires_at = t + ChallengeTTL\<rparr>"
  have IH: "map_of (cs_challenges (challenge_run h)) token = ?ch \<longleftrightarrow> open_challenge h token user t"
    using snoc by simp
  have fresh: "\<not> open_challenge h token user t" if "op = Created user' token" for user'
    using snoc.prems(1) that open_challenge_created [of h token user t] by (auto simp: x)
  have "map_of (cs_challenges (challenge_run (h @ [x]))) token = ?ch \<longleftrightarrow>
      map_of (cs_challenges (challenge_step (t', op) (challenge_run h))) token = ?ch"
    by (simp add: challenge_run_def x)
  also have "\<dots> \<longleftrightarrow> open_challenge (h @ [x]) token user t"
    unfolding x open_challenge_snoc
    by (subst challenge_lookup_step [OF challenge_keys_distinct _ snoc.prems(3)])
      (use snoc.prems(2) IH fresh in \<open>auto simp: x simp del: map_of_eq_Some_iff Some_eq_map_of_iff\<close>)
  finally show ?case .
qed

lemma consume_result:
  "fst (Consume s now token) = (user, True) \<longleftrightarrow>
     (\<exists>t. now \<le> t + ChallengeTTL \<and>
        map_of (cs_challenges s) token = Some \<lparr>ch_user_id = user, ch_expires_at = t + ChallengeTTL\<rparr>)"
proof (cases "map_of (cs_challenges s) token")
  case (Some ch)
  have "ch_expires_at ch = (ch_expires_at ch - ChallengeTTL) + ChallengeTTL" by simp
  with Some show ?thesis by (cases ch) (auto simp: Consume_def intro!: exI [of _ "ch_expires_at ch - ChallengeTTL"])
qed (simp add: Consume_def)

lemma user_refs_add_simps [simp]:
  "cs_users (user_refs_add n r s) = cs_users s"
  "cs_next (user_refs_add n r s) = cs_next s"
  "ul_refs (cs_heap (user_refs_add n r s) x) = ul_refs (cs_heap s x) + (if x = r then n else 0)"
  by (simp_all add: user_refs_add_def)

interpretation user_locks: keyed_locks LockUser UnlockUser
  "\<lambda>s. map_of (cs_users s)" "\<lambda>s r. ul_refs (cs_heap s r)" "\<lambda>s. {..<cs_next s}"
  by unfold_locales
    (auto simp: LockUser_def UnlockUser_def Let_def fun_eq_iff split: option.split)

section \<open>Properties\<close>

text \<open>
  C13: A login challenge is redeemed exactly when it should be: \<open>Consume\<close> returns a user for a token
  if and only if the history issued that token to that user at most five minutes ago and has neither
  consumed it nor revoked the user's challenges since; \<open>Validate\<close> answers the same.
\<close>

theorem challenge_consume_exact:
  assumes "distinct (concat (map created_token h))" "\<forall>x \<in> set h. fst x \<le> now"
  shows "(fst (Consume (challenge_run h) now token) = (user, True) \<longleftrightarrow>
      (\<exists>pre t post. h = pre @ (t, Created user token) # post \<and> now \<le> t + ChallengeTTL \<and>
         Consumed token \<notin> snd ` set post \<and> RevokedUser user \<notin> snd ` set post)) \<and>
    fst (Validate (challenge_run h) now token) = fst (Consume (challenge_run h) now token)"
proof
  have "fst (Consume (challenge_run h) now token) = (user, True) \<longleftrightarrow>
      (\<exists>t. now \<le> t + ChallengeTTL \<and> open_challenge h token user t)"
    unfolding consume_result using challenge_run_lookup [OF assms] by blast
  then show "fst (Consume (challenge_run h) now token) = (user, True) \<longleftrightarrow>
      (\<exists>pre t post. h = pre @ (t, Created user token) # post \<and> now \<le> t + ChallengeTTL \<and>
         Consumed token \<notin> snd ` set post \<and> RevokedUser user \<notin> snd ` set post)"
    unfolding open_challenge_def by blast
  show "fst (Validate (challenge_run h) now token) = fst (Consume (challenge_run h) now token)"
    by (simp add: Validate_def Consume_def split: option.split)
qed

theorem challenge_consume_exact_witness:
  "fst (Consume (challenge_run [(0, Created ''u1'' ''tokA''), (5, Created ''u2'' ''tokB''), (9, RevokedUser ''u2''),
     (10, Validated ''tokA'')]) 20 ''tokA'') = (''u1'', True)"
proof -
  let ?h = "[(0 :: gtime, Created ''u1'' ''tokA''), (5, Created ''u2'' ''tokB''), (9, RevokedUser ''u2''), (10, Validated ''tokA'')]"
  have "distinct (concat (map created_token ?h))" "\<forall>x \<in> set ?h. fst x \<le> 20" by simp_all
  note exact = challenge_consume_exact [OF this, of "''tokA''" "''u1''", THEN conjunct1]
  show ?thesis
    unfolding exact
    by (rule exI [of _ "[]"], rule exI [of _ 0]) (simp add: ChallengeTTL_def)
qed

text \<open>
  The sections that \<open>LockUser\<close> brackets exclude each other for one user, so that a login cannot
  interleave with a credential change or revocation of that user; a waiting one can enter as soon as
  none is inside; and the table of locks holds exactly the users with a section open or waiting.
\<close>

lemma user_lock_exclusive:
  assumes "(lock_step LockUser UnlockUser)\<^sup>*\<^sup>* (lock_start NewChallengeStore) S"
  shows "(\<forall>t t' r r'. ls_pc S t = Inside userID r \<longrightarrow> ls_pc S t' = Inside userID r' \<longrightarrow> t = t') \<and>
    (\<forall>t r. ls_pc S t = Waiting userID r \<longrightarrow> (\<forall>t' r'. ls_pc S t' \<noteq> Inside userID r') \<longrightarrow>
       (\<exists>S'. lock_step LockUser UnlockUser S S' \<and> ls_pc S' t = Inside userID r)) \<and>
    (map_of (cs_users (ls_table S)) userID \<noteq> None \<longleftrightarrow> (\<exists>t r. pc_entry (ls_pc S t) = Some (userID, r)))"
proof -
  have empty: "\<And>k. map_of (cs_users NewChallengeStore) k = None" by (simp add: NewChallengeStore_def)
  show ?thesis
    using user_locks.exclusive [OF assms empty] user_locks.waiter_enters [OF assms empty]
      user_locks.no_leak [OF assms empty]
    by blast
qed

definition example_user_lock :: "challenge_store lock_system" where
  "example_user_lock = \<lparr>ls_table = snd (LockUser NewChallengeStore ''u1''), ls_holder = (\<lambda>_. None),
     ls_pc = (\<lambda>_. Idle)(7 := Waiting ''u1'' 0)\<rparr>"

end
