(* ===== verification/Access_Control.thy ===== *)
theory Access_Control
  imports LT_Prelude
begin

text \<open>
  Roles (\<open>internal/auth/roles.go\<close>, \<open>types.go\<close>), API-key scopes and key format
  (\<open>internal/apikeys\<close>), the principal carried by a request context and the checks made on it
  (\<open>internal/apiv2\<close>, \<open>cmd/labtether/auth_scope_guards.go\<close>).

  A Go slice whose nil value means something else than the empty slice is a
  \<open>string list option\<close>, \<open>None\<close> being nil: nil scopes stand for a cookie session or the owner
  token, which are not limited by scopes. A request context is the record of the six values the
  hub stores in it; an absent string value reads as the empty string, an absent slice as nil.
\<close>

section \<open>Roles\<close>

definition RoleOwner :: string where "RoleOwner = ''owner''"
definition RoleAdmin :: string where "RoleAdmin = ''admin''"
definition RoleOperator :: string where "RoleOperator = ''operator''"
definition RoleViewer :: string where "RoleViewer = ''viewer''"

lemmas role_defs [policy_simps] = RoleOwner_def RoleAdmin_def RoleOperator_def RoleViewer_def

definition NormalizeRole :: "string \<Rightarrow> string" where
  "NormalizeRole role =
     (let r = to_lower (trim_space role)
      in if r = RoleOwner then RoleOwner
         else if r = RoleAdmin then RoleAdmin
         else if r = RoleOperator then RoleOperator
         else RoleViewer)"

definition HasAdminPrivileges :: "string \<Rightarrow> bool" where
  "HasAdminPrivileges role = (NormalizeRole role = RoleOwner \<or> NormalizeRole role = RoleAdmin)"

definition HasWritePrivileges :: "string \<Rightarrow> bool" where
  "HasWritePrivileges role =
     (NormalizeRole role = RoleOwner \<or> NormalizeRole role = RoleAdmin \<or>
      NormalizeRole role = RoleOperator)"

text \<open>The \<open>rank\<close> map of \<open>LowerRole\<close>: a missing key reads as 0.\<close>

definition role_rank :: "string \<Rightarrow> int" where
  "role_rank r =
     (if r = RoleViewer then 0 else if r = RoleOperator then 1
      else if r = RoleAdmin then 2 else if r = RoleOwner then 3 else 0)"

definition LowerRole :: "string \<Rightarrow> string \<Rightarrow> string" where
  "LowerRole a b =
     (let a = NormalizeRole a; b = NormalizeRole b
      in if role_rank b < role_rank a then b else a)"

definition IsValidRole :: "string \<Rightarrow> bool" where
  "IsValidRole role =
     (role = RoleOwner \<or> role = RoleAdmin \<or> role = RoleOperator \<or> role = RoleViewer)"

definition IsReadOnlyRole :: "string \<Rightarrow> bool" where
  "IsReadOnlyRole role = (role = RoleViewer)"

definition streamRoleRank :: "string \<Rightarrow> int" where
  "streamRoleRank role =
     (let r = NormalizeRole role
      in if r = RoleOwner then 3 else if r = RoleAdmin then 2
         else if r = RoleOperator then 1 else 0)"

lemma role_distinct [simp]:
  "RoleOwner \<noteq> RoleAdmin" "RoleOwner \<noteq> RoleOperator" "RoleOwner \<noteq> RoleViewer"
  "RoleAdmin \<noteq> RoleOperator" "RoleAdmin \<noteq> RoleViewer" "RoleOperator \<noteq> RoleViewer"
  "RoleAdmin \<noteq> RoleOwner" "RoleOperator \<noteq> RoleOwner" "RoleViewer \<noteq> RoleOwner"
  "RoleOperator \<noteq> RoleAdmin" "RoleViewer \<noteq> RoleAdmin" "RoleViewer \<noteq> RoleOperator"
  by (simp_all add: role_defs)

lemma NormalizeRole_cases:
  obtains "NormalizeRole role = RoleOwner" | "NormalizeRole role = RoleAdmin"
  | "NormalizeRole role = RoleOperator" | "NormalizeRole role = RoleViewer"
  unfolding NormalizeRole_def Let_def by meson

lemma NormalizeRole_fixed [simp]:
  "NormalizeRole RoleOwner = RoleOwner" "NormalizeRole RoleAdmin = RoleAdmin"
  "NormalizeRole RoleOperator = RoleOperator" "NormalizeRole RoleViewer = RoleViewer"
  by (code_simp+)

lemma NormalizeRole_idem [simp]: "NormalizeRole (NormalizeRole role) = NormalizeRole role"
  by (rule NormalizeRole_cases [of role]) simp_all

lemma IsValidRole_NormalizeRole [simp]: "IsValidRole (NormalizeRole role)"
  by (rule NormalizeRole_cases [of role]) (simp_all add: IsValidRole_def)

lemma NormalizeRole_LowerRole [simp]: "NormalizeRole (LowerRole a b) = LowerRole a b"
  by (simp add: LowerRole_def Let_def)

lemma streamRoleRank_eq: "streamRoleRank role = role_rank (NormalizeRole role)"
  by (rule NormalizeRole_cases [of role]) (simp_all add: streamRoleRank_def role_rank_def)

lemma HasAdminPrivileges_rank: "HasAdminPrivileges role \<longleftrightarrow> 2 \<le> streamRoleRank role"
  by (rule NormalizeRole_cases [of role]) (simp_all add: streamRoleRank_def HasAdminPrivileges_def)

lemma HasWritePrivileges_rank: "HasWritePrivileges role \<longleftrightarrow> 1 \<le> streamRoleRank role"
  by (rule NormalizeRole_cases [of role]) (simp_all add: streamRoleRank_def HasWritePrivileges_def)

lemma owner_rank: "NormalizeRole role = RoleOwner \<longleftrightarrow> 3 \<le> streamRoleRank role"
  by (rule NormalizeRole_cases [of role]) (simp_all add: streamRoleRank_def)

lemma streamRoleRank_LowerRole:
  "streamRoleRank (LowerRole a b) = min (streamRoleRank a) (streamRoleRank b)"
  by (simp add: streamRoleRank_eq LowerRole_def Let_def)

section \<open>API keys and scopes\<close>

record api_key =
  key_id :: string
  key_name :: string
  key_prefix :: string
  key_secret_hash :: string
  key_role :: string
  key_scopes :: "string list option"
  key_allowed_assets :: "string list option"
  key_expires_at :: "gtime option"
  key_created_by :: string
  key_created_at :: gtime
  key_last_used_at :: "gtime option"

definition slice :: "'a list option \<Rightarrow> 'a list" where
  "slice s = (case s of None \<Rightarrow> [] | Some xs \<Rightarrow> xs)"

lemma slice_simps [simp]: "slice None = []" "slice (Some xs) = xs"
  by (simp_all add: slice_def)

definition knownScopeCategories :: "string list" where
  "knownScopeCategories =
     [''assets'', ''files'', ''services'', ''processes'',
      ''docker'', ''connectors'', ''groups'', ''alerts'',
      ''shell'', ''network'', ''disks'', ''packages'',
      ''cron'', ''users'', ''homeassistant'', ''agents'',
      ''collectors'', ''web-services'', ''webhooks'',
      ''schedules'', ''actions'', ''events'', ''search'',
      ''metrics'', ''hub'', ''failover'', ''bulk'',
      ''terminal'', ''dead-letters'', ''logs'',
      ''credentials'', ''audit'', ''settings'',
      ''discovery'', ''topology'', ''updates'',
      ''incidents'', ''notifications'']"

text \<open>One iteration of the loop of \<open>ScopeAllows\<close>: does the granted scope \<open>g\<close> cover \<open>required\<close>?\<close>

definition scope_grants :: "string \<Rightarrow> string \<Rightarrow> bool" where
  "scope_grants g required =
     (g = ''*'' \<or> g = required \<or>
      (has_suffix g '':*'' \<and> has_prefix required (trim_suffix g '':*'' @ '':'')) \<or>
      (\<not> contains g '':'' \<and> has_prefix required (g @ '':'')))"

definition ScopeAllows :: "string list \<Rightarrow> string \<Rightarrow> bool" where
  "ScopeAllows granted required =
     (if required = [] then False else list_ex (\<lambda>g. scope_grants g required) granted)"

definition AssetAllowed :: "string list \<Rightarrow> string \<Rightarrow> bool" where
  "AssetAllowed allowedAssets assetID =
     (if allowedAssets = [] then True else list_ex (\<lambda>a. a = assetID) allowedAssets)"

datatype scope_error = ScopeRequired | UnknownScope string | UnknownScopeCategory string

definition scope_category :: "string \<Rightarrow> string" where
  "scope_category s = takeWhile (\<lambda>c. c \<noteq> CHR '':'') s"

fun validate_scope_list :: "string list \<Rightarrow> scope_error option" where
  "validate_scope_list [] = None"
| "validate_scope_list (s # ss) =
     (if s = ''*'' then validate_scope_list ss
      else if \<not> contains s '':'' then
        (if s \<notin> set knownScopeCategories then Some (UnknownScope s) else validate_scope_list ss)
      else if scope_category s \<notin> set knownScopeCategories
        then Some (UnknownScopeCategory (scope_category s))
      else validate_scope_list ss)"

definition ValidateScopes :: "string list \<Rightarrow> scope_error option" where
  "ValidateScopes scopes = (if scopes = [] then Some ScopeRequired else validate_scope_list scopes)"

definition ExtractPrefix :: "string \<Rightarrow> string option" where
  "ExtractPrefix raw =
     (if \<not> has_prefix raw ''lt_'' then None
      else let rest = drop 3 raw
           in case index_of CHR ''_'' rest of
                None \<Rightarrow> None
              | Some idx \<Rightarrow> (if idx < 1 then None else Some (take idx rest)))"

definition IsAPIKeyFormat :: "string \<Rightarrow> bool" where
  "IsAPIKeyFormat s = (ExtractPrefix s \<noteq> None)"

section \<open>The request context\<close>

record auth_ctx =
  cx_user_id :: string
  cx_role :: string
  cx_scopes :: "string list option"
  cx_assets :: "string list option"
  cx_key_id :: string
  cx_session_id :: string

definition background :: auth_ctx where
  "background =
     \<lparr>cx_user_id = [], cx_role = [], cx_scopes = None, cx_assets = None, cx_key_id = [],
      cx_session_id = []\<rparr>"

definition ContextWithUserID :: "auth_ctx \<Rightarrow> string \<Rightarrow> auth_ctx" where
  "ContextWithUserID ctx userID = ctx\<lparr>cx_user_id := userID\<rparr>"

definition ContextWithUserRole :: "auth_ctx \<Rightarrow> string \<Rightarrow> auth_ctx" where
  "ContextWithUserRole ctx role = ctx\<lparr>cx_role := role\<rparr>"

definition ContextWithPrincipal :: "auth_ctx \<Rightarrow> string \<Rightarrow> string \<Rightarrow> auth_ctx" where
  "ContextWithPrincipal ctx userID role = ContextWithUserRole (ContextWithUserID ctx userID) role"

definition PrincipalActorID :: "auth_ctx \<Rightarrow> string" where
  "PrincipalActorID ctx =
     (let actorID = trim_space (cx_user_id ctx) in if actorID = [] then ''system'' else actorID)"

definition ContextWithScopes :: "auth_ctx \<Rightarrow> string list option \<Rightarrow> auth_ctx" where
  "ContextWithScopes ctx scopes = ctx\<lparr>cx_scopes := scopes\<rparr>"

definition ContextWithAllowedAssets :: "auth_ctx \<Rightarrow> string list option \<Rightarrow> auth_ctx" where
  "ContextWithAllowedAssets ctx assets = ctx\<lparr>cx_assets := assets\<rparr>"

definition ContextWithAPIKeyID :: "auth_ctx \<Rightarrow> string \<Rightarrow> auth_ctx" where
  "ContextWithAPIKeyID ctx keyID = ctx\<lparr>cx_key_id := keyID\<rparr>"

lemmas context_defs [policy_simps] =
  ContextWithUserID_def ContextWithUserRole_def ContextWithPrincipal_def ContextWithScopes_def
  ContextWithAllowedAssets_def ContextWithAPIKeyID_def

section \<open>Checks on the context\<close>

definition ScopeCheck :: "string list option \<Rightarrow> string \<Rightarrow> bool" where
  "ScopeCheck grantedScopes required =
     (case grantedScopes of None \<Rightarrow> True | Some granted \<Rightarrow> ScopeAllows granted required)"

definition AssetCheck :: "string list option \<Rightarrow> string \<Rightarrow> bool" where
  "AssetCheck allowedAssets assetID = AssetAllowed (slice allowedAssets) assetID"

definition AssetCheckContext :: "auth_ctx \<Rightarrow> string \<Rightarrow> bool" where
  "AssetCheckContext ctx assetID = AssetCheck (cx_assets ctx) assetID"

definition RequireAssetAccess :: "auth_ctx \<Rightarrow> string \<Rightarrow> bool" where
  "RequireAssetAccess ctx assetID = AssetCheckContext ctx assetID"

definition RequireScope :: "auth_ctx \<Rightarrow> string \<Rightarrow> bool" where
  "RequireScope ctx required = ScopeCheck (cx_scopes ctx) required"

definition IsMutatingMethod :: "string \<Rightarrow> bool" where
  "IsMutatingMethod method = (method \<noteq> ''GET'' \<and> method \<noteq> ''HEAD'' \<and> method \<noteq> ''OPTIONS'')"

definition IsAPIKeyPrincipal :: "auth_ctx \<Rightarrow> bool" where
  "IsAPIKeyPrincipal ctx =
     (if trim_space (cx_key_id ctx) \<noteq> [] then True
      else has_prefix (to_lower (trim_space (cx_user_id ctx))) ''apikey:'')"

definition IsOwnerPrincipal :: "auth_ctx \<Rightarrow> bool" where
  "IsOwnerPrincipal ctx =
     (if IsAPIKeyPrincipal ctx then False
      else equal_fold (trim_space (cx_role ctx)) ''owner'')"

text \<open>The guards wrapped around a route: \<open>True\<close> when the wrapped handler runs, \<open>False\<close> for the 403.\<close>

definition requireScope :: "string \<Rightarrow> auth_ctx \<Rightarrow> bool" where
  "requireScope required ctx = (\<not> (required \<noteq> [] \<and> \<not> ScopeCheck (cx_scopes ctx) required))"

definition requireReadWriteScopes :: "string \<Rightarrow> string \<Rightarrow> string \<Rightarrow> auth_ctx \<Rightarrow> bool" where
  "requireReadWriteScopes readScope writeScope method ctx =
     (let required = (if IsMutatingMethod method then writeScope else readScope)
      in \<not> (required \<noteq> [] \<and> \<not> ScopeCheck (cx_scopes ctx) required))"

definition requireScopeByMethod :: "(string \<Rightarrow> string) \<Rightarrow> string \<Rightarrow> string \<Rightarrow> auth_ctx \<Rightarrow> bool" where
  "requireScopeByMethod methodScopes fallbackScope method ctx =
     (let required = methodScopes method;
          required = (if required = [] then fallbackScope else required)
      in \<not> (required \<noteq> [] \<and> \<not> ScopeCheck (cx_scopes ctx) required))"

definition requireAdminForMutation :: "string \<Rightarrow> auth_ctx \<Rightarrow> bool" where
  "requireAdminForMutation method ctx =
     (\<not> (IsMutatingMethod method \<and> \<not> HasAdminPrivileges (cx_role ctx)))"

definition denyAssetRestrictedGlobalAPI :: "auth_ctx \<Rightarrow> bool" where
  "denyAssetRestrictedGlobalAPI ctx = (slice (cx_assets ctx) \<noteq> [])"

section \<open>Lemmas\<close>

lemma contains_colon_split:
  "CHR '':'' \<in> set s \<Longrightarrow> \<exists>t. s = scope_category s @ '':'' @ t"
  by (induction s) (auto simp: scope_category_def)

lemma scope_category_no_colon: "CHR '':'' \<notin> set (scope_category s)"
  by (auto simp: scope_category_def dest: set_takeWhileD)

lemma scope_category_append:
  "CHR '':'' \<notin> set c \<Longrightarrow> scope_category (c @ '':'' @ t) = c"
  by (simp add: scope_category_def takeWhile_append)

lemma scope_category_plain: "CHR '':'' \<notin> set c \<Longrightarrow> scope_category c = c"
  by (simp add: scope_category_def takeWhile_eq_all_conv) metis

lemma validate_scope_list_None:
  "validate_scope_list ss = None \<longleftrightarrow>
     (\<forall>s \<in> set ss. s = ''*'' \<or> scope_category s \<in> set knownScopeCategories)"
proof (induction ss)
  case (Cons s ss)
  have "\<not> contains s '':'' \<Longrightarrow> scope_category s = s"
    by (simp add: scope_category_plain)
  with Cons.IH show ?case by auto
qed simp

text \<open>A granted scope other than the global wildcard reaches only scopes of its own category.\<close>

lemma scope_grants_category:
  assumes "scope_grants g required" "g \<noteq> ''*''"
  shows "scope_category g = scope_category required"
proof -
  consider "g = required"
    | t r where "g = t @ '':*''" "required = t @ '':'' @ r"
    | r where "CHR '':'' \<notin> set g" "required = g @ '':'' @ r"
    using assms by (auto simp: scope_grants_def has_suffix_iff has_prefix_iff)
  then show ?thesis
  proof cases
    case 1
    then show ?thesis by simp
  next
    case (2 t r)
    then show ?thesis
      by (cases "CHR '':'' \<in> set t") (auto simp: scope_category_def takeWhile_append)
  next
    case (3 r)
    then show ?thesis using scope_category_append [of g r] by (simp add: scope_category_plain)
  qed
qed

lemma known_categories_nonempty: "[] \<notin> set knownScopeCategories"
  by (simp add: knownScopeCategories_def)

section \<open>Properties\<close>

text \<open>
  A validated scope list without the global wildcard never reaches another category: every
  required scope it passes lies in a known category that one of the granted scopes names,
  whatever the shapes of the scopes (exact, \<open>category:*\<close>, bare category).
\<close>

lemma scope_categories_isolated:
  assumes valid: "ValidateScopes granted = None"
    and wild: "''*'' \<notin> set granted"
    and pass: "ScopeCheck (Some granted) required"
  shows "scope_category required \<in> set knownScopeCategories \<inter> scope_category ` set granted"
proof -
  obtain g where g: "g \<in> set granted" "scope_grants g required"
    using pass by (auto simp: ScopeCheck_def ScopeAllows_def list_ex_iff split: if_splits)
  with wild have "scope_category g = scope_category required"
    by (intro scope_grants_category) auto
  moreover have "scope_category g \<in> set knownScopeCategories"
    using valid g(1) wild by (auto simp: ValidateScopes_def validate_scope_list_None split: if_splits)
  ultimately show ?thesis using g(1) by (metis IntI imageI)
qed

text \<open>
  \<open>LowerRole\<close> is the meet of the role order: its rank is the smaller of the two ranks, and
  each privilege (write, admin, owner) is held by the result exactly when both arguments hold it,
  for any spelling of the roles.
\<close>

lemma LowerRole_is_meet:
  "streamRoleRank (LowerRole a b) = min (streamRoleRank a) (streamRoleRank b) \<and>
   (HasWritePrivileges (LowerRole a b) = (HasWritePrivileges a \<and> HasWritePrivileges b)) \<and>
   (HasAdminPrivileges (LowerRole a b) = (HasAdminPrivileges a \<and> HasAdminPrivileges b)) \<and>
   ((LowerRole a b = RoleOwner) = (NormalizeRole a = RoleOwner \<and> NormalizeRole b = RoleOwner))"
proof -
  have "(LowerRole a b = RoleOwner) = (3 \<le> streamRoleRank (LowerRole a b))"
    using owner_rank [of "LowerRole a b"] by simp
  then show ?thesis
    by (simp add: HasWritePrivileges_rank HasAdminPrivileges_rank owner_rank
        streamRoleRank_LowerRole)
qed

end
