(* ===== verification/Stream_Principals.thy ===== *)
theory Stream_Principals
  imports Access_Control
begin

text \<open>
  The keys that name the credentials behind a stream
  (\<open>internal/hubapi/shared/stream_principals.go\<close>): its actor and its sign-in session. Stream tickets
  and open streams are revoked by these keys.
\<close>

definition ContextWithAuthSessionID :: "auth_ctx \<Rightarrow> string \<Rightarrow> auth_ctx" where
  "ContextWithAuthSessionID ctx sessionID = ctx\<lparr>cx_session_id := trim_space sessionID\<rparr>"

definition StreamActorKey :: "string \<Rightarrow> string" where
  "StreamActorKey actorID = ''actor:'' @ trim_space actorID"

definition StreamSessionKey :: "string \<Rightarrow> string" where
  "StreamSessionKey sessionID = ''session:'' @ trim_space sessionID"

definition StreamPrincipalKeys :: "auth_ctx \<Rightarrow> string list" where
  "StreamPrincipalKeys ctx =
     (let actor = trim_space (cx_user_id ctx)
      in (if actor \<noteq> [] \<and> actor \<noteq> ''owner'' then [StreamActorKey actor] else []) @
         (if cx_session_id ctx \<noteq> [] then [StreamSessionKey (cx_session_id ctx)] else []))"

end
