(* ===== verification/Auth_Store.thy ===== *)
theory Auth_Store
  imports Access_Control
begin

text \<open>
  The in-memory authentication store (\<open>internal/persistence/memory_auth_store.go\<close>): users, sign-in
  sessions and one-time recovery codes, with the structs of \<open>internal/auth/types.go\<close>.

  Every method runs under the store's mutex, so one method call is one atomic step on the record
  \<open>memory_auth_store\<close>; \<open>now\<close> is the value of \<open>time.Now().UTC()\<close> in the call. The bcrypt comparison
  and the JSON codec of the recovery codes are arguments of \<open>ConsumeRecoveryCode\<close>.
\<close>

section \<open>State\<close>

record user =
  usr_id :: string
  usr_username :: string
  usr_role :: string
  usr_auth_provider :: string
  usr_oidc_issuer :: string
  usr_oidc_subject :: string
  usr_password_hash :: string
  usr_totp_secret :: string
  usr_totp_verified_at :: "gtime option"
  usr_totp_recovery_codes :: string
  usr_created_at :: gtime
  usr_updated_at :: gtime

record session =
  ses_id :: string
  ses_user_id :: string
  ses_token_hash :: string
  ses_expires_at :: gtime
  ses_created_at :: gtime

record memory_auth_store =
  ma_users :: "user list"
  ma_sessions :: "session list"
  ma_next_id :: nat

datatype auth_error =
  ErrUserNotFound | UserExists | OIDCIdentityRequired | OIDCIdentityExists
| LegacyBindingRequired | MarshalFailed

definition NewMemoryAuthStore :: memory_auth_store where
  "NewMemoryAuthStore = \<lparr>ma_users = [], ma_sessions = [], ma_next_id = 0\<rparr>"

definition nextUserID :: "memory_auth_store \<Rightarrow> string \<times> memory_auth_store" where
  "nextUserID s =
     (let n = ma_next_id s + 1 in (''user-'' @ itoa n, s\<lparr>ma_next_id := n\<rparr>))"

definition nextSessionID :: "memory_auth_store \<Rightarrow> string \<times> memory_auth_store" where
  "nextSessionID s =
     (let n = ma_next_id s + 1 in (''session-'' @ itoa n, s\<lparr>ma_next_id := n\<rparr>))"

section \<open>Users\<close>

definition GetUserByID :: "memory_auth_store \<Rightarrow> string \<Rightarrow> user option" where
  "GetUserByID s uid = find_first (\<lambda>u. usr_id u = uid) (ma_users s)"

definition GetUserByUsername :: "memory_auth_store \<Rightarrow> string \<Rightarrow> user option" where
  "GetUserByUsername s username = find_first (\<lambda>u. usr_username u = username) (ma_users s)"

definition GetUserByOIDCIdentity ::
    "memory_auth_store \<Rightarrow> string \<Rightarrow> string \<Rightarrow> string \<Rightarrow> user option" where
  "GetUserByOIDCIdentity s provider issuer subject =
     (let provider = to_lower (trim_space provider); issuer = trim_space issuer;
          subject = trim_space subject
      in find_first (\<lambda>u. usr_auth_provider u = provider \<and> usr_oidc_issuer u = issuer \<and>
           usr_oidc_subject u = subject) (ma_users s))"

definition GetUserByOIDCSubject :: "memory_auth_store \<Rightarrow> string \<Rightarrow> string \<Rightarrow> user option" where
  "GetUserByOIDCSubject s provider subject =
     (let provider = to_lower (trim_space provider); subject = trim_space subject
      in find_first (\<lambda>u. usr_auth_provider u = provider \<and> usr_oidc_issuer u = [] \<and>
           usr_oidc_subject u = subject) (ma_users s))"

definition ListUsers :: "memory_auth_store \<Rightarrow> int \<Rightarrow> user list" where
  "ListUsers s limit =
     (let limit = (if limit \<le> 0 \<or> limit > int (length (ma_users s))
                   then int (length (ma_users s)) else limit)
      in take (nat limit) (ma_users s))"

text \<open>The user literal the four creating methods build and append.\<close>

definition append_user ::
    "memory_auth_store \<Rightarrow> gtime \<Rightarrow> string \<Rightarrow> string \<Rightarrow> string \<Rightarrow> string \<Rightarrow> string \<Rightarrow> string \<Rightarrow>
     user \<times> memory_auth_store" where
  "append_user s now username passwordHash role authProvider oidcIssuer oidcSubject =
     (let (new_id, s) = nextUserID s;
          u = \<lparr>usr_id = new_id, usr_username = username, usr_role = role,
               usr_auth_provider = authProvider, usr_oidc_issuer = oidcIssuer,
               usr_oidc_subject = oidcSubject, usr_password_hash = passwordHash,
               usr_totp_secret = [], usr_totp_verified_at = None, usr_totp_recovery_codes = [],
               usr_created_at = now, usr_updated_at = now\<rparr>
      in (u, s\<lparr>ma_users := ma_users s @ [u]\<rparr>))"

definition BootstrapFirstUser ::
    "memory_auth_store \<Rightarrow> gtime \<Rightarrow> string \<Rightarrow> string \<Rightarrow> user option \<times> memory_auth_store" where
  "BootstrapFirstUser s now username passwordHash =
     (if ma_users s \<noteq> [] then (None, s)
      else let (u, s) = append_user s now username passwordHash RoleOwner ''local'' [] []
           in (Some u, s))"

definition CreateUser ::
    "memory_auth_store \<Rightarrow> gtime \<Rightarrow> string \<Rightarrow> string \<Rightarrow> (auth_error, user) res \<times> memory_auth_store" where
  "CreateUser s now username passwordHash =
     (if list_ex (\<lambda>u. usr_username u = username) (ma_users s) then (Inl UserExists, s)
      else let (u, s) = append_user s now username passwordHash RoleOwner ''local'' [] []
           in (Inr u, s))"

definition CreateUserWithRole ::
    "memory_auth_store \<Rightarrow> gtime \<Rightarrow> string \<Rightarrow> string \<Rightarrow> string \<Rightarrow> string \<Rightarrow> string \<Rightarrow>
     (auth_error, user) res \<times> memory_auth_store" where
  "CreateUserWithRole s now username passwordHash role authProvider oidcSubject =
     (if list_ex (\<lambda>u. usr_username u = username) (ma_users s) then (Inl UserExists, s)
      else let (u, s) = append_user s now username passwordHash role authProvider [] oidcSubject
           in (Inr u, s))"

text \<open>The loop over the users: the first user that conflicts decides the error.\<close>

definition identity_conflict :: "user list \<Rightarrow> string \<Rightarrow> string \<Rightarrow> string \<Rightarrow> string \<Rightarrow> auth_error option" where
  "identity_conflict us username provider issuer subject =
     (case find_first (\<lambda>u. usr_username u = username \<or>
             (usr_auth_provider u = provider \<and> usr_oidc_issuer u = issuer \<and>
              usr_oidc_subject u = subject)) us of
        None \<Rightarrow> None
      | Some u \<Rightarrow> Some (if usr_username u = username then UserExists else OIDCIdentityExists))"

definition CreateUserWithOIDCIdentity ::
    "memory_auth_store \<Rightarrow> gtime \<Rightarrow> string \<Rightarrow> string \<Rightarrow> string \<Rightarrow> string \<Rightarrow> string \<Rightarrow> string \<Rightarrow>
     (auth_error, user) res \<times> memory_auth_store" where
  "CreateUserWithOIDCIdentity s now username passwordHash role authProvider oidcIssuer oidcSubject =
     (let authProvider = to_lower (trim_space authProvider); oidcIssuer = trim_space oidcIssuer;
          oidcSubject = trim_space oidcSubject
      in if authProvider = [] \<or> oidcIssuer = [] \<or> oidcSubject = [] then (Inl OIDCIdentityRequired, s)
         else case identity_conflict (ma_users s) username authProvider oidcIssuer oidcSubject of
           Some e \<Rightarrow> (Inl e, s)
         | None \<Rightarrow>
             (let (u, s) = append_user s now username passwordHash role authProvider oidcIssuer
                             oidcSubject
              in (Inr u, s)))"

definition BindLegacyOIDCIdentity ::
    "memory_auth_store \<Rightarrow> gtime \<Rightarrow> string \<Rightarrow> string \<Rightarrow> string \<Rightarrow> string \<Rightarrow>
     (auth_error, user option) res \<times> memory_auth_store" where
  "BindLegacyOIDCIdentity s now uid authProvider oidcSubject oidcIssuer =
     (let authProvider = to_lower (trim_space authProvider); oidcSubject = trim_space oidcSubject;
          oidcIssuer = trim_space oidcIssuer;
          target = (\<lambda>u. usr_id u = uid \<and> usr_auth_provider u = authProvider \<and>
                        usr_oidc_issuer u = [] \<and> usr_oidc_subject u = oidcSubject);
          bind = (\<lambda>u. u\<lparr>usr_oidc_issuer := oidcIssuer, usr_updated_at := now\<rparr>)
      in if trim_space uid = [] \<or> authProvider = [] \<or> oidcSubject = [] \<or> oidcIssuer = []
         then (Inl LegacyBindingRequired, s)
         else if list_ex (\<lambda>u. usr_id u \<noteq> uid \<and> usr_auth_provider u = authProvider \<and>
                usr_oidc_issuer u = oidcIssuer \<and> usr_oidc_subject u = oidcSubject) (ma_users s)
         then (Inl OIDCIdentityExists, s)
         else case find_first target (ma_users s) of
           None \<Rightarrow> (Inr None, s)
         | Some u \<Rightarrow> (Inr (Some (bind u)), s\<lparr>ma_users := update_first target bind (ma_users s)\<rparr>))"

text \<open>
  The loop shared by the methods that change one user: the first user with the identifier is
  changed, and a missing user is \<open>ErrUserNotFound\<close>.
\<close>

definition update_user ::
    "(user \<Rightarrow> user) \<Rightarrow> memory_auth_store \<Rightarrow> string \<Rightarrow> auth_error option \<times> memory_auth_store" where
  "update_user f s uid =
     (if list_ex (\<lambda>u. usr_id u = uid) (ma_users s)
      then (None, s\<lparr>ma_users := update_first (\<lambda>u. usr_id u = uid) f (ma_users s)\<rparr>)
      else (Some ErrUserNotFound, s))"

definition UpdateUserPasswordHash ::
    "memory_auth_store \<Rightarrow> gtime \<Rightarrow> string \<Rightarrow> string \<Rightarrow> auth_error option \<times> memory_auth_store" where
  "UpdateUserPasswordHash s now uid passwordHash =
     update_user (\<lambda>u. u\<lparr>usr_password_hash := passwordHash, usr_updated_at := now\<rparr>) s uid"

definition UpdateUserRole ::
    "memory_auth_store \<Rightarrow> gtime \<Rightarrow> string \<Rightarrow> string \<Rightarrow> auth_error option \<times> memory_auth_store" where
  "UpdateUserRole s now uid role =
     update_user (\<lambda>u. u\<lparr>usr_role := role, usr_updated_at := now\<rparr>) s uid"

definition DeleteUser ::
    "memory_auth_store \<Rightarrow> string \<Rightarrow> auth_error option \<times> memory_auth_store" where
  "DeleteUser s uid =
     (if list_ex (\<lambda>u. usr_id u = uid) (ma_users s)
      then (None, s\<lparr>ma_users := remove_first (\<lambda>u. usr_id u = uid) (ma_users s)\<rparr>)
      else (Some ErrUserNotFound, s))"

definition SetUserTOTPSecret ::
    "memory_auth_store \<Rightarrow> gtime \<Rightarrow> string \<Rightarrow> string \<Rightarrow> auth_error option \<times> memory_auth_store" where
  "SetUserTOTPSecret s now uid encryptedSecret =
     update_user (\<lambda>u. u\<lparr>usr_totp_secret := encryptedSecret, usr_updated_at := now\<rparr>) s uid"

definition ConfirmUserTOTP ::
    "memory_auth_store \<Rightarrow> gtime \<Rightarrow> string \<Rightarrow> string \<Rightarrow> auth_error option \<times> memory_auth_store" where
  "ConfirmUserTOTP s now uid recoveryCodes =
     update_user (\<lambda>u. u\<lparr>usr_totp_verified_at := Some now, usr_totp_recovery_codes := recoveryCodes,
       usr_updated_at := now\<rparr>) s uid"

definition ClearUserTOTP ::
    "memory_auth_store \<Rightarrow> gtime \<Rightarrow> string \<Rightarrow> auth_error option \<times> memory_auth_store" where
  "ClearUserTOTP s now uid =
     update_user (\<lambda>u. u\<lparr>usr_totp_secret := [], usr_totp_verified_at := None,
       usr_totp_recovery_codes := [], usr_updated_at := now\<rparr>) s uid"

definition UpdateUserRecoveryCodes ::
    "memory_auth_store \<Rightarrow> gtime \<Rightarrow> string \<Rightarrow> string \<Rightarrow> auth_error option \<times> memory_auth_store" where
  "UpdateUserRecoveryCodes s now uid recoveryCodes =
     update_user (\<lambda>u. u\<lparr>usr_totp_recovery_codes := recoveryCodes, usr_updated_at := now\<rparr>) s uid"

definition CheckRecoveryCode :: "(string \<Rightarrow> string \<Rightarrow> bool) \<Rightarrow> string \<Rightarrow> string \<Rightarrow> bool" where
  "CheckRecoveryCode bcrypt_matches code hash = bcrypt_matches hash (trim_space code)"

definition ConsumeRecoveryCode ::
    "(string \<Rightarrow> string \<Rightarrow> bool) \<Rightarrow> (string \<Rightarrow> string list option) \<Rightarrow> (string list \<Rightarrow> string option) \<Rightarrow>
     memory_auth_store \<Rightarrow> gtime \<Rightarrow> string \<Rightarrow> string \<Rightarrow> (auth_error, bool) res \<times> memory_auth_store" where
  "ConsumeRecoveryCode bcrypt_matches unmarshal marshal s now userID code =
     (let userID = trim_space userID
      in case GetUserByID s userID of
        None \<Rightarrow> (Inl ErrUserNotFound, s)
      | Some u \<Rightarrow>
          (if trim_space (usr_totp_recovery_codes u) = [] then (Inr False, s)
           else case unmarshal (usr_totp_recovery_codes u) of
             None \<Rightarrow> (Inr False, s)
           | Some hashes \<Rightarrow>
               (if \<not> list_ex (CheckRecoveryCode bcrypt_matches code) hashes then (Inr False, s)
                else case marshal (remove_first (CheckRecoveryCode bcrypt_matches code) hashes) of
                  None \<Rightarrow> (Inl MarshalFailed, s)
                | Some updated \<Rightarrow>
                    (Inr True, s\<lparr>ma_users := update_first (\<lambda>v. usr_id v = userID)
                       (\<lambda>v. v\<lparr>usr_totp_recovery_codes := updated, usr_updated_at := now\<rparr>)
                       (ma_users s)\<rparr>))))"

section \<open>Sessions\<close>

definition CreateAuthSession ::
    "memory_auth_store \<Rightarrow> gtime \<Rightarrow> string \<Rightarrow> string \<Rightarrow> gtime \<Rightarrow> session \<times> memory_auth_store" where
  "CreateAuthSession s now userID tokenHash expiresAt =
     (let (sid, s) = nextSessionID s;
          sess = \<lparr>ses_id = sid, ses_user_id = userID, ses_token_hash = tokenHash,
                  ses_expires_at = expiresAt, ses_created_at = now\<rparr>
      in (sess, s\<lparr>ma_sessions := ma_sessions s @ [sess]\<rparr>))"

definition ValidateSession :: "memory_auth_store \<Rightarrow> gtime \<Rightarrow> string \<Rightarrow> session option" where
  "ValidateSession s now tokenHash =
     find_first (\<lambda>x. ses_token_hash x = tokenHash \<and> ses_expires_at x > now) (ma_sessions s)"

definition ListSessionsByUserID :: "memory_auth_store \<Rightarrow> string \<Rightarrow> session list" where
  "ListSessionsByUserID s userID = filter (\<lambda>x. ses_user_id x = userID) (ma_sessions s)"

definition DeleteSession :: "memory_auth_store \<Rightarrow> string \<Rightarrow> memory_auth_store" where
  "DeleteSession s uid = s\<lparr>ma_sessions := remove_first (\<lambda>x. ses_id x = uid) (ma_sessions s)\<rparr>"

definition DeleteSessionsByUserID :: "memory_auth_store \<Rightarrow> string \<Rightarrow> memory_auth_store" where
  "DeleteSessionsByUserID s userID =
     s\<lparr>ma_sessions := filter (\<lambda>x. ses_user_id x \<noteq> userID) (ma_sessions s)\<rparr>"

definition DeleteExpiredSessions :: "memory_auth_store \<Rightarrow> gtime \<Rightarrow> int \<times> memory_auth_store" where
  "DeleteExpiredSessions s now =
     (int (length (filter (\<lambda>x. \<not> ses_expires_at x > now) (ma_sessions s))),
      s\<lparr>ma_sessions := filter (\<lambda>x. ses_expires_at x > now) (ma_sessions s)\<rparr>)"

section \<open>Reachable stores\<close>

inductive auth_step :: "memory_auth_store \<Rightarrow> memory_auth_store \<Rightarrow> bool" where
  bootstrap: "auth_step s (snd (BootstrapFirstUser s now username passwordHash))"
| create: "auth_step s (snd (CreateUser s now username passwordHash))"
| create_role: "auth_step s (snd (CreateUserWithRole s now username passwordHash role provider subject))"
| create_oidc: "auth_step s
    (snd (CreateUserWithOIDCIdentity s now username passwordHash role provider issuer subject))"
| bind_legacy: "auth_step s (snd (BindLegacyOIDCIdentity s now uid provider subject issuer))"
| set_password: "auth_step s (snd (UpdateUserPasswordHash s now uid passwordHash))"
| set_role: "auth_step s (snd (UpdateUserRole s now uid role))"
| delete_user: "auth_step s (snd (DeleteUser s uid))"
| set_totp: "auth_step s (snd (SetUserTOTPSecret s now uid secret))"
| confirm_totp: "auth_step s (snd (ConfirmUserTOTP s now uid codes))"
| clear_totp: "auth_step s (snd (ClearUserTOTP s now uid))"
| set_codes: "auth_step s (snd (UpdateUserRecoveryCodes s now uid codes))"
| consume_code: "auth_step s (snd (ConsumeRecoveryCode matches unmarshal marshal s now uid code))"
| create_session: "auth_step s (snd (CreateAuthSession s now uid tokenHash expiresAt))"
| delete_session: "auth_step s (DeleteSession s sid)"
| delete_sessions: "auth_step s (DeleteSessionsByUserID s uid)"
| delete_expired: "auth_step s (snd (DeleteExpiredSessions s now))"

definition auth_reachable :: "memory_auth_store \<Rightarrow> bool" where
  "auth_reachable s = auth_step\<^sup>*\<^sup>* NewMemoryAuthStore s"

definition oidc_identity :: "user \<Rightarrow> string \<times> string \<times> string" where
  "oidc_identity u = (usr_auth_provider u, usr_oidc_issuer u, usr_oidc_subject u)"

definition issued_ids :: "string \<Rightarrow> nat \<Rightarrow> string set" where
  "issued_ids prefix n = (\<lambda>k. prefix @ itoa k) ` {1..n}"

text \<open>
  Identifiers, user names and bound OIDC identities are unique, and the identifiers were issued
  by the store's counter.
\<close>

definition users_inv :: "nat \<Rightarrow> user list \<Rightarrow> bool" where
  "users_inv n us =
     (distinct (map usr_id us) \<and> distinct (map usr_username us) \<and>
      distinct (filter (\<lambda>(_, issuer, _). issuer \<noteq> []) (map oidc_identity us)) \<and>
      set (map usr_id us) \<subseteq> issued_ids ''user-'' n)"

definition sessions_inv :: "nat \<Rightarrow> session list \<Rightarrow> bool" where
  "sessions_inv n xs =
     (distinct (map ses_id xs) \<and> set (map ses_id xs) \<subseteq> issued_ids ''session-'' n)"

definition auth_inv :: "memory_auth_store \<Rightarrow> bool" where
  "auth_inv s = (users_inv (ma_next_id s) (ma_users s) \<and> sessions_inv (ma_next_id s) (ma_sessions s))"

lemma issued_ids_mono: "m \<le> n \<Longrightarrow> issued_ids p m \<subseteq> issued_ids p n"
  by (auto simp: issued_ids_def)

lemma issued_ids_fresh: "p @ itoa (Suc n) \<notin> issued_ids p n"
  by (auto simp: issued_ids_def)

lemma issued_ids_new: "p @ itoa (Suc n) \<in> issued_ids p (Suc n)"
  by (auto simp: issued_ids_def)

lemma users_inv_mono: "users_inv m us \<Longrightarrow> m \<le> n \<Longrightarrow> users_inv n us"
  using issued_ids_mono [of m n "''user-''"] by (auto simp: users_inv_def)

lemma sessions_inv_mono: "sessions_inv m xs \<Longrightarrow> m \<le> n \<Longrightarrow> sessions_inv n xs"
  using issued_ids_mono [of m n "''session-''"] by (auto simp: sessions_inv_def)

lemma users_inv_append:
  assumes "users_inv n us"
    and "usr_username u \<notin> set (map usr_username us)"
    and "usr_oidc_issuer u \<noteq> [] \<Longrightarrow> oidc_identity u \<notin> set (map oidc_identity us)"
    and "usr_id u = ''user-'' @ itoa (Suc n)"
  shows "users_inv (Suc n) (us @ [u])"
proof -
  have "usr_id u \<notin> set (map usr_id us)"
    using assms(1,4) issued_ids_fresh [of "''user-''" n] by (auto simp: users_inv_def)
  moreover have "oidc_identity u = (a, i, b) \<Longrightarrow> i \<noteq> [] \<Longrightarrow> (a, i, b) \<notin> set (map oidc_identity us)"
    for a i b
    using assms(3) by (metis Pair_inject oidc_identity_def)
  moreover have "set (map usr_id us) \<subseteq> issued_ids ''user-'' (Suc n)"
    using assms(1) issued_ids_mono [of n "Suc n" "''user-''"] by (auto simp: users_inv_def)
  ultimately show ?thesis
    using assms(1,2,4) issued_ids_new [of "''user-''" n]
    by (auto simp: users_inv_def split: prod.split)
qed

lemma append_user_inv:
  assumes "auth_inv s"
    and "username \<notin> set (map usr_username (ma_users s))"
    and "issuer \<noteq> [] \<Longrightarrow> (provider, issuer, subject) \<notin> set (map oidc_identity (ma_users s))"
  shows "auth_inv (snd (append_user s now username h role provider issuer subject))"
  using assms sessions_inv_mono [of "ma_next_id s" _ "Suc (ma_next_id s)"]
  by (auto simp: auth_inv_def append_user_def nextUserID_def oidc_identity_def Let_def
      intro!: users_inv_append)

text \<open>Changing fields other than the keys keeps the invariant.\<close>

lemma users_inv_frame:
  assumes "map (\<lambda>u. (usr_id u, usr_username u, oidc_identity u)) us' =
           map (\<lambda>u. (usr_id u, usr_username u, oidc_identity u)) us"
  shows "users_inv n us' = users_inv n us"
proof -
  have "map usr_id us' = map usr_id us" "map usr_username us' = map usr_username us"
    "map oidc_identity us' = map oidc_identity us"
    using assms [THEN arg_cong, of "map fst"] assms [THEN arg_cong, of "map (fst \<circ> snd)"]
      assms [THEN arg_cong, of "map (snd \<circ> snd)"]
    by (simp_all add: comp_def)
  then show ?thesis by (simp only: users_inv_def)
qed

lemma update_user_inv:
  assumes "auth_inv s"
    and "\<And>u. (usr_id (f u), usr_username (f u), oidc_identity (f u)) =
             (usr_id u, usr_username u, oidc_identity u)"
  shows "auth_inv (s\<lparr>ma_users := update_first p f (ma_users s)\<rparr>)"
  using assms(1)
  by (simp add: auth_inv_def users_inv_frame [OF map_update_first_frame] assms(2))

lemma users_inv_remove: "users_inv n us \<Longrightarrow> users_inv n (remove_first p us)"
proof -
  have "distinct (filter q (map f us)) \<Longrightarrow> distinct (filter q (map f (remove_first p us)))"
    for q and f :: "user \<Rightarrow> 'b"
    by (induction us) (auto split: if_splits dest: remove_first_subset [THEN subsetD])
  then show "users_inv n us \<Longrightarrow> users_inv n (remove_first p us)"
    using remove_first_subset [of p us]
    by (auto simp: users_inv_def image_subset_iff subset_iff intro: distinct_map_remove_first)
qed

lemma sessions_inv_filter: "sessions_inv n xs \<Longrightarrow> sessions_inv n (filter p xs)"
  by (auto simp: sessions_inv_def distinct_map_filter)

lemma sessions_inv_remove: "sessions_inv n xs \<Longrightarrow> sessions_inv n (remove_first p xs)"
  using remove_first_subset [of p xs]
  by (auto simp: sessions_inv_def intro: distinct_map_remove_first)

lemma distinct_filter_update_first:
  assumes "distinct (filter q (map g us))" "k \<notin> set (map g us)" "\<And>x. p x \<Longrightarrow> g (f x) = k"
  shows "distinct (filter q (map g (update_first p f us)))"
  using assms(1,2)
proof (induction us)
  case (Cons u us)
  have "g u \<notin> g ` set (update_first p f us)" if "g u \<notin> g ` set us"
    using that Cons.prems(2) assms(3) by (auto dest!: update_first_mem)
  with Cons assms(3) show ?case by (auto split: if_splits)
qed simp

lemma bind_users_inv:
  assumes inv: "users_inv n us"
    and free: "\<forall>u \<in> set us. usr_id u \<noteq> uid \<longrightarrow> oidc_identity u \<noteq> (provider, issuer, subject)"
    and target: "p = (\<lambda>u. usr_id u = uid \<and> oidc_identity u = (provider, [], subject))"
    and f: "f = (\<lambda>u. u\<lparr>usr_oidc_issuer := issuer, usr_updated_at := now\<rparr>)"
    and found: "x \<in> set us" "p x" and "issuer \<noteq> []"
  shows "users_inv n (update_first p f us)"
proof -
  have keys: "map usr_id (update_first p f us) = map usr_id us"
    "map usr_username (update_first p f us) = map usr_username us"
    by (auto intro!: map_update_first_frame simp: f)
  have "u = x" if "u \<in> set us" "usr_id u = uid" for u
    using inv that found by (auto simp: users_inv_def target distinct_map inj_on_def)
  then have "(provider, issuer, subject) \<notin> set (map oidc_identity us)"
    using free found(2) \<open>issuer \<noteq> []\<close> by (auto simp: target) (metis Pair_inject)
  moreover have "oidc_identity (f u) = (provider, issuer, subject)" if "p u" for u
    using that by (auto simp: target f oidc_identity_def)
  ultimately show ?thesis
    using inv distinct_filter_update_first [of _ oidc_identity us "(provider, issuer, subject)" p f]
    by (simp add: users_inv_def keys del: filter_map)
qed

lemma identity_conflict_None:
  "identity_conflict us username provider issuer subject = None \<longleftrightarrow>
     username \<notin> set (map usr_username us) \<and>
     (provider, issuer, subject) \<notin> set (map oidc_identity us)"
proof -
  have "identity_conflict us username provider issuer subject = None \<longleftrightarrow>
    find_first (\<lambda>u. usr_username u = username \<or> (usr_auth_provider u = provider \<and>
      usr_oidc_issuer u = issuer \<and> usr_oidc_subject u = subject)) us = None"
    by (simp add: identity_conflict_def split: option.split)
  also have "\<dots> \<longleftrightarrow> username \<notin> set (map usr_username us) \<and>
      (provider, issuer, subject) \<notin> set (map oidc_identity us)"
    by (auto simp: find_first_None_iff oidc_identity_def)
  finally show ?thesis .
qed

lemma BindLegacyOIDCIdentity_inv:
  assumes "auth_inv s"
  shows "auth_inv (snd (BindLegacyOIDCIdentity s now uid provider subject issuer))"
proof -
  let ?p = "\<lambda>u. usr_id u = uid \<and> oidc_identity u = (to_lower (trim_space provider), [], trim_space subject)"
  let ?f = "\<lambda>u. u\<lparr>usr_oidc_issuer := trim_space issuer, usr_updated_at := now\<rparr>"
  have "users_inv (ma_next_id s) (update_first ?p ?f (ma_users s))"
    if "find_first ?p (ma_users s) = Some x" "trim_space issuer \<noteq> []"
      and "\<not> list_ex (\<lambda>u. usr_id u \<noteq> uid \<and> oidc_identity u =
             (to_lower (trim_space provider), trim_space issuer, trim_space subject)) (ma_users s)"
    for x
    using that assms find_first_SomeD [OF that(1)]
    by (intro bind_users_inv [OF _ _ refl refl]) (auto simp: auth_inv_def list_ex_iff)
  then show ?thesis
    using assms
    by (auto simp: BindLegacyOIDCIdentity_def Let_def auth_inv_def oidc_identity_def split: option.splits)
qed

lemma auth_step_inv: "auth_step s t \<Longrightarrow> auth_inv s \<Longrightarrow> auth_inv t"
proof (induction rule: auth_step.induct)
  case (create_oidc s now username h role provider issuer subject)
  then show ?case
    by (auto simp: CreateUserWithOIDCIdentity_def Let_def identity_conflict_None split_beta
        split: option.splits intro!: append_user_inv)
next
  case (bind_legacy s now uid provider subject issuer)
  then show ?case by (rule BindLegacyOIDCIdentity_inv)
next
  case (create_session s now uid tokenHash expiresAt)
  then show ?case
    using users_inv_mono [of "ma_next_id s" "ma_users s" "Suc (ma_next_id s)"]
      sessions_inv_mono [of "ma_next_id s" "ma_sessions s" "Suc (ma_next_id s)"]
      issued_ids_fresh [of "''session-''" "ma_next_id s"] issued_ids_new [of "''session-''" "ma_next_id s"]
    by (auto simp: CreateAuthSession_def nextSessionID_def Let_def auth_inv_def sessions_inv_def)
next
  case (consume_code s matches unmarshal marshal now uid code)
  then show ?case
    by (auto simp: ConsumeRecoveryCode_def Let_def oidc_identity_def split: option.splits
        intro!: update_user_inv)
qed (auto simp: BootstrapFirstUser_def CreateUser_def CreateUserWithRole_def split_beta list_ex_iff
      UpdateUserPasswordHash_def UpdateUserRole_def SetUserTOTPSecret_def ConfirmUserTOTP_def
      ClearUserTOTP_def UpdateUserRecoveryCodes_def update_user_def oidc_identity_def
      intro!: append_user_inv update_user_inv,
    auto simp: auth_inv_def DeleteUser_def DeleteSession_def DeleteSessionsByUserID_def
      DeleteExpiredSessions_def intro: users_inv_remove sessions_inv_remove sessions_inv_filter)

section \<open>The store as the hub's authentication backend\<close>

text \<open>
  The three reads of the \<open>AuthStore\<close> interface that request authentication makes
  (\<open>internal/persistence\<close>), with the error the interface allows on the left.
\<close>

record auth_backend =
  be_validate_session :: "gtime \<Rightarrow> string \<Rightarrow> (string, session option) res"
  be_get_user :: "string \<Rightarrow> (string, user option) res"
  be_list_sessions :: "string \<Rightarrow> (string, session list) res"

definition memory_auth_backend :: "memory_auth_store \<Rightarrow> auth_backend" where
  "memory_auth_backend s =
     \<lparr>be_validate_session = (\<lambda>now h. Inr (ValidateSession s now h)),
      be_get_user = (\<lambda>uid. Inr (GetUserByID s uid)),
      be_list_sessions = (\<lambda>uid. Inr (ListSessionsByUserID s uid))\<rparr>"

locale auth_contract =
  fixes be :: auth_backend
  assumes validated:
      "be_validate_session be now h = Inr (Some x) \<Longrightarrow> ses_token_hash x = h \<and> now < ses_expires_at x"
    and got_user: "be_get_user be uid = Inr (Some u) \<Longrightarrow> usr_id u = uid"
    and listed: "be_list_sessions be uid = Inr xs \<Longrightarrow> x \<in> set xs \<Longrightarrow> ses_user_id x = uid"

interpretation memory_auth: auth_contract "memory_auth_backend s" for s
  by unfold_locales
    (auto simp: memory_auth_backend_def ValidateSession_def GetUserByID_def ListSessionsByUserID_def
      dest: find_first_SomeD)

section \<open>Recovery codes\<close>

text \<open>Repeated attempts with one code: the number of calls that return true.\<close>

fun recovery_successes ::
    "(string \<Rightarrow> string \<Rightarrow> bool) \<Rightarrow> (string \<Rightarrow> string list option) \<Rightarrow> (string list \<Rightarrow> string option) \<Rightarrow>
     memory_auth_store \<Rightarrow> gtime list \<Rightarrow> string \<Rightarrow> string \<Rightarrow> nat" where
  "recovery_successes matches unmarshal marshal s [] uid code = 0"
| "recovery_successes matches unmarshal marshal s (now # ts) uid code =
     (let (r, s') = ConsumeRecoveryCode matches unmarshal marshal s now uid code
      in (if r = Inr True then 1 else 0) +
         recovery_successes matches unmarshal marshal s' ts uid code)"

lemma length_filter_remove_first:
  "length (filter p (remove_first p xs)) = length (filter p xs) - 1"
  by (induction xs) auto

lemma GetUserByID_update:
  assumes "GetUserByID s uid = Some u" "\<And>v. usr_id (f v) = usr_id v"
  shows "GetUserByID (s\<lparr>ma_users := update_first (\<lambda>v. usr_id v = uid) f (ma_users s)\<rparr>) uid = Some (f u)"
  using assms find_first_update_first_same [of "\<lambda>v. usr_id v = uid" f "ma_users s"]
  by (simp add: GetUserByID_def)

lemma ConsumeRecoveryCode_step:
  assumes user: "GetUserByID s (trim_space uid) = Some u"
    and stored: "trim_space (usr_totp_recovery_codes u) \<noteq> []"
      "unmarshal (usr_totp_recovery_codes u) = Some hashes"
    and codec: "\<forall>xs. \<exists>w. marshal xs = Some w \<and> trim_space w \<noteq> [] \<and> unmarshal w = Some xs"
    and hit: "filter (CheckRecoveryCode matches code) hashes \<noteq> []"
  obtains s' u' where
    "ConsumeRecoveryCode matches unmarshal marshal s now uid code = (Inr True, s')"
    "GetUserByID s' (trim_space uid) = Some u'"
    "trim_space (usr_totp_recovery_codes u') \<noteq> []"
    "unmarshal (usr_totp_recovery_codes u') =
       Some (remove_first (CheckRecoveryCode matches code) hashes)"
proof -
  let ?rest = "remove_first (CheckRecoveryCode matches code) hashes"
  obtain w where w: "marshal ?rest = Some w" "trim_space w \<noteq> []" "unmarshal w = Some ?rest"
    using codec by metis
  have "list_ex (CheckRecoveryCode matches code) hashes"
    using hit by (auto simp: list_ex_iff filter_empty_conv)
  then show ?thesis
    using w user stored
      GetUserByID_update [OF user, of "\<lambda>v. v\<lparr>usr_totp_recovery_codes := w, usr_updated_at := now\<rparr>"]
    by (intro that [OF _ GetUserByID_update [OF user,
          of "\<lambda>v. v\<lparr>usr_totp_recovery_codes := w, usr_updated_at := now\<rparr>"]])
      (simp_all add: ConsumeRecoveryCode_def)
qed

lemma ConsumeRecoveryCode_miss:
  assumes "GetUserByID s (trim_space uid) = Some u"
    and "unmarshal (usr_totp_recovery_codes u) = Some hashes"
    and "filter (CheckRecoveryCode matches code) hashes = []"
  shows "ConsumeRecoveryCode matches unmarshal marshal s now uid code = (Inr False, s)"
  using assms by (auto simp: ConsumeRecoveryCode_def list_ex_iff filter_empty_conv)

section \<open>Properties\<close>

text \<open>
  Whatever sequence of store operations has run, user identifiers, user names and bound OIDC
  identities are unique and session identifiers are unique: a sign-in, an OIDC login and a
  session id each denote at most one user or session.
\<close>

lemma auth_store_keys_unique:
  assumes "auth_reachable s"
  shows "distinct (map usr_id (ma_users s)) \<and> distinct (map usr_username (ma_users s)) \<and>
    distinct (filter (\<lambda>(_, issuer, _). issuer \<noteq> []) (map oidc_identity (ma_users s))) \<and>
    distinct (map ses_id (ma_sessions s))"
proof -
  have "auth_step\<^sup>*\<^sup>* NewMemoryAuthStore s" using assms by (simp add: auth_reachable_def)
  then have "auth_inv s"
  proof (induction rule: rtranclp_induct)
    case base
    then show ?case by (simp add: auth_inv_def users_inv_def sessions_inv_def NewMemoryAuthStore_def)
  next
    case (step s t)
    then show ?case by (blast intro: auth_step_inv)
  qed
  then show ?thesis by (simp add: auth_inv_def users_inv_def sessions_inv_def)
qed

text \<open>
  A recovery code works exactly as often as its hash is stored: of any number of attempts with
  the same code, as many succeed as stored hashes match it (or all of them, if there are fewer
  attempts). A code stored once is therefore accepted once and never again. The JSON codec is
  assumed to read back what it wrote and never to write a blank text.
\<close>

lemma recovery_code_used_up:
  assumes "\<forall>xs. \<exists>w. marshal xs = Some w \<and> trim_space w \<noteq> [] \<and> unmarshal w = Some xs"
    and "GetUserByID s (trim_space uid) = Some u"
    and "trim_space (usr_totp_recovery_codes u) \<noteq> []"
    and "unmarshal (usr_totp_recovery_codes u) = Some hashes"
  shows "recovery_successes matches unmarshal marshal s ts uid code =
    min (length ts) (length (filter (CheckRecoveryCode matches code) hashes))"
  using assms(2-)
proof (induction ts arbitrary: s u hashes)
  case (Cons now ts)
  show ?case
  proof (cases "filter (CheckRecoveryCode matches code) hashes = []")
    case True
    with Cons show ?thesis by (simp add: ConsumeRecoveryCode_miss)
  next
    case False
    obtain s' u' where step:
      "ConsumeRecoveryCode matches unmarshal marshal s now uid code = (Inr True, s')"
      "GetUserByID s' (trim_space uid) = Some u'" "trim_space (usr_totp_recovery_codes u') \<noteq> []"
      "unmarshal (usr_totp_recovery_codes u') =
         Some (remove_first (CheckRecoveryCode matches code) hashes)"
      using ConsumeRecoveryCode_step [OF Cons.prems assms(1) False] by blast
    obtain k where "length (filter (CheckRecoveryCode matches code) hashes) = Suc k"
      using False by (metis length_0_conv not0_implies_Suc)
    with Cons.IH [OF step(2-4)] step(1) show ?thesis
      by (simp add: length_filter_remove_first)
  qed
qed simp

text \<open>A concrete codec: each character is preceded by \<open>c\<close>, each string closed by a full stop.\<close>

definition marshal_example :: "string list \<Rightarrow> string option" where
  "marshal_example xs = Some (CHR ''['' # concat (map (\<lambda>x. concat (map (\<lambda>c. [CHR ''c'', c]) x) @ ''.'') xs))"

fun unmarshal_body :: "string \<Rightarrow> string \<Rightarrow> string list option" where
  "unmarshal_body cur [] = (if cur = [] then Some [] else None)"
| "unmarshal_body cur [t] = (if t = CHR ''.'' then Some [cur] else None)"
| "unmarshal_body cur (t # c # r) =
     (if t = CHR ''.'' then map_option ((#) cur) (unmarshal_body [] (c # r))
      else unmarshal_body (cur @ [c]) r)"

definition unmarshal_example :: "string \<Rightarrow> string list option" where
  "unmarshal_example s = unmarshal_body [] (tl s)"

lemma unmarshal_body_stop: "unmarshal_body cur (CHR ''.'' # r) = map_option ((#) cur) (unmarshal_body [] r)"
  by (cases r) simp_all

lemma unmarshal_body_chars:
  "unmarshal_body cur (concat (map (\<lambda>c. [CHR ''c'', c]) x) @ r) = unmarshal_body (cur @ x) r"
  by (induction x arbitrary: cur) simp_all

lemma unmarshal_marshal_example:
  "\<forall>xs. \<exists>w. marshal_example xs = Some w \<and> trim_space w \<noteq> [] \<and> unmarshal_example w = Some xs"
proof
  fix xs
  have "unmarshal_body [] (concat (map (\<lambda>x. concat (map (\<lambda>c. [CHR ''c'', c]) x) @ ''.'') xs)) = Some xs"
    by (induction xs) (simp_all add: unmarshal_body_chars unmarshal_body_stop)
  moreover have "trim_space (CHR ''['' # r) \<noteq> []" for r
    by (simp add: trim_space_def trim_left_by_def trim_right_by_def is_space_def dropWhile_append)
  ultimately show "\<exists>w. marshal_example xs = Some w \<and> trim_space w \<noteq> [] \<and>
      unmarshal_example w = Some xs"
    by (simp add: marshal_example_def unmarshal_example_def)
qed

end
