(* ===== verification/API_Keys.thy ===== *)
theory API_Keys
  imports Stream_Principals
begin

text \<open>
  The API-key store (\<open>internal/persistence/memory_apikeys.go\<close>) and the HTTP handlers that manage
  keys (\<open>internal/hubapi/auth/apikey_handlers.go\<close>).

  The Go map from key id to key is a list of keys, in the order in which the map is iterated;
  every key is filed under its own id. A handler is a function from the handler state (store,
  audit rows, revoked stream principals) and the request to a status, an error code and the new
  state. The decoded body, the generated secret and the fresh id are arguments, \<open>None\<close> standing for
  a body that does not decode or a generator that fails.
\<close>

section \<open>Store\<close>

type_synonym key_store = "api_key list"

datatype key_error = KeyExists | KeyNotFound

definition GetAPIKey :: "key_store \<Rightarrow> string \<Rightarrow> api_key option" where
  "GetAPIKey keys kid = find_first (\<lambda>k. key_id k = kid) keys"

definition CreateAPIKey :: "key_store \<Rightarrow> api_key \<Rightarrow> key_error option \<times> key_store" where
  "CreateAPIKey keys key =
     (if GetAPIKey keys (key_id key) \<noteq> None then (Some KeyExists, keys) else (None, keys @ [key]))"

definition LookupAPIKeyByHash :: "key_store \<Rightarrow> string \<Rightarrow> api_key option" where
  "LookupAPIKeyByHash keys secretHash = find_first (\<lambda>k. key_secret_hash k = secretHash) keys"

text \<open>The four optional fields of an update; \<open>None\<close> is the nil pointer.\<close>

record key_update =
  up_name :: "string option"
  up_scopes :: "string list option option"
  up_assets :: "string list option option"
  up_expires :: "gtime option option"

definition apply_update :: "key_update \<Rightarrow> api_key \<Rightarrow> api_key" where
  "apply_update up k =
     (let k = (case up_name up of None \<Rightarrow> k | Some v \<Rightarrow> k\<lparr>key_name := v\<rparr>);
          k = (case up_scopes up of None \<Rightarrow> k | Some v \<Rightarrow> k\<lparr>key_scopes := v\<rparr>);
          k = (case up_assets up of None \<Rightarrow> k | Some v \<Rightarrow> k\<lparr>key_allowed_assets := v\<rparr>);
          k = (case up_expires up of None \<Rightarrow> k | Some v \<Rightarrow> k\<lparr>key_expires_at := v\<rparr>)
      in k)"

definition UpdateAPIKey :: "key_store \<Rightarrow> string \<Rightarrow> key_update \<Rightarrow> key_error option \<times> key_store" where
  "UpdateAPIKey keys kid up =
     (case GetAPIKey keys kid of
        None \<Rightarrow> (Some KeyNotFound, keys)
      | Some _ \<Rightarrow> (None, update_first (\<lambda>k. key_id k = kid) (apply_update up) keys))"

definition DeleteAPIKey :: "key_store \<Rightarrow> string \<Rightarrow> key_store" where
  "DeleteAPIKey keys kid = filter (\<lambda>k. key_id k \<noteq> kid) keys"

definition TouchAPIKeyLastUsed :: "key_store \<Rightarrow> gtime \<Rightarrow> string \<Rightarrow> key_store" where
  "TouchAPIKeyLastUsed keys now kid =
     update_first (\<lambda>k. key_id k = kid) (\<lambda>k. k\<lparr>key_last_used_at := Some now\<rparr>) keys"

section \<open>Allowed assets\<close>

definition maxAPIKeyNameLength :: nat where "maxAPIKeyNameLength = 120"
definition maxAPIKeyScopeCount :: nat where "maxAPIKeyScopeCount = 64"
definition maxAPIKeyAssetCount :: nat where "maxAPIKeyAssetCount = 200"
definition maxAPIKeyAssetIDLen :: nat where "maxAPIKeyAssetIDLen = 255"

datatype asset_error = TooManyAssets | InvalidAssetID | DuplicateAsset

fun normalize_assets :: "string list \<Rightarrow> string list \<Rightarrow> (asset_error, string list) res" where
  "normalize_assets acc [] = Inr acc"
| "normalize_assets acc (value # values) =
     (let assetID = trim_space value
      in if assetID = [] \<or> length assetID > maxAPIKeyAssetIDLen then Inl InvalidAssetID
         else if list_ex is_control assetID then Inl InvalidAssetID
         else if assetID \<in> set acc then Inl DuplicateAsset
         else normalize_assets (acc @ [assetID]) values)"

definition normalizeAPIKeyAllowedAssets ::
    "string list option \<Rightarrow> (asset_error, string list option) res" where
  "normalizeAPIKeyAllowedAssets values =
     (if length (slice values) > maxAPIKeyAssetCount then Inl TooManyAssets
      else if slice values = [] then Inr None
      else case normalize_assets [] (slice values) of Inl e \<Rightarrow> Inl e | Inr xs \<Rightarrow> Inr (Some xs))"

section \<open>Handlers\<close>

record audit_row =
  ar_type :: string
  ar_actor :: string
  ar_target :: string
  ar_target_name :: string
  ar_details :: "(string \<times> string list) list"
  ar_timestamp :: gtime

record key_admin =
  ka_store :: "key_store option"
  ka_audit :: "audit_row list"
  ka_revoked :: "string list"

text \<open>The public view of a key: everything but the secret hash.\<close>

record key_info =
  ki_id :: string
  ki_name :: string
  ki_prefix :: string
  ki_role :: string
  ki_scopes :: "string list option"
  ki_allowed_assets :: "string list option"
  ki_expires_at :: "gtime option"
  ki_created_by :: string
  ki_created_at :: gtime
  ki_last_used_at :: "gtime option"

definition key_info_of :: "api_key \<Rightarrow> key_info" where
  "key_info_of k =
     \<lparr>ki_id = key_id k, ki_name = key_name k, ki_prefix = key_prefix k, ki_role = key_role k,
      ki_scopes = key_scopes k, ki_allowed_assets = key_allowed_assets k,
      ki_expires_at = key_expires_at k, ki_created_by = key_created_by k,
      ki_created_at = key_created_at k, ki_last_used_at = key_last_used_at k\<rparr>"

record generated_key =
  gk_raw :: string
  gk_prefix :: string
  gk_hash :: string

datatype api_reply =
  ApiError nat string
| ApiCreated string api_key
| ApiKeyInfo key_info
| ApiKeyList "key_info list"
| ApiStatus string

record create_key_request =
  ck_name :: string
  ck_role :: string
  ck_scopes :: "string list option"
  ck_assets :: "string list option"
  ck_expires :: "gtime option"

text \<open>
  The body of an update. \<open>expires_at\<close> is absent, null, a timestamp, or anything else
  (\<open>ExpInvalid\<close>: not a timestamp, or the zero time).
\<close>

datatype expires_field = ExpAbsent | ExpNull | ExpAt gtime | ExpInvalid

record update_key_request =
  uk_name :: "string option"
  uk_role :: "string option"
  uk_scopes :: "string list option option"
  uk_assets :: "string list option option"
  uk_expires :: expires_field

definition rejectAPIKeyIdentityMutation :: "auth_ctx \<Rightarrow> bool" where
  "rejectAPIKeyIdentityMutation ctx = IsAPIKeyPrincipal ctx"

definition callerIsOwner :: "auth_ctx \<Rightarrow> bool" where
  "callerIsOwner ctx = (NormalizeRole (cx_role ctx) = RoleOwner)"

definition requireAPIKeyManagement :: "key_store \<Rightarrow> auth_ctx \<Rightarrow> string \<Rightarrow> bool" where
  "requireAPIKeyManagement keys ctx kid =
     (case GetAPIKey keys kid of
        None \<Rightarrow> True
      | Some key \<Rightarrow>
          (if \<not> HasAdminPrivileges (key_role key) \<or> callerIsOwner ctx then True
           else trim_space (key_created_by key) \<noteq> [] \<and>
                trim_space (key_created_by key) = cx_user_id ctx))"

text \<open>
  The checks of a create request, in their order: the normalized asset list, or \<open>None\<close> for the 400
  reply; and the stored key.
\<close>

definition validate_create :: "create_key_request \<Rightarrow> string list option option" where
  "validate_create req =
     (let name = trim_space (ck_name req)
      in if name = [] \<or> length name > maxAPIKeyNameLength then None
         else if \<not> IsValidRole (ck_role req) then None
         else if ck_role req = RoleOwner then None
         else if ValidateScopes (slice (ck_scopes req)) \<noteq> None then None
         else if length (slice (ck_scopes req)) > maxAPIKeyScopeCount then None
         else case normalizeAPIKeyAllowedAssets (ck_assets req) of
           Inl _ \<Rightarrow> None
         | Inr assets \<Rightarrow> Some assets)"

definition new_api_key ::
    "auth_ctx \<Rightarrow> gtime \<Rightarrow> string \<Rightarrow> generated_key \<Rightarrow> create_key_request \<Rightarrow> string list option \<Rightarrow> api_key" where
  "new_api_key ctx now fresh_id generated req assets =
     \<lparr>key_id = fresh_id, key_name = trim_space (ck_name req), key_prefix = gk_prefix generated,
      key_secret_hash = gk_hash generated, key_role = NormalizeRole (ck_role req),
      key_scopes = ck_scopes req, key_allowed_assets = assets, key_expires_at = ck_expires req,
      key_created_by = cx_user_id ctx, key_created_at = now, key_last_used_at = None\<rparr>"

definition handleAPIKeyCreate ::
    "key_admin \<Rightarrow> auth_ctx \<Rightarrow> gtime \<Rightarrow> string \<Rightarrow> generated_key option \<Rightarrow> create_key_request option \<Rightarrow>
     api_reply \<times> key_admin" where
  "handleAPIKeyCreate d ctx now fresh_id generated body =
     (case ka_store d of
        None \<Rightarrow> (ApiError 500 ''not_configured'', d)
      | Some keys \<Rightarrow>
        (case body of
           None \<Rightarrow> (ApiError 400 ''validation'', d)
         | Some req \<Rightarrow>
           (case validate_create req of
              None \<Rightarrow> (ApiError 400 ''validation'', d)
            | Some assets \<Rightarrow>
              (case generated of
                 None \<Rightarrow> (ApiError 500 ''internal'', d)
               | Some g \<Rightarrow>
                 (let key = new_api_key ctx now fresh_id g req assets;
                      (err, keys) = CreateAPIKey keys key
                  in if err \<noteq> None then (ApiError 500 ''internal'', d)
                     else (ApiCreated (gk_raw g) key,
                           d\<lparr>ka_store := Some keys,
                             ka_audit := ka_audit d @
                               [\<lparr>ar_type = ''api_key.created'', ar_actor = cx_user_id ctx,
                                 ar_target = key_id key, ar_target_name = key_name key,
                                 ar_details = [(''name'', [key_name key]), (''role'', [key_role key]),
                                   (''scopes'', slice (key_scopes key))],
                                 ar_timestamp = now\<rparr>]\<rparr>))))))"

text \<open>
  The checks of an update request, in their order: the parsed update, or \<open>None\<close> for the 400 reply.
\<close>

definition parse_key_update :: "update_key_request \<Rightarrow> key_update option" where
  "parse_key_update req =
     (if (case uk_name req of None \<Rightarrow> False
          | Some n \<Rightarrow> trim_space n = [] \<or> length (trim_space n) > maxAPIKeyNameLength) then None
      else if (case uk_scopes req of None \<Rightarrow> False
          | Some sc \<Rightarrow> ValidateScopes (slice sc) \<noteq> None \<or> length (slice sc) > maxAPIKeyScopeCount)
        then None
      else case (case uk_assets req of None \<Rightarrow> Inr None
                 | Some a \<Rightarrow> (case normalizeAPIKeyAllowedAssets a of Inl e \<Rightarrow> Inl e | Inr v \<Rightarrow> Inr (Some v)))
           of Inl _ \<Rightarrow> None
         | Inr assets \<Rightarrow>
           (case uk_expires req of
              ExpInvalid \<Rightarrow> None
            | ExpAbsent \<Rightarrow> Some \<lparr>up_name = map_option trim_space (uk_name req),
                up_scopes = uk_scopes req, up_assets = assets, up_expires = None\<rparr>
            | ExpNull \<Rightarrow> Some \<lparr>up_name = map_option trim_space (uk_name req),
                up_scopes = uk_scopes req, up_assets = assets, up_expires = Some None\<rparr>
            | ExpAt t \<Rightarrow> Some \<lparr>up_name = map_option trim_space (uk_name req),
                up_scopes = uk_scopes req, up_assets = assets, up_expires = Some (Some t)\<rparr>))"

definition handleAPIKeyUpdate ::
    "key_admin \<Rightarrow> auth_ctx \<Rightarrow> string \<Rightarrow> update_key_request option \<Rightarrow> api_reply \<times> key_admin" where
  "handleAPIKeyUpdate d ctx kid body =
     (case ka_store d of
        None \<Rightarrow> (ApiError 500 ''not_configured'', d)
      | Some keys \<Rightarrow>
        (case body of
           None \<Rightarrow> (ApiError 400 ''validation'', d)
         | Some req \<Rightarrow>
           (if uk_role req \<noteq> None then (ApiError 400 ''validation'', d)
            else if \<not> requireAPIKeyManagement keys ctx kid then (ApiError 403 ''forbidden'', d)
            else case parse_key_update req of
              None \<Rightarrow> (ApiError 400 ''validation'', d)
            | Some up \<Rightarrow>
              (case UpdateAPIKey keys kid up of
                 (Some _, _) \<Rightarrow> (ApiError 404 ''not_found'', d)
               | (None, keys) \<Rightarrow>
                   (ApiStatus ''updated'', d\<lparr>ka_store := Some keys,
                      ka_revoked := ka_revoked d @ [StreamActorKey (''apikey:'' @ kid)]\<rparr>)))))"

definition handleAPIKeyDelete ::
    "key_admin \<Rightarrow> auth_ctx \<Rightarrow> gtime \<Rightarrow> string \<Rightarrow> api_reply \<times> key_admin" where
  "handleAPIKeyDelete d ctx now kid =
     (case ka_store d of
        None \<Rightarrow> (ApiError 500 ''not_configured'', d)
      | Some keys \<Rightarrow>
        (if \<not> requireAPIKeyManagement keys ctx kid then (ApiError 403 ''forbidden'', d)
         else
           (let deleted_name = (case GetAPIKey keys kid of None \<Rightarrow> [] | Some k \<Rightarrow> key_name k)
            in (ApiStatus ''deleted'',
                d\<lparr>ka_store := Some (DeleteAPIKey keys kid),
                  ka_audit := ka_audit d @
                    [\<lparr>ar_type = ''api_key.deleted'', ar_actor = cx_user_id ctx, ar_target = kid,
                      ar_target_name = deleted_name, ar_details = [], ar_timestamp = now\<rparr>],
                  ka_revoked := ka_revoked d @ [StreamActorKey (''apikey:'' @ kid)]\<rparr>))))"

definition handleAPIKeyGet :: "key_admin \<Rightarrow> string \<Rightarrow> api_reply" where
  "handleAPIKeyGet d kid =
     (case ka_store d of
        None \<Rightarrow> ApiError 500 ''not_configured''
      | Some keys \<Rightarrow> (case GetAPIKey keys kid of None \<Rightarrow> ApiError 404 ''not_found'' 
            | Some key \<Rightarrow> ApiKeyInfo (key_info_of key)))"

definition handleAPIKeysList :: "key_admin \<Rightarrow> api_reply" where
  "handleAPIKeysList d =
     (case ka_store d of
        None \<Rightarrow> ApiError 500 ''not_configured''
      | Some keys \<Rightarrow> ApiKeyList (map key_info_of keys))"

record key_http_request =
  kr_method :: string
  kr_path :: string
  kr_ctx :: auth_ctx
  kr_now :: gtime
  kr_fresh_id :: string
  kr_generated :: "generated_key option"
  kr_create_body :: "create_key_request option"
  kr_update_body :: "update_key_request option"

definition HandleAPIKeys :: "key_admin \<Rightarrow> key_http_request \<Rightarrow> api_reply \<times> key_admin" where
  "HandleAPIKeys d r =
     (if kr_method r = ''GET'' then (handleAPIKeysList d, d)
      else if kr_method r = ''POST'' then
        (if rejectAPIKeyIdentityMutation (kr_ctx r) then (ApiError 403 ''api_key_forbidden'', d)
         else handleAPIKeyCreate d (kr_ctx r) (kr_now r) (kr_fresh_id r) (kr_generated r)
                (kr_create_body r))
      else (ApiError 405 ''method_not_allowed'', d))"

definition HandleAPIKeyActions :: "key_admin \<Rightarrow> key_http_request \<Rightarrow> api_reply \<times> key_admin" where
  "HandleAPIKeyActions d r =
     (let kid = trim_prefix (kr_path r) ''/api/v2/keys/''
      in if kid = [] \<or> kid = kr_path r then (ApiError 404 ''not_found'', d)
         else if kr_method r = ''GET'' then (handleAPIKeyGet d kid, d)
         else if kr_method r = ''PATCH'' then
           (if rejectAPIKeyIdentityMutation (kr_ctx r) then (ApiError 403 ''api_key_forbidden'', d)
            else handleAPIKeyUpdate d (kr_ctx r) kid (kr_update_body r))
         else if kr_method r = ''DELETE'' then
           (if rejectAPIKeyIdentityMutation (kr_ctx r) then (ApiError 403 ''api_key_forbidden'', d)
            else handleAPIKeyDelete d (kr_ctx r) (kr_now r) kid)
         else (ApiError 405 ''method_not_allowed'', d))"

section \<open>Well-formed stores\<close>

definition assets_wf :: "string list option \<Rightarrow> bool" where
  "assets_wf a =
     (case a of None \<Rightarrow> True
      | Some xs \<Rightarrow> xs \<noteq> [] \<and> length xs \<le> maxAPIKeyAssetCount \<and> distinct xs \<and>
          list_all (\<lambda>x. x \<noteq> [] \<and> trim_space x = x \<and> length x \<le> maxAPIKeyAssetIDLen \<and>
            \<not> list_ex is_control x) xs)"

definition key_wf :: "api_key \<Rightarrow> bool" where
  "key_wf k =
     (key_role k \<in> {RoleAdmin, RoleOperator, RoleViewer} \<and>
      ValidateScopes (slice (key_scopes k)) = None \<and>
      length (slice (key_scopes k)) \<le> maxAPIKeyScopeCount \<and> assets_wf (key_allowed_assets k) \<and>
      key_name k \<noteq> [] \<and> length (key_name k) \<le> maxAPIKeyNameLength)"

definition keys_wf :: "key_store \<Rightarrow> bool" where
  "keys_wf keys = (distinct (map key_id keys) \<and> list_all key_wf keys)"

inductive key_admin_step :: "key_admin \<Rightarrow> key_admin \<Rightarrow> bool" where
  keys_route: "key_admin_step d (snd (HandleAPIKeys d r))"
| key_route: "key_admin_step d (snd (HandleAPIKeyActions d r))"
| touch: "ka_store d = Some keys \<Longrightarrow>
    key_admin_step d (d\<lparr>ka_store := Some (TouchAPIKeyLastUsed keys now kid)\<rparr>)"

definition empty_key_admin :: key_admin where
  "empty_key_admin = \<lparr>ka_store = Some [], ka_audit = [], ka_revoked = []\<rparr>"

lemma key_id_apply_update [simp]: "key_id (apply_update up k) = key_id k"
  by (simp add: apply_update_def Let_def split: option.split)

lemma key_role_apply_update [simp]: "key_role (apply_update up k) = key_role k"
  by (simp add: apply_update_def Let_def split: option.split)

lemma normalize_assets_wf:
  assumes "normalize_assets acc xs = Inr ys" "distinct acc"
    and "list_all (\<lambda>x. x \<noteq> [] \<and> trim_space x = x \<and> length x \<le> maxAPIKeyAssetIDLen \<and>
            \<not> list_ex is_control x) acc"
  shows "distinct ys \<and> length ys = length acc + length xs \<and>
    list_all (\<lambda>x. x \<noteq> [] \<and> trim_space x = x \<and> length x \<le> maxAPIKeyAssetIDLen \<and>
            \<not> list_ex is_control x) ys"
  using assms
  by (induction acc xs rule: normalize_assets.induct) (auto simp: Let_def split: if_split_asm)

lemma normalizeAPIKeyAllowedAssets_wf:
  assumes "normalizeAPIKeyAllowedAssets a = Inr v"
  shows "assets_wf v"
proof (cases v)
  case (Some ys)
  then have "normalize_assets [] (slice a) = Inr ys" "slice a \<noteq> []"
    "length (slice a) \<le> maxAPIKeyAssetCount"
    using assms by (auto simp: normalizeAPIKeyAllowedAssets_def split: if_split_asm sum.split_asm)
  with normalize_assets_wf [of "[]" "slice a" ys] Some show ?thesis
    by (auto simp: assets_wf_def)
qed (simp add: assets_wf_def)

lemma parse_key_update_wf:
  assumes "parse_key_update req = Some up" "key_wf k"
  shows "key_wf (apply_update up k)"
proof -
  have "(case up_name up of None \<Rightarrow> True
          | Some n \<Rightarrow> n \<noteq> [] \<and> length n \<le> maxAPIKeyNameLength) \<and>
        (case up_scopes up of None \<Rightarrow> True
          | Some sc \<Rightarrow> ValidateScopes (slice sc) = None \<and> length (slice sc) \<le> maxAPIKeyScopeCount) \<and>
        (case up_assets up of None \<Rightarrow> True | Some a \<Rightarrow> assets_wf a)"
    using assms(1)
    by (auto simp: parse_key_update_def not_less normalizeAPIKeyAllowedAssets_wf
        split: if_split_asm option.split_asm sum.split_asm expires_field.split_asm)
  with assms(2) show ?thesis
    by (auto simp: key_wf_def apply_update_def Let_def split: option.splits)
qed

lemma keys_wf_update:
  assumes "keys_wf keys" "\<And>k. key_wf k \<Longrightarrow> key_wf (f k)" "\<And>k. key_id (f k) = key_id k"
  shows "keys_wf (update_first p f keys)"
  using assms by (auto simp: keys_wf_def map_update_first_frame list_all_iff dest!: update_first_mem)

lemma key_wf_touch [simp]: "key_wf (k\<lparr>key_last_used_at := t\<rparr>) = key_wf k"
  by (simp add: key_wf_def)

lemma GetAPIKey_None: "GetAPIKey keys kid = None \<longleftrightarrow> kid \<notin> set (map key_id keys)"
  by (auto simp: GetAPIKey_def find_first_None_iff)

lemma validate_create_wf:
  assumes "validate_create req = Some assets"
  shows "key_wf (new_api_key ctx now fresh g req assets)"
proof -
  have "NormalizeRole (ck_role req) \<in> {RoleAdmin, RoleOperator, RoleViewer}"
    if "IsValidRole (ck_role req)" "ck_role req \<noteq> RoleOwner"
    using that by (auto simp: IsValidRole_def)
  with assms show ?thesis
    by (simp add: validate_create_def key_wf_def new_api_key_def Let_def not_less
        normalizeAPIKeyAllowedAssets_wf split: if_split_asm sum.split_asm)
qed

lemma handleAPIKeyCreate_cases:
  obtains "snd (handleAPIKeyCreate d ctx now fresh generated body) = d"
  | keys key audit where "ka_store d = Some keys" "GetAPIKey keys (key_id key) = None" "key_wf key"
    "snd (handleAPIKeyCreate d ctx now fresh generated body) =
       d\<lparr>ka_store := Some (keys @ [key]), ka_audit := audit\<rparr>"
proof (cases "snd (handleAPIKeyCreate d ctx now fresh generated body) = d")
  case False
  then obtain keys req assets g where *: "ka_store d = Some keys" "body = Some req"
    "validate_create req = Some assets" "generated = Some g"
    by (auto simp: handleAPIKeyCreate_def split: option.split_asm)
  moreover from this have "GetAPIKey keys (key_id (new_api_key ctx now fresh g req assets)) = None"
    using False by (simp add: handleAPIKeyCreate_def CreateAPIKey_def Let_def split: if_split_asm)
  ultimately show ?thesis
    by (intro that(2)) (auto simp: handleAPIKeyCreate_def CreateAPIKey_def Let_def validate_create_wf)
qed (use that(1) in blast)

lemma handleAPIKeyUpdate_cases:
  obtains "snd (handleAPIKeyUpdate d ctx kid body) = d"
  | keys req up revoked where "ka_store d = Some keys" "requireAPIKeyManagement keys ctx kid"
    "parse_key_update req = Some up"
    "snd (handleAPIKeyUpdate d ctx kid body) =
       d\<lparr>ka_store := Some (update_first (\<lambda>k. key_id k = kid) (apply_update up) keys),
         ka_revoked := revoked\<rparr>"
proof (cases "snd (handleAPIKeyUpdate d ctx kid body) = d")
  case False
  then show ?thesis
    using that(2)
    by (auto simp: handleAPIKeyUpdate_def UpdateAPIKey_def
        split: option.split_asm if_split_asm prod.split_asm)
qed (use that(1) in blast)

lemma handleAPIKeyDelete_cases:
  obtains "snd (handleAPIKeyDelete d ctx now kid) = d"
  | keys audit revoked where "ka_store d = Some keys" "requireAPIKeyManagement keys ctx kid"
    "snd (handleAPIKeyDelete d ctx now kid) =
       d\<lparr>ka_store := Some (DeleteAPIKey keys kid), ka_audit := audit, ka_revoked := revoked\<rparr>"
proof (cases "snd (handleAPIKeyDelete d ctx now kid) = d")
  case False
  then show ?thesis
    using that(2) by (auto simp: handleAPIKeyDelete_def Let_def split: option.split_asm if_split_asm)
qed (use that(1) in blast)

definition admin_keys_wf :: "key_admin \<Rightarrow> bool" where
  "admin_keys_wf d = (case ka_store d of None \<Rightarrow> True | Some keys \<Rightarrow> keys_wf keys)"

lemma handleAPIKeyCreate_wf:
  "admin_keys_wf d \<Longrightarrow> admin_keys_wf (snd (handleAPIKeyCreate d ctx now fresh generated body))"
  by (rule handleAPIKeyCreate_cases [of d ctx now fresh generated body])
    (auto simp: admin_keys_wf_def keys_wf_def GetAPIKey_None)

lemma handleAPIKeyUpdate_wf:
  "admin_keys_wf d \<Longrightarrow> admin_keys_wf (snd (handleAPIKeyUpdate d ctx kid body))"
  by (rule handleAPIKeyUpdate_cases [of d ctx kid body])
    (auto simp: admin_keys_wf_def intro!: keys_wf_update parse_key_update_wf)

lemma handleAPIKeyDelete_wf:
  "admin_keys_wf d \<Longrightarrow> admin_keys_wf (snd (handleAPIKeyDelete d ctx now kid))"
  by (rule handleAPIKeyDelete_cases [of d ctx now kid])
    (auto simp: admin_keys_wf_def keys_wf_def DeleteAPIKey_def distinct_map_filter list_all_iff)

lemma key_admin_step_wf: "key_admin_step d d' \<Longrightarrow> admin_keys_wf d \<Longrightarrow> admin_keys_wf d'"
proof (induction rule: key_admin_step.induct)
  case (touch d keys now kid)
  then show ?case
    by (auto simp: admin_keys_wf_def TouchAPIKeyLastUsed_def intro!: keys_wf_update)
qed (simp_all add: HandleAPIKeys_def HandleAPIKeyActions_def Let_def handleAPIKeyCreate_wf
      handleAPIKeyUpdate_wf handleAPIKeyDelete_wf)

text \<open>Who may not change a key: API-key principals, and anyone but owner and creator for an admin key.\<close>

definition may_not_manage :: "auth_ctx \<Rightarrow> api_key \<Rightarrow> bool" where
  "may_not_manage ctx k =
     (IsAPIKeyPrincipal ctx \<or>
      (HasAdminPrivileges (key_role k) \<and> \<not> callerIsOwner ctx \<and>
       (trim_space (key_created_by k) = [] \<or> trim_space (key_created_by k) \<noteq> cx_user_id ctx)))"

lemma find_first_filter_other:
  "(\<And>x. q x \<Longrightarrow> p x) \<Longrightarrow> find_first q (filter p xs) = find_first q xs"
  by (induction xs) auto

lemma find_first_append: "find_first p xs = Some x \<Longrightarrow> find_first p (xs @ ys) = Some x"
  by (induction xs) (auto split: if_split_asm)

lemma handlers_keep_key:
  assumes "ka_store d = Some keys" "GetAPIKey keys kid = Some k" "may_not_manage ctx k"
    "\<not> IsAPIKeyPrincipal ctx"
  shows "\<exists>keys'. ka_store (snd (handleAPIKeyUpdate d ctx kid' body)) = Some keys' \<and>
           GetAPIKey keys' kid = Some k"
    and "\<exists>keys'. ka_store (snd (handleAPIKeyDelete d ctx now kid')) = Some keys' \<and>
           GetAPIKey keys' kid = Some k"
proof -
  have other: "kid' \<noteq> kid" if "requireAPIKeyManagement keys ctx kid'"
    using that assms by (auto simp: requireAPIKeyManagement_def may_not_manage_def)
  have "GetAPIKey (update_first (\<lambda>k. key_id k = kid') (apply_update up) keys) kid = Some k"
    if "requireAPIKeyManagement keys ctx kid'" for up
    using other [OF that] assms(2)
    by (simp add: GetAPIKey_def find_first_update_first_other [of "\<lambda>k. key_id k = kid'"])
  then show "\<exists>keys'. ka_store (snd (handleAPIKeyUpdate d ctx kid' body)) = Some keys' \<and>
      GetAPIKey keys' kid = Some k"
    using assms(1,2) by (cases rule: handleAPIKeyUpdate_cases [of d ctx kid' body]) auto
  have "GetAPIKey (DeleteAPIKey keys kid') kid = Some k"
    if "requireAPIKeyManagement keys ctx kid'"
    using other [OF that] assms(2)
    unfolding GetAPIKey_def DeleteAPIKey_def by (subst find_first_filter_other) auto
  then show "\<exists>keys'. ka_store (snd (handleAPIKeyDelete d ctx now kid')) = Some keys' \<and>
      GetAPIKey keys' kid = Some k"
    using assms(1,2) by (cases rule: handleAPIKeyDelete_cases [of d ctx now kid']) auto
qed

lemma handleAPIKeyCreate_keeps_key:
  assumes "ka_store d = Some keys" "GetAPIKey keys kid = Some k"
  shows "\<exists>keys'. ka_store (snd (handleAPIKeyCreate d ctx now fresh generated body)) = Some keys' \<and>
           GetAPIKey keys' kid = Some k"
  using assms find_first_append [of "\<lambda>k. key_id k = kid" keys k]
  by (cases rule: handleAPIKeyCreate_cases [of d ctx now fresh generated body])
    (auto simp: GetAPIKey_def)

section \<open>Properties\<close>

text \<open>
  Every key the management handlers can produce is one that authentication accepts without
  widening it: its role is admin, operator or viewer (never owner), its scope list is non-empty,
  valid and at most 64 long, its asset list is nil or a non-empty, duplicate-free list of at most
  200 trimmed ids, and key ids are unique, after any sequence of requests and touches.
\<close>

lemma api_keys_well_formed:
  assumes "key_admin_step\<^sup>*\<^sup>* empty_key_admin d"
  shows "admin_keys_wf d"
  using assms
proof (induction rule: rtranclp_induct)
  case base
  then show ?case by (simp add: admin_keys_wf_def empty_key_admin_def keys_wf_def)
next
  case (step d d')
  then show ?case by (blast intro: key_admin_step_wf)
qed

text \<open>A request of the owner that creates an admin key for itself.\<close>

definition example_create :: key_http_request where
  "example_create =
     \<lparr>kr_method = ''POST'', kr_path = ''/api/v2/keys'',
      kr_ctx = ContextWithPrincipal background ''user-1'' ''owner'', kr_now = 5,
      kr_fresh_id = ''key_1'', kr_generated = Some \<lparr>gk_raw = ''lt_ab12_s'', gk_prefix = ''ab12'', gk_hash = ''hash''\<rparr>,
      kr_create_body = Some \<lparr>ck_name = '' ci '', ck_role = ''admin'', ck_scopes = Some [''assets:read''],
        ck_assets = Some ['' srv1 ''], ck_expires = None\<rparr>,
      kr_update_body = None\<rparr>"

text \<open>
  A key that the caller may not manage survives every management request unchanged: requests
  authenticated by an API key change no key at all, and an admin-role key is changed or deleted
  only by the owner or by the user who created it.
\<close>

lemma unmanaged_key_unchanged:
  assumes "ka_store d = Some keys" "GetAPIKey keys kid = Some k" "may_not_manage (kr_ctx r) k"
  shows "(\<exists>keys'. ka_store (snd (HandleAPIKeys d r)) = Some keys' \<and> GetAPIKey keys' kid = Some k) \<and>
         (\<exists>keys'. ka_store (snd (HandleAPIKeyActions d r)) = Some keys' \<and> GetAPIKey keys' kid = Some k)"
proof (cases "IsAPIKeyPrincipal (kr_ctx r)")
  case True
  then show ?thesis
    using assms(1,2) by (simp add: HandleAPIKeys_def HandleAPIKeyActions_def Let_def
        rejectAPIKeyIdentityMutation_def)
next
  case False
  then show ?thesis
    using assms handlers_keep_key [OF assms False] handleAPIKeyCreate_keeps_key [OF assms(1,2)]
    by (simp add: HandleAPIKeys_def HandleAPIKeyActions_def Let_def)
qed

text \<open>Another admin asks to delete the owner's admin key.\<close>

definition example_delete :: key_http_request where
  "example_delete = example_create\<lparr>kr_method := ''DELETE'', kr_path := ''/api/v2/keys/key_1'',
     kr_ctx := ContextWithPrincipal background ''user-2'' ''admin''\<rparr>"

end
