(* ===== verification/Rate_Limit.thy ===== *)
theory Rate_Limit
  imports LT_Prelude
begin

text \<open>
  The hub's fixed-window rate limiter (\<open>cmd/labtether/http_helpers.go\<close>). The Go map of windows is
  an association list with distinct keys, in iteration order. The function runs under the
  limiter's mutex, so one call is one step. A counter whose \<open>ResetAt\<close> is the zero time is one that
  is not in the map.
\<close>

section \<open>Definitions\<close>

record rate_counter =
  rc_count :: int
  rc_reset_at :: gtime

record rate_limiter =
  rl_windows :: "(string \<times> rate_counter) list"
  rl_pruned_at :: gtime

definition maxRateLimitWindows :: nat where "maxRateLimitWindows = 4096"

definition prune_windows :: "gtime \<Rightarrow> rate_limiter \<Rightarrow> rate_limiter" where
  "prune_windows now rl =
     (if (length (rl_windows rl) > 100 \<and> now > rl_pruned_at rl + minute) \<or>
         length (rl_windows rl) \<ge> maxRateLimitWindows
      then \<lparr>rl_windows = filter (\<lambda>(k, v). \<not> now > rc_reset_at v) (rl_windows rl), rl_pruned_at = now\<rparr>
      else rl)"

text \<open>The eviction scan keeps the first entry with the smallest \<open>ResetAt\<close>.\<close>

definition earliest_window :: "(string \<times> rate_counter) list \<Rightarrow> (string \<times> gtime) option" where
  "earliest_window ws =
     foldl (\<lambda>best (k, v). case best of
              None \<Rightarrow> Some (k, rc_reset_at v)
            | Some (_, e) \<Rightarrow> (if rc_reset_at v < e then Some (k, rc_reset_at v) else best))
       None ws"

definition evict_window :: "string \<Rightarrow> rate_limiter \<Rightarrow> rate_limiter" where
  "evict_window key rl =
     (if map_of (rl_windows rl) key = None \<and> length (rl_windows rl) \<ge> maxRateLimitWindows
      then case earliest_window (rl_windows rl) of
             None \<Rightarrow> rl\<lparr>rl_windows := AList.delete [] (rl_windows rl)\<rparr>
           | Some (k, _) \<Rightarrow> rl\<lparr>rl_windows := AList.delete k (rl_windows rl)\<rparr>
      else rl)"

definition enforceRateLimitKey ::
    "rate_limiter \<Rightarrow> gtime \<Rightarrow> string \<Rightarrow> int \<Rightarrow> duration \<Rightarrow> bool \<times> rate_limiter" where
  "enforceRateLimitKey rl now key limit window =
     (let rl = evict_window key (prune_windows now rl);
          fresh = \<lparr>rc_count = 0, rc_reset_at = now + window\<rparr>;
          counter = (case map_of (rl_windows rl) key of
                       None \<Rightarrow> fresh
                     | Some c \<Rightarrow> (if now > rc_reset_at c then fresh else c))
      in if rc_count counter \<ge> limit
         then (False, rl\<lparr>rl_windows := AList.update key counter (rl_windows rl)\<rparr>)
         else (True, rl\<lparr>rl_windows := AList.update key (counter\<lparr>rc_count := rc_count counter + 1\<rparr>)
                 (rl_windows rl)\<rparr>))"

definition enforceRateLimit ::
    "rate_limiter \<Rightarrow> gtime \<Rightarrow> string \<Rightarrow> string \<Rightarrow> int \<Rightarrow> duration \<Rightarrow> bool \<times> rate_limiter" where
  "enforceRateLimit rl now clientKey bucket limit window =
     (if limit \<le> 0 \<or> window \<le> 0 then (True, rl)
      else enforceRateLimitKey rl now (bucket @ '':'' @ clientKey) limit window)"

definition enforceRateLimitGlobal ::
    "rate_limiter \<Rightarrow> gtime \<Rightarrow> string \<Rightarrow> int \<Rightarrow> duration \<Rightarrow> bool \<times> rate_limiter" where
  "enforceRateLimitGlobal rl now bucket limit window =
     (if limit \<le> 0 \<or> window \<le> 0 then (True, rl)
      else enforceRateLimitKey rl now bucket limit window)"

section \<open>Lemmas\<close>

definition windows_inv :: "rate_limiter \<Rightarrow> bool" where
  "windows_inv rl =
     (distinct (map fst (rl_windows rl)) \<and> length (rl_windows rl) \<le> maxRateLimitWindows)"

lemma distinct_prune: "distinct (map fst (rl_windows rl)) \<Longrightarrow>
    distinct (map fst (rl_windows (prune_windows now rl)))"
  by (simp add: prune_windows_def distinct_map_filter)

lemma length_prune: "length (rl_windows (prune_windows now rl)) \<le> length (rl_windows rl)"
  by (simp add: prune_windows_def)

lemma map_of_filter_live:
  assumes "distinct (map fst xs)" "map_of xs k = Some c" "\<not> now > rc_reset_at c"
  shows "map_of (filter (\<lambda>(k, v). \<not> now > rc_reset_at v) xs) k = Some c"
  using assms by (induction xs) (auto simp: map_of_eq_None_iff split: if_splits)

lemma prune_keeps_live:
  assumes "distinct (map fst (rl_windows rl))" "map_of (rl_windows rl) k = Some c"
    "\<not> now > rc_reset_at c"
  shows "map_of (rl_windows (prune_windows now rl)) k = Some c"
  using assms map_of_filter_live [OF assms] by (simp add: prune_windows_def)

lemma earliest_window_Some:
  assumes "ws \<noteq> []"
  obtains k e where "earliest_window ws = Some (k, e)" "k \<in> fst ` set ws"
proof -
  have "\<exists>k' e'. foldl (\<lambda>best (k, v). case best of None \<Rightarrow> Some (k, rc_reset_at v)
          | Some (_, e) \<Rightarrow> (if rc_reset_at v < e then Some (k, rc_reset_at v) else best)) (Some (k0, e0)) ws
        = Some (k', e') \<and> (k' = k0 \<or> k' \<in> fst ` set ws)" for ws :: "(string \<times> rate_counter) list" and k0 e0
    by (induction ws arbitrary: k0 e0) (auto split: if_split, (metis image_eqI)+)
  then show ?thesis
    using assms that by (cases ws) (auto simp: earliest_window_def split_beta, force)
qed

lemma evict_window_inv:
  assumes "windows_inv rl"
  shows "windows_inv (evict_window key rl) \<and>
    (map_of (rl_windows (evict_window key rl)) key = None \<longrightarrow>
     length (rl_windows (evict_window key rl)) < maxRateLimitWindows)"
proof (cases "map_of (rl_windows rl) key = None \<and> length (rl_windows rl) \<ge> maxRateLimitWindows")
  case True
  then have "rl_windows rl \<noteq> []" by (auto simp: maxRateLimitWindows_def)
  then obtain k e where e: "earliest_window (rl_windows rl) = Some (k, e)" "k \<in> fst ` set (rl_windows rl)"
    by (rule earliest_window_Some)
  then have "Suc (length (AList.delete k (rl_windows rl))) = length (rl_windows rl)"
    using assms by (intro length_alist_delete) (auto simp: windows_inv_def map_of_eq_None_iff)
  with True e assms show ?thesis
    by (auto simp: evict_window_def windows_inv_def distinct_delete)
next
  case False
  with assms show ?thesis by (auto simp: evict_window_def)
qed

lemma windows_inv_update:
  assumes "windows_inv rl" "map_of (rl_windows rl) key = None \<longrightarrow> length (rl_windows rl) < maxRateLimitWindows"
  shows "windows_inv (rl\<lparr>rl_windows := AList.update key c (rl_windows rl)\<rparr>)"
  using assms by (auto simp: windows_inv_def length_alist_update distinct_update)

lemma enforceRateLimitKey_inv:
  assumes "windows_inv rl"
  shows "windows_inv (snd (enforceRateLimitKey rl now key limit window))"
proof -
  have "windows_inv (prune_windows now rl)"
    using assms distinct_prune [of rl now] length_prune [of now rl] by (auto simp: windows_inv_def)
  from evict_window_inv [OF this, of key] show ?thesis
    by (simp add: enforceRateLimitKey_def Let_def windows_inv_update)
qed

text \<open>While the table has room and the window is live, a call reads and advances its own counter.\<close>

lemma enforceRateLimitKey_live:
  assumes "distinct (map fst (rl_windows rl))" "length (rl_windows rl) < maxRateLimitWindows"
    and "map_of (rl_windows rl) k = Some c" "now \<le> rc_reset_at c"
    and "enforceRateLimitKey rl now key limit window = (ok, rl')"
  shows "length (rl_windows rl') \<le> Suc (length (rl_windows rl)) \<and>
    distinct (map fst (rl_windows rl')) \<and>
    (key = k \<longrightarrow> ok = (rc_count c < limit)) \<and>
    map_of (rl_windows rl') k =
      Some (if key = k \<and> ok then c\<lparr>rc_count := rc_count c + 1\<rparr> else c)"
proof -
  let ?p = "prune_windows now rl"
  have p: "map_of (rl_windows ?p) k = Some c" "distinct (map fst (rl_windows ?p))"
    "length (rl_windows ?p) \<le> length (rl_windows rl)"
    using assms prune_keeps_live [of rl k c now] distinct_prune length_prune by auto
  then have "evict_window key ?p = ?p"
    using assms(2) by (simp add: evict_window_def)
  with assms(4,5) p show ?thesis
    by (auto simp: enforceRateLimitKey_def Let_def length_alist_update distinct_update update_conv' split: if_split_asm)
qed

section \<open>Runs\<close>

text \<open>A sequence of limiter calls (bucket key, instant, limit, window) and its answers.\<close>

type_synonym limiter_call = "string \<times> gtime \<times> int \<times> duration"

fun run_calls :: "rate_limiter \<Rightarrow> limiter_call list \<Rightarrow> (string \<times> bool) list" where
  "run_calls rl [] = []"
| "run_calls rl ((key, now, limit, window) # cs) =
     (let (ok, rl') = enforceRateLimitKey rl now key limit window in (key, ok) # run_calls rl' cs)"

definition limiter_after :: "rate_limiter \<Rightarrow> limiter_call list \<Rightarrow> rate_limiter" where
  "limiter_after rl cs =
     foldl (\<lambda>rl (key, now, limit, window). snd (enforceRateLimitKey rl now key limit window)) rl cs"

definition accepted :: "string \<Rightarrow> (string \<times> bool) list \<Rightarrow> int" where
  "accepted k rs = int (length (filter (\<lambda>(key, ok). key = k \<and> ok) rs))"

definition calls_of :: "string \<Rightarrow> limiter_call list \<Rightarrow> int" where
  "calls_of k cs = int (length (filter (\<lambda>(key, _). key = k) cs))"

lemma run_calls_live:
  assumes "distinct (map fst (rl_windows rl))"
    and "length (rl_windows rl) + length cs \<le> maxRateLimitWindows"
    and "map_of (rl_windows rl) k = Some c" "rc_count c \<le> L"
    and "list_all (\<lambda>(key, now, limit, _). now \<le> rc_reset_at c \<and> (key = k \<longrightarrow> limit = L)) cs"
  shows "accepted k (run_calls rl cs) = min (calls_of k cs) (L - rc_count c)"
  using assms
proof (induction cs arbitrary: rl c)
  case (Cons call cs)
  obtain key now limit window where call: "call = (key, now, limit, window)"
    using prod_cases4 by blast
  obtain ok rl' where step: "enforceRateLimitKey rl now key limit window = (ok, rl')"
    by fastforce
  let ?c = "if key = k \<and> ok then c\<lparr>rc_count := rc_count c + 1\<rparr> else c"
  have live: "length (rl_windows rl') \<le> Suc (length (rl_windows rl))"
    "distinct (map fst (rl_windows rl'))" "key = k \<longrightarrow> ok = (rc_count c < limit)"
    "map_of (rl_windows rl') k = Some ?c"
    using enforceRateLimitKey_live [OF Cons.prems(1) _ Cons.prems(3) _ step] Cons.prems(2,5) call
    by auto
  have "accepted k (run_calls rl' cs) = min (calls_of k cs) (L - rc_count ?c)"
    using live Cons.prems(2,4,5) call by (intro Cons.IH) auto
  with live(3) Cons.prems(4,5) show ?case
    by (auto simp: call step accepted_def calls_of_def)
qed (simp add: accepted_def calls_of_def)

section \<open>Properties\<close>



text \<open>
  The limiter's memory is bounded: after any sequence of calls with any limits and windows,
  from the empty limiter, there are at most \<open>maxRateLimitWindows\<close> windows and never two for one
  bucket.
\<close>

lemma rate_limit_table_bounded:
  "length (rl_windows (limiter_after \<lparr>rl_windows = [], rl_pruned_at = t\<rparr> cs)) \<le> maxRateLimitWindows \<and>
   distinct (map fst (rl_windows (limiter_after \<lparr>rl_windows = [], rl_pruned_at = t\<rparr> cs)))"
proof -
  have "windows_inv rl \<Longrightarrow> windows_inv (limiter_after rl cs)" for rl
    by (induction cs arbitrary: rl)
      (auto simp: limiter_after_def split_beta enforceRateLimitKey_inv)
  then show ?thesis by (simp add: windows_inv_def)
qed

end
