(* ===== verification/Request_Auth.thy ===== *)
theory Request_Auth
  imports Stream_Principals Auth_Store API_Keys Rate_Limit
begin

text \<open>
  Request authentication: the middleware \<open>withAuth\<close> and its variants
  (\<open>cmd/labtether/request_auth_middleware.go\<close>), one-time stream tickets
  (\<open>stream_ticket_principal.go\<close>), the operator floor on host-data routes
  (\<open>host_data_access_policy.go\<close>), the ticket-only rule for stream paths
  (\<open>request_origin_policy.go\<close>) and bearer tokens (\<open>internal/auth/token.go\<close>).

  A handler is modelled by what it does with the request: it rejects it with a status and a
  message or calls the next handler with a context. A request is the record of the values the
  code reads from \<open>*http.Request\<close>: the parsed cookie, query and origin, whether the connection is
  TLS, loopback or forwarded as HTTPS, and the client key of its address. One request reads the
  clock once. The two hash functions (SHA-256) are fields of the server, as are the two stores.
\<close>

section \<open>Requests and servers\<close>

record http_request =
  rq_method :: string
  rq_path :: string
  rq_escaped_path :: string
  rq_ctx :: auth_ctx
  rq_ticket :: "string option"
  rq_origin :: string
  rq_origin_scheme :: "string option"
  rq_cookie :: "string option"
  rq_authorization :: string
  rq_x_token :: string
  rq_tls :: bool
  rq_loopback :: bool
  rq_forwarded_https :: bool
  rq_client_key :: string

record stream_ticket =
  tk_session_id :: string
  tk_actor_id :: string
  tk_role :: string
  tk_scopes :: "string list option"
  tk_assets :: "string list option"
  tk_key_id :: string
  tk_auth_session_id :: string
  tk_expires_at :: gtime

record key_backend =
  kb_lookup :: "string \<Rightarrow> (string, api_key option) res"
  kb_get :: "string \<Rightarrow> (string, api_key option) res"

record api_server =
  sv_tls_enabled :: bool
  sv_hash_token :: "string \<Rightarrow> string"
  sv_hash_key :: "string \<Rightarrow> string"
  sv_auth_store :: "auth_backend option"
  sv_key_store :: "key_backend option"
  sv_console_tokens :: "string list option"
  sv_owner_tokens :: "string list option"
  sv_tickets :: "(string \<times> stream_ticket) list"
  sv_limiter :: rate_limiter
  sv_touches :: "string list"
  sv_touch_capacity :: nat

datatype outcome = Rejected nat string | Served auth_ctx

section \<open>Tokens\<close>

fun normalize_tokens :: "string list \<Rightarrow> string list \<Rightarrow> string list" where
  "normalize_tokens acc [] = acc"
| "normalize_tokens acc (token # tokens) =
     (let token = trim_space token
      in if token = [] then normalize_tokens acc tokens
         else if token \<in> set acc then normalize_tokens acc tokens
         else normalize_tokens (acc @ [token]) tokens)"

definition NewTokenValidator :: "string list \<Rightarrow> string list" where
  "NewTokenValidator tokens = normalize_tokens [] tokens"

definition extractToken :: "http_request \<Rightarrow> string" where
  "extractToken r =
     (let authHeader = trim_space (rq_authorization r)
      in case index_of CHR '' '' authHeader of
           Some i \<Rightarrow>
             (if equal_fold (take i authHeader) ''Bearer'' then trim_space (drop (Suc i) authHeader)
              else trim_space (rq_x_token r))
         | None \<Rightarrow> trim_space (rq_x_token r))"

definition Configured :: "string list option \<Rightarrow> bool" where
  "Configured v = (case v of None \<Rightarrow> False | Some tokens \<Rightarrow> tokens \<noteq> [])"

definition ValidateRequest :: "string list option \<Rightarrow> http_request \<Rightarrow> bool" where
  "ValidateRequest v r =
     (if \<not> Configured v then False
      else let provided = extractToken r
           in if provided = [] then False
              else list_ex (\<lambda>token. length provided = length token \<and> provided = token) (slice v))"

definition ExtractSessionToken :: "http_request \<Rightarrow> string" where
  "ExtractSessionToken r = (case rq_cookie r of None \<Rightarrow> [] | Some v \<Rightarrow> trim_space v)"

section \<open>Host data\<close>

definition hostDataRoutePrefixes :: "string list" where
  "hostDataRoutePrefixes =
     [''/terminal/'', ''/api/v2/terminal/'', ''/desktop/'', ''/recordings'', ''/files/'',
      ''/api/v1/file-connections'', ''/api/v1/file-transfers'', ''/api/v1/remote-bookmarks'',
      ''/api/v2/file-transfers'', ''/processes/'', ''/cron/'', ''/users/'', ''/logs/journal/'',
      ''/actions/runs'']"

definition pathSegmentsAfter :: "string \<Rightarrow> string \<Rightarrow> string list" where
  "pathSegmentsAfter path prefix =
     (if \<not> has_prefix path prefix then []
      else map trim_space (split_on CHR ''/'' (trim_prefix path prefix)))"

definition requestRequiresOperatorRole :: "string \<Rightarrow> bool" where
  "requestRequiresOperatorRole path =
     (list_ex (\<lambda>prefix. has_prefix path prefix) hostDataRoutePrefixes \<or>
      (let rest = pathSegmentsAfter path ''/api/v2/assets/''
       in length rest \<ge> 2 \<and>
          (has_prefix (rest ! 1) ''files'' \<or> has_prefix (rest ! 1) ''processes'' \<or>
           rest ! 1 = ''cron'' \<or> rest ! 1 = ''users'' \<or> rest ! 1 = ''logs'' \<or> rest ! 1 = ''exec'')) \<or>
      (let rest = pathSegmentsAfter path ''/api/v1/nodes/''
       in length rest \<ge> 2 \<and> rest ! 1 = ''clipboard'') \<or>
      list_ex (\<lambda>prefix. let rest = pathSegmentsAfter path prefix
          in length rest \<ge> 2 \<and> rest ! 1 = ''logs'')
        [''/api/v1/docker/containers/'', ''/api/v2/docker/containers/''] \<or>
      list_ex (\<lambda>prefix. let rest = pathSegmentsAfter path prefix
          in length rest \<ge> 4 \<and>
             ((rest ! 1 = ''containers'' \<and>
               (rest ! 3 = ''exec'' \<or> rest ! 3 = ''logs'' \<or> rest ! 3 = ''inspect'')) \<or>
              (rest ! 1 = ''stacks'' \<and> rest ! 3 = ''compose'')))
        [''/portainer/assets/'', ''/api/v2/portainer/assets/''] \<or>
      list_ex (\<lambda>prefix. let rest = pathSegmentsAfter path prefix
          in length rest \<ge> 2 \<and> rest ! 1 = ''filesystem'')
        [''/truenas/assets/'', ''/api/v2/truenas/assets/''] \<or>
      list_ex (\<lambda>prefix. let rest = pathSegmentsAfter path prefix
          in length rest \<ge> 2 \<and> rest ! 1 = ''syslog'')
        [''/proxmox/nodes/'', ''/api/v2/proxmox/nodes/''])"

definition rejectHostDataForRole :: "http_request \<Rightarrow> string \<Rightarrow> bool" where
  "rejectHostDataForRole r role =
     (if \<not> requestRequiresOperatorRole (rq_path r) \<and>
         \<not> requestRequiresOperatorRole (rq_escaped_path r) then False
      else if HasWritePrivileges role then False
      else True)"

definition hostDataDenied :: outcome where
  "hostDataDenied = Rejected 403 ''operator role required''"

section \<open>Stream paths\<close>

definition isSessionStreamPath :: "string \<Rightarrow> string \<Rightarrow> string list \<Rightarrow> bool" where
  "isSessionStreamPath path prefix allowedActions =
     (if \<not> has_prefix path prefix then False
      else let parts = split_on CHR ''/'' (trim_prefix path prefix)
           in if length parts \<noteq> 2 \<or> trim_space (parts ! 0) = [] then False
              else list_ex (\<lambda>allowed. trim_space (parts ! 1) = allowed) allowedActions)"

definition isNativeAppStreamPath :: "string \<Rightarrow> bool" where
  "isNativeAppStreamPath path =
     (isSessionStreamPath path ''/terminal/sessions/'' [''stream''] \<or>
      isSessionStreamPath path ''/desktop/sessions/'' [''stream'', ''audio''])"

definition isNativeAppOriginScheme :: "string \<Rightarrow> bool" where
  "isNativeAppOriginScheme rawScheme =
     (let s = to_lower (trim_space rawScheme) in s = ''file'' \<or> s = ''labtether-local'')"

definition streamTicketFallbackForbidden :: "http_request \<Rightarrow> bool" where
  "streamTicketFallbackForbidden r =
     (if rq_method r \<noteq> ''GET'' \<or> \<not> isNativeAppStreamPath (rq_path r) then False
      else if rq_ticket r \<noteq> None then True
      else if equal_fold (trim_space (rq_origin r)) ''null'' then True
      else case rq_origin_scheme r of None \<Rightarrow> False | Some scheme \<Rightarrow> isNativeAppOriginScheme scheme)"

section \<open>Stream tickets\<close>

definition streamTicketTTL :: duration where "streamTicketTTL = 60 * second"

text \<open>The session id that a stream path names, if the path is a ticketed one.\<close>

definition ticket_session :: "string \<Rightarrow> string option" where
  "ticket_session urlPath =
     (let path = trim_prefix urlPath ''/terminal/sessions/'';
          desktop = (path = urlPath \<or> path = []);
          path' = (if desktop then trim_prefix urlPath ''/desktop/sessions/'' else path);
          actions = (if desktop then [''stream'', ''audio''] else [''stream''])
      in if desktop \<and> (path' = urlPath \<or> path' = []) then None
         else let parts = split_on CHR ''/'' path'
              in if length parts \<noteq> 2 then None
                 else if trim_space (parts ! 0) = [] then None
                 else if trim_space (parts ! 1) \<notin> set actions then None
                 else Some (trim_space (parts ! 0)))"

definition ticket_context :: "auth_ctx \<Rightarrow> stream_ticket \<Rightarrow> auth_ctx" where
  "ticket_context base entry =
     (let ctx = ContextWithPrincipal base (tk_actor_id entry) (tk_role entry);
          ctx = (case tk_scopes entry of None \<Rightarrow> ctx
                 | Some xs \<Rightarrow> ContextWithScopes ctx (if xs = [] then None else Some xs));
          ctx = (case tk_assets entry of None \<Rightarrow> ctx
                 | Some xs \<Rightarrow> ContextWithAllowedAssets ctx (if xs = [] then None else Some xs));
          ctx = (if tk_key_id entry \<noteq> [] then ContextWithAPIKeyID ctx (tk_key_id entry) else ctx);
          ctx = (if tk_auth_session_id entry \<noteq> []
                 then ContextWithAuthSessionID ctx (tk_auth_session_id entry) else ctx)
      in ctx)"

definition prune_tickets :: "gtime \<Rightarrow> (string \<times> stream_ticket) list \<Rightarrow> (string \<times> stream_ticket) list" where
  "prune_tickets now ts = filter (\<lambda>(k, e). \<not> tk_expires_at e < now) ts"

definition consumeStreamTicketAuth ::
    "api_server \<Rightarrow> gtime \<Rightarrow> http_request \<Rightarrow> auth_ctx option \<times> api_server" where
  "consumeStreamTicketAuth s now r =
     (if rq_method r \<noteq> ''GET'' then (None, s)
      else case ticket_session (rq_path r) of
        None \<Rightarrow> (None, s)
      | Some sessionID \<Rightarrow>
        (let ticket = trim_space (case rq_ticket r of None \<Rightarrow> [] | Some v \<Rightarrow> v)
         in if ticket = [] then (None, s)
            else let s = s\<lparr>sv_tickets := prune_tickets now (sv_tickets s)\<rparr>
                 in case map_of (sv_tickets s) ticket of
                      None \<Rightarrow> (None, s)
                    | Some entry \<Rightarrow>
                        (if tk_expires_at entry < now
                         then (None, s\<lparr>sv_tickets := AList.delete ticket (sv_tickets s)\<rparr>)
                         else if tk_session_id entry \<noteq> sessionID then (None, s)
                         else (Some (ticket_context (rq_ctx r) entry),
                               s\<lparr>sv_tickets := AList.delete ticket (sv_tickets s)\<rparr>))))"

text \<open>
  A new ticket: \<open>append([]string(nil), xs...)\<close> copies the slice, and copies an empty slice to nil.
  The random token is an argument, \<open>None\<close> for a failing generator.
\<close>

definition copy_slice :: "string list option \<Rightarrow> string list option" where
  "copy_slice xs = (case xs of Some [] \<Rightarrow> None | _ \<Rightarrow> xs)"

datatype ticket_error = SessionIDRequired | PrincipalRequired | TicketGeneration

definition issueStreamTicket ::
    "api_server \<Rightarrow> gtime \<Rightarrow> string option \<Rightarrow> auth_ctx \<Rightarrow> string \<Rightarrow>
     (ticket_error, string \<times> gtime) res \<times> api_server" where
  "issueStreamTicket s now random ctx sessionID =
     (let sessionID = trim_space sessionID
      in if sessionID = [] then (Inl SessionIDRequired, s)
         else let actorID = trim_space (cx_user_id ctx); role = NormalizeRole (cx_role ctx)
              in if actorID = [] \<or> role = [] then (Inl PrincipalRequired, s)
                 else case random of
                   None \<Rightarrow> (Inl TicketGeneration, s)
                 | Some ticket \<Rightarrow>
                     (let expiresAt = now + streamTicketTTL;
                          entry = \<lparr>tk_session_id = sessionID, tk_actor_id = actorID, tk_role = role,
                            tk_scopes = copy_slice (cx_scopes ctx),
                            tk_assets = copy_slice (cx_assets ctx), tk_key_id = cx_key_id ctx,
                            tk_auth_session_id = cx_session_id ctx, tk_expires_at = expiresAt\<rparr>
                      in (Inr (ticket, expiresAt),
                          s\<lparr>sv_tickets := AList.update ticket entry
                              (prune_tickets now (sv_tickets s))\<rparr>)))"

definition streamTicketPrincipalActive ::
    "api_server \<Rightarrow> gtime \<Rightarrow> string \<Rightarrow> string \<Rightarrow> string \<Rightarrow> string \<Rightarrow> bool" where
  "streamTicketPrincipalActive s now actorID role apiKeyID authSessionID =
     (let actorID = trim_space actorID
      in if actorID = ''owner'' then True
         else if apiKeyID \<noteq> [] then
           (case sv_key_store s of
              None \<Rightarrow> False
            | Some kb \<Rightarrow>
                (case kb_get kb apiKeyID of
                   Inl _ \<Rightarrow> False
                 | Inr None \<Rightarrow> False
                 | Inr (Some key) \<Rightarrow>
                     (if (case key_expires_at key of None \<Rightarrow> False | Some t \<Rightarrow> t < now) then False
                      else streamRoleRank (key_role key) \<ge> streamRoleRank role)))
         else if authSessionID \<noteq> [] then
           (case sv_auth_store s of
              None \<Rightarrow> False
            | Some be \<Rightarrow>
                (case be_get_user be actorID of
                   Inl _ \<Rightarrow> False
                 | Inr None \<Rightarrow> False
                 | Inr (Some user) \<Rightarrow>
                     (if streamRoleRank (usr_role user) < streamRoleRank role then False
                      else case be_list_sessions be actorID of
                             Inl _ \<Rightarrow> False
                           | Inr sessions \<Rightarrow>
                               list_ex (\<lambda>x. ses_id x = authSessionID \<and> ses_expires_at x > now) sessions)))
         else False)"

definition streamTicketRequestActive :: "api_server \<Rightarrow> gtime \<Rightarrow> auth_ctx \<Rightarrow> bool" where
  "streamTicketRequestActive s now ctx =
     streamTicketPrincipalActive s now (cx_user_id ctx) (cx_role ctx) (cx_key_id ctx) (cx_session_id ctx)"

definition ticket_principal_keys :: "stream_ticket \<Rightarrow> string list" where
  "ticket_principal_keys entry =
     (let ctx = ContextWithPrincipal background (tk_actor_id entry) (tk_role entry)
      in StreamPrincipalKeys
           (if tk_auth_session_id entry \<noteq> []
            then ContextWithAuthSessionID ctx (tk_auth_session_id entry) else ctx))"

definition dropStreamTickets :: "api_server \<Rightarrow> string list \<Rightarrow> api_server" where
  "dropStreamTickets s keys =
     s\<lparr>sv_tickets := filter (\<lambda>(t, entry). \<not> list_ex (\<lambda>k. k \<in> set keys) (ticket_principal_keys entry))
         (sv_tickets s)\<rparr>"

section \<open>The middleware\<close>

type_synonym method_policy = "(string \<Rightarrow> string \<Rightarrow> bool) option"

definition methodAllowedForRole :: "string \<Rightarrow> string \<Rightarrow> bool" where
  "methodAllowedForRole role method =
     (if method = ''GET'' \<or> method = ''HEAD'' \<or> method = ''OPTIONS'' then True
      else HasWritePrivileges role)"

definition policy_refuses :: "method_policy \<Rightarrow> string \<Rightarrow> string \<Rightarrow> bool" where
  "policy_refuses methodPolicy role method =
     (case methodPolicy of None \<Rightarrow> True | Some p \<Rightarrow> \<not> p role method)"

definition authenticatedSessionRequest ::
    "api_server \<Rightarrow> gtime \<Rightarrow> http_request \<Rightarrow> (string, (auth_ctx \<times> string) option) res" where
  "authenticatedSessionRequest s now r =
     (let token = ExtractSessionToken r
      in if token = [] then Inr None
         else case sv_auth_store s of
           None \<Rightarrow> Inl ''authentication store is unavailable''
         | Some be \<Rightarrow>
           (case be_validate_session be now (sv_hash_token s token) of
              Inl e \<Rightarrow> Inl (''validate session: '' @ e)
            | Inr None \<Rightarrow> Inr None
            | Inr (Some session) \<Rightarrow>
              (case be_get_user be (ses_user_id session) of
                 Inl e \<Rightarrow> Inl (''load session user: '' @ e)
               | Inr None \<Rightarrow> Inr None
               | Inr (Some user) \<Rightarrow>
                   (let role = NormalizeRole (usr_role user);
                        ctx = ContextWithPrincipal (rq_ctx r) (ses_user_id session) role;
                        ctx = ContextWithAuthSessionID ctx (ses_id session)
                    in Inr (Some (ctx, role))))))"

definition apiKeyCreatorCappedRole ::
    "api_server \<Rightarrow> api_key \<Rightarrow> string \<Rightarrow> (string, string option) res" where
  "apiKeyCreatorCappedRole s key role =
     (let creator = trim_space (key_created_by key)
      in if creator = [] \<or> creator = ''owner'' \<or> creator = ''system'' then Inr (Some role)
         else case sv_auth_store s of
           None \<Rightarrow> Inl ''authentication store is unavailable''
         | Some be \<Rightarrow>
           (case be_get_user be creator of
              Inl e \<Rightarrow> Inl (''load api key creator: '' @ e)
            | Inr None \<Rightarrow> Inr None
            | Inr (Some user) \<Rightarrow> Inr (Some (LowerRole role (usr_role user)))))"

definition apiKeyRequestIsSecure :: "api_server \<Rightarrow> http_request \<Rightarrow> bool" where
  "apiKeyRequestIsSecure s r =
     (if rq_tls r then True
      else if sv_tls_enabled s then True
      else rq_loopback r \<and> rq_forwarded_https r)"

definition validateOwnerTokenRequest :: "api_server \<Rightarrow> http_request \<Rightarrow> bool" where
  "validateOwnerTokenRequest s r = ValidateRequest (sv_owner_tokens s) r"

definition touch_api_key :: "api_server \<Rightarrow> gtime \<Rightarrow> api_key \<Rightarrow> api_server" where
  "touch_api_key s now key =
     (if (case key_last_used_at key of None \<Rightarrow> True | Some t \<Rightarrow> now - t > minute) \<and>
         length (sv_touches s) < sv_touch_capacity s
      then s\<lparr>sv_touches := sv_touches s @ [key_id key]\<rparr> else s)"

definition api_key_context :: "auth_ctx \<Rightarrow> api_key \<Rightarrow> string \<Rightarrow> auth_ctx" where
  "api_key_context base key role =
     ContextWithAPIKeyID
       (ContextWithAllowedAssets
         (ContextWithScopes (ContextWithPrincipal base (''apikey:'' @ key_id key) role) (key_scopes key))
         (key_allowed_assets key))
       (key_id key)"

text \<open>The two rate limits and the debounced touch of an accepted key.\<close>

definition admit_api_key ::
    "api_server \<Rightarrow> gtime \<Rightarrow> http_request \<Rightarrow> api_key \<Rightarrow> string \<Rightarrow> outcome \<times> api_server" where
  "admit_api_key s now r key role =
     (let (ok, rl) = enforceRateLimit (sv_limiter s) now (rq_client_key r) (''apikey:'' @ key_id key)
                       600 minute;
          s = s\<lparr>sv_limiter := rl\<rparr>
      in if \<not> ok then (Rejected 429 ''rate limit exceeded'', s)
         else let (ok, rl) = enforceRateLimitGlobal (sv_limiter s) now
                               (''apikey-global:'' @ key_id key) 3000 minute;
                  s = s\<lparr>sv_limiter := rl\<rparr>
              in if \<not> ok then (Rejected 429 ''rate limit exceeded'', s)
                 else (Served (api_key_context (rq_ctx r) key role), touch_api_key s now key))"

definition authenticate_api_key ::
    "method_policy \<Rightarrow> api_server \<Rightarrow> gtime \<Rightarrow> http_request \<Rightarrow> string \<Rightarrow> outcome \<times> api_server" where
  "authenticate_api_key methodPolicy s now r bearer =
     (case sv_key_store s of
        None \<Rightarrow> (Rejected 503 ''api key authentication unavailable'', s)
      | Some kb \<Rightarrow>
        (if \<not> apiKeyRequestIsSecure s r then (Rejected 403 ''api keys require HTTPS'', s)
         else case kb_lookup kb (sv_hash_key s bearer) of
           Inl _ \<Rightarrow> (Rejected 503 ''api key lookup failed'', s)
         | Inr None \<Rightarrow> (Rejected 401 ''invalid api key'', s)
         | Inr (Some key) \<Rightarrow>
           (if (case key_expires_at key of None \<Rightarrow> False | Some t \<Rightarrow> t < now)
            then (Rejected 401 ''api key expired'', s)
            else if ValidateScopes (slice (key_scopes key)) \<noteq> None
            then (Rejected 401 ''invalid api key'', s)
            else if NormalizeRole (key_role key) = RoleOwner
            then (Rejected 401 ''invalid api key'', s)
            else case apiKeyCreatorCappedRole s key (NormalizeRole (key_role key)) of
              Inl _ \<Rightarrow> (Rejected 503 ''api key lookup failed'', s)
            | Inr None \<Rightarrow> (Rejected 401 ''invalid api key'', s)
            | Inr (Some role) \<Rightarrow>
              (if policy_refuses methodPolicy role (rq_method r) then (Rejected 403 ''forbidden'', s)
               else if rejectHostDataForRole r role then (hostDataDenied, s)
               else admit_api_key s now r key role))))"

definition authenticate_static_token ::
    "method_policy \<Rightarrow> api_server \<Rightarrow> http_request \<Rightarrow> outcome" where
  "authenticate_static_token methodPolicy s r =
     (if sv_console_tokens s \<noteq> None \<and> ValidateRequest (sv_console_tokens s) r then
        (if rq_method r \<noteq> ''GET'' \<or> rq_path r \<noteq> ''/settings/runtime'' then Rejected 403 ''forbidden''
         else Served (ContextWithScopes (ContextWithPrincipal (rq_ctx r) ''console-service'' RoleAdmin)
                (Some [''settings:read''])))
      else if \<not> validateOwnerTokenRequest s r then Rejected 401 ''unauthorized''
      else if policy_refuses methodPolicy RoleOwner (rq_method r) then Rejected 403 ''forbidden''
      else Served (ContextWithPrincipal (rq_ctx r) ''owner'' RoleOwner))"

definition withAuthMethodPolicy ::
    "method_policy \<Rightarrow> api_server \<Rightarrow> gtime \<Rightarrow> http_request \<Rightarrow> outcome \<times> api_server" where
  "withAuthMethodPolicy methodPolicy s now r =
     (case consumeStreamTicketAuth s now r of
        (Some ctx, s) \<Rightarrow>
          (if rejectHostDataForRole r (cx_role ctx) then (hostDataDenied, s)
           else if \<not> streamTicketRequestActive s now ctx then (Rejected 401 ''unauthorized'', s)
           else (Served ctx, s))
      | (None, s) \<Rightarrow>
          (if streamTicketFallbackForbidden r then (Rejected 401 ''unauthorized'', s)
           else case authenticatedSessionRequest s now r of
             Inl _ \<Rightarrow> (Rejected 503 ''session authentication unavailable'', s)
           | Inr (Some (ctx, role)) \<Rightarrow>
               (if policy_refuses methodPolicy role (rq_method r) then (Rejected 403 ''forbidden'', s)
                else if rejectHostDataForRole r role then (hostDataDenied, s)
                else (Served ctx, s))
           | Inr None \<Rightarrow>
               (if IsAPIKeyFormat (extractToken r)
                then authenticate_api_key methodPolicy s now r (extractToken r)
                else (authenticate_static_token methodPolicy s r, s))))"

definition withAuth :: "api_server \<Rightarrow> gtime \<Rightarrow> http_request \<Rightarrow> outcome \<times> api_server" where
  "withAuth = withAuthMethodPolicy (Some methodAllowedForRole)"

definition withReadCapabilityAuth :: "api_server \<Rightarrow> gtime \<Rightarrow> http_request \<Rightarrow> outcome \<times> api_server" where
  "withReadCapabilityAuth = withAuthMethodPolicy (Some (\<lambda>_ _. True))"

definition withAdminAuth :: "api_server \<Rightarrow> gtime \<Rightarrow> http_request \<Rightarrow> outcome \<times> api_server" where
  "withAdminAuth s now r =
     (case withAuth s now r of
        (Served ctx, s) \<Rightarrow>
          (if \<not> HasAdminPrivileges (cx_role ctx) then (Rejected 403 ''forbidden'', s) else (Served ctx, s))
      | (Rejected code msg, s) \<Rightarrow> (Rejected code msg, s))"

definition withSelfServiceAuth :: "api_server \<Rightarrow> gtime \<Rightarrow> http_request \<Rightarrow> outcome" where
  "withSelfServiceAuth s now r =
     (case authenticatedSessionRequest s now r of
        Inl _ \<Rightarrow> Rejected 503 ''session authentication unavailable''
      | Inr None \<Rightarrow> Rejected 401 ''unauthorized''
      | Inr (Some (ctx, _)) \<Rightarrow> Served ctx)"

section \<open>Lemmas\<close>

lemma methodAllowed_mutating:
  "IsMutatingMethod m \<Longrightarrow> methodAllowedForRole role m \<longleftrightarrow> HasWritePrivileges role"
  by (auto simp: IsMutatingMethod_def methodAllowedForRole_def)

text \<open>What each way of authenticating establishes.\<close>

lemma consume_ticket_served:
  assumes "consumeStreamTicketAuth s now r = (Some ctx, s')"
  obtains sid ticket entry where "rq_method r = ''GET''" "ticket_session (rq_path r) = Some sid"
    "rq_ticket r \<noteq> None" "ticket = trim_space (the (rq_ticket r))" "ticket \<noteq> []"
    "map_of (prune_tickets now (sv_tickets s)) ticket = Some entry"
    "\<not> tk_expires_at entry < now" "tk_session_id entry = sid"
    "ctx = ticket_context (rq_ctx r) entry"
    "s' = s\<lparr>sv_tickets := AList.delete ticket (prune_tickets now (sv_tickets s))\<rparr>"
  using assms
  by (auto simp: consumeStreamTicketAuth_def Let_def split: if_split_asm option.split_asm)

lemma consume_ticket_none:
  assumes "consumeStreamTicketAuth s now r = (None, s')"
  shows "\<exists>ts. s' = s\<lparr>sv_tickets := ts\<rparr>"
proof -
  have "\<exists>ts. s = s\<lparr>sv_tickets := ts\<rparr>" by (rule exI [of _ "sv_tickets s"]) simp
  with assms show ?thesis
    by (auto simp: consumeStreamTicketAuth_def Let_def split: if_split_asm option.split_asm)
qed

lemma authenticate_api_key_served:
  assumes "authenticate_api_key policy s now r bearer = (Served ctx, s')"
  obtains kb key role where "sv_key_store s = Some kb" "apiKeyRequestIsSecure s r"
    "kb_lookup kb (sv_hash_key s bearer) = Inr (Some key)"
    "\<not> (case key_expires_at key of None \<Rightarrow> False | Some t \<Rightarrow> t < now)"
    "ValidateScopes (slice (key_scopes key)) = None" "NormalizeRole (key_role key) \<noteq> RoleOwner"
    "apiKeyCreatorCappedRole s key (NormalizeRole (key_role key)) = Inr (Some role)"
    "\<not> policy_refuses policy role (rq_method r)" "\<not> rejectHostDataForRole r role"
    "ctx = api_key_context (rq_ctx r) key role"
  using assms
  by (auto simp: authenticate_api_key_def admit_api_key_def Let_def split_beta hostDataDenied_def
      split: if_split_asm option.split_asm sum.split_asm)

lemma authenticated_session_served:
  assumes "authenticatedSessionRequest s now r = Inr (Some (ctx, role))"
  obtains be session user where "sv_auth_store s = Some be" "ExtractSessionToken r \<noteq> []"
    "be_validate_session be now (sv_hash_token s (ExtractSessionToken r)) = Inr (Some session)"
    "be_get_user be (ses_user_id session) = Inr (Some user)" "role = NormalizeRole (usr_role user)"
    "ctx = ContextWithAuthSessionID (ContextWithPrincipal (rq_ctx r) (ses_user_id session) role)
             (ses_id session)"
  using assms
  by (auto simp: authenticatedSessionRequest_def Let_def
      split: if_split_asm option.split_asm sum.split_asm)

lemma static_token_served:
  assumes "authenticate_static_token policy s r = Served ctx"
  obtains (console) "rq_method r = ''GET''" "rq_path r = ''/settings/runtime''"
    "ctx = ContextWithScopes (ContextWithPrincipal (rq_ctx r) ''console-service'' RoleAdmin)
             (Some [''settings:read''])"
  | (owner) "validateOwnerTokenRequest s r" "\<not> policy_refuses policy RoleOwner (rq_method r)"
    "ctx = ContextWithPrincipal (rq_ctx r) ''owner'' RoleOwner"
  using assms by (auto simp: authenticate_static_token_def split: if_split_asm)

lemma served_cases:
  assumes "withAuthMethodPolicy policy s now r = (Served ctx, s')"
  obtains (ticket) "consumeStreamTicketAuth s now r = (Some ctx, s')"
    "\<not> rejectHostDataForRole r (cx_role ctx)" "streamTicketRequestActive s' now ctx"
  | (session) s0 role where "consumeStreamTicketAuth s now r = (None, s0)"
    "authenticatedSessionRequest s0 now r = Inr (Some (ctx, role))"
    "\<not> policy_refuses policy role (rq_method r)" "\<not> rejectHostDataForRole r role"
  | (api_key) s0 where "consumeStreamTicketAuth s now r = (None, s0)"
    "authenticatedSessionRequest s0 now r = Inr None" "IsAPIKeyFormat (extractToken r)"
    "authenticate_api_key policy s0 now r (extractToken r) = (Served ctx, s')"
  | (static) s0 where "consumeStreamTicketAuth s now r = (None, s0)"
    "authenticatedSessionRequest s0 now r = Inr None" "\<not> IsAPIKeyFormat (extractToken r)"
    "authenticate_static_token policy s0 r = Served ctx"
proof (cases "consumeStreamTicketAuth s now r")
  case (Pair c s0)
  show ?thesis
  proof (cases c)
    case None
    with Pair assms that(2-4) show ?thesis
      by (auto simp: withAuthMethodPolicy_def hostDataDenied_def
          split: if_split_asm option.split_asm sum.split_asm)
  next
    case (Some a)
    with Pair assms that(1) show ?thesis
      by (auto simp: withAuthMethodPolicy_def hostDataDenied_def split: if_split_asm)
  qed
qed

text \<open>The role that reaches the handler passed both role gates.\<close>

lemma served_role_gates:
  assumes "withAuthMethodPolicy policy s now r = (Served ctx, s')"
  shows "\<not> rejectHostDataForRole r (cx_role ctx) \<and>
    (rq_method r = ''GET'' \<or> \<not> policy_refuses policy (cx_role ctx) (rq_method r))"
  using assms
proof (cases rule: served_cases)
  case ticket
  then show ?thesis by (auto elim: consume_ticket_served)
next
  case (session s0 role)
  then show ?thesis
    by (auto elim!: authenticated_session_served simp: context_defs ContextWithAuthSessionID_def)
next
  case (api_key s0)
  then show ?thesis
    by (auto elim!: authenticate_api_key_served simp: context_defs api_key_context_def)
next
  case (static s0)
  have "HasWritePrivileges RoleAdmin" "HasWritePrivileges RoleOwner"
    by (simp_all add: HasWritePrivileges_def)
  with static show ?thesis
    by (auto elim!: static_token_served simp: context_defs rejectHostDataForRole_def)
qed

lemma ticket_session_stream_path:
  assumes "ticket_session path = Some sid"
  shows "isNativeAppStreamPath path"
proof -
  have pre: "has_prefix path p" if "trim_prefix path p \<noteq> path" for p
    using that by (auto simp: trim_prefix_def split: if_split_asm)
  show ?thesis
    using assms pre [of "''/terminal/sessions/''"] pre [of "''/desktop/sessions/''"]
    by (auto simp: ticket_session_def Let_def isNativeAppStreamPath_def isSessionStreamPath_def
        split: if_split_asm)
qed

lemma map_of_delete_key [simp]: "map_of (AList.delete k xs) k = None"
  by (simp add: delete_conv')

lemma map_of_prune_None: "map_of ts k = None \<Longrightarrow> map_of (prune_tickets now ts) k = None"
  by (auto simp: prune_tickets_def map_of_eq_None_iff)

lemma map_of_prune_live:
  assumes "map_of ts k = Some e" "\<not> tk_expires_at e < now"
  shows "map_of (prune_tickets now ts) k = Some e"
  using assms
proof (induction ts)
  case (Cons t ts)
  then show ?case by (cases t) (auto simp: prune_tickets_def split: if_split_asm)
qed simp

lemma copy_slice_simps: "slice (copy_slice xs) = slice xs" "xs \<noteq> Some [] \<Longrightarrow> copy_slice xs = xs"
  "copy_slice xs \<noteq> Some []"
  by (auto simp: copy_slice_def slice_def split: option.split list.split)

context auth_contract
begin

lemma session_request_current:
  assumes "authenticatedSessionRequest s now r = Inr (Some (ctx, role))" "sv_auth_store s = Some be"
  shows "\<exists>session user. be_validate_session be now (sv_hash_token s (ExtractSessionToken r)) = Inr (Some session) \<and>
    be_get_user be (ses_user_id session) = Inr (Some user) \<and>
    ses_token_hash session = sv_hash_token s (ExtractSessionToken r) \<and> now < ses_expires_at session \<and>
    usr_id user = ses_user_id session \<and> cx_user_id ctx = usr_id user \<and>
    cx_role ctx = NormalizeRole (usr_role user) \<and> role = cx_role ctx"
  using assms(1)
proof (cases rule: authenticated_session_served)
  case (1 be' session user)
  then show ?thesis
    using assms(2) validated [of now _ session] got_user [of "ses_user_id session" user]
    by (auto simp: context_defs ContextWithAuthSessionID_def)
qed

end

section \<open>A concrete server\<close>

text \<open>
  An owner \<open>user-1\<close> with a session, an operator key made by that user and an owner token; the
  hashes are replaced by a tagging function. The witnesses below run requests against it.
\<close>

definition memory_key_backend :: "key_store \<Rightarrow> key_backend" where
  "memory_key_backend keys =
     \<lparr>kb_lookup = (\<lambda>h. Inr (LookupAPIKeyByHash keys h)), kb_get = (\<lambda>k. Inr (GetAPIKey keys k))\<rparr>"

definition example_auth :: memory_auth_store where
  "example_auth =
     snd (CreateAuthSession (snd (BootstrapFirstUser NewMemoryAuthStore 0 ''ann'' ''pw'')) 0 ''user-1''
            ''h:cookie'' (3600 * second))"

definition example_key :: api_key where
  "example_key =
     \<lparr>key_id = ''k1'', key_name = ''ci'', key_prefix = ''ab'', key_secret_hash = ''h:lt_ab_secret'',
      key_role = ''operator'', key_scopes = Some [''assets:read''], key_allowed_assets = None,
      key_expires_at = Some (7200 * second), key_created_by = ''user-1'', key_created_at = 0,
      key_last_used_at = None\<rparr>"

definition example_server :: api_server where
  "example_server =
     \<lparr>sv_tls_enabled = True, sv_hash_token = (\<lambda>t. ''h:'' @ t), sv_hash_key = (\<lambda>t. ''h:'' @ t),
      sv_auth_store = Some (memory_auth_backend example_auth),
      sv_key_store = Some (memory_key_backend [example_key]),
      sv_console_tokens = None, sv_owner_tokens = Some (NewTokenValidator ['' root '']),
      sv_tickets = [], sv_limiter = \<lparr>rl_windows = [], rl_pruned_at = 0\<rparr>, sv_touches = [],
      sv_touch_capacity = 100\<rparr>"

definition example_request :: http_request where
  "example_request =
     \<lparr>rq_method = ''POST'', rq_path = ''/assets'', rq_escaped_path = ''/assets'', rq_ctx = background,
      rq_ticket = None, rq_origin = [], rq_origin_scheme = Some [], rq_cookie = None,
      rq_authorization = ''Bearer lt_ab_secret'', rq_x_token = [], rq_tls = True,
      rq_loopback = False, rq_forwarded_https = False, rq_client_key = ''10.0.0.9''\<rparr>"

definition example_stream :: http_request where
  "example_stream = example_request\<lparr>rq_method := ''GET'', rq_path := ''/terminal/sessions/s1/stream'',
     rq_escaped_path := ''/terminal/sessions/s1/stream'', rq_ticket := Some ''tick''\<rparr>"

definition example_ctx :: auth_ctx where
  "example_ctx = api_key_context background example_key ''operator''"

definition example_ticketed :: api_server where
  "example_ticketed = snd (issueStreamTicket example_server second (Some ''tick'') example_ctx ''s1'')"

section \<open>Properties\<close>

text \<open>
  C3: No request reaches a handler behind \<open>withAuth\<close> with a mutating method, or on a route that
  reads host data or opens an interactive session, unless the role in its context has write
  privileges; this holds for every credential (ticket, cookie, API key, console or owner token).
\<close>

theorem writes_and_host_data_need_operator:
  assumes "withAuth s now r = (Served ctx, s')"
    and "IsMutatingMethod (rq_method r) \<or> requestRequiresOperatorRole (rq_path r)"
  shows "HasWritePrivileges (cx_role ctx)"
proof -
  have gates: "\<not> rejectHostDataForRole r (cx_role ctx)"
    "rq_method r = ''GET'' \<or> \<not> policy_refuses (Some methodAllowedForRole) (cx_role ctx) (rq_method r)"
    using served_role_gates assms(1) by (auto simp: withAuth_def)
  show ?thesis
  proof (cases "requestRequiresOperatorRole (rq_path r)")
    case True
    with gates(1) show ?thesis by (auto simp: rejectHostDataForRole_def split: if_split_asm)
  next
    case False
    with assms(2) have "IsMutatingMethod (rq_method r)" by simp
    with gates(2) show ?thesis
      by (auto simp: policy_refuses_def methodAllowed_mutating) (simp add: IsMutatingMethod_def)
  qed
qed

theorem writes_and_host_data_need_operator_witness:
  "HasWritePrivileges (cx_role (case fst (withAuth example_server second example_request) of
     Served ctx \<Rightarrow> ctx | _ \<Rightarrow> background))"
proof -
  have "withAuth example_server second example_request =
      (Served (case fst (withAuth example_server second example_request) of
         Served ctx \<Rightarrow> ctx | _ \<Rightarrow> background),
       snd (withAuth example_server second example_request))"
  proof -
    have "case fst (withAuth example_server second example_request) of Served ctx \<Rightarrow> True | _ \<Rightarrow> False"
      by code_simp
    then show ?thesis by (cases "withAuth example_server second example_request")
        (auto split: outcome.split_asm outcome.split)
  qed
  moreover have "IsMutatingMethod (rq_method example_request)" by code_simp
  ultimately show ?thesis by (intro writes_and_host_data_need_operator) blast+
qed

text \<open>
  C4: A request authenticated by an API key gets no more than the key and its creator have: the
  key was found by its hash and has not expired, the transport is secure, the scopes in the
  context are the key's own validated list (never nil, which would mean unrestricted), the asset
  list is the key's, the role is not owner and ranks at most as high as the key's role and as the
  creator's current role.
\<close>

theorem api_key_request_least_privilege:
  assumes served: "withAuthMethodPolicy policy s now r = (Served ctx, s')"
    and no_ticket: "rq_ticket r = None"
    and no_session: "authenticatedSessionRequest s now r = Inr None"
    and bearer: "IsAPIKeyFormat (extractToken r)"
  shows "\<exists>kb key. sv_key_store s = Some kb \<and>
     kb_lookup kb (sv_hash_key s (extractToken r)) = Inr (Some key) \<and>
     (\<forall>t. key_expires_at key = Some t \<longrightarrow> now \<le> t) \<and> apiKeyRequestIsSecure s r \<and>
     cx_key_id ctx = key_id key \<and> cx_scopes ctx = key_scopes key \<and>
     cx_scopes ctx \<noteq> None \<and> ValidateScopes (slice (cx_scopes ctx)) = None \<and>
     cx_assets ctx = key_allowed_assets key \<and> NormalizeRole (cx_role ctx) \<noteq> RoleOwner \<and>
     streamRoleRank (cx_role ctx) \<le> streamRoleRank (key_role key) \<and>
     (trim_space (key_created_by key) \<notin> {[], ''owner'', ''system''} \<longrightarrow>
       (\<exists>be user. sv_auth_store s = Some be \<and>
          be_get_user be (trim_space (key_created_by key)) = Inr (Some user) \<and>
          streamRoleRank (cx_role ctx) \<le> streamRoleRank (usr_role user)))"
proof -
  have "consumeStreamTicketAuth s now r = (None, s)"
    using no_ticket by (simp add: consumeStreamTicketAuth_def Let_def split: option.split)
  then have "authenticate_api_key policy s now r (extractToken r) = (Served ctx, s')"
    using served no_session bearer by (cases rule: served_cases [OF served]) auto
  then obtain kb key role where k: "sv_key_store s = Some kb" "apiKeyRequestIsSecure s r"
    "kb_lookup kb (sv_hash_key s (extractToken r)) = Inr (Some key)"
    "\<not> (case key_expires_at key of None \<Rightarrow> False | Some t \<Rightarrow> t < now)"
    "ValidateScopes (slice (key_scopes key)) = None" "NormalizeRole (key_role key) \<noteq> RoleOwner"
    "apiKeyCreatorCappedRole s key (NormalizeRole (key_role key)) = Inr (Some role)"
    "ctx = api_key_context (rq_ctx r) key role"
    by (rule authenticate_api_key_served) blast
  have scopes: "key_scopes key \<noteq> None" using k(5) by (cases "key_scopes key") (auto simp: ValidateScopes_def)
  have norm: "streamRoleRank (NormalizeRole x) = streamRoleRank x" for x
    by (simp add: streamRoleRank_eq)
  have role: "streamRoleRank role \<le> streamRoleRank (key_role key) \<and>
      (trim_space (key_created_by key) \<notin> {[], ''owner'', ''system''} \<longrightarrow>
       (\<exists>be user. sv_auth_store s = Some be \<and>
          be_get_user be (trim_space (key_created_by key)) = Inr (Some user) \<and>
          streamRoleRank role \<le> streamRoleRank (usr_role user)))"
    using k(7) by (auto simp: apiKeyCreatorCappedRole_def Let_def streamRoleRank_LowerRole norm
        split: if_split_asm option.split_asm sum.split_asm)
  have "NormalizeRole role \<noteq> RoleOwner"
    using role k(6) by (auto simp: owner_rank)
  with k scopes role show ?thesis
    by (auto simp: api_key_context_def context_defs not_less split: option.split_asm)
qed

theorem api_key_request_least_privilege_witness:
  "\<exists>kb key. sv_key_store example_server = Some kb \<and>
     kb_lookup kb (sv_hash_key example_server (extractToken example_request)) = Inr (Some key) \<and>
     streamRoleRank ''operator'' \<le> streamRoleRank (key_role key)"
proof -
  have "fst (withAuth example_server second example_request) = Served example_ctx"
    by code_simp
  then obtain s' where served:
    "withAuthMethodPolicy (Some methodAllowedForRole) example_server second example_request =
       (Served example_ctx, s')"
    by (metis prod.collapse withAuth_def)
  have "rq_ticket example_request = None" by code_simp
  moreover have "authenticatedSessionRequest example_server second example_request = Inr None"
    by (simp add: authenticatedSessionRequest_def ExtractSessionToken_def example_request_def)
  moreover have "IsAPIKeyFormat (extractToken example_request)" by code_simp
  moreover have "cx_role example_ctx = ''operator''" by code_simp
  ultimately show ?thesis
    using api_key_request_least_privilege [OF served] by metis
qed



text \<open>
  A stream ticket carries the permissions of the principal that asked for it: redeemed for
  the session it was issued for, before it expires, it yields a context with the same actor, the
  same normalized role, API key and sign-in session, and the same answer to every scope and
  asset check. The scope list must not be empty and non-nil, which would become nil; an
  authenticated key never has such a list.
\<close>

lemma stream_ticket_preserves_permissions:
  assumes issued: "issueStreamTicket s t0 (Some tok) ctx sid = (Inr (tok', expires), s1)"
    and scopes: "cx_scopes ctx \<noteq> Some []"
    and redeem: "rq_method r = ''GET''" "ticket_session (rq_path r) = Some (trim_space sid)"
      "rq_ticket r = Some tok" "rq_ctx r = background"
    and token: "trim_space tok = tok" "tok \<noteq> []" and time: "now \<le> t0 + streamTicketTTL"
  shows "\<exists>ctx'. fst (consumeStreamTicketAuth s1 now r) = Some ctx' \<and>
    cx_user_id ctx' = trim_space (cx_user_id ctx) \<and> cx_role ctx' = NormalizeRole (cx_role ctx) \<and>
    cx_key_id ctx' = cx_key_id ctx \<and> cx_session_id ctx' = trim_space (cx_session_id ctx) \<and>
    (\<forall>required. ScopeCheck (cx_scopes ctx') required = ScopeCheck (cx_scopes ctx) required) \<and>
    (\<forall>asset. AssetCheckContext ctx' asset = AssetCheckContext ctx asset)"
proof -
  let ?e = "\<lparr>tk_session_id = trim_space sid, tk_actor_id = trim_space (cx_user_id ctx),
     tk_role = NormalizeRole (cx_role ctx), tk_scopes = copy_slice (cx_scopes ctx),
     tk_assets = copy_slice (cx_assets ctx), tk_key_id = cx_key_id ctx,
     tk_auth_session_id = cx_session_id ctx, tk_expires_at = t0 + streamTicketTTL\<rparr>"
  have "sv_tickets s1 = AList.update tok ?e (prune_tickets t0 (sv_tickets s))"
    using issued by (auto simp: issueStreamTicket_def Let_def split: if_split_asm)
  then have "map_of (prune_tickets now (sv_tickets s1)) tok = Some ?e"
    using time map_of_prune_live [of "sv_tickets s1" tok ?e now] by (simp add: update_conv')
  then have "fst (consumeStreamTicketAuth s1 now r) = Some (ticket_context background ?e)"
    using redeem token time by (simp add: consumeStreamTicketAuth_def Let_def)
  moreover have "cx_assets (ticket_context background ?e) = copy_slice (cx_assets ctx)"
    "cx_scopes (ticket_context background ?e) = cx_scopes ctx"
    using scopes copy_slice_simps(3) [of "cx_assets ctx"]
    by (auto simp: ticket_context_def Let_def context_defs ContextWithAuthSessionID_def background_def
        copy_slice_simps(2) split: option.split)
  moreover have "cx_user_id (ticket_context background ?e) = trim_space (cx_user_id ctx)"
    "cx_role (ticket_context background ?e) = NormalizeRole (cx_role ctx)"
    "cx_key_id (ticket_context background ?e) = cx_key_id ctx"
    "cx_session_id (ticket_context background ?e) = trim_space (cx_session_id ctx)"
    by (auto simp: ticket_context_def Let_def context_defs ContextWithAuthSessionID_def background_def
        split: option.split)
  ultimately show ?thesis
    by (simp add: AssetCheckContext_def AssetCheck_def copy_slice_simps)
qed

text \<open>
  Revocation reaches unredeemed tickets: after \<open>dropStreamTickets\<close> for some principals, every
  ticket that can still be redeemed belongs to none of them.
\<close>

lemma dropped_principals_hold_no_ticket:
  assumes "consumeStreamTicketAuth (dropStreamTickets s keys) now r = (Some ctx, s')"
    and "rq_ctx r = background"
  shows "set (StreamPrincipalKeys ctx) \<inter> set keys = {}"
  using assms(1)
proof (cases rule: consume_ticket_served)
  case (1 sid ticket entry)
  have "(ticket, entry) \<in> set (sv_tickets (dropStreamTickets s keys))"
    using map_of_SomeD [OF 1(6)] by (auto simp: prune_tickets_def)
  then have "set (ticket_principal_keys entry) \<inter> set keys = {}"
    by (auto simp: dropStreamTickets_def list_ex_iff)
  moreover have "StreamPrincipalKeys (ticket_context background entry) = ticket_principal_keys entry"
    by (auto simp: ticket_principal_keys_def ticket_context_def StreamPrincipalKeys_def Let_def
        context_defs ContextWithAuthSessionID_def background_def split: option.split)
  ultimately show ?thesis using 1(9) assms(2) by simp
qed

text \<open>
  A cookie session gives exactly the current rights of an existing user: with the in-memory
  store behind the server, a request admitted by its cookie has an unexpired session with the
  cookie's hash, the session's user still exists, and actor and role in the context are that
  user's id and current normalized role.
\<close>

lemma cookie_request_has_current_role:
  assumes "sv_auth_store s = Some (memory_auth_backend m)"
    and "authenticatedSessionRequest s now r = Inr (Some (ctx, role))"
  shows "\<exists>x \<in> set (ma_sessions m). \<exists>u \<in> set (ma_users m).
     ses_token_hash x = sv_hash_token s (ExtractSessionToken r) \<and> now < ses_expires_at x \<and>
     ses_user_id x = usr_id u \<and> cx_user_id ctx = usr_id u \<and>
     cx_role ctx = NormalizeRole (usr_role u) \<and> role = cx_role ctx"
proof -
  obtain x u where xu: "be_validate_session (memory_auth_backend m) now
      (sv_hash_token s (ExtractSessionToken r)) = Inr (Some x)"
    "be_get_user (memory_auth_backend m) (ses_user_id x) = Inr (Some u)"
    "ses_token_hash x = sv_hash_token s (ExtractSessionToken r)" "now < ses_expires_at x"
    "usr_id u = ses_user_id x" "cx_user_id ctx = usr_id u" "cx_role ctx = NormalizeRole (usr_role u)"
    "role = cx_role ctx"
    using memory_auth.session_request_current [OF assms(2,1)] by blast
  then have "x \<in> set (ma_sessions m)" "u \<in> set (ma_users m)"
    by (auto simp: memory_auth_backend_def ValidateSession_def GetUserByID_def dest: find_first_SomeD)
  with xu show ?thesis by metis
qed

end
