(* ===== verification/Session_Streams.thy ===== *)
theory Session_Streams
  imports Keyed_Locks Stream_Principals
begin

text \<open>
  The registry that binds browser streams to their logical session and to the credentials they were
  opened with (\<open>internal/hubapi/shared/session_stream_lifecycle.go\<close> and \<open>stream_principals.go\<close>).

  Every operation works under the mutex of the session's entry or the registry's mutex, so each
  critical section is one step. \<open>Delete\<close> cancels and closes outside the locks: it is a first step up to
  the unlock and a second one from there. An owner (\<open>*sessionStreamRequest\<close>), an entry and a socket
  are identifiers; the once-guarded cleanup closure is the flag \<open>sr_cleaned\<close>. The storage callbacks
  \<open>exists\<close> and \<open>remove\<close> are their results.
\<close>

section \<open>Model\<close>

type_synonym owner_ref = nat
type_synonym socket = nat

record sessionStreamRequest =
  sr_session :: string
  sr_entry :: entry_ref
  sr_parent :: "owner_ref option"
  sr_principals :: "string list"
  sr_closed :: bool
  sr_cancelled :: bool
  sr_conn :: "socket option"
  sr_cleaned :: bool

record sessionStreamEntry =
  se_refs :: int
  se_requests :: "owner_ref list"

record stream_registry =
  rg_entries :: "(string \<times> entry_ref) list"
  rg_heap :: "entry_ref \<Rightarrow> sessionStreamEntry"
  rg_next :: entry_ref
  rg_owners :: "owner_ref \<Rightarrow> sessionStreamRequest"
  rg_next_owner :: owner_ref
  rg_principals :: "(string \<times> owner_ref list) list"
  rg_closed_sockets :: "socket list"

definition empty_registry :: stream_registry where
  "empty_registry = \<lparr>rg_entries = [], rg_heap = (\<lambda>_. \<lparr>se_refs = 0, se_requests = []\<rparr>), rg_next = 0,
     rg_owners = (\<lambda>_. \<lparr>sr_session = [], sr_entry = 0, sr_parent = None, sr_principals = [], sr_closed = False,
        sr_cancelled = False, sr_conn = None, sr_cleaned = False\<rparr>),
     rg_next_owner = 0, rg_principals = [], rg_closed_sockets = []\<rparr>"

definition add_refs :: "int \<Rightarrow> entry_ref \<Rightarrow> stream_registry \<Rightarrow> stream_registry" where
  "add_refs n e r = r\<lparr>rg_heap := (rg_heap r)(e := (rg_heap r e)\<lparr>se_refs := se_refs (rg_heap r e) + n\<rparr>)\<rparr>"

definition retain :: "stream_registry \<Rightarrow> string \<Rightarrow> entry_ref \<times> stream_registry" where
  "retain r sid =
     (case map_of (rg_entries r) sid of
        Some entry \<Rightarrow> (entry, add_refs 1 entry r)
      | None \<Rightarrow>
          (let entry = rg_next r;
               r = r\<lparr>rg_heap := (rg_heap r)(entry := \<lparr>se_refs = 0, se_requests = []\<rparr>), rg_next := Suc entry,
                     rg_entries := AList.update sid entry (rg_entries r)\<rparr>
           in (entry, add_refs 1 entry r)))"

definition release :: "stream_registry \<Rightarrow> string \<Rightarrow> entry_ref \<Rightarrow> stream_registry" where
  "release r sid entry =
     (let r = add_refs (-1) entry r
      in if se_refs (rg_heap r entry) = 0
         then r\<lparr>rg_entries := AList.delete sid (rg_entries r)\<rparr> else r)"

definition principal_index :: "stream_registry \<Rightarrow> string \<Rightarrow> owner_ref list" where
  "principal_index r key = (case map_of (rg_principals r) key of None \<Rightarrow> [] | Some os \<Rightarrow> os)"

definition index_principal :: "owner_ref \<Rightarrow> string \<Rightarrow> stream_registry \<Rightarrow> stream_registry" where
  "index_principal owner key r =
     r\<lparr>rg_principals := AList.update key (List.insert owner (principal_index r key)) (rg_principals r)\<rparr>"

definition indexPrincipals :: "owner_ref \<Rightarrow> stream_registry \<Rightarrow> stream_registry" where
  "indexPrincipals owner r = fold (index_principal owner) (sr_principals (rg_owners r owner)) r"

definition unindex_principal :: "owner_ref \<Rightarrow> string \<Rightarrow> stream_registry \<Rightarrow> stream_registry" where
  "unindex_principal owner key r =
     (let os = removeAll owner (principal_index r key)
      in r\<lparr>rg_principals := (if os = [] then AList.delete key (rg_principals r)
                             else AList.update key os (rg_principals r))\<rparr>)"

definition unindexPrincipals :: "owner_ref \<Rightarrow> stream_registry \<Rightarrow> stream_registry" where
  "unindexPrincipals owner r = fold (unindex_principal owner) (sr_principals (rg_owners r owner)) r"

datatype stream_error = ErrSessionNotFound | StreamError string | ErrClosed

definition set_requests :: "entry_ref \<Rightarrow> (owner_ref list \<Rightarrow> owner_ref list) \<Rightarrow> stream_registry \<Rightarrow> stream_registry" where
  "set_requests e f r = r\<lparr>rg_heap := (rg_heap r)(e := (rg_heap r e)\<lparr>se_requests := f (se_requests (rg_heap r e))\<rparr>)\<rparr>"

text \<open>\<open>ctx\<close> is the request's context, \<open>ctx_err\<close> its error, \<open>parent\<close> the enclosing owner found in it.\<close>

definition Open ::
    "stream_registry \<Rightarrow> auth_ctx \<Rightarrow> string option \<Rightarrow> owner_ref option \<Rightarrow> string \<Rightarrow> (string, bool) res \<Rightarrow>
     (stream_error, owner_ref) res \<times> stream_registry" where
  "Open r ctx ctx_err parent sid exists =
     (let (entry, r) = retain r sid;
          err = (case exists of
                   Inl e \<Rightarrow> Some (StreamError e)
                 | Inr present \<Rightarrow> (if \<not> present then Some ErrSessionNotFound else map_option StreamError ctx_err))
      in case err of
           Some e \<Rightarrow> (Inl e, release r sid entry)
         | None \<Rightarrow>
             (let owner = rg_next_owner r;
                  r = r\<lparr>rg_owners := (rg_owners r)(owner :=
                          \<lparr>sr_session = sid, sr_entry = entry, sr_parent = parent,
                           sr_principals = StreamPrincipalKeys ctx, sr_closed = False, sr_cancelled = False,
                           sr_conn = None, sr_cleaned = False\<rparr>),
                        rg_next_owner := Suc owner\<rparr>;
                  r = set_requests entry (\<lambda>os. owner # os) r
              in (Inr owner, indexPrincipals owner r)))"

definition close_sockets :: "socket list \<Rightarrow> stream_registry \<Rightarrow> stream_registry" where
  "close_sockets cs r = r\<lparr>rg_closed_sockets := cs @ rg_closed_sockets r\<rparr>"

definition conn_list :: "sessionStreamRequest \<Rightarrow> socket list" where
  "conn_list o' = (case sr_conn o' of None \<Rightarrow> [] | Some c \<Rightarrow> [c])"

definition update_owner :: "owner_ref \<Rightarrow> (sessionStreamRequest \<Rightarrow> sessionStreamRequest) \<Rightarrow> stream_registry \<Rightarrow> stream_registry" where
  "update_owner owner f r = r\<lparr>rg_owners := (rg_owners r)(owner := f (rg_owners r owner))\<rparr>"

definition cleanup_stream :: "owner_ref \<Rightarrow> stream_registry \<Rightarrow> stream_registry" where
  "cleanup_stream owner r =
     (if sr_cleaned (rg_owners r owner) then r
      else let entry = sr_entry (rg_owners r owner);
               r = set_requests entry (removeAll owner) r;
               r = update_owner owner (\<lambda>w. w\<lparr>sr_closed := True, sr_cleaned := True\<rparr>) r;
               conns = conn_list (rg_owners r owner);
               r = unindexPrincipals owner r;
               r = update_owner owner (\<lambda>w. w\<lparr>sr_cancelled := True\<rparr>) r;
               r = close_sockets conns r
           in release r (sr_session (rg_owners r owner)) entry)"

record deletion =
  dl_session :: string
  dl_entry :: entry_ref
  dl_owners :: "owner_ref list"
  dl_conns :: "socket list"

definition delete_gate :: "stream_registry \<Rightarrow> string \<Rightarrow> string option \<Rightarrow> (stream_error, deletion) res \<times> stream_registry" where
  "delete_gate r sid remove_err =
     (let (entry, r) = retain r sid
      in case remove_err of
           Some e \<Rightarrow> (Inl (StreamError e), release r sid entry)
         | None \<Rightarrow>
             (let owners = se_requests (rg_heap r entry);
                  conns = concat (map (\<lambda>w. conn_list (rg_owners r w)) owners)
              in (Inr \<lparr>dl_session = sid, dl_entry = entry, dl_owners = owners, dl_conns = conns\<rparr>,
                  fold (\<lambda>w. update_owner w (\<lambda>x. x\<lparr>sr_closed := True\<rparr>)) owners r)))"

definition delete_finish :: "stream_registry \<Rightarrow> deletion \<Rightarrow> stream_registry" where
  "delete_finish r d =
     (let r = fold (\<lambda>w. update_owner w (\<lambda>x. x\<lparr>sr_cancelled := True\<rparr>)) (dl_owners d) r;
          r = close_sockets (dl_conns d) r
      in release r (dl_session d) (dl_entry d))"

text \<open>Whether the action ran, and the error otherwise.\<close>

definition RunIfExists :: "stream_registry \<Rightarrow> string \<Rightarrow> (string, bool) res \<Rightarrow> stream_error option \<times> stream_registry" where
  "RunIfExists r sid exists =
     (let (entry, r) = retain r sid
      in (case exists of
            Inl e \<Rightarrow> Some (StreamError e)
          | Inr present \<Rightarrow> (if \<not> present then Some ErrSessionNotFound else None),
          release r sid entry))"

text \<open>
  Whether the action runs: each owner from the outermost parent inwards must be open, with a live
  context. The fuel bounds the length of the parent chain; a parent is older than its child, so
  \<open>Suc owner\<close> is enough.
\<close>

fun runSessionStreamOwner :: "nat \<Rightarrow> stream_registry \<Rightarrow> bool \<Rightarrow> owner_ref option \<Rightarrow> bool option" where
  "runSessionStreamOwner fuel r ctx_done None = Some True"
| "runSessionStreamOwner 0 r ctx_done (Some owner) = None"
| "runSessionStreamOwner (Suc fuel) r ctx_done (Some owner) =
     (case runSessionStreamOwner fuel r ctx_done (sr_parent (rg_owners r owner)) of
        None \<Rightarrow> None
      | Some outer \<Rightarrow> Some (outer \<and> \<not> sr_closed (rg_owners r owner) \<and> \<not> ctx_done))"

definition RunIfSessionStreamOpen :: "stream_registry \<Rightarrow> bool \<Rightarrow> owner_ref \<Rightarrow> bool option" where
  "RunIfSessionStreamOpen r ctx_done owner = runSessionStreamOwner (Suc owner) r ctx_done (Some owner)"

definition Hijack :: "stream_registry \<Rightarrow> owner_ref \<Rightarrow> (string, socket) res \<Rightarrow> (stream_error, socket) res \<times> stream_registry" where
  "Hijack r owner hijacked =
     (case hijacked of
        Inl e \<Rightarrow> (Inl (StreamError e), r)
      | Inr conn \<Rightarrow>
          (if sr_closed (rg_owners r owner) then (Inl ErrClosed, close_sockets [conn] r)
           else (Inr conn, update_owner owner (\<lambda>w. w\<lparr>sr_conn := Some conn\<rparr>) r)))"

definition revoke_owner :: "owner_ref \<Rightarrow> int \<times> stream_registry \<Rightarrow> int \<times> stream_registry" where
  "revoke_owner owner nr =
     (let (n, r) = nr;
          wasOpen = (\<not> sr_closed (rg_owners r owner));
          r = update_owner owner (\<lambda>w. w\<lparr>sr_closed := True\<rparr>) r;
          conns = conn_list (rg_owners r owner);
          r = update_owner owner (\<lambda>w. w\<lparr>sr_cancelled := True\<rparr>) r
      in (if wasOpen then n + 1 else n, close_sockets conns r))"

definition RevokePrincipals :: "stream_registry \<Rightarrow> string list \<Rightarrow> int \<times> stream_registry" where
  "RevokePrincipals r keys = fold revoke_owner (concat (map (principal_index r) keys)) (0, r)"

section \<open>Runs\<close>

text \<open>
  The registry beside the stored session records and the deletions that are past their gate. The
  storage callbacks answer from the records, or fail.
\<close>

record stream_system =
  ss_reg :: stream_registry
  ss_db :: "string list"
  ss_deleting :: "deletion list"

definition stream_start :: stream_system where
  "stream_start = \<lparr>ss_reg = empty_registry, ss_db = [], ss_deleting = []\<rparr>"

inductive stream_step :: "stream_system \<Rightarrow> stream_system \<Rightarrow> bool" where
  create_session: "stream_step S (S\<lparr>ss_db := sid # ss_db S\<rparr>)"
| open_stream: "exists = Inr (sid \<in> set (ss_db S)) \<or> exists = Inl e \<Longrightarrow>
    (case parent of None \<Rightarrow> True | Some p \<Rightarrow> p < rg_next_owner (ss_reg S)) \<Longrightarrow>
    stream_step S (S\<lparr>ss_reg := snd (Open (ss_reg S) ctx ctx_err parent sid exists)\<rparr>)"
| delete_failed: "stream_step S (S\<lparr>ss_reg := snd (delete_gate (ss_reg S) sid (Some e))\<rparr>)"
| delete_started: "delete_gate (ss_reg S) sid None = (Inr d, r') \<Longrightarrow>
    stream_step S (S\<lparr>ss_reg := r', ss_db := removeAll sid (ss_db S), ss_deleting := d # ss_deleting S\<rparr>)"
| delete_done: "d \<in> set (ss_deleting S) \<Longrightarrow>
    stream_step S (S\<lparr>ss_reg := delete_finish (ss_reg S) d, ss_deleting := remove1 d (ss_deleting S)\<rparr>)"
| run_existing: "stream_step S (S\<lparr>ss_reg := snd (RunIfExists (ss_reg S) sid exists)\<rparr>)"
| end_stream: "owner < rg_next_owner (ss_reg S) \<Longrightarrow>
    stream_step S (S\<lparr>ss_reg := cleanup_stream owner (ss_reg S)\<rparr>)"
| hijack_stream: "owner < rg_next_owner (ss_reg S) \<Longrightarrow>
    stream_step S (S\<lparr>ss_reg := snd (Hijack (ss_reg S) owner hijacked)\<rparr>)"
| revoke_streams: "stream_step S (S\<lparr>ss_reg := snd (RevokePrincipals (ss_reg S) keys)\<rparr>)"

section \<open>Invariants\<close>

text \<open>
  The table: every hold \<open>(sid, e)\<close> (an operation that has retained an entry) and every request whose
  cleanup has not run keeps its entry in the table, and the counter is their number.
\<close>

definition live :: "stream_registry \<Rightarrow> owner_ref \<Rightarrow> bool" where
  "live r w = (w < rg_next_owner r \<and> \<not> sr_cleaned (rg_owners r w))"

definition entry_ok :: "stream_registry \<Rightarrow> (string \<times> entry_ref) list \<Rightarrow> string \<Rightarrow> entry_ref \<Rightarrow> bool" where
  "entry_ok r hs sid e =
     (e < rg_next r \<and> 0 < se_refs (rg_heap r e) \<and> distinct (se_requests (rg_heap r e)) \<and>
      se_refs (rg_heap r e) = int (length (se_requests (rg_heap r e)) + count_list hs (sid, e)) \<and>
      set (se_requests (rg_heap r e)) =
        {w. live r w \<and> sr_session (rg_owners r w) = sid \<and> sr_entry (rg_owners r w) = e})"

definition table_inv :: "stream_registry \<Rightarrow> (string \<times> entry_ref) list \<Rightarrow> bool" where
  "table_inv r hs =
     ((\<forall>h \<in> set hs. map_of (rg_entries r) (fst h) = Some (snd h)) \<and>
      (\<forall>sid e. map_of (rg_entries r) sid = Some e \<longrightarrow> entry_ok r hs sid e) \<and>
      (\<forall>sid sid' e. map_of (rg_entries r) sid = Some e \<longrightarrow> map_of (rg_entries r) sid' = Some e \<longrightarrow> sid = sid') \<and>
      (\<forall>w. live r w \<longrightarrow> map_of (rg_entries r) (sr_session (rg_owners r w)) = Some (sr_entry (rg_owners r w))))"

definition settled :: "stream_registry \<Rightarrow> owner_ref \<Rightarrow> bool" where
  "settled r w = (sr_cancelled (rg_owners r w) \<and> set (conn_list (rg_owners r w)) \<subseteq> set (rg_closed_sockets r))"

definition flags_inv :: "stream_registry \<Rightarrow> string list \<Rightarrow> deletion list \<Rightarrow> bool" where
  "flags_inv r db ds =
     ((\<forall>w < rg_next_owner r. \<not> sr_closed (rg_owners r w) \<longrightarrow>
         sr_session (rg_owners r w) \<in> set db \<and> \<not> sr_cleaned (rg_owners r w)) \<and>
      (\<forall>w < rg_next_owner r. sr_closed (rg_owners r w) \<longrightarrow>
         settled r w \<or> (\<exists>d \<in> set ds. w \<in> set (dl_owners d))) \<and>
      (\<forall>d \<in> set ds. \<forall>w \<in> set (dl_owners d). w < rg_next_owner r \<and> sr_closed (rg_owners r w) \<and>
         set (conn_list (rg_owners r w)) \<subseteq> set (dl_conns d)))"

definition index_inv :: "stream_registry \<Rightarrow> bool" where
  "index_inv r =
     (\<forall>k. set (principal_index r k) = {w. live r w \<and> k \<in> set (sr_principals (rg_owners r w))} \<and>
        map_of (rg_principals r) k \<noteq> Some [])"

definition deletion_hold :: "deletion \<Rightarrow> string \<times> entry_ref" where
  "deletion_hold d = (dl_session d, dl_entry d)"

definition stream_inv :: "stream_system \<Rightarrow> bool" where
  "stream_inv S =
     (table_inv (ss_reg S) (map deletion_hold (ss_deleting S)) \<and>
      flags_inv (ss_reg S) (ss_db S) (ss_deleting S) \<and> index_inv (ss_reg S))"

section \<open>Lemmas\<close>

subsection \<open>What the loops do\<close>

lemma fold_update_owner:
  assumes "\<And>w. f (f w) = f w"
  shows "fold (\<lambda>w. update_owner w f) os r =
    r\<lparr>rg_owners := (\<lambda>w. if w \<in> set os then f (rg_owners r w) else rg_owners r w)\<rparr>"
  by (induction os arbitrary: r) (auto simp: update_owner_def assms fun_eq_iff)

lemma principal_index_simps:
  "principal_index (index_principal w k r) k' = (if k' = k then List.insert w (principal_index r k) else principal_index r k')"
  "principal_index (unindex_principal w k r) k' = (if k' = k then removeAll w (principal_index r k) else principal_index r k')"
  by (auto simp: principal_index_def index_principal_def unindex_principal_def Let_def split: option.split)

text \<open>Two registries that differ in the principal index only.\<close>

definition same_but_index :: "stream_registry \<Rightarrow> stream_registry \<Rightarrow> bool" where
  "same_but_index r r' = (\<exists>ix. r' = r\<lparr>rg_principals := ix\<rparr>)"

lemma same_but_indexD:
  assumes "same_but_index r r'"
  shows "rg_entries r' = rg_entries r" "rg_heap r' = rg_heap r" "rg_next r' = rg_next r" "rg_owners r' = rg_owners r"
    "rg_next_owner r' = rg_next_owner r" "rg_closed_sockets r' = rg_closed_sockets r"
  using assms by (auto simp: same_but_index_def)

lemma fold_index:
  "same_but_index r (fold (index_principal w) ks r) \<and>
   (\<forall>k. set (principal_index (fold (index_principal w) ks r) k) =
      (if k \<in> set ks then insert w (set (principal_index r k)) else set (principal_index r k))) \<and>
   ((\<forall>k. map_of (rg_principals r) k \<noteq> Some []) \<longrightarrow>
      (\<forall>k. map_of (rg_principals (fold (index_principal w) ks r)) k \<noteq> Some []))"
proof (induction ks arbitrary: r)
  case Nil
  show ?case by (auto simp: same_but_index_def intro: exI [of _ "rg_principals r"])
next
  case (Cons a ks)
  have "same_but_index r (index_principal w a r)" by (auto simp: same_but_index_def index_principal_def)
  then have "same_but_index r (fold (index_principal w) ks (index_principal w a r))"
    using Cons.IH [of "index_principal w a r"] by (auto simp: same_but_index_def)
  moreover have "map_of (rg_principals (index_principal w a r)) k \<noteq> Some []"
    if "\<forall>k. map_of (rg_principals r) k \<noteq> Some []" for k
    using that by (auto simp: index_principal_def List.insert_def)
  ultimately show ?case
    using Cons.IH [of "index_principal w a r"] by (auto simp: principal_index_simps split: if_split_asm)
qed

lemma fold_unindex:
  "same_but_index r (fold (unindex_principal w) ks r) \<and>
   (\<forall>k. set (principal_index (fold (unindex_principal w) ks r) k) =
      (if k \<in> set ks then set (principal_index r k) - {w} else set (principal_index r k))) \<and>
   ((\<forall>k. map_of (rg_principals r) k \<noteq> Some []) \<longrightarrow>
      (\<forall>k. map_of (rg_principals (fold (unindex_principal w) ks r)) k \<noteq> Some []))"
proof (induction ks arbitrary: r)
  case Nil
  show ?case by (auto simp: same_but_index_def intro: exI [of _ "rg_principals r"])
next
  case (Cons a ks)
  have "same_but_index r (unindex_principal w a r)"
    by (auto simp: same_but_index_def unindex_principal_def Let_def)
  then have "same_but_index r (fold (unindex_principal w) ks (unindex_principal w a r))"
    using Cons.IH [of "unindex_principal w a r"] by (auto simp: same_but_index_def)
  moreover have "map_of (rg_principals (unindex_principal w a r)) k \<noteq> Some []"
    if "\<forall>k. map_of (rg_principals r) k \<noteq> Some []" for k
    using that by (auto simp: unindex_principal_def Let_def)
  ultimately show ?case
    using Cons.IH [of "unindex_principal w a r"] by (auto simp: principal_index_simps split: if_split_asm)
qed

lemma fold_revoke:
  "\<exists>n cs. fold revoke_owner os (m, r) =
     (n, r\<lparr>rg_owners := (\<lambda>w. if w \<in> set os then (rg_owners r w)\<lparr>sr_closed := True, sr_cancelled := True\<rparr>
                            else rg_owners r w),
           rg_closed_sockets := cs\<rparr>) \<and>
     set cs = set (rg_closed_sockets r) \<union> (\<Union>w \<in> set os. set (conn_list (rg_owners r w)))"
proof (induction os arbitrary: m r)
  case Nil
  show ?case by (auto intro!: exI [of _ m] exI [of _ "rg_closed_sockets r"])
next
  case (Cons a os)
  obtain m' r' where r': "revoke_owner a (m, r) = (m', r')" by fastforce
  then have reg: "r' = r\<lparr>rg_owners := (rg_owners r)(a := (rg_owners r a)\<lparr>sr_closed := True, sr_cancelled := True\<rparr>),
      rg_closed_sockets := conn_list (rg_owners r a) @ rg_closed_sockets r\<rparr>"
    by (auto simp: revoke_owner_def Let_def update_owner_def close_sockets_def conn_list_def)
  obtain n cs where ih: "fold revoke_owner os (m', r') =
     (n, r'\<lparr>rg_owners := (\<lambda>w. if w \<in> set os then (rg_owners r' w)\<lparr>sr_closed := True, sr_cancelled := True\<rparr>
                            else rg_owners r' w), rg_closed_sockets := cs\<rparr>)"
    "set cs = set (rg_closed_sockets r') \<union> (\<Union>w \<in> set os. set (conn_list (rg_owners r' w)))"
    using Cons.IH by blast
  have conns: "conn_list (rg_owners r' w) = conn_list (rg_owners r w)" for w
    by (simp add: reg conn_list_def)
  show ?case
    using ih by (intro exI [of _ n] exI [of _ cs]) (auto simp: r' reg conns [unfolded reg, simplified] fun_eq_iff)
qed

subsection \<open>The table\<close>

lemma add_refs_simps [simp]:
  "rg_entries (add_refs n e r) = rg_entries r" "rg_next (add_refs n e r) = rg_next r"
  "rg_owners (add_refs n e r) = rg_owners r" "rg_next_owner (add_refs n e r) = rg_next_owner r"
  "rg_principals (add_refs n e r) = rg_principals r" "rg_closed_sockets (add_refs n e r) = rg_closed_sockets r"
  "se_refs (rg_heap (add_refs n e r) x) = se_refs (rg_heap r x) + (if x = e then n else 0)"
  "se_requests (rg_heap (add_refs n e r) x) = se_requests (rg_heap r x)"
  by (simp_all add: add_refs_def)

lemma set_requests_simps [simp]:
  "rg_entries (set_requests e f r) = rg_entries r" "rg_next (set_requests e f r) = rg_next r"
  "rg_owners (set_requests e f r) = rg_owners r" "rg_next_owner (set_requests e f r) = rg_next_owner r"
  "rg_principals (set_requests e f r) = rg_principals r"
  "rg_closed_sockets (set_requests e f r) = rg_closed_sockets r"
  "se_refs (rg_heap (set_requests e f r) x) = se_refs (rg_heap r x)"
  "se_requests (rg_heap (set_requests e f r) x) =
     (if x = e then f (se_requests (rg_heap r e)) else se_requests (rg_heap r x))"
  by (simp_all add: set_requests_def)

lemma conn_list_flags [simp]:
  "conn_list (x\<lparr>sr_closed := b\<rparr>) = conn_list x" "conn_list (x\<lparr>sr_cancelled := b\<rparr>) = conn_list x"
  "conn_list (x\<lparr>sr_cleaned := b\<rparr>) = conn_list x"
  by (simp_all add: conn_list_def)

lemma update_owner_simps [simp]:
  "rg_entries (update_owner w f r) = rg_entries r" "rg_next (update_owner w f r) = rg_next r"
  "rg_heap (update_owner w f r) = rg_heap r" "rg_next_owner (update_owner w f r) = rg_next_owner r"
  "rg_principals (update_owner w f r) = rg_principals r"
  "rg_closed_sockets (update_owner w f r) = rg_closed_sockets r"
  "rg_owners (update_owner w f r) x = (if x = w then f (rg_owners r w) else rg_owners r x)"
  by (simp_all add: update_owner_def)

lemma close_sockets_simps [simp]:
  "rg_entries (close_sockets cs r) = rg_entries r" "rg_next (close_sockets cs r) = rg_next r"
  "rg_heap (close_sockets cs r) = rg_heap r" "rg_next_owner (close_sockets cs r) = rg_next_owner r"
  "rg_principals (close_sockets cs r) = rg_principals r" "rg_owners (close_sockets cs r) = rg_owners r"
  "rg_closed_sockets (close_sockets cs r) = cs @ rg_closed_sockets r"
  by (simp_all add: close_sockets_def)

interpretation stream_gate: keyed_locks retain release
  "\<lambda>r. map_of (rg_entries r)" "\<lambda>r e. se_refs (rg_heap r e)" "\<lambda>r. {..<rg_next r}"
  by unfold_locales (auto simp: retain_def release_def Let_def fun_eq_iff split: option.split)

lemma retain_frame [simp]:
  "rg_owners (snd (retain r sid)) = rg_owners r" "rg_next_owner (snd (retain r sid)) = rg_next_owner r"
  "rg_principals (snd (retain r sid)) = rg_principals r"
  "rg_closed_sockets (snd (retain r sid)) = rg_closed_sockets r"
  "live (snd (retain r sid)) = live r"
  by (simp_all add: retain_def Let_def live_def fun_eq_iff split: option.split)

lemma release_frame [simp]:
  "rg_owners (release r sid e) = rg_owners r" "rg_next_owner (release r sid e) = rg_next_owner r"
  "rg_principals (release r sid e) = rg_principals r"
  "rg_closed_sockets (release r sid e) = rg_closed_sockets r" "rg_next (release r sid e) = rg_next r"
  "se_requests (rg_heap (release r sid e) x) = se_requests (rg_heap r x)"
  "live (release r sid e) = live r"
  by (simp_all add: release_def Let_def live_def fun_eq_iff)

lemma retain_requests:
  "se_requests (rg_heap (snd (retain r sid)) x) =
     (if map_of (rg_entries r) sid = None \<and> x = fst (retain r sid) then [] else se_requests (rg_heap r x))"
  by (auto simp: retain_def Let_def split: option.split)

lemma retain_next: "rg_next r \<le> rg_next (snd (retain r sid))" "fst (retain r sid) < rg_next (snd (retain r sid)) \<or>
   map_of (rg_entries r) sid \<noteq> None"
  by (auto simp: retain_def Let_def split: option.split)

lemma table_hold: "table_inv r hs \<Longrightarrow> (sid, e) \<in> set hs \<Longrightarrow> map_of (rg_entries r) sid = Some e"
  by (auto simp: table_inv_def)

lemma table_entry: "table_inv r hs \<Longrightarrow> map_of (rg_entries r) sid = Some e \<Longrightarrow> entry_ok r hs sid e"
  by (simp add: table_inv_def)

lemma table_inj:
  "table_inv r hs \<Longrightarrow> map_of (rg_entries r) sid = Some e \<Longrightarrow> map_of (rg_entries r) sid' = Some e \<Longrightarrow> sid = sid'"
  unfolding table_inv_def by blast

lemma table_live:
  "table_inv r hs \<Longrightarrow> live r w \<Longrightarrow> map_of (rg_entries r) (sr_session (rg_owners r w)) = Some (sr_entry (rg_owners r w))"
  by (simp add: table_inv_def)

lemma table_invI:
  assumes "\<And>sid e. (sid, e) \<in> set hs \<Longrightarrow> map_of (rg_entries r) sid = Some e"
    and "\<And>sid e. map_of (rg_entries r) sid = Some e \<Longrightarrow> entry_ok r hs sid e"
    and "\<And>sid sid' e. map_of (rg_entries r) sid = Some e \<Longrightarrow> map_of (rg_entries r) sid' = Some e \<Longrightarrow> sid = sid'"
    and "\<And>w. live r w \<Longrightarrow> map_of (rg_entries r) (sr_session (rg_owners r w)) = Some (sr_entry (rg_owners r w))"
  shows "table_inv r hs"
  using assms unfolding table_inv_def by (metis prod.collapse)

lemma table_count_zero: "table_inv r hs \<Longrightarrow> map_of (rg_entries r) sid \<noteq> Some e \<Longrightarrow> count_list hs (sid, e) = 0"
  using table_hold by (fastforce simp: count_list_0_iff)

lemma table_retain:
  assumes inv: "table_inv r hs"
  shows "table_inv (snd (retain r sid)) ((sid, fst (retain r sid)) # hs)"
proof (rule table_invI)
  let ?r = "snd (retain r sid)" and ?e = "fst (retain r sid)"
  note tab = stream_gate.retain_entry [of r sid] stream_gate.retain_users [of r sid, THEN fun_cong]
  have hit: "?e = e" if "map_of (rg_entries r) sid = Some e" for e using stream_gate.retain_hit [OF that] .
  have own: "sid' = sid" if "map_of (rg_entries r) sid' = Some ?e" for sid'
  proof (cases "map_of (rg_entries r) sid")
    case None
    with stream_gate.retain_new [OF None] table_entry [OF inv that] show ?thesis by (simp add: entry_ok_def)
  next
    case (Some e)
    with hit [OF Some] table_inj [OF inv that, of sid] show ?thesis by simp
  qed
  show "map_of (rg_entries ?r) sid' = Some e" if "(sid', e) \<in> set ((sid, ?e) # hs)" for sid' e
    using that table_hold [OF inv, of sid' e] hit [of e] by (cases "sid' = sid") (auto simp: tab)
  show "sid' = sid''" if "map_of (rg_entries ?r) sid' = Some e" "map_of (rg_entries ?r) sid'' = Some e" for sid' sid'' e
    using that own [of sid'] own [of sid''] table_inj [OF inv, of sid' e sid'']
    by (cases "sid' = sid"; cases "sid'' = sid") (simp_all add: tab)
  show "map_of (rg_entries ?r) (sr_session (rg_owners ?r w)) = Some (sr_entry (rg_owners ?r w))" if "live ?r w" for w
    using that table_live [OF inv, of w] hit [of "sr_entry (rg_owners r w)"]
    by (cases "sr_session (rg_owners r w) = sid") (simp_all add: tab)
  show "entry_ok ?r ((sid, ?e) # hs) sid' e" if e: "map_of (rg_entries ?r) sid' = Some e" for sid' e
  proof (cases "sid' = sid")
    case False
    then have old: "map_of (rg_entries r) sid' = Some e" using e by (simp add: tab)
    then have "e \<noteq> ?e" using own False by blast
    with False table_entry [OF inv old] retain_next [of r sid] show ?thesis
      by (simp add: entry_ok_def retain_requests tab(2))
  next
    case True
    then have [simp]: "sid' = sid" "e = ?e" using e by (simp_all add: tab)
    show ?thesis
    proof (cases "map_of (rg_entries r) sid")
      case None
      have "{w. live r w \<and> sr_session (rg_owners r w) = sid \<and> sr_entry (rg_owners r w) = ?e} = {}"
        using table_live [OF inv] None by force
      with None table_count_zero [OF inv, of sid ?e] retain_next [of r sid] show ?thesis
        by (simp add: entry_ok_def retain_requests tab(2))
    next
      case (Some e')
      with hit [OF Some] table_entry [OF inv Some] retain_next [of r sid] show ?thesis
        by (simp add: entry_ok_def retain_requests tab(2))
    qed
  qed
qed

lemma table_release:
  assumes inv: "table_inv r ((sid, e) # hs)"
  shows "table_inv (release r sid e) hs"
proof -
  let ?r = "release r sid e" and ?gone = "se_refs (rg_heap r e) = 1"
  note tab = stream_gate.release_entry [of r sid e] stream_gate.release_users [of r sid e, THEN fun_cong]
  have e: "map_of (rg_entries r) sid = Some e" using table_hold [OF inv] by simp
  note ok = table_entry [OF inv e, unfolded entry_ok_def]
  have gone: "se_requests (rg_heap r e) = []" "count_list hs (sid, e) = 0" if ?gone
  proof -
    have "int (length (se_requests (rg_heap r e))) + int (count_list hs (sid, e)) = 0"
      using ok that by (simp add: add.commute)
    then have "length (se_requests (rg_heap r e)) = 0 \<and> count_list hs (sid, e) = 0" by linarith
    then show "se_requests (rg_heap r e) = []" "count_list hs (sid, e) = 0" by simp_all
  qed
  show ?thesis
  proof (rule table_invI)
    fix sid' e' assume h: "(sid', e') \<in> set hs"
    then have old: "map_of (rg_entries r) sid' = Some e'" using table_hold [OF inv] by simp
    have "sid' \<noteq> sid" if ?gone using gone(2) [OF that] h old e by (auto simp: count_list_0_iff)
    with old show "map_of (rg_entries ?r) sid' = Some e'" by (simp add: tab)
  next
    fix sid' e' assume e': "map_of (rg_entries ?r) sid' = Some e'"
    then have old: "map_of (rg_entries r) sid' = Some e'" by (simp add: tab split: if_split_asm)
    show "entry_ok ?r hs sid' e'"
    proof (cases "e' = e")
      case True
      then have "sid' = sid" using table_inj [OF inv old, of sid] e by simp
      then show ?thesis using e' ok True by (auto simp: entry_ok_def tab split: if_split_asm)
    next
      case False
      with table_entry [OF inv old] show ?thesis by (simp add: entry_ok_def tab)
    qed
  next
    fix sid1 sid2 e' assume "map_of (rg_entries ?r) sid1 = Some e'" "map_of (rg_entries ?r) sid2 = Some e'"
    then show "sid1 = sid2" using table_inj [OF inv, of sid1 e' sid2] by (simp add: tab split: if_split_asm)
  next
    fix w assume w: "live ?r w"
    then have old: "map_of (rg_entries r) (sr_session (rg_owners r w)) = Some (sr_entry (rg_owners r w))"
      using table_live [OF inv, of w] by simp
    have "sr_session (rg_owners r w) \<noteq> sid" if ?gone
    proof
      assume "sr_session (rg_owners r w) = sid"
      with old e w have "w \<in> set (se_requests (rg_heap r e))" using ok by simp
      with gone(1) [OF that] show False by simp
    qed
    with old show "map_of (rg_entries ?r) (sr_session (rg_owners ?r w)) = Some (sr_entry (rg_owners ?r w))"
      by (simp add: tab)
  qed
qed

lemma live_frame:
  assumes "rg_next_owner r' = rg_next_owner r" "\<And>w. sr_cleaned (rg_owners r' w) = sr_cleaned (rg_owners r w)"
  shows "live r' = live r"
  by (simp add: live_def assms fun_eq_iff)

lemma table_frame:
  assumes "rg_entries r' = rg_entries r" "rg_heap r' = rg_heap r" "rg_next r' = rg_next r"
    "rg_next_owner r' = rg_next_owner r" "\<And>w. sr_cleaned (rg_owners r' w) = sr_cleaned (rg_owners r w)"
    "\<And>w. sr_session (rg_owners r' w) = sr_session (rg_owners r w)"
    "\<And>w. sr_entry (rg_owners r' w) = sr_entry (rg_owners r w)"
  shows "table_inv r' hs = table_inv r hs"
  using live_frame [OF assms(4,5)] by (simp add: table_inv_def entry_ok_def assms)

lemma table_register:
  assumes inv: "table_inv r ((sid, e) # hs)" and w: "w = rg_next_owner r"
    and new: "sr_session o' = sid" "sr_entry o' = e" "\<not> sr_cleaned o'"
  shows "table_inv (set_requests e (\<lambda>os. w # os) (r\<lparr>rg_owners := (rg_owners r)(w := o'), rg_next_owner := Suc w\<rparr>)) hs"
    (is "table_inv ?r hs")
proof (rule table_invI)
  have live: "live ?r x \<longleftrightarrow> x = w \<or> live r x" for x using w new by (auto simp: live_def)
  have notw: "\<not> live r w" by (simp add: live_def w)
  have e: "map_of (rg_entries r) sid = Some e" using table_hold [OF inv] by simp
  show "map_of (rg_entries ?r) sid' = Some e'" if "(sid', e') \<in> set hs" for sid' e'
    using table_hold [OF inv, of sid' e'] that by simp
  show "sid1 = sid2" if "map_of (rg_entries ?r) sid1 = Some e'" "map_of (rg_entries ?r) sid2 = Some e'" for sid1 sid2 e'
    using table_inj [OF inv, of sid1 e' sid2] that by simp
  show "map_of (rg_entries ?r) (sr_session (rg_owners ?r x)) = Some (sr_entry (rg_owners ?r x))" if "live ?r x" for x
    using that table_live [OF inv, of x] e new by (cases "x = w") (simp_all add: live)
  show "entry_ok ?r hs sid' e'" if "map_of (rg_entries ?r) sid' = Some e'" for sid' e'
  proof -
    have old: "map_of (rg_entries r) sid' = Some e'" using that by simp
    note ok = table_entry [OF inv old, unfolded entry_ok_def]
    have "{x. live ?r x \<and> sr_session (rg_owners ?r x) = sid' \<and> sr_entry (rg_owners ?r x) = e'} =
        (if e' = e then {w} else {}) \<union> {x. live r x \<and> sr_session (rg_owners r x) = sid' \<and> sr_entry (rg_owners r x) = e'}"
      using notw new table_inj [OF inv e, of sid'] old e by (auto simp: live)
    with ok notw table_inj [OF inv e, of sid'] old show ?thesis
      by (auto simp: entry_ok_def)
  qed
qed

lemma table_unregister:
  assumes inv: "table_inv r hs" and w: "live r w"
    and f: "\<And>x. sr_cleaned (f x)" "\<And>x. sr_session (f x) = sr_session x" "\<And>x. sr_entry (f x) = sr_entry x"
  shows "table_inv (update_owner w f (set_requests (sr_entry (rg_owners r w)) (removeAll w) r))
    ((sr_session (rg_owners r w), sr_entry (rg_owners r w)) # hs)" (is "table_inv ?r (?h # hs)")
proof (rule table_invI)
  let ?sid = "sr_session (rg_owners r w)" and ?e = "sr_entry (rg_owners r w)"
  have live: "live ?r x \<longleftrightarrow> x \<noteq> w \<and> live r x" for x using f by (auto simp: live_def)
  note e = table_live [OF inv w]
  show "map_of (rg_entries ?r) sid = Some e" if "(sid, e) \<in> set (?h # hs)" for sid e
    using table_hold [OF inv, of sid e] that \<open>map_of (rg_entries r) ?sid = Some ?e\<close> by auto
  show "sid1 = sid2" if "map_of (rg_entries ?r) sid1 = Some e'" "map_of (rg_entries ?r) sid2 = Some e'" for sid1 sid2 e'
    using table_inj [OF inv, of sid1 e' sid2] that by simp
  show "map_of (rg_entries ?r) (sr_session (rg_owners ?r x)) = Some (sr_entry (rg_owners ?r x))" if "live ?r x" for x
    using that table_live [OF inv, of x] f by (simp add: live)
  show "entry_ok ?r (?h # hs) sid e'" if old': "map_of (rg_entries ?r) sid = Some e'" for sid e'
  proof -
    have old: "map_of (rg_entries r) sid = Some e'" using old' by simp
    note ok = table_entry [OF inv old, unfolded entry_ok_def]
    show ?thesis
    proof (cases "e' = ?e")
      case True
      then have sid: "sid = ?sid" using table_inj [OF inv old, of ?sid] e by simp
      have "w \<in> set (se_requests (rg_heap r ?e))" using ok w by (simp add: True sid)
      then have "length (se_requests (rg_heap r ?e)) = Suc (length (removeAll w (se_requests (rg_heap r ?e))))"
        using ok length_pos_if_in_set [of w "se_requests (rg_heap r ?e)"]
        by (simp add: True distinct_remove1_removeAll [symmetric] length_remove1 del: length_greater_0_conv)
      with ok True sid f show ?thesis by (auto simp: entry_ok_def live distinct_removeAll)
    next
      case False
      with ok f show ?thesis by (auto simp: entry_ok_def live)
    qed
  qed
qed

subsection \<open>Flags and index\<close>

lemma flags_frame:
  assumes "rg_owners r' = rg_owners r" "rg_next_owner r' = rg_next_owner r"
    "rg_closed_sockets r' = rg_closed_sockets r"
  shows "flags_inv r' db ds = flags_inv r db ds"
  by (simp add: flags_inv_def settled_def assms)

lemma index_frame:
  assumes "rg_owners r' = rg_owners r" "rg_next_owner r' = rg_next_owner r" "rg_principals r' = rg_principals r"
  shows "index_inv r' = index_inv r"
  using live_frame [of r' r] by (simp add: index_inv_def principal_index_def assms)

lemma gate_frame [simp]:
  "flags_inv (snd (retain r sid)) db ds = flags_inv r db ds" "index_inv (snd (retain r sid)) = index_inv r"
  "flags_inv (release r sid e) db ds = flags_inv r db ds" "index_inv (release r sid e) = index_inv r"
  by (rule flags_frame index_frame; simp)+

text \<open>What the flags say of one owner, for changes of owners that keep their session and cleanup.\<close>

lemma flags_inv_open: "flags_inv r db ds \<Longrightarrow> w < rg_next_owner r \<Longrightarrow> \<not> sr_closed (rg_owners r w) \<Longrightarrow>
    sr_session (rg_owners r w) \<in> set db \<and> \<not> sr_cleaned (rg_owners r w)"
  by (simp add: flags_inv_def)

lemma flags_inv_closed: "flags_inv r db ds \<Longrightarrow> w < rg_next_owner r \<Longrightarrow> sr_closed (rg_owners r w) \<Longrightarrow>
    settled r w \<or> (\<exists>d \<in> set ds. w \<in> set (dl_owners d))"
  by (simp add: flags_inv_def)

lemma flags_inv_deletion: "flags_inv r db ds \<Longrightarrow> d \<in> set ds \<Longrightarrow> w \<in> set (dl_owners d) \<Longrightarrow>
    w < rg_next_owner r \<and> sr_closed (rg_owners r w) \<and> set (conn_list (rg_owners r w)) \<subseteq> set (dl_conns d)"
  by (simp add: flags_inv_def)

lemma flags_invI:
  assumes "\<And>w. w < rg_next_owner r \<Longrightarrow> \<not> sr_closed (rg_owners r w) \<Longrightarrow>
      sr_session (rg_owners r w) \<in> set db \<and> \<not> sr_cleaned (rg_owners r w)"
    and "\<And>w. w < rg_next_owner r \<Longrightarrow> sr_closed (rg_owners r w) \<Longrightarrow>
      settled r w \<or> (\<exists>d \<in> set ds. w \<in> set (dl_owners d))"
    and "\<And>d w. d \<in> set ds \<Longrightarrow> w \<in> set (dl_owners d) \<Longrightarrow>
      w < rg_next_owner r \<and> sr_closed (rg_owners r w) \<and> set (conn_list (rg_owners r w)) \<subseteq> set (dl_conns d)"
  shows "flags_inv r db ds"
  using assms unfolding flags_inv_def by blast

lemma index_invD: "index_inv r \<Longrightarrow>
    set (principal_index r k) = {w. live r w \<and> k \<in> set (sr_principals (rg_owners r w))}"
  by (simp add: index_inv_def)

lemma flags_register:
  assumes inv: "flags_inv r db ds" and w: "w = rg_next_owner r"
    and r': "rg_owners r' = (rg_owners r)(w := o')" "rg_next_owner r' = Suc w"
      "rg_closed_sockets r' = rg_closed_sockets r"
    and o': "\<not> sr_closed o'" "\<not> sr_cleaned o'" "sr_session o' \<in> set db"
  shows "flags_inv r' db ds"
proof (rule flags_invI)
  show "sr_session (rg_owners r' x) \<in> set db \<and> \<not> sr_cleaned (rg_owners r' x)"
    if "x < rg_next_owner r'" "\<not> sr_closed (rg_owners r' x)" for x
    using that flags_inv_open [OF inv, of x] by (cases "x = w") (simp_all add: r' o' w)
  show "settled r' x \<or> (\<exists>d \<in> set ds. x \<in> set (dl_owners d))"
    if "x < rg_next_owner r'" "sr_closed (rg_owners r' x)" for x
    using that flags_inv_closed [OF inv, of x] by (cases "x = w") (simp_all add: r' o' w settled_def)
  show "x < rg_next_owner r' \<and> sr_closed (rg_owners r' x) \<and> set (conn_list (rg_owners r' x)) \<subseteq> set (dl_conns d)"
    if "d \<in> set ds" "x \<in> set (dl_owners d)" for d x
    using flags_inv_deletion [OF inv that] by (simp add: r' w)
qed

lemma same_index: "rg_principals r' = rg_principals r \<Longrightarrow> principal_index r' k = principal_index r k"
  by (simp add: principal_index_def)

lemma index_register:
  assumes inv: "index_inv r" and w: "w = rg_next_owner r"
    and r3: "rg_owners r3 = (rg_owners r)(w := o')" "rg_next_owner r3 = Suc w"
      "rg_principals r3 = rg_principals r" and o': "\<not> sr_cleaned o'"
  shows "index_inv (indexPrincipals w r3)"
proof -
  obtain r' where r': "r' = indexPrincipals w r3" by blast
  have fold: "r' = fold (index_principal w) (sr_principals o') r3" by (simp add: r' indexPrincipals_def r3)
  note ix = fold_index [of r3 w "sr_principals o'", folded fold]
  note same = same_but_indexD [OF ix [THEN conjunct1]]
  have live: "live r' x \<longleftrightarrow> x = w \<or> live r x" for x by (auto simp: live_def same r3 o' w less_Suc_eq)
  have notw: "\<not> live r w" by (simp add: live_def w)
  have "set (principal_index r' k) = {x. live r' x \<and> k \<in> set (sr_principals (rg_owners r' x))}" for k
  proof -
    have "set (principal_index r' k) =
        (if k \<in> set (sr_principals o') then insert w (set (principal_index r k)) else set (principal_index r k))"
      using ix same_index [OF r3(3), of k] by simp
    with index_invD [OF inv, of k] notw show ?thesis by (auto simp: live same r3)
  qed
  moreover have "\<forall>k. map_of (rg_principals r') k \<noteq> Some []" using ix inv by (simp add: index_inv_def r3)
  ultimately show ?thesis by (simp add: index_inv_def flip: r')
qed

lemma index_unregister:
  assumes inv: "index_inv r" and r3: "rg_owners r3 = (rg_owners r)(w := o')" "rg_next_owner r3 = rg_next_owner r"
      "rg_principals r3 = rg_principals r" and o': "sr_cleaned o'" "sr_principals o' = sr_principals (rg_owners r w)"
  shows "index_inv (unindexPrincipals w r3)"
proof -
  obtain r' where r': "r' = unindexPrincipals w r3" by blast
  have fold: "r' = fold (unindex_principal w) (sr_principals o') r3" by (simp add: r' unindexPrincipals_def r3)
  note ix = fold_unindex [of r3 w "sr_principals o'", folded fold]
  note same = same_but_indexD [OF ix [THEN conjunct1]]
  have live: "live r' x \<longleftrightarrow> x \<noteq> w \<and> live r x" for x by (auto simp: live_def same r3 o')
  have "set (principal_index r' k) = {x. live r' x \<and> k \<in> set (sr_principals (rg_owners r' x))}" for k
  proof -
    have "set (principal_index r' k) =
        (if k \<in> set (sr_principals o') then set (principal_index r k) - {w} else set (principal_index r k))"
      using ix same_index [OF r3(3), of k] by simp
    with index_invD [OF inv, of k] o'(2) show ?thesis by (auto simp: live same r3)
  qed
  moreover have "\<forall>k. map_of (rg_principals r') k \<noteq> Some []" using ix inv by (simp add: index_inv_def r3)
  ultimately show ?thesis by (simp add: index_inv_def flip: r')
qed

text \<open>Closing owners: what closes now is settled at once.\<close>

lemma flags_close:
  assumes inv: "flags_inv r db ds" and "rg_next_owner r' = rg_next_owner r"
    and same: "\<And>x. sr_session (rg_owners r' x) = sr_session (rg_owners r x)"
      "\<And>x. conn_list (rg_owners r' x) = conn_list (rg_owners r x)"
    and mono: "\<And>x. sr_closed (rg_owners r x) \<Longrightarrow> sr_closed (rg_owners r' x)"
      "\<And>x. sr_cancelled (rg_owners r x) \<Longrightarrow> sr_cancelled (rg_owners r' x)"
      "set (rg_closed_sockets r) \<subseteq> set (rg_closed_sockets r')"
    and new: "\<And>x. sr_closed (rg_owners r' x) \<Longrightarrow> \<not> sr_closed (rg_owners r x) \<Longrightarrow> settled r' x"
      "\<And>x. \<not> sr_closed (rg_owners r' x) \<Longrightarrow> sr_cleaned (rg_owners r' x) = sr_cleaned (rg_owners r x)"
  shows "flags_inv r' db ds"
proof (rule flags_invI)
  have settled: "settled r' x" if "settled r x" for x using that mono by (auto simp: settled_def same)
  show "sr_session (rg_owners r' x) \<in> set db \<and> \<not> sr_cleaned (rg_owners r' x)"
    if "x < rg_next_owner r'" "\<not> sr_closed (rg_owners r' x)" for x
    using that flags_inv_open [OF inv, of x] mono(1) [of x] new(2) [of x] by (simp add: assms(2) same) blast
  show "settled r' x \<or> (\<exists>d \<in> set ds. x \<in> set (dl_owners d))"
    if "x < rg_next_owner r'" "sr_closed (rg_owners r' x)" for x
    using that flags_inv_closed [OF inv, of x] settled [of x] new(1) [of x] by (simp add: assms(2)) blast
  show "x < rg_next_owner r' \<and> sr_closed (rg_owners r' x) \<and> set (conn_list (rg_owners r' x)) \<subseteq> set (dl_conns d)"
    if "d \<in> set ds" "x \<in> set (dl_owners d)" for d x
    using flags_inv_deletion [OF inv that] mono(1) [of x] by (simp add: assms(2) same)
qed

text \<open>Changes of an owner's flags and socket.\<close>

lemma index_flags:
  assumes "rg_next_owner r' = rg_next_owner r" "rg_principals r' = rg_principals r"
    "\<And>w. sr_cleaned (rg_owners r' w) = sr_cleaned (rg_owners r w)"
    "\<And>w. sr_principals (rg_owners r' w) = sr_principals (rg_owners r w)"
  shows "index_inv r' = index_inv r"
  using live_frame [OF assms(1,3)] by (simp add: index_inv_def principal_index_def assms)

subsection \<open>The operations\<close>

text \<open>A bracket of \<open>retain\<close> and \<open>release\<close> changes nothing that matters.\<close>

lemma stream_inv_bracket:
  assumes "stream_inv S"
  shows "stream_inv (S\<lparr>ss_reg := release (snd (retain (ss_reg S) sid)) sid (fst (retain (ss_reg S) sid))\<rparr>)"
  using assms table_release [OF table_retain] by (simp add: stream_inv_def)

lemma Open_cases:
  obtains (refused) e where "Open r ctx ctx_err parent sid exists =
      (Inl e, release (snd (retain r sid)) sid (fst (retain r sid)))"
  | (opened) "exists = Inr True"
    "Open r ctx ctx_err parent sid exists = (Inr (rg_next_owner r), indexPrincipals (rg_next_owner r)
       (set_requests (fst (retain r sid)) (\<lambda>os. rg_next_owner r # os)
         ((snd (retain r sid))\<lparr>rg_owners := (rg_owners r)(rg_next_owner r :=
             \<lparr>sr_session = sid, sr_entry = fst (retain r sid), sr_parent = parent,
              sr_principals = StreamPrincipalKeys ctx, sr_closed = False, sr_cancelled = False,
              sr_conn = None, sr_cleaned = False\<rparr>), rg_next_owner := Suc (rg_next_owner r)\<rparr>)))"
proof (cases exists)
  case (Inl e)
  with refused show ?thesis by (simp add: Open_def split_beta)
next
  case (Inr present)
  show ?thesis
  proof (cases "present \<and> ctx_err = None")
    case True
    with Inr show ?thesis by (intro opened) (simp_all add: Open_def split_beta Let_def)
  next
    case False
    show ?thesis
    proof (rule refused)
      show "Open r ctx ctx_err parent sid exists =
          (Inl (if \<not> present then ErrSessionNotFound else StreamError (the ctx_err)),
           release (snd (retain r sid)) sid (fst (retain r sid)))"
        using Inr False by (cases ctx_err) (auto simp: Open_def split_beta)
    qed
  qed
qed

lemma stream_inv_open:
  assumes inv: "stream_inv S" and ex: "exists = Inr (sid \<in> set (ss_db S)) \<or> exists = Inl e"
  shows "stream_inv (S\<lparr>ss_reg := snd (Open (ss_reg S) ctx ctx_err parent sid exists)\<rparr>)"
proof (cases rule: Open_cases [where r = "ss_reg S" and ctx = ctx and ctx_err = ctx_err and parent = parent
      and sid = sid and exists = exists, case_names refused opened])
  case (refused e)
  with stream_inv_bracket [OF inv] show ?thesis by simp
next
  case opened
  let ?r = "ss_reg S" and ?hs = "map deletion_hold (ss_deleting S)"
  let ?w = "rg_next_owner ?r" and ?e = "fst (retain ?r sid)"
  define o' where "o' = \<lparr>sr_session = sid, sr_entry = ?e, sr_parent = parent,
      sr_principals = StreamPrincipalKeys ctx, sr_closed = False, sr_cancelled = False, sr_conn = None, sr_cleaned = False\<rparr>"
  define r3 where "r3 = set_requests ?e (\<lambda>os. ?w # os)
      ((snd (retain ?r sid))\<lparr>rg_owners := (rg_owners ?r)(?w := o'), rg_next_owner := Suc ?w\<rparr>)"
  have r3: "rg_owners r3 = (rg_owners ?r)(?w := o')" "rg_next_owner r3 = Suc ?w"
    "rg_principals r3 = rg_principals ?r" "rg_closed_sockets r3 = rg_closed_sockets ?r"
    by (simp_all add: r3_def)
  let ?r' = "indexPrincipals ?w r3"
  note ix = fold_index [of r3 ?w "sr_principals o'"]
  have r': "same_but_index r3 ?r'" using ix by (simp add: indexPrincipals_def r3)
  note same = same_but_indexD [OF r']
  have old: "table_inv ?r ?hs" "flags_inv ?r (ss_db S) (ss_deleting S)" "index_inv ?r"
    using inv by (simp_all add: stream_inv_def)
  have "table_inv r3 ?hs"
    using table_register [OF table_retain [OF old(1), of sid], of ?w o'] by (simp add: r3_def o'_def)
  then have t: "table_inv ?r' ?hs" using table_frame [of ?r' r3] same by simp
  have f: "flags_inv ?r' (ss_db S) (ss_deleting S)"
    by (rule flags_register [OF old(2), of ?w _ o']) (use ex opened(1) in \<open>auto simp: same r3 o'_def\<close>)
  have "index_inv ?r'" by (rule index_register [OF old(3), of ?w _ o']) (simp_all add: r3 o'_def)
  with t f show ?thesis by (simp add: stream_inv_def opened(2) r3_def o'_def)
qed

lemma stream_inv_cleanup:
  assumes inv: "stream_inv S" and w: "w < rg_next_owner (ss_reg S)"
  shows "stream_inv (S\<lparr>ss_reg := cleanup_stream w (ss_reg S)\<rparr>)"
proof (cases "sr_cleaned (rg_owners (ss_reg S) w)")
  case True
  with inv show ?thesis by (simp add: cleanup_stream_def)
next
  case False
  let ?r = "ss_reg S" and ?hs = "map deletion_hold (ss_deleting S)"
  let ?e = "sr_entry (rg_owners ?r w)" and ?sid = "sr_session (rg_owners ?r w)"
  let ?f = "\<lambda>x. x\<lparr>sr_closed := True, sr_cleaned := True\<rparr>"
  define r2 where "r2 = update_owner w ?f (set_requests ?e (removeAll w) ?r)"
  define r5 where "r5 = close_sockets (conn_list (rg_owners ?r w))
      (update_owner w (\<lambda>x. x\<lparr>sr_cancelled := True\<rparr>) (unindexPrincipals w r2))"
  have r2: "rg_owners r2 = (rg_owners ?r)(w := ?f (rg_owners ?r w))" "rg_next_owner r2 = rg_next_owner ?r"
    "rg_closed_sockets r2 = rg_closed_sockets ?r" "rg_principals r2 = rg_principals ?r"
    by (auto simp: r2_def)
  have "same_but_index r2 (unindexPrincipals w r2)" using fold_unindex [of r2 w] by (simp add: unindexPrincipals_def)
  note same = same_but_indexD [OF this]
  have eq: "cleanup_stream w ?r = release r5 ?sid ?e"
    using False by (simp add: cleanup_stream_def Let_def r5_def same flip: r2_def) (simp add: r2 same)
  have old: "table_inv ?r ?hs" "flags_inv ?r (ss_db S) (ss_deleting S)" "index_inv ?r"
    using inv by (simp_all add: stream_inv_def)
  have "table_inv r2 ((?sid, ?e) # ?hs)"
    unfolding r2_def by (rule table_unregister [OF old(1)]) (use False w in \<open>simp_all add: live_def\<close>)
  then have "table_inv r5 ((?sid, ?e) # ?hs)" using table_frame [of r5 r2] by (simp add: r5_def same)
  then have t: "table_inv (release r5 ?sid ?e) ?hs" by (rule table_release)
  have f: "flags_inv r5 (ss_db S) (ss_deleting S)"
    by (rule flags_close [OF old(2)]) (auto simp: r5_def same r2 settled_def split: if_split_asm)
  have "index_inv (unindexPrincipals w r2)"
    by (rule index_unregister [OF old(3), of _ w "?f (rg_owners ?r w)"]) (simp_all add: r2)
  then have "index_inv r5" using index_flags [of r5 "unindexPrincipals w r2"] by (simp add: r5_def)
  with t f show ?thesis by (simp add: stream_inv_def eq)
qed

lemma stream_inv_hijack:
  assumes inv: "stream_inv S" and w: "w < rg_next_owner (ss_reg S)"
  shows "stream_inv (S\<lparr>ss_reg := snd (Hijack (ss_reg S) w h)\<rparr>)"
proof (cases h)
  case (Inl e)
  with inv show ?thesis by (simp add: Hijack_def)
next
  case (Inr c)
  let ?r = "ss_reg S" and ?r' = "snd (Hijack (ss_reg S) w h)"
  have old: "table_inv ?r (map deletion_hold (ss_deleting S))" "flags_inv ?r (ss_db S) (ss_deleting S)" "index_inv ?r"
    using inv by (simp_all add: stream_inv_def)
  have f: "flags_inv ?r' (ss_db S) (ss_deleting S)"
    using flags_inv_open [OF old(2)] flags_inv_closed [OF old(2)] flags_inv_deletion [OF old(2)]
    by (intro flags_invI) (auto simp: Hijack_def Inr settled_def split: if_split_asm)
  have "table_inv ?r' (map deletion_hold (ss_deleting S)) = table_inv ?r (map deletion_hold (ss_deleting S))"
    by (rule table_frame) (simp_all add: Hijack_def Inr)
  moreover have "index_inv ?r' = index_inv ?r" by (rule index_flags) (simp_all add: Hijack_def Inr)
  ultimately show ?thesis using old f by (simp add: stream_inv_def)
qed

lemma stream_inv_revoke:
  assumes inv: "stream_inv S"
  shows "stream_inv (S\<lparr>ss_reg := snd (RevokePrincipals (ss_reg S) keys)\<rparr>)"
proof -
  let ?r = "ss_reg S" and ?r' = "snd (RevokePrincipals (ss_reg S) keys)"
  let ?os = "concat (map (principal_index ?r) keys)"
  obtain n cs where fold: "fold revoke_owner ?os (0, ?r) =
     (n, ?r\<lparr>rg_owners := (\<lambda>w. if w \<in> set ?os then (rg_owners ?r w)\<lparr>sr_closed := True, sr_cancelled := True\<rparr>
                            else rg_owners ?r w), rg_closed_sockets := cs\<rparr>)"
    and cs: "set cs = set (rg_closed_sockets ?r) \<union> (\<Union>w \<in> set ?os. set (conn_list (rg_owners ?r w)))"
    using fold_revoke by blast
  have old: "table_inv ?r (map deletion_hold (ss_deleting S))" "flags_inv ?r (ss_db S) (ss_deleting S)" "index_inv ?r"
    using inv by (simp_all add: stream_inv_def)
  have f: "flags_inv ?r' (ss_db S) (ss_deleting S)"
    unfolding RevokePrincipals_def fold snd_conv
    by (rule flags_close [OF old(2)]) (simp_all add: cs settled_def split: if_split_asm, blast+)
  have "table_inv ?r' (map deletion_hold (ss_deleting S)) = table_inv ?r (map deletion_hold (ss_deleting S))"
    unfolding RevokePrincipals_def fold snd_conv by (rule table_frame) simp_all
  moreover have "index_inv ?r' = index_inv ?r"
    unfolding RevokePrincipals_def fold snd_conv by (rule index_flags) simp_all
  ultimately show ?thesis using old f by (simp add: stream_inv_def)
qed

lemma stream_inv_delete_started:
  assumes inv: "stream_inv S" and gate: "delete_gate (ss_reg S) sid None = (Inr d, r')"
  shows "stream_inv (S\<lparr>ss_reg := r', ss_db := removeAll sid (ss_db S), ss_deleting := d # ss_deleting S\<rparr>)"
proof -
  let ?r = "ss_reg S" and ?ds = "ss_deleting S"
  let ?r1 = "snd (retain ?r sid)" and ?e = "fst (retain ?r sid)"
  let ?os = "se_requests (rg_heap ?r1 ?e)"
  have d: "d = \<lparr>dl_session = sid, dl_entry = ?e, dl_owners = ?os,
      dl_conns = concat (map (\<lambda>w. conn_list (rg_owners ?r w)) ?os)\<rparr>"
    and r': "r' = ?r1\<lparr>rg_owners := (\<lambda>w. if w \<in> set ?os then (rg_owners ?r w)\<lparr>sr_closed := True\<rparr> else rg_owners ?r w)\<rparr>"
    using gate by (auto simp: delete_gate_def split_beta Let_def fold_update_owner cong: if_cong)
  have old: "table_inv ?r (map deletion_hold ?ds)" "flags_inv ?r (ss_db S) ?ds" "index_inv ?r"
    using inv by (simp_all add: stream_inv_def)
  note t1 = table_retain [OF old(1), of sid]
  have reg: "map_of (rg_entries ?r1) sid = Some ?e" by (rule table_hold [OF t1]) simp
  have os: "w \<in> set ?os \<longleftrightarrow> live ?r w \<and> sr_session (rg_owners ?r w) = sid" for w
  proof -
    have "set ?os = {w. live ?r w \<and> sr_session (rg_owners ?r w) = sid \<and> sr_entry (rg_owners ?r w) = ?e}"
      using table_entry [OF t1 reg] by (simp add: entry_ok_def)
    moreover have "sr_entry (rg_owners ?r w) = ?e" if "live ?r w" "sr_session (rg_owners ?r w) = sid"
      using table_live [OF t1, of w] that reg by simp
    ultimately show ?thesis by blast
  qed
  have t: "table_inv r' (map deletion_hold (d # ?ds))"
    using t1 table_frame [of r' ?r1] by (simp add: r' d deletion_hold_def)
  have "flags_inv r' (removeAll sid (ss_db S)) (d # ?ds)"
  proof (rule flags_invI)
    show "sr_session (rg_owners r' x) \<in> set (removeAll sid (ss_db S)) \<and> \<not> sr_cleaned (rg_owners r' x)"
      if "x < rg_next_owner r'" "\<not> sr_closed (rg_owners r' x)" for x
      using that flags_inv_open [OF old(2), of x] os [of x] by (auto simp: r' live_def split: if_split_asm)
    show "settled r' x \<or> (\<exists>d' \<in> set (d # ?ds). x \<in> set (dl_owners d'))"
      if "x < rg_next_owner r'" "sr_closed (rg_owners r' x)" for x
      using that flags_inv_closed [OF old(2), of x] by (auto simp: r' d settled_def split: if_split_asm)
    show "x < rg_next_owner r' \<and> sr_closed (rg_owners r' x) \<and> set (conn_list (rg_owners r' x)) \<subseteq> set (dl_conns d')"
      if d': "d' \<in> set (d # ?ds)" "x \<in> set (dl_owners d')" for d' x
    proof (cases "d' = d")
      case True
      with d'(2) os [of x] show ?thesis by (auto simp: r' d live_def)
    next
      case False
      with d' flags_inv_deletion [OF old(2), of d' x] show ?thesis by (simp add: r')
    qed
  qed
  moreover have "index_inv r' = index_inv ?r" by (rule index_flags) (simp_all add: r')
  ultimately show ?thesis using t old(3) by (simp add: stream_inv_def)
qed

lemma mset_map_remove1: "x \<in> set xs \<Longrightarrow> mset (map f xs) = add_mset (f x) (mset (map f (remove1 x xs)))"
  by (induction xs) auto

lemma table_mset: "mset hs = mset hs' \<Longrightarrow> table_inv r hs = table_inv r hs'"
proof -
  assume eq: "mset hs = mset hs'"
  then have "set hs = set hs'" by (metis set_mset_mset)
  moreover have "count_list hs = count_list hs'" using eq by (metis count_mset ext)
  ultimately show ?thesis by (simp add: table_inv_def entry_ok_def)
qed

lemma stream_inv_delete_done:
  assumes inv: "stream_inv S" and d: "d \<in> set (ss_deleting S)"
  shows "stream_inv (S\<lparr>ss_reg := delete_finish (ss_reg S) d, ss_deleting := remove1 d (ss_deleting S)\<rparr>)"
proof -
  let ?r = "ss_reg S" and ?ds = "ss_deleting S"
  define r1 where "r1 = ?r\<lparr>rg_owners := (\<lambda>w. if w \<in> set (dl_owners d) then (rg_owners ?r w)\<lparr>sr_cancelled := True\<rparr>
      else rg_owners ?r w), rg_closed_sockets := dl_conns d @ rg_closed_sockets ?r\<rparr>"
  have eq: "delete_finish ?r d = release r1 (dl_session d) (dl_entry d)"
    by (simp add: delete_finish_def Let_def fold_update_owner close_sockets_def r1_def)
  have old: "table_inv ?r (map deletion_hold ?ds)" "flags_inv ?r (ss_db S) ?ds" "index_inv ?r"
    using inv by (simp_all add: stream_inv_def)
  have "mset (map deletion_hold ?ds) = mset (deletion_hold d # map deletion_hold (remove1 d ?ds))"
    using mset_map_remove1 [OF d] by simp
  from table_mset [OF this, of ?r] old(1) have "table_inv ?r (deletion_hold d # map deletion_hold (remove1 d ?ds))"
    by blast
  moreover have "table_inv r1 hs = table_inv ?r hs" for hs by (rule table_frame) (simp_all add: r1_def)
  ultimately have "table_inv r1 (deletion_hold d # map deletion_hold (remove1 d ?ds))" by blast
  then have t: "table_inv (delete_finish ?r d) (map deletion_hold (remove1 d ?ds))"
    unfolding eq deletion_hold_def by (rule table_release)
  have "flags_inv r1 (ss_db S) (remove1 d ?ds)"
  proof (rule flags_invI)
    show "sr_session (rg_owners r1 x) \<in> set (ss_db S) \<and> \<not> sr_cleaned (rg_owners r1 x)"
      if "x < rg_next_owner r1" "\<not> sr_closed (rg_owners r1 x)" for x
      using that flags_inv_open [OF old(2), of x] by (simp add: r1_def split: if_split_asm)
    show "settled r1 x \<or> (\<exists>d' \<in> set (remove1 d ?ds). x \<in> set (dl_owners d'))"
      if x: "x < rg_next_owner r1" "sr_closed (rg_owners r1 x)" for x
    proof (cases "x \<in> set (dl_owners d)")
      case True
      with flags_inv_deletion [OF old(2) d] show ?thesis by (auto simp: settled_def r1_def)
    next
      case False
      then have "settled ?r x \<or> (\<exists>d' \<in> set ?ds. d' \<noteq> d \<and> x \<in> set (dl_owners d'))"
        using x flags_inv_closed [OF old(2), of x] by (auto simp: r1_def)
      then show ?thesis using False by (auto simp: settled_def r1_def)
    qed
    show "x < rg_next_owner r1 \<and> sr_closed (rg_owners r1 x) \<and> set (conn_list (rg_owners r1 x)) \<subseteq> set (dl_conns d')"
      if "d' \<in> set (remove1 d ?ds)" "x \<in> set (dl_owners d')" for d' x
    proof -
      have "d' \<in> set ?ds" using that(1) set_remove1_subset by fast
      from flags_inv_deletion [OF old(2) this that(2)] show ?thesis by (simp add: r1_def)
    qed
  qed
  moreover have "index_inv r1 = index_inv ?r" by (rule index_flags) (simp_all add: r1_def)
  ultimately show ?thesis using t old(3) by (simp add: stream_inv_def eq)
qed

lemma stream_inv_step: "stream_step S S' \<Longrightarrow> stream_inv S \<Longrightarrow> stream_inv S'"
proof (induction rule: stream_step.induct)
  case (create_session S sid)
  then show ?case by (auto simp: stream_inv_def flags_inv_def)
next
  case (delete_failed S sid e)
  then show ?case using stream_inv_bracket [of S sid] by (simp add: delete_gate_def split_beta)
next
  case (run_existing S sid exists)
  then show ?case using stream_inv_bracket [of S sid] by (simp add: RunIfExists_def split_beta)
qed (simp_all add: stream_inv_open stream_inv_delete_started stream_inv_delete_done stream_inv_cleanup
    stream_inv_hijack stream_inv_revoke)

lemma stream_inv_start: "stream_inv stream_start"
  by (simp add: stream_inv_def stream_start_def empty_registry_def table_inv_def flags_inv_def index_inv_def
      live_def principal_index_def)

lemma stream_run_inv: "stream_step\<^sup>*\<^sup>* stream_start S \<Longrightarrow> stream_inv S"
  by (erule rtranclp_invariant) (auto intro: stream_inv_start stream_inv_step)

text \<open>Parents are older than their children, so the chain ends within the fuel.\<close>

definition parents_older :: "stream_registry \<Rightarrow> bool" where
  "parents_older r = (\<forall>w < rg_next_owner r. case sr_parent (rg_owners r w) of None \<Rightarrow> True | Some p \<Rightarrow> p < w)"

lemma run_owner_terminates:
  assumes "parents_older r" "\<And>w. owner = Some w \<Longrightarrow> w < fuel \<and> w < rg_next_owner r"
  shows "\<exists>b. runSessionStreamOwner fuel r ctx_done owner = Some b"
  using assms(2)
proof (induction fuel arbitrary: owner)
  case 0
  then show ?case by (cases owner) auto
next
  case (Suc fuel)
  show ?case
  proof (cases owner)
    case (Some w)
    have "p < fuel \<and> p < rg_next_owner r" if "sr_parent (rg_owners r w) = Some p" for p
      using that assms(1) Suc.prems [OF Some] by (force simp: parents_older_def)
    with Suc.IH [of "sr_parent (rg_owners r w)"] Some show ?thesis by auto
  qed auto
qed

lemma run_owner_closed:
  "runSessionStreamOwner fuel r ctx_done (Some w) = Some b \<Longrightarrow> sr_closed (rg_owners r w) \<Longrightarrow> \<not> b"
  by (cases fuel) (auto split: option.split_asm)

lemma parents_frame:
  assumes "rg_next_owner r' = rg_next_owner r" "\<And>w. sr_parent (rg_owners r' w) = sr_parent (rg_owners r w)"
  shows "parents_older r' = parents_older r"
  by (simp add: parents_older_def assms)

lemma parents_open:
  assumes "parents_older r" "case parent of None \<Rightarrow> True | Some p \<Rightarrow> p < rg_next_owner r"
  shows "parents_older (snd (Open r ctx ctx_err parent sid exists))"
proof (cases rule: Open_cases [where r = r and ctx = ctx and ctx_err = ctx_err and parent = parent
      and sid = sid and exists = exists, case_names refused opened])
  case (refused e)
  with assms(1) show ?thesis by (simp add: parents_older_def)
next
  case opened
  have "same_but_index r (indexPrincipals w r)" for w r using fold_index by (simp add: indexPrincipals_def)
  note same = same_but_indexD [OF this]
  from assms show ?thesis by (simp add: opened(2) parents_older_def same less_Suc_eq split: option.split)
qed

lemma parents_cleanup: "parents_older (cleanup_stream w r) = parents_older r"
proof -
  have "same_but_index r (unindexPrincipals w r)" for r using fold_unindex by (simp add: unindexPrincipals_def)
  note same = same_but_indexD [OF this]
  show ?thesis by (rule parents_frame) (simp_all add: cleanup_stream_def Let_def same)
qed

lemma parents_revoke: "parents_older (snd (RevokePrincipals r keys)) = parents_older r"
proof -
  obtain n cs where "fold revoke_owner (concat (map (principal_index r) keys)) (0, r) =
     (n, r\<lparr>rg_owners := (\<lambda>w. if w \<in> set (concat (map (principal_index r) keys))
        then (rg_owners r w)\<lparr>sr_closed := True, sr_cancelled := True\<rparr> else rg_owners r w), rg_closed_sockets := cs\<rparr>)"
    using fold_revoke by blast
  then show ?thesis by (intro parents_frame) (simp_all add: RevokePrincipals_def)
qed

lemma parents_step: "stream_step S S' \<Longrightarrow> parents_older (ss_reg S) \<Longrightarrow> parents_older (ss_reg S')"
proof (induction rule: stream_step.induct)
  case (delete_started S sid d r')
  then have "parents_older r' = parents_older (ss_reg S)"
    by (intro parents_frame) (auto simp: delete_gate_def split_beta Let_def fold_update_owner)
  with delete_started.prems show ?case by simp
next
  case (delete_done d S)
  have "parents_older (delete_finish (ss_reg S) d) = parents_older (ss_reg S)"
    by (rule parents_frame) (simp_all add: delete_finish_def Let_def fold_update_owner)
  with delete_done.prems show ?case by simp
next
  case (hijack_stream owner S h)
  have "parents_older (snd (Hijack (ss_reg S) owner h)) = parents_older (ss_reg S)"
    by (rule parents_frame) (simp_all add: Hijack_def split: sum.split)
  with hijack_stream.prems show ?case by simp
qed (simp_all add: parents_open parents_cleanup parents_revoke delete_gate_def RunIfExists_def split_beta
    parents_frame [of "release _ _ _"] parents_frame [of "snd (retain _ _)"])

lemma parents_run: "stream_step\<^sup>*\<^sup>* stream_start S \<Longrightarrow> parents_older (ss_reg S)"
  by (erule rtranclp_invariant [where P = "\<lambda>S. parents_older (ss_reg S)"])
    (simp_all add: parents_step, simp add: stream_start_def empty_registry_def parents_older_def)

lemma closed_stream_runs_nothing:
  assumes "parents_older r" "w < rg_next_owner r" "sr_closed (rg_owners r w)"
  shows "RunIfSessionStreamOpen r ctx_done w = Some False"
proof -
  obtain b where b: "RunIfSessionStreamOpen r ctx_done w = Some b"
    using run_owner_terminates [OF assms(1), of "Some w" "Suc w"] assms(2)
    by (auto simp: RunIfSessionStreamOpen_def simp del: runSessionStreamOwner.simps)
  with run_owner_closed [of "Suc w" r ctx_done w b] assms(3) show ?thesis
    by (simp add: RunIfSessionStreamOpen_def)
qed

lemma revoked_owner:
  assumes inv: "stream_inv S" and w: "w < rg_next_owner (ss_reg S)"
    and k: "k \<in> set keys" "k \<in> set (sr_principals (rg_owners (ss_reg S) w))"
  shows "sr_closed (rg_owners (snd (RevokePrincipals (ss_reg S) keys)) w) \<and>
    (\<not> sr_cleaned (rg_owners (ss_reg S) w) \<longrightarrow> settled (snd (RevokePrincipals (ss_reg S) keys)) w)"
proof -
  let ?r = "ss_reg S" let ?os = "concat (map (principal_index ?r) keys)"
  obtain n cs where fold: "RevokePrincipals ?r keys =
     (n, ?r\<lparr>rg_owners := (\<lambda>w. if w \<in> set ?os then (rg_owners ?r w)\<lparr>sr_closed := True, sr_cancelled := True\<rparr>
                            else rg_owners ?r w), rg_closed_sockets := cs\<rparr>)"
    and cs: "set cs = set (rg_closed_sockets ?r) \<union> (\<Union>w \<in> set ?os. set (conn_list (rg_owners ?r w)))"
    using fold_revoke [of ?os 0 ?r] unfolding RevokePrincipals_def by blast
  show ?thesis
  proof (cases "sr_cleaned (rg_owners ?r w)")
    case True
    then have "sr_closed (rg_owners ?r w)" using inv w flags_inv_open by (auto simp: stream_inv_def)
    with True show ?thesis by (simp add: fold)
  next
    case False
    then have "w \<in> set (principal_index ?r k)"
      using inv w k(2) index_invD [of ?r k] by (simp add: stream_inv_def live_def)
    then have "w \<in> set ?os" using k(1) by auto
    then show ?thesis by (auto simp: fold settled_def cs)
  qed
qed

section \<open>Properties\<close>


text \<open>A session is created, a stream opened and upgraded, and the session deleted.\<close>

definition example_opened :: stream_registry where
  "example_opened = snd (Hijack (snd (Open empty_registry (ContextWithUserID background ''u1'') None None ''s1'' (Inr True)))
     0 (Inr 7))"

definition example_gate :: "(stream_error, deletion) res \<times> stream_registry" where
  "example_gate = delete_gate example_opened ''s1'' None"

definition example_deleted :: stream_system where
  "example_deleted = \<lparr>ss_reg = delete_finish (snd example_gate) (projr (fst example_gate)), ss_db = [], ss_deleting = []\<rparr>"

lemma example_stream_run:
  "stream_step\<^sup>*\<^sup>* stream_start \<lparr>ss_reg = example_opened, ss_db = [''s1''], ss_deleting = []\<rparr>"
  "stream_step\<^sup>*\<^sup>* stream_start example_deleted"
proof -
  let ?r = "snd (Open empty_registry (ContextWithUserID background ''u1'') None None ''s1'' (Inr True))"
  let ?S = "\<lambda>r db ds. \<lparr>ss_reg = r, ss_db = db, ss_deleting = ds\<rparr> :: stream_system"
  let ?d = "projr (fst example_gate)"
  have "stream_step stream_start (?S empty_registry [''s1''] [])"
    using create_session [of stream_start "''s1''"] by (simp add: stream_start_def)
  moreover have "stream_step (?S empty_registry [''s1''] []) (?S ?r [''s1''] [])"
    using open_stream [of "Inr True" "''s1''" "?S empty_registry [''s1''] []" _ None] by simp
  moreover have "0 < rg_next_owner ?r" by code_simp
  then have "stream_step (?S ?r [''s1''] []) (?S example_opened [''s1''] [])"
    using hijack_stream [of 0 "?S ?r [''s1''] []" "Inr 7"] by (simp add: example_opened_def)
  ultimately show run: "stream_step\<^sup>*\<^sup>* stream_start (?S example_opened [''s1''] [])"
    by (meson converse_rtranclp_into_rtranclp rtranclp.rtrancl_refl)
  have "example_gate = (Inr ?d, snd example_gate)"
    by (simp add: example_gate_def delete_gate_def split_beta Let_def)
  then have "stream_step (?S example_opened [''s1''] []) (?S (snd example_gate) [] [?d])"
    using delete_started [of "?S example_opened [''s1''] []" "''s1''" ?d "snd example_gate"]
    by (simp add: example_gate_def)
  moreover have "stream_step (?S (snd example_gate) [] [?d]) example_deleted"
    using delete_done [of ?d "?S (snd example_gate) [] [?d]"] by (simp add: example_deleted_def)
  ultimately show "stream_step\<^sup>*\<^sup>* stream_start example_deleted"
    using run by (meson rtranclp.rtrancl_into_rtrancl)
qed


text \<open>
  The registry leaks nothing: in every reachable state a session has an entry exactly when one of
  its streams has not ended or a deletion of it is under way, and the principal index lists a stream
  under exactly the credentials it was opened with until it ends.
\<close>

lemma stream_registry_exact:
  assumes "stream_step\<^sup>*\<^sup>* stream_start S"
  shows "(map_of (rg_entries (ss_reg S)) sid \<noteq> None \<longleftrightarrow>
      (\<exists>w. live (ss_reg S) w \<and> sr_session (rg_owners (ss_reg S) w) = sid) \<or>
      (\<exists>d \<in> set (ss_deleting S). dl_session d = sid)) \<and>
    (case map_of (rg_principals (ss_reg S)) k of
       None \<Rightarrow> (\<forall>w. live (ss_reg S) w \<longrightarrow> k \<notin> set (sr_principals (rg_owners (ss_reg S) w)))
     | Some os \<Rightarrow> os \<noteq> [] \<and> set os = {w. live (ss_reg S) w \<and> k \<in> set (sr_principals (rg_owners (ss_reg S) w))})"
proof -
  let ?r = "ss_reg S" and ?hs = "map deletion_hold (ss_deleting S)"
  have t: "table_inv ?r ?hs" and ix: "index_inv ?r"
    using stream_run_inv [OF assms] by (simp_all add: stream_inv_def)
  have "(\<exists>w. live ?r w \<and> sr_session (rg_owners ?r w) = sid) \<or> (\<exists>d \<in> set (ss_deleting S). dl_session d = sid)"
    if "map_of (rg_entries ?r) sid = Some e" for e
  proof (cases "se_requests (rg_heap ?r e)")
    case Nil
    then have "0 < count_list ?hs (sid, e)" using table_entry [OF t that] by (simp add: entry_ok_def)
    then have "(sid, e) \<in> set ?hs" by (metis count_list_0_iff less_irrefl)
    then show ?thesis by (auto simp: deletion_hold_def)
  next
    case (Cons w ws)
    then have "w \<in> set (se_requests (rg_heap ?r e))" by simp
    with table_entry [OF t that] show ?thesis by (auto simp: entry_ok_def)
  qed
  moreover have "map_of (rg_entries ?r) (sr_session (rg_owners ?r w)) \<noteq> None" if "live ?r w" for w
    using table_live [OF t that] by simp
  moreover have "map_of (rg_entries ?r) (dl_session d) \<noteq> None" if "d \<in> set (ss_deleting S)" for d
    using table_hold [OF t, of "dl_session d" "dl_entry d"] that by (force simp: deletion_hold_def)
  moreover have "case map_of (rg_principals ?r) k of
       None \<Rightarrow> (\<forall>w. live ?r w \<longrightarrow> k \<notin> set (sr_principals (rg_owners ?r w)))
     | Some os \<Rightarrow> os \<noteq> [] \<and> set os = {w. live ?r w \<and> k \<in> set (sr_principals (rg_owners ?r w))}"
    using ix index_invD [OF ix, of k]
    by (cases "map_of (rg_principals ?r) k") (auto simp: principal_index_def index_inv_def)
  ultimately show ?thesis by blast
qed

end
