(* ===== verification/Event_Broadcast.thy ===== *)
theory Event_Broadcast
  imports LT_Prelude "HOL-Library.Sublist"
begin

text \<open>
  The live event feed to browsers (\<open>internal/hubapi/shared/browser_events.go\<close>).

  A \<open>*BrowserClient\<close> is an identifier; its buffered channel is the list of frames it holds, and the
  frames its write loop has put on the socket are recorded in \<open>bc_written\<close>. The set of clients is a
  list. A broadcast (snapshot and enqueue) is one step. The JSON encoder's result is an argument. The
  ghost fields \<open>eb_sent\<close> and \<open>bc_since\<close> count the broadcasts and where a client came in.
\<close>

section \<open>Model\<close>

type_synonym client_ref = nat

record browser_client =
  bc_outgoing :: "string list"
  bc_closed :: bool
  bc_principals :: "string list"
  bc_written :: "string list"
  bc_since :: nat

record event_broadcaster =
  eb_clients :: "client_ref list"
  eb_heap :: "client_ref \<Rightarrow> browser_client"
  eb_next :: client_ref
  eb_sent :: "string list"

definition outgoing_capacity :: nat where "outgoing_capacity = 32"

definition NewEventBroadcaster :: event_broadcaster where
  "NewEventBroadcaster =
     \<lparr>eb_clients = [],
      eb_heap = (\<lambda>_. \<lparr>bc_outgoing = [], bc_closed = False, bc_principals = [], bc_written = [], bc_since = 0\<rparr>),
      eb_next = 0, eb_sent = []\<rparr>"

definition RegisterWithPrincipals :: "event_broadcaster \<Rightarrow> string list \<Rightarrow> client_ref \<times> event_broadcaster" where
  "RegisterWithPrincipals eb principals =
     (eb_next eb, eb\<lparr>eb_heap := (eb_heap eb)(eb_next eb :=
          \<lparr>bc_outgoing = [], bc_closed = False, bc_principals = principals, bc_written = [],
           bc_since = length (eb_sent eb)\<rparr>),
        eb_next := Suc (eb_next eb), eb_clients := eb_next eb # eb_clients eb\<rparr>)"

definition update_client :: "client_ref \<Rightarrow> (browser_client \<Rightarrow> browser_client) \<Rightarrow> event_broadcaster \<Rightarrow> event_broadcaster" where
  "update_client c f eb = eb\<lparr>eb_heap := (eb_heap eb)(c := f (eb_heap eb c))\<rparr>"

definition close_client :: "client_ref \<Rightarrow> event_broadcaster \<Rightarrow> event_broadcaster" where
  "close_client c eb = (if bc_closed (eb_heap eb c) then eb else update_client c (\<lambda>x. x\<lparr>bc_closed := True\<rparr>) eb)"

definition unregister_client :: "client_ref \<Rightarrow> event_broadcaster \<Rightarrow> event_broadcaster" where
  "unregister_client c eb =
     (if c \<in> set (eb_clients eb)
      then close_client c (eb\<lparr>eb_clients := removeAll c (eb_clients eb)\<rparr>) else eb)"

definition enqueue :: "client_ref \<Rightarrow> string \<Rightarrow> event_broadcaster \<Rightarrow> bool \<times> event_broadcaster" where
  "enqueue c msg eb =
     (if bc_closed (eb_heap eb c) then (False, eb)
      else if length (bc_outgoing (eb_heap eb c)) < outgoing_capacity
      then (True, update_client c (\<lambda>x. x\<lparr>bc_outgoing := bc_outgoing x @ [msg]\<rparr>) eb)
      else (False, eb))"

definition broadcast_to :: "string \<Rightarrow> client_ref \<Rightarrow> event_broadcaster \<Rightarrow> event_broadcaster" where
  "broadcast_to msg c eb =
     (let (queued, eb) = enqueue c msg eb in if \<not> queued then unregister_client c eb else eb)"

definition Broadcast :: "event_broadcaster \<Rightarrow> string option \<Rightarrow> event_broadcaster" where
  "Broadcast eb encoded =
     (let clients = eb_clients eb
      in case encoded of
           None \<Rightarrow> eb
         | Some msg \<Rightarrow> fold (broadcast_to msg) clients (eb\<lparr>eb_sent := eb_sent eb @ [msg]\<rparr>))"

definition DisconnectPrincipals :: "event_broadcaster \<Rightarrow> string list \<Rightarrow> nat \<times> event_broadcaster" where
  "DisconnectPrincipals eb keys =
     (let targets = filter (\<lambda>c. list_ex (\<lambda>p. p \<in> set keys) (bc_principals (eb_heap eb c))) (eb_clients eb)
      in (length targets, fold unregister_client targets eb))"

definition client_count :: "event_broadcaster \<Rightarrow> nat" where
  "client_count eb = length (eb_clients eb)"

text \<open>One round of the write loop; \<open>ok\<close> tells whether the socket took the frame. A closed socket takes none.\<close>

definition write_round :: "client_ref \<Rightarrow> bool \<Rightarrow> event_broadcaster \<Rightarrow> event_broadcaster" where
  "write_round c ok eb =
     (case bc_outgoing (eb_heap eb c) of
        [] \<Rightarrow> eb
      | msg # rest \<Rightarrow>
          (if ok \<and> \<not> bc_closed (eb_heap eb c)
           then update_client c (\<lambda>x. x\<lparr>bc_outgoing := rest, bc_written := bc_written x @ [msg]\<rparr>) eb
           else close_client c (update_client c (\<lambda>x. x\<lparr>bc_outgoing := rest\<rparr>) eb)))"

section \<open>Runs\<close>

inductive eb_step :: "event_broadcaster \<Rightarrow> event_broadcaster \<Rightarrow> bool" where
  register_client: "eb_step eb (snd (RegisterWithPrincipals eb principals))"
| drop_client: "eb_step eb (unregister_client c eb)"
| broadcast: "eb_step eb (Broadcast eb encoded)"
| disconnect: "eb_step eb (snd (DisconnectPrincipals eb keys))"
| write_frame: "c < eb_next eb \<Longrightarrow> eb_step eb (write_round c ok eb)"

text \<open>
  What a client has been given: the broadcasts since it came in, without a gap, and none missing as
  long as it is open.
\<close>

definition feed_ok :: "string list \<Rightarrow> browser_client \<Rightarrow> bool" where
  "feed_ok sent x =
     (length (bc_outgoing x) \<le> outgoing_capacity \<and> bc_since x \<le> length sent \<and>
      prefix (bc_written x) (drop (bc_since x) sent) \<and>
      (\<not> bc_closed x \<longrightarrow> bc_written x @ bc_outgoing x = drop (bc_since x) sent))"

definition eb_inv :: "event_broadcaster \<Rightarrow> bool" where
  "eb_inv eb =
     (distinct (eb_clients eb) \<and> (\<forall>c \<in> set (eb_clients eb). c < eb_next eb) \<and>
      (\<forall>c < eb_next eb. feed_ok (eb_sent eb) (eb_heap eb c)) \<and>
      (\<forall>c < eb_next eb. \<not> bc_closed (eb_heap eb c) \<longrightarrow> c \<in> set (eb_clients eb)))"

section \<open>Lemmas\<close>

definition can_take :: "browser_client \<Rightarrow> bool" where
  "can_take x = (\<not> bc_closed x \<and> length (bc_outgoing x) < outgoing_capacity)"

definition pushed :: "string \<Rightarrow> browser_client \<Rightarrow> browser_client" where
  "pushed msg x = (if can_take x then x\<lparr>bc_outgoing := bc_outgoing x @ [msg]\<rparr> else x\<lparr>bc_closed := True\<rparr>)"

lemma closed_pushed: "bc_closed (pushed msg x) \<longleftrightarrow> \<not> can_take x"
  by (simp add: pushed_def can_take_def)

lemma broadcast_to_eq:
  "c \<in> set (eb_clients eb) \<Longrightarrow> broadcast_to msg c eb =
     eb\<lparr>eb_heap := (eb_heap eb)(c := pushed msg (eb_heap eb c)),
        eb_clients := (if can_take (eb_heap eb c) then eb_clients eb else removeAll c (eb_clients eb))\<rparr>"
  by (auto simp: broadcast_to_def enqueue_def pushed_def can_take_def unregister_client_def close_client_def
      update_client_def fun_eq_iff)

lemma fold_broadcast:
  "distinct cs \<Longrightarrow> set cs \<subseteq> set (eb_clients eb) \<Longrightarrow> fold (broadcast_to msg) cs eb =
     eb\<lparr>eb_heap := (\<lambda>c. if c \<in> set cs then pushed msg (eb_heap eb c) else eb_heap eb c),
        eb_clients := filter (\<lambda>c. c \<in> set cs \<longrightarrow> can_take (eb_heap eb c)) (eb_clients eb)\<rparr>"
proof (induction cs arbitrary: eb)
  case (Cons a cs)
  let ?eb = "broadcast_to msg a eb"
  have a: "a \<in> set (eb_clients eb)" "a \<notin> set cs" "distinct cs" using Cons.prems by auto
  have "set cs \<subseteq> set (eb_clients ?eb)" using Cons.prems a by (auto simp: broadcast_to_eq)
  then have "fold (broadcast_to msg) (a # cs) eb =
     ?eb\<lparr>eb_heap := (\<lambda>c. if c \<in> set cs then pushed msg (eb_heap ?eb c) else eb_heap ?eb c),
        eb_clients := filter (\<lambda>c. c \<in> set cs \<longrightarrow> can_take (eb_heap ?eb c)) (eb_clients ?eb)\<rparr>"
    using Cons.IH a(3) by simp
  also have "\<dots> = eb\<lparr>eb_heap := (\<lambda>c. if c \<in> set (a # cs) then pushed msg (eb_heap eb c) else eb_heap eb c),
        eb_clients := filter (\<lambda>c. c \<in> set (a # cs) \<longrightarrow> can_take (eb_heap eb c)) (eb_clients eb)\<rparr>"
    by (rule event_broadcaster.equality)
      (use a in \<open>auto simp: broadcast_to_eq fun_eq_iff removeAll_filter_not_eq intro!: filter_cong\<close>)
  finally show ?case .
qed simp

lemma unregister_eq:
  "unregister_client c eb = (if c \<in> set (eb_clients eb)
     then eb\<lparr>eb_heap := (eb_heap eb)(c := (eb_heap eb c)\<lparr>bc_closed := True\<rparr>), eb_clients := removeAll c (eb_clients eb)\<rparr>
     else eb)"
  by (auto simp: unregister_client_def close_client_def update_client_def fun_eq_iff)

lemma fold_unregister:
  "set cs \<subseteq> set (eb_clients eb) \<Longrightarrow> distinct cs \<Longrightarrow> fold unregister_client cs eb =
     eb\<lparr>eb_heap := (\<lambda>c. if c \<in> set cs then (eb_heap eb c)\<lparr>bc_closed := True\<rparr> else eb_heap eb c),
        eb_clients := filter (\<lambda>c. c \<notin> set cs) (eb_clients eb)\<rparr>"
proof (induction cs arbitrary: eb)
  case (Cons a cs)
  let ?eb = "unregister_client a eb"
  have a: "a \<in> set (eb_clients eb)" "a \<notin> set cs" "distinct cs" using Cons.prems by auto
  have "set cs \<subseteq> set (eb_clients ?eb)" using Cons.prems a by (auto simp: unregister_eq)
  from Cons.IH [OF this a(3)] have "fold unregister_client (a # cs) eb =
     ?eb\<lparr>eb_heap := (\<lambda>c. if c \<in> set cs then (eb_heap ?eb c)\<lparr>bc_closed := True\<rparr> else eb_heap ?eb c),
        eb_clients := filter (\<lambda>c. c \<notin> set cs) (eb_clients ?eb)\<rparr>" by simp
  also have "\<dots> = eb\<lparr>eb_heap := (\<lambda>c. if c \<in> set (a # cs) then (eb_heap eb c)\<lparr>bc_closed := True\<rparr> else eb_heap eb c),
        eb_clients := filter (\<lambda>c. c \<notin> set (a # cs)) (eb_clients eb)\<rparr>"
    by (rule event_broadcaster.equality)
      (use a in \<open>auto simp: unregister_eq fun_eq_iff removeAll_filter_not_eq intro!: filter_cong\<close>)
  finally show ?case .
qed simp

lemma feed_ok_closed: "feed_ok sent x \<Longrightarrow> feed_ok sent (x\<lparr>bc_closed := True\<rparr>)"
  by (simp add: feed_ok_def)

lemma feed_ok_pushed: "feed_ok sent x \<Longrightarrow> feed_ok (sent @ [msg]) (pushed msg x)"
  by (auto simp: feed_ok_def pushed_def can_take_def intro: prefix_order.trans)

lemma feed_ok_other: "feed_ok sent x \<Longrightarrow> bc_closed x \<Longrightarrow> feed_ok (sent @ [msg]) x"
  by (auto simp: feed_ok_def intro: prefix_order.trans)

lemma feed_ok_write:
  assumes "feed_ok sent (eb_heap eb c)"
  shows "feed_ok sent (eb_heap (write_round c ok eb) c)"
proof (cases "bc_outgoing (eb_heap eb c)")
  case (Cons m rest)
  have "prefix (bc_written (eb_heap eb c) @ [m]) (drop (bc_since (eb_heap eb c)) sent)"
    if "bc_written (eb_heap eb c) @ m # rest = drop (bc_since (eb_heap eb c)) sent"
    using that by (metis append.assoc append_Cons append_Nil prefixI)
  with assms Cons show ?thesis
    by (auto simp: write_round_def feed_ok_def close_client_def update_client_def)
qed (use assms in \<open>simp add: write_round_def\<close>)

lemma eb_invD:
  assumes "eb_inv eb"
  shows "distinct (eb_clients eb)" "\<And>c. c \<in> set (eb_clients eb) \<Longrightarrow> c < eb_next eb"
    "\<And>c. c < eb_next eb \<Longrightarrow> feed_ok (eb_sent eb) (eb_heap eb c)"
    "\<And>c. c < eb_next eb \<Longrightarrow> \<not> bc_closed (eb_heap eb c) \<Longrightarrow> c \<in> set (eb_clients eb)"
  using assms by (simp_all add: eb_inv_def)

lemma eb_inv_unregister: "eb_inv eb \<Longrightarrow> eb_inv (unregister_client c eb)"
  by (auto simp: unregister_eq eb_inv_def feed_ok_closed distinct_removeAll)

lemma eb_inv_fold_unregister: "eb_inv eb \<Longrightarrow> eb_inv (fold unregister_client cs eb)"
  by (induction cs arbitrary: eb) (simp_all add: eb_inv_unregister)

lemma eb_inv_broadcast:
  assumes inv: "eb_inv eb"
  shows "eb_inv (Broadcast eb encoded)"
proof (cases encoded)
  case (Some msg)
  note inv = eb_invD [OF inv]
  have "Broadcast eb encoded = eb\<lparr>eb_sent := eb_sent eb @ [msg],
      eb_heap := (\<lambda>c. if c \<in> set (eb_clients eb) then pushed msg (eb_heap eb c) else eb_heap eb c),
      eb_clients := filter (\<lambda>c. c \<in> set (eb_clients eb) \<longrightarrow> can_take (eb_heap eb c)) (eb_clients eb)\<rparr>"
    using fold_broadcast [of "eb_clients eb" "eb\<lparr>eb_sent := eb_sent eb @ [msg]\<rparr>"] inv(1) by (simp add: Broadcast_def Some cong: if_cong)
  moreover have "feed_ok (eb_sent eb @ [msg]) (eb_heap eb c)" if "c < eb_next eb" "c \<notin> set (eb_clients eb)" for c
    using inv(3,4) that by (blast intro: feed_ok_other)
  ultimately show ?thesis
    using inv by (auto simp: eb_inv_def feed_ok_pushed closed_pushed split: if_split_asm)
qed (use inv in \<open>simp add: Broadcast_def\<close>)

lemma eb_inv_step: "eb_step eb eb' \<Longrightarrow> eb_inv eb \<Longrightarrow> eb_inv eb'"
proof (induction rule: eb_step.induct)
  case (register_client eb principals)
  then show ?case by (auto simp: RegisterWithPrincipals_def eb_inv_def feed_ok_def less_Suc_eq)
next
  case (write_frame c eb ok)
  have "eb_clients (write_round c ok eb) = eb_clients eb" "eb_next (write_round c ok eb) = eb_next eb"
    "eb_sent (write_round c ok eb) = eb_sent eb"
    "x \<noteq> c \<Longrightarrow> eb_heap (write_round c ok eb) x = eb_heap eb x"
    "bc_closed (eb_heap eb c) \<Longrightarrow> bc_closed (eb_heap (write_round c ok eb) c)" for x
    by (auto simp: write_round_def close_client_def update_client_def split: list.split)
  with feed_ok_write [of "eb_sent eb" eb c ok] eb_invD [OF write_frame.prems] show ?case
    unfolding eb_inv_def by metis
qed (simp_all add: eb_inv_unregister eb_inv_broadcast eb_inv_fold_unregister DisconnectPrincipals_def Let_def)

lemma eb_run_inv: "eb_step\<^sup>*\<^sup>* NewEventBroadcaster eb \<Longrightarrow> eb_inv eb"
  by (erule rtranclp_invariant) (simp_all add: eb_inv_step, simp add: eb_inv_def NewEventBroadcaster_def)

lemma disconnected_clients:
  assumes inv: "eb_inv eb" and c: "c < eb_next eb" "k \<in> set keys" "k \<in> set (bc_principals (eb_heap eb c))"
  shows "c \<notin> set (eb_clients (snd (DisconnectPrincipals eb keys))) \<and>
    bc_closed (eb_heap (snd (DisconnectPrincipals eb keys)) c)"
proof -
  let ?t = "filter (\<lambda>c. list_ex (\<lambda>p. p \<in> set keys) (bc_principals (eb_heap eb c))) (eb_clients eb)"
  have "snd (DisconnectPrincipals eb keys) =
     eb\<lparr>eb_heap := (\<lambda>c. if c \<in> set ?t then (eb_heap eb c)\<lparr>bc_closed := True\<rparr> else eb_heap eb c),
        eb_clients := filter (\<lambda>c. c \<notin> set ?t) (eb_clients eb)\<rparr>"
    using fold_unregister [of ?t eb] eb_invD(1) [OF inv] by (simp add: DisconnectPrincipals_def Let_def)
  with c eb_invD(4) [OF inv c(1)] show ?thesis by (auto simp: list_ex_iff)
qed

section \<open>Properties\<close>


definition example_feed :: event_broadcaster where
  "example_feed = write_round 0 True (Broadcast (Broadcast (snd (RegisterWithPrincipals
     (Broadcast NewEventBroadcaster (Some ''e0'')) [''actor:u1''])) (Some ''e1'')) (Some ''e2''))"

lemma example_feed_run: "eb_step\<^sup>*\<^sup>* NewEventBroadcaster example_feed"
proof -
  let ?e0 = "Broadcast NewEventBroadcaster (Some ''e0'')"
  let ?e1 = "snd (RegisterWithPrincipals ?e0 [''actor:u1''])"
  let ?e3 = "Broadcast (Broadcast ?e1 (Some ''e1'')) (Some ''e2'')"
  have "0 < eb_next ?e3" by code_simp
  then have "eb_step ?e3 example_feed" unfolding example_feed_def by (rule eb_step.write_frame)
  then show ?thesis
    by (meson eb_step.broadcast eb_step.register_client converse_rtranclp_into_rtranclp rtranclp.rtrancl_refl)
qed


end
