(* ===== verification/Stream_Revocation.thy ===== *)
theory Stream_Revocation
  imports Request_Auth Session_Streams Event_Broadcast
begin

text \<open>
  Revocation of live access (\<open>revokeStreamPrincipals\<close> of \<open>cmd/labtether/browser_events.go\<close>), which
  logout, user removal, demotion and API-key removal call: unredeemed stream tickets, registered
  streams and event sockets of the given credentials.
\<close>

definition revokeStreamPrincipals ::
    "api_server \<Rightarrow> stream_registry \<Rightarrow> event_broadcaster option \<Rightarrow> string list \<Rightarrow>
     api_server \<times> stream_registry \<times> event_broadcaster option" where
  "revokeStreamPrincipals s streams broadcaster keys =
     (if keys = [] then (s, streams, broadcaster)
      else (dropStreamTickets s keys, snd (RevokePrincipals streams keys),
            map_option (\<lambda>eb. snd (DisconnectPrincipals eb keys)) broadcaster))"

section \<open>Properties\<close>

text \<open>
  C16: Revocation ends every kind of live access of a credential at once: afterwards no stream ticket
  of it can be redeemed, every stream opened with it is closed with its socket, and no event socket of
  it is registered or open, whatever happened before.
\<close>

theorem revoked_principal_has_no_access:
  assumes "stream_step\<^sup>*\<^sup>* stream_start S" "eb_step\<^sup>*\<^sup>* NewEventBroadcaster eb" "k \<in> set keys"
    and "revokeStreamPrincipals s (ss_reg S) (Some eb) keys = (s', r', Some eb')"
  shows "(\<forall>now r ctx s''. consumeStreamTicketAuth s' now r = (Some ctx, s'') \<and> rq_ctx r = background \<longrightarrow>
        k \<notin> set (StreamPrincipalKeys ctx)) \<and>
    (\<forall>w < rg_next_owner (ss_reg S). k \<in> set (sr_principals (rg_owners (ss_reg S) w)) \<longrightarrow>
        sr_closed (rg_owners r' w) \<and> (\<not> sr_cleaned (rg_owners (ss_reg S) w) \<longrightarrow> settled r' w)) \<and>
    (\<forall>c < eb_next eb. k \<in> set (bc_principals (eb_heap eb c)) \<longrightarrow>
        c \<notin> set (eb_clients eb') \<and> bc_closed (eb_heap eb' c))"
proof -
  have eqs: "s' = dropStreamTickets s keys" "r' = snd (RevokePrincipals (ss_reg S) keys)"
    "eb' = snd (DisconnectPrincipals eb keys)"
    using assms(3,4) by (auto simp: revokeStreamPrincipals_def split: if_split_asm)
  show ?thesis
    using dropped_principals_hold_no_ticket [of s keys] revoked_owner [OF stream_run_inv [OF assms(1)] _ assms(3)]
      disconnected_clients [OF eb_run_inv [OF assms(2)] _ assms(3)] assms(3)
    unfolding eqs by blast
qed

theorem revoked_principal_has_no_access_witness:
  "sr_closed (rg_owners (snd (RevokePrincipals example_opened [''actor:u1''])) 0) \<and>
   settled (snd (RevokePrincipals example_opened [''actor:u1''])) 0 \<and>
   0 \<notin> set (eb_clients (snd (DisconnectPrincipals example_feed [''actor:u1''])))"
proof -
  let ?S = "\<lparr>ss_reg = example_opened, ss_db = [''s1''], ss_deleting = []\<rparr> :: stream_system"
  have "revokeStreamPrincipals example_server (ss_reg ?S) (Some example_feed) [''actor:u1''] =
      (dropStreamTickets example_server [''actor:u1''], snd (RevokePrincipals example_opened [''actor:u1'']),
       Some (snd (DisconnectPrincipals example_feed [''actor:u1''])))"
    by (simp add: revokeStreamPrincipals_def)
  note gone = revoked_principal_has_no_access [OF example_stream_run(1) example_feed_run _ this, of "''actor:u1''"]
  have "0 < rg_next_owner example_opened" "''actor:u1'' \<in> set (sr_principals (rg_owners example_opened 0))"
    "\<not> sr_cleaned (rg_owners example_opened 0)" "0 < eb_next example_feed"
    "''actor:u1'' \<in> set (bc_principals (eb_heap example_feed 0))"
    by (code_simp, code_simp, code_simp, code_simp, code_simp)
  with gone show ?thesis by simp
qed

end
