(* ===== verification/Asset_Store.thy ===== *)
theory Asset_Store
  imports LT_Prelude "HOL-Library.List_Lexorder" "HOL-Library.Char_ord"
begin

text \<open>
  The asset inventory in memory (\<open>MemoryAssetStore\<close> of \<open>internal/persistence/memory.go\<close>), asset tags
  (\<open>internal/assets\<close>) and the device-identity anchor that heartbeats may not move
  (\<open>internal/persistence/asset_identity_anchor.go\<close>).

  Metadata maps are association lists; reading an absent key gives the empty string. The fields that
  \<open>modelmap.DeriveAssetCanonical\<close> derives from the others (resource class, kind and attributes) and
  the two fields no operation here writes (host, transport type) are left out of the record.
\<close>

section \<open>Assets\<close>

type_synonym metadata = "(string \<times> string) list"

definition mget :: "metadata \<Rightarrow> string \<Rightarrow> string" where
  "mget m k = (case map_of m k of None \<Rightarrow> [] | Some v \<Rightarrow> v)"

definition MetadataKeyNameOverride :: string where "MetadataKeyNameOverride = ''name_override''"
definition MetadataKeyAgentDeviceFingerprint :: string where
  "MetadataKeyAgentDeviceFingerprint = ''agent_device_fingerprint''"
definition MetadataKeyAgentDeviceKeyAlgorithm :: string where
  "MetadataKeyAgentDeviceKeyAlgorithm = ''agent_device_key_alg''"
definition MetadataKeyAgentIdentityVerifiedAt :: string where
  "MetadataKeyAgentIdentityVerifiedAt = ''agent_identity_verified_at''"

lemmas metadata_keys = MetadataKeyNameOverride_def MetadataKeyAgentDeviceFingerprint_def
  MetadataKeyAgentDeviceKeyAlgorithm_def MetadataKeyAgentIdentityVerifiedAt_def

record asset =
  as_id :: string
  as_type :: string
  as_name :: string
  as_source :: string
  as_tags :: "string list"
  as_group_id :: string
  as_status :: string
  as_platform :: string
  as_metadata :: metadata
  as_created_at :: gtime
  as_updated_at :: gtime
  as_last_seen_at :: gtime


definition zero_asset :: asset where
  "zero_asset = \<lparr>as_id = [], as_type = [], as_name = [], as_source = [], as_tags = [], as_group_id = [],
     as_status = [], as_platform = [], as_metadata = [], as_created_at = zero_time, as_updated_at = zero_time,
     as_last_seen_at = zero_time\<rparr>"

record heartbeat_request =
  hb_asset_id :: string
  hb_type :: string
  hb_name :: string
  hb_source :: string
  hb_group_id :: string
  hb_status :: string
  hb_platform :: string
  hb_metadata :: metadata
  hb_allow_rotation :: bool
  hb_allow_tofu :: bool

record asset_update =
  au_name :: "string option"
  au_group_id :: "string option"
  au_tags :: "string list option"

definition normalize_tag :: "string \<Rightarrow> string" where
  "normalize_tag value = to_lower (trim_space value)"

fun collect_tags :: "string list \<Rightarrow> string list \<Rightarrow> string list" where
  "collect_tags seen [] = []"
| "collect_tags seen (v # vs) =
     (let normalized = normalize_tag v
      in if normalized = [] then collect_tags seen vs
         else if normalized \<in> set seen then collect_tags seen vs
         else normalized # collect_tags (normalized # seen) vs)"

definition NormalizeTags :: "string list \<Rightarrow> string list" where
  "NormalizeTags values = sort (collect_tags [] values)"

section \<open>The identity anchor\<close>

definition validateVerifiedAgentRecoveryAnchor :: "(string \<Rightarrow> bool) \<Rightarrow> metadata \<Rightarrow> string \<Rightarrow> string \<Rightarrow> bool" where
  "validateVerifiedAgentRecoveryAnchor parses_rfc3339 meta fingerprint keyAlgorithm =
     (let storedFingerprint = trim_space (mget meta MetadataKeyAgentDeviceFingerprint);
          storedKeyAlgorithm = trim_space (mget meta MetadataKeyAgentDeviceKeyAlgorithm);
          verifiedAt = trim_space (mget meta MetadataKeyAgentIdentityVerifiedAt)
      in if storedFingerprint = [] \<or> storedKeyAlgorithm = [] \<or> storedFingerprint \<noteq> trim_space fingerprint \<or>
            storedKeyAlgorithm \<noteq> trim_space keyAlgorithm then False
         else if \<not> parses_rfc3339 verifiedAt then False
         else True)"

definition mergeHeartbeatIdentityAnchor :: "metadata \<Rightarrow> metadata \<Rightarrow> bool \<Rightarrow> bool \<Rightarrow> metadata" where
  "mergeHeartbeatIdentityAnchor existing reported allowRotation allowTOFU =
     (if allowRotation then reported
      else let merged = AList.delete MetadataKeyAgentIdentityVerifiedAt reported
           in if existing = [] then
                (if \<not> allowTOFU
                 then AList.delete MetadataKeyAgentDeviceKeyAlgorithm
                        (AList.delete MetadataKeyAgentDeviceFingerprint merged)
                 else merged)
              else
                let existingFingerprint = trim_space (mget existing MetadataKeyAgentDeviceFingerprint);
                    reportedFingerprint = trim_space (mget reported MetadataKeyAgentDeviceFingerprint);
                    existingKeyAlgorithm = trim_space (mget existing MetadataKeyAgentDeviceKeyAlgorithm);
                    merged = (if existingFingerprint = [] \<and> existingKeyAlgorithm = [] \<and> \<not> allowTOFU
                              then AList.delete MetadataKeyAgentDeviceKeyAlgorithm
                                     (AList.delete MetadataKeyAgentDeviceFingerprint merged)
                              else merged);
                    merged = (if existingFingerprint \<noteq> [] then
                                let merged = AList.update MetadataKeyAgentDeviceFingerprint existingFingerprint merged
                                in if existingKeyAlgorithm \<noteq> []
                                   then AList.update MetadataKeyAgentDeviceKeyAlgorithm existingKeyAlgorithm merged
                                   else if \<not> equal_fold existingFingerprint reportedFingerprint
                                   then AList.delete MetadataKeyAgentDeviceKeyAlgorithm merged
                                   else merged
                              else if existingKeyAlgorithm \<noteq> []
                              then AList.update MetadataKeyAgentDeviceKeyAlgorithm existingKeyAlgorithm merged
                              else merged);
                    verifiedAt = trim_space (mget existing MetadataKeyAgentIdentityVerifiedAt)
                in if verifiedAt \<noteq> [] then AList.update MetadataKeyAgentIdentityVerifiedAt verifiedAt merged
                   else merged)"

section \<open>The store\<close>

record asset_store =
  st_assets :: "(string \<times> asset) list"
  st_retired :: "(string \<times> gtime) list"

definition NewMemoryAssetStore :: asset_store where
  "NewMemoryAssetStore = \<lparr>st_assets = [], st_retired = []\<rparr>"

definition applyAssetCanonical :: "asset \<Rightarrow> asset" where
  "applyAssetCanonical a = a\<lparr>as_tags := NormalizeTags (as_tags a)\<rparr>"

definition upsertAssetHeartbeatLocked :: "asset_store \<Rightarrow> heartbeat_request \<Rightarrow> gtime \<Rightarrow> asset \<times> asset_store" where
  "upsertAssetHeartbeatLocked m req now =
     (let status = (if hb_status req = [] then ''online'' else hb_status req);
          groupID = trim_space (hb_group_id req);
          ok = (map_of (st_assets m) (hb_asset_id req) \<noteq> None);
          existing = (case map_of (st_assets m) (hb_asset_id req) of
                        None \<Rightarrow> zero_asset\<lparr>as_created_at := now\<rparr> | Some a \<Rightarrow> a);
          overrideName = trim_space (mget (as_metadata existing) MetadataKeyNameOverride);
          meta = mergeHeartbeatIdentityAnchor (as_metadata existing) (hb_metadata req)
                   (hb_allow_rotation req) (hb_allow_tofu req);
          meta = (if overrideName \<noteq> [] then AList.update MetadataKeyNameOverride overrideName meta else meta);
          a = existing\<lparr>as_id := hb_asset_id req, as_type := hb_type req,
                as_name := (if overrideName \<noteq> [] then overrideName else hb_name req),
                as_source := (if \<not> ok \<or> \<not> equal_fold (trim_space (as_source existing)) ''agent''
                              then hb_source req else as_source existing),
                as_group_id := (if \<not> ok \<or> groupID \<noteq> [] then groupID else as_group_id existing),
                as_platform := hb_platform req, as_status := status, as_metadata := meta,
                as_updated_at := now, as_last_seen_at := now\<rparr>;
          a = applyAssetCanonical a
      in (a, m\<lparr>st_assets := AList.update (hb_asset_id req) a (st_assets m)\<rparr>))"

datatype store_error =
  ErrNotFound | AssetIDRequired | TokenHashRequired | TokenCreatorRequired | MaxUsesOutOfRange
| InvalidTokenScope string | ErrEnrollmentTokenInvalid | ErrEnrollmentTokenUsed | ErrEnrollmentTokenExpired
| ErrEnrollmentTokenRevoked | ErrEnrollmentTokenScopeMismatch | ErrRecoveryRequiresSingleUseToken
| ErrAgentIdentityContinuityConflict | ErrAgentIdentityRetired | ErrAgentIdentityProofV2Required
| ErrEnrollmentTokenPredatesRotation | ErrAgentFleetCapacityReached | ErrPreparedAgentApprovalNotFound
| ErrAgentApprovalAssetConflict | ErrAgentCredentialInactive | ErrTransactionsUnavailable
| AgentTokenHashExists | ExpiryNotInFuture | AgentTokenNotFound | ContextErr string

definition UpsertAssetHeartbeat ::
    "asset_store \<Rightarrow> heartbeat_request \<Rightarrow> gtime \<Rightarrow> (store_error, asset) res \<times> asset_store" where
  "UpsertAssetHeartbeat m req now =
     (if map_of (st_retired m) (trim_space (hb_asset_id req)) \<noteq> None then (Inl ErrAgentIdentityRetired, m)
      else let (a, m) = upsertAssetHeartbeatLocked m req now in (Inr a, m))"

definition UpdateAsset :: "asset_store \<Rightarrow> gtime \<Rightarrow> string \<Rightarrow> asset_update \<Rightarrow> (store_error, asset) res \<times> asset_store" where
  "UpdateAsset m now aid req =
     (case map_of (st_assets m) aid of
        None \<Rightarrow> (Inl ErrNotFound, m)
      | Some a \<Rightarrow>
          (let a = (case au_name req of
                      None \<Rightarrow> a
                    | Some name \<Rightarrow> a\<lparr>as_name := trim_space name,
                        as_metadata := AList.update MetadataKeyNameOverride (trim_space name) (as_metadata a)\<rparr>);
               a = (case au_group_id req of None \<Rightarrow> a | Some g \<Rightarrow> a\<lparr>as_group_id := trim_space g\<rparr>);
               a = (case au_tags req of None \<Rightarrow> a | Some ts \<Rightarrow> a\<lparr>as_tags := NormalizeTags ts\<rparr>);
               a = applyAssetCanonical (a\<lparr>as_updated_at := now\<rparr>)
           in (Inr a, m\<lparr>st_assets := AList.update aid a (st_assets m)\<rparr>)))"

definition GetAsset :: "asset_store \<Rightarrow> string \<Rightarrow> asset option" where
  "GetAsset m aid = map_option applyAssetCanonical (map_of (st_assets m) aid)"

definition ListAssets :: "asset_store \<Rightarrow> asset list" where
  "ListAssets m = sort_key (\<lambda>a. - as_last_seen_at a) (map (applyAssetCanonical \<circ> snd) (st_assets m))"

definition ListAssetsByGroup :: "asset_store \<Rightarrow> string \<Rightarrow> asset list" where
  "ListAssetsByGroup m groupID =
     (let groupID = trim_space groupID
      in sort_key (\<lambda>a. - as_last_seen_at a)
           (map applyAssetCanonical (filter (\<lambda>a. trim_space (as_group_id a) = groupID) (map snd (st_assets m)))))"

definition DeleteAsset :: "asset_store \<Rightarrow> string \<Rightarrow> store_error option \<times> asset_store" where
  "DeleteAsset m aid =
     (if map_of (st_assets m) aid = None then (Some ErrNotFound, m)
      else (None, m\<lparr>st_assets := AList.delete aid (st_assets m)\<rparr>))"

section \<open>Lemmas\<close>

lemma mget_update [simp]: "mget (AList.update k v m) k' = (if k' = k then v else mget m k')"
  by (simp add: mget_def)

lemma mget_delete [simp]: "mget (AList.delete k m) k' = (if k' = k then [] else mget m k')"
  by (simp add: mget_def)

lemma mget_Nil [simp]: "mget [] k = []"
  by (simp add: mget_def)

text \<open>The verified anchor of an asset: what a recovery is checked against.\<close>

definition verified_anchor :: "asset \<Rightarrow> (string \<times> string \<times> string) option" where
  "verified_anchor a =
     (let fp = trim_space (mget (as_metadata a) MetadataKeyAgentDeviceFingerprint);
          alg = trim_space (mget (as_metadata a) MetadataKeyAgentDeviceKeyAlgorithm);
          at = trim_space (mget (as_metadata a) MetadataKeyAgentIdentityVerifiedAt)
      in if fp = [] \<or> alg = [] \<or> at = [] then None else Some (fp, alg, at))"

lemma merge_keeps_verified:
  assumes "trim_space (mget existing MetadataKeyAgentDeviceFingerprint) = fp" "fp \<noteq> []"
    "trim_space (mget existing MetadataKeyAgentDeviceKeyAlgorithm) = alg" "alg \<noteq> []"
    "trim_space (mget existing MetadataKeyAgentIdentityVerifiedAt) = at" "at \<noteq> []"
  shows "mget (mergeHeartbeatIdentityAnchor existing reported False tofu) MetadataKeyAgentDeviceFingerprint = fp"
    "mget (mergeHeartbeatIdentityAnchor existing reported False tofu) MetadataKeyAgentDeviceKeyAlgorithm = alg"
    "mget (mergeHeartbeatIdentityAnchor existing reported False tofu) MetadataKeyAgentIdentityVerifiedAt = at"
proof -
  have "existing \<noteq> []" using assms by auto
  with assms show "mget (mergeHeartbeatIdentityAnchor existing reported False tofu) MetadataKeyAgentDeviceFingerprint = fp"
    "mget (mergeHeartbeatIdentityAnchor existing reported False tofu) MetadataKeyAgentDeviceKeyAlgorithm = alg"
    "mget (mergeHeartbeatIdentityAnchor existing reported False tofu) MetadataKeyAgentIdentityVerifiedAt = at"
    by (simp_all add: mergeHeartbeatIdentityAnchor_def Let_def metadata_keys)
qed

text \<open>A heartbeat never authors a verification.\<close>

lemma merge_never_verifies:
  "trim_space (mget existing MetadataKeyAgentIdentityVerifiedAt) = [] \<Longrightarrow>
     mget (mergeHeartbeatIdentityAnchor existing reported False tofu) MetadataKeyAgentIdentityVerifiedAt = []"
  by (simp add: mergeHeartbeatIdentityAnchor_def Let_def metadata_keys)

end
