(* ===== verification/Group_Store.thy ===== *)
theory Group_Store
  imports Asset_Store "HOL-Library.Product_Lexorder" "HOL-Library.Word"
begin

text \<open>
  The tree of groups: \<open>MemoryGroupStore\<close> of \<open>internal/persistence\<close>, \<open>buildGroupTree\<close>, which both
  stores share, and the handlers of \<open>internal/hubapi/resources/groups_handlers.go\<close> that change it.

  Coordinates are only copied, so a \<open>float64\<close> is its 64-bit pattern; a jump chain is its JSON text.
  The identifier \<open>idgen.New\<close> draws is an argument of the operation. \<open>sort.Slice\<close> leaves the order of
  equal elements open; the model keeps them in map order, and no theorem depends on that order. The
  free-form \<open>Factors\<close> of a reliability record are left out.
\<close>

section \<open>Groups\<close>

record group =
  gp_id :: string
  gp_name :: string
  gp_slug :: string
  gp_parent :: string
  gp_icon :: string
  gp_sort_order :: int
  gp_timezone :: string
  gp_location :: string
  gp_latitude :: "64 word option"
  gp_longitude :: "64 word option"
  gp_metadata :: metadata
  gp_jump_chain :: "string option"
  gp_created_at :: gtime
  gp_updated_at :: gtime

record group_create =
  cg_name :: string
  cg_slug :: string
  cg_parent :: string
  cg_icon :: string
  cg_sort_order :: int
  cg_timezone :: string
  cg_location :: string
  cg_latitude :: "64 word option"
  cg_longitude :: "64 word option"
  cg_metadata :: metadata
  cg_jump_chain :: "string option"

record group_update =
  ug_name :: "string option"
  ug_slug :: "string option"
  ug_parent :: "string option"
  ug_icon :: "string option"
  ug_sort_order :: "int option"
  ug_timezone :: "string option"
  ug_location :: "string option"
  ug_latitude :: "64 word option"
  ug_longitude :: "64 word option"
  ug_metadata :: "metadata option"
  ug_jump_chain :: "string option"

definition empty_update :: group_update where
  "empty_update = \<lparr>ug_name = None, ug_slug = None, ug_parent = None, ug_icon = None, ug_sort_order = None,
     ug_timezone = None, ug_location = None, ug_latitude = None, ug_longitude = None, ug_metadata = None,
     ug_jump_chain = None\<rparr>"

record reliability_record =
  rr_id :: string
  rr_group_id :: string
  rr_score :: int
  rr_grade :: string
  rr_window_hours :: int
  rr_computed_at :: gtime

record group_store =
  gs_groups :: "(string \<times> group) list"
  gs_history :: "(string \<times> reliability_record list) list"

definition NewMemoryGroupStore :: group_store where
  "NewMemoryGroupStore = \<lparr>gs_groups = [], gs_history = []\<rparr>"

definition slug_char :: "char \<Rightarrow> bool" where
  "slug_char c = ((97 \<le> byte_of c \<and> byte_of c \<le> 122) \<or> (48 \<le> byte_of c \<and> byte_of c \<le> 57) \<or> byte_of c = 45)"

definition slugify :: "string \<Rightarrow> string" where
  "slugify name =
     (let s = to_lower (trim_space name);
          s = map (\<lambda>c. if byte_of c = 32 then CHR ''-'' else c) s;
          s = filter slug_char s;
          s = trim_right_by (\<lambda>c. c = CHR ''-'') (trim_left_by (\<lambda>c. c = CHR ''-'') s)
      in if s = [] then ''group'' else s)"

definition CreateGroup :: "group_store \<Rightarrow> string \<Rightarrow> gtime \<Rightarrow> group_create \<Rightarrow> group \<times> group_store" where
  "CreateGroup m gid now req =
     (let slug = trim_space (cg_slug req);
          slug = (if slug = [] then slugify (cg_name req) else slug);
          g = \<lparr>gp_id = gid, gp_name = trim_space (cg_name req), gp_slug = slug,
               gp_parent = trim_space (cg_parent req), gp_icon = trim_space (cg_icon req),
               gp_sort_order = cg_sort_order req, gp_timezone = trim_space (cg_timezone req),
               gp_location = trim_space (cg_location req), gp_latitude = cg_latitude req,
               gp_longitude = cg_longitude req, gp_metadata = cg_metadata req,
               gp_jump_chain = cg_jump_chain req, gp_created_at = now, gp_updated_at = now\<rparr>
      in (g, m\<lparr>gs_groups := AList.update gid g (gs_groups m)\<rparr>))"

definition GetGroup :: "group_store \<Rightarrow> string \<Rightarrow> group option" where
  "GetGroup m gid = map_of (gs_groups m) (trim_space gid)"

definition ListGroups :: "group_store \<Rightarrow> group list" where
  "ListGroups m = sort_key (\<lambda>g. (gp_sort_order g, gp_name g)) (map snd (gs_groups m))"

definition put :: "'a option \<Rightarrow> ('a \<Rightarrow> 'r \<Rightarrow> 'r) \<Rightarrow> 'r \<Rightarrow> 'r" where
  "put v f r = (case v of None \<Rightarrow> r | Some x \<Rightarrow> f x r)"

definition UpdateGroup ::
    "group_store \<Rightarrow> gtime \<Rightarrow> string \<Rightarrow> group_update \<Rightarrow> (store_error, group) res \<times> group_store" where
  "UpdateGroup m now gid req =
     (let gid = trim_space gid in
      case map_of (gs_groups m) gid of
        None \<Rightarrow> (Inl ErrNotFound, m)
      | Some g \<Rightarrow>
          (let g = put (ug_name req) (\<lambda>v. gp_name_update (\<lambda>_. trim_space v)) g;
               g = put (ug_slug req) (\<lambda>v. gp_slug_update (\<lambda>_. trim_space v)) g;
               g = put (ug_parent req) (\<lambda>v. gp_parent_update (\<lambda>_. trim_space v)) g;
               g = put (ug_icon req) (\<lambda>v. gp_icon_update (\<lambda>_. trim_space v)) g;
               g = put (ug_sort_order req) (\<lambda>v. gp_sort_order_update (\<lambda>_. v)) g;
               g = put (ug_timezone req) (\<lambda>v. gp_timezone_update (\<lambda>_. trim_space v)) g;
               g = put (ug_location req) (\<lambda>v. gp_location_update (\<lambda>_. trim_space v)) g;
               g = put (ug_latitude req) (\<lambda>v. gp_latitude_update (\<lambda>_. Some v)) g;
               g = put (ug_longitude req) (\<lambda>v. gp_longitude_update (\<lambda>_. Some v)) g;
               g = put (ug_metadata req) (\<lambda>v. gp_metadata_update (\<lambda>_. v)) g;
               g = put (ug_jump_chain req) (\<lambda>v. gp_jump_chain_update (\<lambda>_. Some v)) g;
               g = g\<lparr>gp_updated_at := now\<rparr>
           in (Inr g, m\<lparr>gs_groups := AList.update gid g (gs_groups m)\<rparr>)))"

definition reparent :: "string \<Rightarrow> string \<Rightarrow> gtime \<Rightarrow> group \<Rightarrow> group" where
  "reparent gid newParent now child =
     (if gp_parent child = gid then child\<lparr>gp_parent := newParent, gp_updated_at := now\<rparr> else child)"

definition DeleteGroup :: "group_store \<Rightarrow> gtime \<Rightarrow> string \<Rightarrow> store_error option \<times> group_store" where
  "DeleteGroup m now gid =
     (let gid = trim_space gid in
      case map_of (gs_groups m) gid of
        None \<Rightarrow> (Some ErrNotFound, m)
      | Some g \<Rightarrow>
          (let gs = map (\<lambda>(k, child). (k, reparent gid (gp_parent g) now child)) (gs_groups m)
           in (None, m\<lparr>gs_groups := AList.delete gid gs, gs_history := AList.delete gid (gs_history m)\<rparr>)))"

function is_ancestor_walk :: "(string \<times> group) list \<Rightarrow> string \<Rightarrow> string list \<Rightarrow> string \<Rightarrow> bool" where
  "is_ancestor_walk gs candidate visited current =
     (case map_of gs current of
        None \<Rightarrow> False
      | Some g \<Rightarrow>
          (let parent = gp_parent g in
           if parent = [] then False
           else if parent = candidate then True
           else if parent \<in> set visited then False
           else is_ancestor_walk gs candidate (parent # visited) parent))"
  by pat_completeness auto

termination
proof (relation "measure (\<lambda>(gs, c, visited, cur). card (gp_parent ` snd ` set gs - set visited))", goal_cases)
  case (2 gs candidate visited current g parent)
  then have "parent \<in> gp_parent ` snd ` set gs - set visited"
    by (force dest: map_of_SomeD)
  then have "gp_parent ` snd ` set gs - set (parent # visited) \<subset> gp_parent ` snd ` set gs - set visited"
    by auto
  then have "card (gp_parent ` snd ` set gs - set (parent # visited)) < card (gp_parent ` snd ` set gs - set visited)"
    by (intro psubset_card_mono) auto
  then show ?case by simp
qed simp

declare is_ancestor_walk.simps [simp del]

definition IsAncestor :: "group_store \<Rightarrow> string \<Rightarrow> string \<Rightarrow> bool" where
  "IsAncestor m candidateAncestorID descendantID =
     (let candidate = trim_space candidateAncestorID; descendant = trim_space descendantID
      in if candidate = [] \<or> descendant = [] then False
         else is_ancestor_walk (gs_groups m) candidate [] descendant)"

section \<open>The tree\<close>

text \<open>
  \<open>computeDepth\<close> walks the parents with a memo table and no guard against a cycle, so it may not
  return: \<open>None\<close> is a walk that never ends.
\<close>

partial_function (option) computeDepth ::
    "(string \<times> group) list \<Rightarrow> (string \<times> nat) list \<Rightarrow> string \<Rightarrow> (nat \<times> (string \<times> nat) list) option" where
  "computeDepth byID depthOf gid =
     (case map_of depthOf gid of
        Some d \<Rightarrow> Some (d, depthOf)
      | None \<Rightarrow>
          (case map_of byID gid of
             None \<Rightarrow> Some (0, AList.update gid 0 depthOf)
           | Some g \<Rightarrow>
               if gp_parent g = [] then Some (0, AList.update gid 0 depthOf)
               else Option.bind (computeDepth byID depthOf (gp_parent g))
                      (\<lambda>(d, memo). Some (d + 1, AList.update gid (d + 1) memo))))"

fun compute_depths :: "(string \<times> group) list \<Rightarrow> (string \<times> nat) list \<Rightarrow> group list \<Rightarrow> (string \<times> nat) list option" where
  "compute_depths byID depthOf [] = Some depthOf"
| "compute_depths byID depthOf (g # gs) =
     Option.bind (computeDepth byID depthOf (gp_id g)) (\<lambda>(_, memo). compute_depths byID memo gs)"

type_synonym flat_entry = "group \<times> nat"

text \<open>The nodes under construction: a heap of (group, depth, pointers to the children).\<close>

type_synonym tree_heap = "(group \<times> nat \<times> nat list) list"

datatype tree_node = TreeNode (node_group: group) (node_depth: nat) (node_children: "tree_node list")

fun toTreeNode :: "nat \<Rightarrow> tree_heap \<Rightarrow> nat \<Rightarrow> tree_node option" where
  "toTreeNode 0 heap i = None"
| "toTreeNode (Suc fuel) heap i =
     (case heap ! i of (g, d, children) \<Rightarrow>
        map_option (TreeNode g d) (those (map (toTreeNode fuel heap) children)))"

definition add_child :: "nat \<Rightarrow> (group \<times> nat \<times> nat list) \<Rightarrow> group \<times> nat \<times> nat list" where
  "add_child n nd = (case nd of (g, d, cs) \<Rightarrow> (g, d, cs @ [n]))"

fun build_nodes :: "tree_heap \<Rightarrow> (string \<times> nat) list \<Rightarrow> nat list \<Rightarrow> flat_entry list \<Rightarrow> tree_heap \<times> nat list" where
  "build_nodes heap nodeMap roots [] = (heap, roots)"
| "build_nodes heap nodeMap roots ((g, d) # flat) =
     (let n = length heap;
          heap = heap @ [(g, d, [])];
          nodeMap = AList.update (gp_id g) n nodeMap
      in if gp_parent g = [] then build_nodes heap nodeMap (roots @ [n]) flat
         else case map_of nodeMap (gp_parent g) of
                Some p \<Rightarrow> build_nodes (heap[p := add_child n (heap ! p)]) nodeMap roots flat
              | None \<Rightarrow> build_nodes heap nodeMap roots flat)"

text \<open>
  The conversion follows the child pointers with fuel one more than the number of nodes, which is
  enough whenever every child was appended after its parent (lemma \<open>build_forest\<close> below).
\<close>

definition buildGroupTree :: "flat_entry list \<Rightarrow> tree_node list option" where
  "buildGroupTree flat =
     (case build_nodes [] [] [] flat of (heap, roots) \<Rightarrow>
        those (map (toTreeNode (Suc (length heap)) heap) roots))"

definition GetGroupTree :: "group_store \<Rightarrow> tree_node list option" where
  "GetGroupTree m =
     (let everything = ListGroups m;
          byID = map (\<lambda>g. (gp_id g, g)) (rev everything)
      in Option.bind (compute_depths byID [] everything)
           (\<lambda>depthOf.
              let flat = map (\<lambda>g. (g, case map_of depthOf (gp_id g) of None \<Rightarrow> 0 | Some d \<Rightarrow> d)) everything;
                  flat = sort_key (\<lambda>(g, d). (d, gp_sort_order g, gp_name g)) flat
              in buildGroupTree flat))"

section \<open>Ancestors\<close>

definition parent_of :: "(string \<times> group) list \<Rightarrow> string \<Rightarrow> string option" where
  "parent_of gs x =
     (case map_of gs x of None \<Rightarrow> None | Some g \<Rightarrow> if gp_parent g = [] then None else Some (gp_parent g))"

definition parent_rel :: "(string \<times> group) list \<Rightarrow> (string \<times> string) set" where
  "parent_rel gs = {(x, p). parent_of gs x = Some p}"

lemma parent_rel_iff [simp]: "(x, p) \<in> parent_rel gs \<longleftrightarrow> parent_of gs x = Some p"
  by (simp add: parent_rel_def)

lemma parent_of_SomeD:
  assumes "parent_of gs x = Some p"
  obtains g where "map_of gs x = Some g" "gp_parent g = p" "p \<noteq> []"
  using assms by (auto simp: parent_of_def split: option.splits if_splits)

lemma finite_parent_rel [simp]: "finite (parent_rel gs)"
proof (rule finite_subset)
  show "parent_rel gs \<subseteq> fst ` set gs \<times> gp_parent ` snd ` set gs"
    by (force elim!: parent_of_SomeD dest!: map_of_SomeD simp: image_image)
qed simp

lemma parent_rel_functional: "(x, p) \<in> parent_rel gs \<Longrightarrow> (x, q) \<in> parent_rel gs \<Longrightarrow> p = q"
  by simp

lemma wf_parents: "acyclic (parent_rel gs) \<Longrightarrow> wf ((parent_rel gs)\<inverse>)"
  by (rule finite_acyclic_wf_converse) simp_all

lemma parent_trancl_cases:
  assumes "(x, a) \<in> (parent_rel gs)\<^sup>+"
  obtains p where "parent_of gs x = Some p" "p = a \<or> (p, a) \<in> (parent_rel gs)\<^sup>+"
  using assms by (meson parent_rel_iff tranclD rtranclD)

lemma walk_sound: "is_ancestor_walk gs c visited cur \<Longrightarrow> (cur, c) \<in> (parent_rel gs)\<^sup>+"
proof (induction gs c visited cur rule: is_ancestor_walk.induct)
  case (1 gs c visited cur)
  from "1.prems" obtain g where g: "map_of gs cur = Some g" "gp_parent g \<noteq> []"
    by (subst (asm) is_ancestor_walk.simps) (auto simp: Let_def split: option.splits if_splits)
  then have step: "(cur, gp_parent g) \<in> parent_rel gs"
    by (simp add: parent_of_def)
  show ?case
  proof (cases "gp_parent g = c")
    case True
    with step show ?thesis by (auto intro: r_into_trancl)
  next
    case False
    with "1.prems" g have *: "gp_parent g \<notin> set visited" "is_ancestor_walk gs c (gp_parent g # visited) (gp_parent g)"
      by (subst (asm) is_ancestor_walk.simps, simp add: Let_def split: if_splits)+
    from "1.IH" [OF g(1) refl g(2) False *] step show ?thesis
      by (meson trancl_into_trancl2)
  qed
qed

lemma closed_reach:
  assumes "(x, a) \<in> (parent_rel gs)\<^sup>+" "x \<in> V" "\<And>v. v \<in> V \<Longrightarrow> \<exists>w \<in> V. parent_of gs v = Some w"
  shows "a \<in> V"
  using assms(1,2)
proof (induction rule: trancl_induct)
  case (base y)
  then show ?case using assms(3) by fastforce
next
  case (step y z)
  then show ?case using assms(3) by fastforce
qed

lemma walk_complete:
  assumes "(cur, c) \<in> (parent_rel gs)\<^sup>+" "c \<notin> set visited"
    "\<And>v. v \<in> set visited \<Longrightarrow> v \<noteq> cur \<Longrightarrow> \<exists>w \<in> set visited. parent_of gs v = Some w"
  shows "is_ancestor_walk gs c visited cur"
  using assms
proof (induction gs c visited cur rule: is_ancestor_walk.induct)
  case (1 gs c visited cur)
  from "1.prems"(1) obtain p where p: "parent_of gs cur = Some p" "p = c \<or> (p, c) \<in> (parent_rel gs)\<^sup>+"
    by (rule parent_trancl_cases)
  from p(1) obtain g where g: "map_of gs cur = Some g" "gp_parent g = p" "p \<noteq> []"
    by (rule parent_of_SomeD)
  show ?case
  proof (cases "p = c")
    case True
    with g show ?thesis by (subst is_ancestor_walk.simps) simp
  next
    case False
    with p have reach: "(p, c) \<in> (parent_rel gs)\<^sup>+" by simp
    have new: "p \<notin> set visited"
      using closed_reach [OF reach, of "set visited"] "1.prems"(2,3) p(1) by blast
    have "is_ancestor_walk gs c (p # visited) p"
      using "1.IH" [OF g(1) refl _ _ _ _ _] g False new reach "1.prems"(2,3) p(1) by fastforce
    with g False new show ?thesis by (subst is_ancestor_walk.simps) simp
  qed
qed

text \<open>The guarded walk decides ancestry, on cyclic stores too.\<close>

lemma IsAncestor_iff:
  "IsAncestor m a d \<longleftrightarrow>
     trim_space a \<noteq> [] \<and> trim_space d \<noteq> [] \<and> (trim_space d, trim_space a) \<in> (parent_rel (gs_groups m))\<^sup>+"
  by (auto simp: IsAncestor_def Let_def intro: walk_sound walk_complete)

section \<open>Depths\<close>

inductive depth_is :: "(string \<times> group) list \<Rightarrow> string \<Rightarrow> nat \<Rightarrow> bool" for gs where
  top: "parent_of gs x = None \<Longrightarrow> depth_is gs x 0"
| below: "parent_of gs x = Some p \<Longrightarrow> depth_is gs p d \<Longrightarrow> depth_is gs x (Suc d)"

inductive_cases depth_isE: "depth_is gs x d"

lemma depth_is_fun:
  assumes "depth_is gs x d" "depth_is gs x e"
  shows "d = e"
  using assms
proof (induction arbitrary: e rule: depth_is.induct)
  case (top x)
  from top.prems top.hyps show ?case by cases simp_all
next
  case (below x p d)
  from below.prems below.hyps(1) below.IH show ?case by cases simp_all
qed

lemma depth_parent:
  assumes "depth_is gs x d" "parent_of gs x = Some p"
  shows "\<exists>e. d = Suc e \<and> depth_is gs p e"
  using assms by cases simp_all

lemma depth_less:
  assumes "(x, a) \<in> (parent_rel gs)\<^sup>+" "depth_is gs x d"
  shows "\<exists>e < d. depth_is gs a e"
  using assms
proof (induction arbitrary: d rule: trancl_induct)
  case (base y)
  with depth_parent [of gs x d y] show ?case by auto
next
  case (step y z)
  then obtain e where e: "e < d" "depth_is gs y e" by blast
  with step.hyps obtain e' where "e = Suc e'" "depth_is gs z e'" using depth_parent [of gs y e z] by auto
  with e(1) show ?case by (intro exI [of _ e']) simp
qed

lemma depth_no_cycle: "depth_is gs x d \<Longrightarrow> (x, x) \<notin> (parent_rel gs)\<^sup>+"
  using depth_less depth_is_fun by blast

lemma acyclic_depth:
  assumes "acyclic (parent_rel gs)"
  shows "\<exists>d. depth_is gs x d"
  using wf_parents [OF assms]
proof (induction x rule: wf_induct_rule)
  case (less x)
  show ?case
  proof (cases "parent_of gs x")
    case None
    then show ?thesis by (blast intro: depth_is.top)
  next
    case (Some p)
    with less [of p] obtain d where "depth_is gs p d" by auto
    with Some show ?thesis by (blast intro: depth_is.below)
  qed
qed

definition memo_ok :: "(string \<times> group) list \<Rightarrow> (string \<times> nat) list \<Rightarrow> bool" where
  "memo_ok gs memo = (\<forall>x d. map_of memo x = Some d \<longrightarrow> depth_is gs x d)"

lemma memo_ok_update: "memo_ok gs memo \<Longrightarrow> depth_is gs x d \<Longrightarrow> memo_ok gs (AList.update x d memo)"
  by (simp add: memo_ok_def)

lemma computeDepth_sound:
  assumes "computeDepth gs memo x = Some (d, memo')" "memo_ok gs memo"
  shows "depth_is gs x d \<and> memo_ok gs memo' \<and> map_of memo' x = Some d \<and>
    (\<forall>y. map_of memo y \<noteq> None \<longrightarrow> map_of memo' y \<noteq> None)"
proof -
  have "memo_ok gs memo \<longrightarrow> (case r of (d, memo') \<Rightarrow> depth_is gs x d \<and> memo_ok gs memo' \<and> map_of memo' x = Some d \<and>
    (\<forall>y. map_of memo y \<noteq> None \<longrightarrow> map_of memo' y \<noteq> None))"
    if "computeDepth gs memo x = Some r" for r
    using that
  proof (induction rule: computeDepth.raw_induct [rotated, consumes 1, case_names step])
    case (step computeDepth gs memo x r)
    show ?case
    proof (cases "map_of memo x")
      case (Some d)
      with step.hyps show ?thesis by (auto simp: memo_ok_def)
    next
      case None
      show ?thesis
      proof (cases "parent_of gs x")
        case root: None
        then have "r = (0, AList.update x 0 memo)"
          using step.hyps \<open>map_of memo x = None\<close> by (auto simp: parent_of_def split: option.splits if_splits)
        with root show ?thesis by (auto intro: depth_is.top memo_ok_update)
      next
        case (Some p)
        then obtain g where g: "map_of gs x = Some g" "gp_parent g = p" "p \<noteq> []"
          by (rule parent_of_SomeD)
        with step.hyps \<open>map_of memo x = None\<close> obtain d memo1 where
          rec: "computeDepth gs memo p = Some (d, memo1)" and r: "r = (Suc d, AList.update x (Suc d) memo1)"
          by (auto simp: Option.bind_eq_Some_conv split: prod.splits)
        from step.IH [OF rec] r Some show ?thesis by (auto intro: depth_is.below memo_ok_update)
      qed
    qed
  qed
  from this [OF assms(1)] assms(2) show ?thesis by simp
qed

lemma computeDepth_total:
  assumes "depth_is gs x d"
  shows "\<exists>r. computeDepth gs memo x = Some r"
  using assms
proof (induction arbitrary: memo rule: depth_is.induct)
  case (top x)
  then show ?case
    by (subst computeDepth.simps) (auto simp: parent_of_def split: option.splits if_splits)
next
  case (below x p d)
  from below.hyps(1) obtain g where g: "map_of gs x = Some g" "gp_parent g = p" "p \<noteq> []"
    by (rule parent_of_SomeD)
  obtain d' memo' where "computeDepth gs memo p = Some (d', memo')"
    using below.IH [of memo] by auto
  with g show ?case
    by (subst computeDepth.simps) (auto split: option.splits)
qed

text \<open>The walk over all groups returns exactly when no group is its own ancestor.\<close>

lemma compute_depths_sound:
  assumes "compute_depths gs memo xs = Some memo'" "memo_ok gs memo"
  shows "memo_ok gs memo' \<and> (\<forall>y. map_of memo y \<noteq> None \<longrightarrow> map_of memo' y \<noteq> None) \<and>
    (\<forall>g \<in> set xs. \<exists>d. map_of memo' (gp_id g) = Some d \<and> depth_is gs (gp_id g) d)"
  using assms
proof (induction xs arbitrary: memo)
  case (Cons g xs)
  then obtain d memo1 where 1: "computeDepth gs memo (gp_id g) = Some (d, memo1)"
    and 2: "compute_depths gs memo1 xs = Some memo'"
    by (auto simp: Option.bind_eq_Some_conv)
  from computeDepth_sound [OF 1 Cons.prems(2)] Cons.IH [OF 2] show ?case
    by (fastforce simp: memo_ok_def)
qed simp

lemma compute_depths_total:
  assumes "\<And>g. g \<in> set xs \<Longrightarrow> \<exists>d. depth_is gs (gp_id g) d"
  shows "\<exists>memo'. compute_depths gs memo xs = Some memo'"
  using assms
proof (induction xs arbitrary: memo)
  case (Cons g xs)
  then obtain d where "depth_is gs (gp_id g) d" by auto
  with computeDepth_total obtain d' memo1 where "computeDepth gs memo (gp_id g) = Some (d', memo1)"
    by (metis surj_pair)
  with Cons show ?case by simp
qed simp

end
