(* ===== verification/Group_Tree.thy ===== *)
theory Group_Tree
  imports Group_Store
begin

text \<open>
  Correctness of the group tree: \<open>buildGroupTree\<close> turns a list sorted by depth into a forest in which
  every group with an unbroken chain of parents occurs exactly once, below its parent;
  \<open>GetGroupTree\<close> returns exactly when no group is its own ancestor; and the operations of the store
  that keep the parents acyclic.
\<close>

section \<open>Building the tree\<close>

abbreviation children :: "tree_heap \<Rightarrow> nat \<Rightarrow> nat list" where
  "children heap i \<equiv> snd (snd (heap ! i))"

text \<open>The nodes reached from a node, counted with multiplicity.\<close>

fun desc :: "nat \<Rightarrow> tree_heap \<Rightarrow> nat \<Rightarrow> nat multiset" where
  "desc 0 heap i = {#}"
| "desc (Suc f) heap i = add_mset i (\<Sum>c \<leftarrow> children heap i. desc f heap c)"

definition heap_ok :: "tree_heap \<Rightarrow> bool" where
  "heap_ok heap = (\<forall>i < length heap. \<forall>c \<in> set (children heap i). i < c \<and> c < length heap)"

lemma heap_okD: "heap_ok heap \<Longrightarrow> i < length heap \<Longrightarrow> c \<in> set (children heap i) \<Longrightarrow> i < c \<and> c < length heap"
  unfolding heap_ok_def by blast

lemma those_map_Some: "(\<And>x. x \<in> set xs \<Longrightarrow> f x = Some (g x)) \<Longrightarrow> those (map f xs) = Some (map g xs)"
  by (induction xs) auto

fun tree_groups :: "tree_node \<Rightarrow> group list" where
  "tree_groups (TreeNode g d cs) = g # concat (map tree_groups cs)"

text \<open>Every node is at the depth of its level, below the group that is its parent.\<close>

fun linked :: "string \<Rightarrow> nat \<Rightarrow> tree_node \<Rightarrow> bool" where
  "linked p k (TreeNode g d cs) = (gp_parent g = p \<and> d = k \<and> list_all (linked (gp_id g) (Suc k)) cs)"

definition heap_linked :: "tree_heap \<Rightarrow> bool" where
  "heap_linked heap =
     (\<forall>i < length heap. \<forall>c \<in> set (children heap i).
        gp_parent (fst (heap ! c)) = gp_id (fst (heap ! i)) \<and> fst (snd (heap ! c)) = Suc (fst (snd (heap ! i))))"

lemma toTreeNode_total:
  assumes "heap_ok heap" "heap_linked heap"
  shows "i < length heap \<Longrightarrow> length heap \<le> fuel + i \<Longrightarrow>
    \<exists>t. toTreeNode fuel heap i = Some t \<and> linked (gp_parent (fst (heap ! i))) (fst (snd (heap ! i))) t \<and>
        mset (tree_groups t) = image_mset (\<lambda>j. fst (heap ! j)) (desc fuel heap i)"
proof (induction fuel arbitrary: i)
  case (Suc fuel)
  let ?P = "\<lambda>c t. toTreeNode fuel heap c = Some t \<and> linked (gp_parent (fst (heap ! c))) (fst (snd (heap ! c))) t \<and>
    mset (tree_groups t) = image_mset (\<lambda>j. fst (heap ! j)) (desc fuel heap c)"
  obtain g d cs where h: "heap ! i = (g, d, cs)" by (metis prod_cases3)
  have "\<exists>t. ?P c t" if "c \<in> set cs" for c
    using heap_okD [OF assms(1) Suc.prems(1), of c] that h Suc.prems(2) by (intro Suc.IH) auto
  then obtain T where T: "\<And>c. c \<in> set cs \<Longrightarrow> ?P c (T c)" by metis
  have "mset (concat (map tree_groups (map T cs))) = image_mset (\<lambda>j. fst (heap ! j)) (\<Sum>c \<leftarrow> cs. desc fuel heap c)"
    using T by (induction cs) auto
  moreover have "list_all (linked (gp_id g) (Suc d)) (map T cs)"
    using T h assms(2) Suc.prems(1) by (fastforce simp: list_all_iff heap_linked_def)
  moreover have "toTreeNode (Suc fuel) heap i = Some (TreeNode g d (map T cs))"
    using T h by (simp add: those_map_Some)
  ultimately show ?case by (intro exI [of _ "TreeNode g d (map T cs)"]) (simp add: h)
qed simp

lemma sum_list_desc_cong:
  "(\<And>c. c \<in> set cs \<Longrightarrow> F c = G c) \<Longrightarrow> (\<Sum>c \<leftarrow> cs. F c) = (\<Sum>c \<leftarrow> cs. (G c :: nat multiset))"
  by (simp cong: map_cong)

lemma desc_append:
  assumes "heap_ok heap" "i < length heap"
  shows "desc f (heap @ [x]) i = desc f heap i"
  using assms(2)
proof (induction f arbitrary: i)
  case (Suc f)
  have "(\<Sum>c \<leftarrow> children heap i. desc f (heap @ [x]) c) = (\<Sum>c \<leftarrow> children heap i. desc f heap c)"
    by (rule sum_list_desc_cong, rule Suc.IH) (blast dest: heap_okD [OF assms(1) Suc.prems])
  with Suc.prems show ?case by (simp add: nth_append)
qed simp

lemma desc_range: "heap_ok heap \<Longrightarrow> i < length heap \<Longrightarrow> j \<in># desc f heap i \<Longrightarrow> i \<le> j \<and> j < length heap"
proof (induction f arbitrary: i)
  case (Suc f)
  then have "j = i \<or> (\<exists>c \<in> set (children heap i). j \<in># desc f heap c)"
    by auto
  then show ?case
  proof
    assume "j = i"
    with Suc.prems(2) show ?thesis by simp
  next
    assume "\<exists>c \<in> set (children heap i). j \<in># desc f heap c"
    then obtain c where c: "c \<in> set (children heap i)" "j \<in># desc f heap c" ..
    from heap_okD [OF Suc.prems(1,2) c(1)] Suc.IH [OF Suc.prems(1) _ c(2)] show ?thesis by simp
  qed
qed simp

definition link_leaf :: "tree_heap \<Rightarrow> group \<Rightarrow> nat \<Rightarrow> nat \<Rightarrow> tree_heap" where
  "link_leaf heap g d p = (heap @ [(g, d, [])])[p := add_child (length heap) (heap ! p)]"

lemma link_leaf_simps:
  assumes "p < length heap" "i < Suc (length heap)"
  shows "children (link_leaf heap g d p) i =
      (if i = length heap then [] else if i = p then children heap p @ [length heap] else children heap i)"
    and "fst (link_leaf heap g d p ! i) = (if i = length heap then g else fst (heap ! i))"
    and "fst (snd (link_leaf heap g d p ! i)) = (if i = length heap then d else fst (snd (heap ! i)))"
  using assms by (auto simp: link_leaf_def nth_append nth_list_update add_child_def split: prod.splits)

lemma length_link_leaf [simp]: "length (link_leaf heap g d p) = Suc (length heap)"
  by (simp add: link_leaf_def)

text \<open>Linking a new leaf below a node adds the leaf once for every time the node is reached.\<close>

lemma desc_add_leaf:
  assumes ok: "heap_ok heap" and p: "p < length heap"
    and heap': "heap' = link_leaf heap g d p"
  shows "i < length heap \<Longrightarrow> length heap < f + i \<Longrightarrow>
    desc f heap' i = desc f heap i + replicate_mset (count (desc f heap i) p) (length heap)"
proof (induction f arbitrary: i)
  case (Suc f)
  let ?n = "length heap"
  have rep: "(\<Sum>c \<leftarrow> cs. desc f heap c + replicate_mset (count (desc f heap c) p) ?n) =
      (\<Sum>c \<leftarrow> cs. desc f heap c) + replicate_mset (count (\<Sum>c \<leftarrow> cs. desc f heap c) p) ?n" for cs
    by (induction cs) (auto intro!: multiset_eqI)
  have kids: "(\<Sum>c \<leftarrow> children heap i. desc f heap' c) =
      (\<Sum>c \<leftarrow> children heap i. desc f heap c + replicate_mset (count (desc f heap c) p) ?n)"
  proof (rule sum_list_desc_cong)
    fix c
    assume "c \<in> set (children heap i)"
    from heap_okD [OF ok Suc.prems(1) this] Suc.prems(2)
    show "desc f heap' c = desc f heap c + replicate_mset (count (desc f heap c) p) ?n"
      by (intro Suc.IH) simp_all
  qed
  show ?case
  proof (cases "i = p")
    case True
    have leaf: "desc f heap' ?n = {#?n#}"
      using Suc.prems p True by (cases f) (auto simp: heap' link_leaf_simps(1))
    have "p \<notin># (\<Sum>c \<leftarrow> children heap p. desc f heap c)"
    proof
      assume "p \<in># (\<Sum>c \<leftarrow> children heap p. desc f heap c)"
      then obtain c where c: "c \<in> set (children heap p)" "p \<in># desc f heap c" by auto
      from heap_okD [OF ok p c(1)] desc_range [OF ok _ c(2)] show False by auto
    qed
    then have none: "count (\<Sum>c \<leftarrow> children heap p. desc f heap c) p = 0"
      by (rule count_eq_zero_iff [THEN iffD2])
    have "children heap' p = children heap p @ [?n]"
      using p by (simp add: heap' link_leaf_simps(1))
    with True leaf none kids rep show ?thesis by simp
  next
    case False
    then have "children heap' i = children heap i"
      using Suc.prems(1) p by (simp add: heap' link_leaf_simps(1))
    with False kids rep show ?thesis by simp
  qed
qed simp

definition rooted :: "(string \<times> group) list \<Rightarrow> string \<Rightarrow> bool" where
  "rooted gs x = (\<exists>r g. (x, r) \<in> (parent_rel gs)\<^sup>* \<and> map_of gs r = Some g \<and> gp_parent g = [])"

lemma rooted_top: "map_of gs x = Some g \<Longrightarrow> gp_parent g = [] \<Longrightarrow> rooted gs x"
  by (auto simp: rooted_def)

lemma rooted_parent:
  assumes "parent_of gs x = Some p"
  shows "rooted gs x \<longleftrightarrow> rooted gs p"
proof
  assume "rooted gs x"
  then obtain r g where r: "(x, r) \<in> (parent_rel gs)\<^sup>*" "map_of gs r = Some g" "gp_parent g = []"
    by (auto simp: rooted_def)
  from r(1) have "(p, r) \<in> (parent_rel gs)\<^sup>*"
  proof (cases rule: converse_rtranclE)
    case base
    with r assms show ?thesis by (simp add: parent_of_def)
  qed (use assms in simp)
  with r show "rooted gs p" by (auto simp: rooted_def)
next
  assume "rooted gs p"
  with assms show "rooted gs x"
    unfolding rooted_def by (meson converse_rtrancl_into_rtrancl parent_rel_iff)
qed

lemma not_rooted_missing:
  assumes "map_of gs x = None"
  shows "\<not> rooted gs x"
proof
  assume "rooted gs x"
  then obtain r g where r: "(x, r) \<in> (parent_rel gs)\<^sup>*" "map_of gs r = Some g" by (auto simp: rooted_def)
  from r(1) show False
    by (cases rule: converse_rtranclE) (use assms r(2) in \<open>auto simp: parent_of_def\<close>)
qed

definition forest ::
    "(string \<times> group) list \<Rightarrow> flat_entry list \<Rightarrow> tree_heap \<Rightarrow> (string \<times> nat) list \<Rightarrow> nat list \<Rightarrow> bool" where
  "forest gs entries heap nodeMap roots =
     (map (\<lambda>(g, d, cs). (g, d)) heap = entries \<and> heap_ok heap \<and> heap_linked heap \<and>
      (\<forall>x i. map_of nodeMap x = Some i \<longleftrightarrow> i < length heap \<and> gp_id (fst (heap ! i)) = x) \<and>
      (\<forall>r \<in> set roots. r < length heap \<and> gp_parent (fst (heap ! r)) = [] \<and> fst (snd (heap ! r)) = 0) \<and>
      (\<forall>f j. length heap < f \<longrightarrow> count (\<Sum>r \<leftarrow> roots. desc f heap r) j =
         (if j < length heap \<and> rooted gs (gp_id (fst (heap ! j))) then 1 else 0)))"

text \<open>What an entry of the flat list must satisfy when it is processed after \<open>entries\<close>.\<close>

definition entry_ok :: "(string \<times> group) list \<Rightarrow> flat_entry list \<Rightarrow> flat_entry \<Rightarrow> bool" where
  "entry_ok gs entries e =
     (case e of (g, d) \<Rightarrow>
        map_of gs (gp_id g) = Some g \<and> depth_is gs (gp_id g) d \<and> gp_id g \<notin> gp_id ` fst ` set entries \<and>
        (\<forall>h. gp_parent g \<noteq> [] \<and> map_of gs (gp_parent g) = Some h \<longrightarrow>
           (\<exists>k. (h, k) \<in> set entries \<and> gp_id h = gp_parent g \<and> depth_is gs (gp_id h) k)))"

lemma forest_len: "forest gs entries heap nodeMap roots \<Longrightarrow> length entries = length heap"
  by (auto simp: forest_def)

lemma forest_entry: "forest gs entries heap nodeMap roots \<Longrightarrow> i < length heap \<Longrightarrow>
    entries ! i = (fst (heap ! i), fst (snd (heap ! i)))"
  by (auto simp: forest_def split: prod.splits)

lemma heap_ok_snoc:
  assumes "heap_ok heap"
  shows "heap_ok (heap @ [(g, d, [])])"
  unfolding heap_ok_def
proof (intro allI impI ballI)
  fix i c
  assume i: "i < length (heap @ [(g, d, [])])" and c: "c \<in> set (children (heap @ [(g, d, [])]) i)"
  then have "i < length heap" "c \<in> set (children heap i)"
    by (auto simp: nth_append split: if_splits)
  from heap_okD [OF assms this] show "i < c \<and> c < length (heap @ [(g, d, [])])" by simp
qed

lemma heap_linked_snoc:
  assumes "heap_ok heap" "heap_linked heap"
  shows "heap_linked (heap @ [(g, d, [])])"
  unfolding heap_linked_def
proof (intro allI impI ballI)
  fix i c
  assume i: "i < length (heap @ [(g, d, [])])" and c: "c \<in> set (children (heap @ [(g, d, [])]) i)"
  then have ic: "i < length heap" "c \<in> set (children heap i)"
    by (auto simp: nth_append split: if_splits)
  with heap_okD [OF assms(1) ic] assms(2)
  show "gp_parent (fst ((heap @ [(g, d, [])]) ! c)) = gp_id (fst ((heap @ [(g, d, [])]) ! i)) \<and>
      fst (snd ((heap @ [(g, d, [])]) ! c)) = Suc (fst (snd ((heap @ [(g, d, [])]) ! i)))"
    unfolding heap_linked_def by (simp add: nth_append)
qed

lemma link_leaf_child_cases:
  assumes "p < length heap" "i < Suc (length heap)" "c \<in> set (children (link_leaf heap g d p) i)"
  obtains (old) "i < length heap" "c \<in> set (children heap i)" | (new) "i = p" "c = length heap"
  using assms by (auto simp: link_leaf_simps(1) split: if_splits)

lemma heap_ok_link:
  assumes "heap_ok heap" "p < length heap"
  shows "heap_ok (link_leaf heap g d p)"
  unfolding heap_ok_def
proof (intro allI impI ballI)
  fix i c
  assume i: "i < length (link_leaf heap g d p)" and c: "c \<in> set (children (link_leaf heap g d p) i)"
  from i have i': "i < Suc (length heap)" by simp
  from assms(2) i' c show "i < c \<and> c < length (link_leaf heap g d p)"
  proof (cases rule: link_leaf_child_cases)
    case old
    from heap_okD [OF assms(1) this] show ?thesis by simp
  qed (use assms(2) in simp)
qed

lemma heap_linked_link:
  assumes "heap_ok heap" "heap_linked heap" "p < length heap"
    "gp_parent g = gp_id (fst (heap ! p))" "d = Suc (fst (snd (heap ! p)))"
  shows "heap_linked (link_leaf heap g d p)" (is "heap_linked ?h")
  unfolding heap_linked_def
proof (intro allI impI ballI)
  fix i c
  assume i: "i < length ?h" and c: "c \<in> set (children ?h i)"
  from i have i': "i < Suc (length heap)" by simp
  from assms(3) i' c show "gp_parent (fst (?h ! c)) = gp_id (fst (?h ! i)) \<and> fst (snd (?h ! c)) = Suc (fst (snd (?h ! i)))"
  proof (cases rule: link_leaf_child_cases)
    case old
    from heap_okD [OF assms(1) old] have "c < length heap" by simp
    with old assms(2) have "gp_parent (fst (heap ! c)) = gp_id (fst (heap ! i))"
      "fst (snd (heap ! c)) = Suc (fst (snd (heap ! i)))" by (auto simp: heap_linked_def)
    with \<open>c < length heap\<close> old(1) show ?thesis by (simp add: link_leaf_simps(2,3) [OF assms(3)])
  next
    case new
    with assms(3-) show ?thesis by (simp add: link_leaf_simps(2,3) [OF assms(3)])
  qed
qed

text \<open>One entry more.\<close>

lemma forestD:
  assumes "forest gs es heap nm roots"
  shows "heap_ok heap" "heap_linked heap" "map (\<lambda>(g, d, cs). (g, d)) heap = es"
    "map_of nm x = Some i \<longleftrightarrow> i < length heap \<and> gp_id (fst (heap ! i)) = x"
    "r \<in> set roots \<Longrightarrow> r < length heap \<and> gp_parent (fst (heap ! r)) = [] \<and> fst (snd (heap ! r)) = 0"
    "length heap < f \<Longrightarrow> count (\<Sum>r \<leftarrow> roots. desc f heap r) j =
         (if j < length heap \<and> rooted gs (gp_id (fst (heap ! j))) then 1 else 0)"
  using assms unfolding forest_def by blast+

lemma forest_fresh:
  assumes "forest gs es heap nm roots" "entry_ok gs es (g, d)" "i < length heap"
  shows "gp_id (fst (heap ! i)) \<noteq> gp_id g"
proof -
  from forest_entry [OF assms(1,3)] forest_len [OF assms(1)] assms(3) have "fst (heap ! i) \<in> fst ` set es"
    by (metis fst_conv imageI nth_mem)
  then have "gp_id (fst (heap ! i)) \<in> gp_id ` fst ` set es" by (rule imageI)
  with assms(2) show ?thesis unfolding entry_ok_def by force
qed

lemma forest_extend:
  assumes F: "forest gs es heap nm roots" and E: "entry_ok gs es (g, d)"
    and ok: "heap_ok h" "heap_linked h" and len: "length h = Suc (length heap)"
    and g: "\<And>i. i < Suc (length heap) \<Longrightarrow> fst (h ! i) = (if i = length heap then g else fst (heap ! i))"
    and d: "\<And>i. i < Suc (length heap) \<Longrightarrow> fst (snd (h ! i)) = (if i = length heap then d else fst (snd (heap ! i)))"
    and roots: "set roots' \<subseteq> insert (length heap) (set roots)" "length heap \<in> set roots' \<Longrightarrow> gp_parent g = [] \<and> d = 0"
    and cnt: "\<And>f. Suc (length heap) < f \<Longrightarrow> (\<Sum>r \<leftarrow> roots'. desc f h r) =
      (\<Sum>r \<leftarrow> roots. desc f heap r) + (if rooted gs (gp_id g) then {#length heap#} else {#})"
  shows "forest gs (es @ [(g, d)]) h (AList.update (gp_id g) (length heap) nm) roots'"
  unfolding forest_def
proof (intro conjI allI ballI impI)
  let ?n = "length heap"
  show "map (\<lambda>(g, d, cs). (g, d)) h = es @ [(g, d)]"
  proof (rule nth_equalityI)
    show "length (map (\<lambda>(g, d, cs). (g, d)) h) = length (es @ [(g, d)])"
      using len forest_len [OF F] by simp
    fix i
    assume "i < length (map (\<lambda>(g, d, cs). (g, d)) h)"
    then show "map (\<lambda>(g, d, cs). (g, d)) h ! i = (es @ [(g, d)]) ! i"
      using len g [of i] d [of i] forest_len [OF F] forest_entry [OF F, of i]
      by (auto simp: nth_append case_prod_beta less_Suc_eq split: if_splits)
  qed
  show "heap_ok h" "heap_linked h" by fact+
  show "map_of (AList.update (gp_id g) ?n nm) x = Some i \<longleftrightarrow> i < length h \<and> gp_id (fst (h ! i)) = x" for x i
    using forestD(4) [OF F, of x i] forest_fresh [OF F E, of i] g [of i] len by (auto simp: less_Suc_eq)
  show "r < length h" "gp_parent (fst (h ! r)) = []" "fst (snd (h ! r)) = 0" if "r \<in> set roots'" for r
    using forestD(5) [OF F, of r] that roots g [of r] d [of r] len by (auto split: if_splits)
  show "count (\<Sum>r \<leftarrow> roots'. desc f h r) j = (if j < length h \<and> rooted gs (gp_id (fst (h ! j))) then 1 else 0)"
    if "length h < f" for f j
    using that forestD(6) [OF F, of f j] cnt [of f] len g [of j] by (auto simp: less_Suc_eq)
qed

lemma forest_snoc:
  assumes F: "forest gs es heap nm roots" and E: "entry_ok gs es (g, d)" and new: "\<not> rooted gs (gp_id g)"
  shows "forest gs (es @ [(g, d)]) (heap @ [(g, d, [])]) (AList.update (gp_id g) (length heap) nm) roots"
proof (rule forest_extend [OF F E])
  show "(\<Sum>r \<leftarrow> roots. desc f (heap @ [(g, d, [])]) r) =
      (\<Sum>r \<leftarrow> roots. desc f heap r) + (if rooted gs (gp_id g) then {#length heap#} else {#})" for f
    using new by (simp add: sum_list_desc_cong [OF desc_append [OF forestD(1) [OF F] conjunct1 [OF forestD(5) [OF F]]]])
qed (use forestD(1,2) [OF F] forestD(5) [OF F] in \<open>auto simp: nth_append less_Suc_eq heap_ok_snoc heap_linked_snoc\<close>)

lemma forest_root:
  assumes F: "forest gs es heap nm roots" and E: "entry_ok gs es (g, d)" and root: "gp_parent g = []"
  shows "forest gs (es @ [(g, d)]) (heap @ [(g, d, [])]) (AList.update (gp_id g) (length heap) nm) (roots @ [length heap])"
proof (rule forest_extend [OF F E])
  have g: "map_of gs (gp_id g) = Some g" "depth_is gs (gp_id g) d" using E by (auto simp: entry_ok_def)
  then have rooted: "rooted gs (gp_id g)" using root by (auto intro: rooted_top)
  have leaf: "desc f (heap @ [(g, d, [])]) (length heap) = {#length heap#}" if "Suc (length heap) < f" for f
    using that by (cases f) auto
  show "(\<Sum>r \<leftarrow> roots @ [length heap]. desc f (heap @ [(g, d, [])]) r) =
      (\<Sum>r \<leftarrow> roots. desc f heap r) + (if rooted gs (gp_id g) then {#length heap#} else {#})"
    if "Suc (length heap) < f" for f
    using rooted leaf [OF that]
    by (simp add: sum_list_desc_cong [OF desc_append [OF forestD(1) [OF F] conjunct1 [OF forestD(5) [OF F]]]])
  have "parent_of gs (gp_id g) = None" using g(1) root by (simp add: parent_of_def)
  then have "d = 0" using depth_is_fun [OF g(2) depth_is.top] by simp
  with root show "gp_parent g = [] \<and> d = 0" by simp
qed (use forestD(1,2) [OF F] in \<open>auto simp: nth_append less_Suc_eq heap_ok_snoc heap_linked_snoc\<close>)

lemma forest_link:
  assumes F: "forest gs es heap nm roots" and E: "entry_ok gs es (g, d)"
    and p: "p < length heap" "gp_id (fst (heap ! p)) = gp_parent g" "gp_parent g \<noteq> []"
      "d = Suc (fst (snd (heap ! p)))"
  shows "forest gs (es @ [(g, d)]) (link_leaf heap g d p) (AList.update (gp_id g) (length heap) nm) roots"
proof (rule forest_extend [OF F E])
  have "parent_of gs (gp_id g) = Some (gp_parent g)"
    using E p(3) by (simp add: entry_ok_def parent_of_def)
  then have rooted: "rooted gs (gp_id g) \<longleftrightarrow> rooted gs (gp_id (fst (heap ! p)))"
    using rooted_parent p(2) by metis
  show "(\<Sum>r \<leftarrow> roots. desc f (link_leaf heap g d p) r) =
      (\<Sum>r \<leftarrow> roots. desc f heap r) + (if rooted gs (gp_id g) then {#length heap#} else {#})"
    if f: "Suc (length heap) < f" for f
  proof -
    have "(\<Sum>r \<leftarrow> roots. desc f (link_leaf heap g d p) r) =
        (\<Sum>r \<leftarrow> roots. desc f heap r + replicate_mset (count (desc f heap r) p) (length heap))"
      using f forestD(5) [OF F]
      by (intro sum_list_desc_cong desc_add_leaf [OF forestD(1) [OF F] p(1) refl]) auto
    also have "\<dots> = (\<Sum>r \<leftarrow> roots. desc f heap r) +
        replicate_mset (count (\<Sum>r \<leftarrow> roots. desc f heap r) p) (length heap)"
      by (induction roots) (auto intro!: multiset_eqI)
    finally show ?thesis using forestD(6) [OF F, of f p] f p(1) rooted by auto
  qed
qed (use forestD(1,2) [OF F] forestD(5) [OF F] p in
    \<open>auto simp: link_leaf_simps heap_ok_link heap_linked_link\<close>)

definition placed :: "(string \<times> group) list \<Rightarrow> flat_entry list \<Rightarrow> bool" where
  "placed gs es = (\<forall>(g, d) \<in> set es. map_of gs (gp_id g) = Some g \<and> depth_is gs (gp_id g) d)"

lemma placedD: "placed gs es \<Longrightarrow> (g, d) \<in> set es \<Longrightarrow> map_of gs (gp_id g) = Some g \<and> depth_is gs (gp_id g) d"
  unfolding placed_def by blast

fun entries_ok :: "(string \<times> group) list \<Rightarrow> flat_entry list \<Rightarrow> flat_entry list \<Rightarrow> bool" where
  "entries_ok gs es [] = True"
| "entries_ok gs es (e # flat) = (entry_ok gs es e \<and> entries_ok gs (es @ [e]) flat)"

lemma forest_step_cases:
  assumes F: "forest gs es heap nm roots" and P: "placed gs es" and E: "entry_ok gs es (g, d)"
    and nonroot: "gp_parent g \<noteq> []"
  obtains (parent) p where "map_of (AList.update (gp_id g) (length heap) nm) (gp_parent g) = Some p" "p < length heap"
      "forest gs (es @ [(g, d)]) (link_leaf heap g d p) (AList.update (gp_id g) (length heap) nm) roots"
  | (orphan) "map_of (AList.update (gp_id g) (length heap) nm) (gp_parent g) = None"
      "forest gs (es @ [(g, d)]) (heap @ [(g, d, [])]) (AList.update (gp_id g) (length heap) nm) roots"
proof -
  have g: "map_of gs (gp_id g) = Some g" "depth_is gs (gp_id g) d" using E by (auto simp: entry_ok_def)
  have par: "parent_of gs (gp_id g) = Some (gp_parent g)" using g(1) nonroot by (simp add: parent_of_def)
  obtain e where e: "d = Suc e" "depth_is gs (gp_parent g) e" using depth_parent [OF g(2) par] by auto
  have ne: "gp_parent g \<noteq> gp_id g"
  proof
    assume "gp_parent g = gp_id g"
    with depth_is_fun [OF g(2)] e show False by (metis n_not_Suc_n)
  qed
  show thesis
  proof (cases "map_of nm (gp_parent g)")
    case (Some p)
    then have p: "p < length heap" "gp_id (fst (heap ! p)) = gp_parent g" using forestD(4) [OF F] by auto
    have "(fst (heap ! p), fst (snd (heap ! p))) \<in> set es"
      using forest_entry [OF F p(1)] forest_len [OF F] p(1) by (metis nth_mem)
    then have "depth_is gs (gp_parent g) (fst (snd (heap ! p)))" using P p(2) unfolding placed_def by (metis (mono_tags, lifting) case_prodD)
    then have "d = Suc (fst (snd (heap ! p)))" using e depth_is_fun by blast
    from parent [OF _ p(1) forest_link [OF F E p(1,2) nonroot this]] Some ne show ?thesis by simp
  next
    case None
    have "map_of gs (gp_parent g) = None"
    proof (rule ccontr)
      assume "map_of gs (gp_parent g) \<noteq> None"
      then obtain h k where h: "(h, k) \<in> set es" "gp_id h = gp_parent g"
        using E nonroot by (fastforce simp: entry_ok_def)
      then obtain i where "i < length es" "es ! i = (h, k)" by (meson in_set_conv_nth)
      with forest_len [OF F] forest_entry [OF F, of i] h(2) forestD(4) [OF F, of "gp_parent g" i] None
      show False by simp
    qed
    then have "\<not> rooted gs (gp_id g)" using rooted_parent [OF par] not_rooted_missing by blast
    from orphan [OF _ forest_snoc [OF F E this]] None ne show ?thesis by simp
  qed
qed

lemma build_forest:
  assumes "forest gs es heap nm roots" "placed gs es" "entries_ok gs es flat"
  shows "\<exists>heap' nm' roots'. build_nodes heap nm roots flat = (heap', roots') \<and> forest gs (es @ flat) heap' nm' roots'"
  using assms
proof (induction flat arbitrary: es heap nm roots)
  case (Cons e flat)
  obtain g d where e: "e = (g, d)" by fastforce
  with Cons.prems(3) have E: "entry_ok gs es (g, d)" and rest: "entries_ok gs (es @ [(g, d)]) flat" by auto
  have P: "placed gs (es @ [(g, d)])" using Cons.prems(2) E by (auto simp: placed_def entry_ok_def)
  show ?case
  proof (cases "gp_parent g = []")
    case True
    with Cons.IH [OF forest_root [OF Cons.prems(1) E True] P rest] e True show ?thesis by (simp add: Let_def)
  next
    case False
    from Cons.prems(1,2) E False show ?thesis
    proof (cases rule: forest_step_cases)
      case (parent p)
      then have "build_nodes heap nm roots (e # flat) =
          build_nodes (link_leaf heap g d p) (AList.update (gp_id g) (length heap) nm) roots flat"
        using e False by (simp add: Let_def link_leaf_def nth_append del: map_of_alist)
      with Cons.IH [OF parent(3) P rest] e show ?thesis by simp
    next
      case orphan
      then have "build_nodes heap nm roots (e # flat) =
          build_nodes (heap @ [(g, d, [])]) (AList.update (gp_id g) (length heap) nm) roots flat"
        using e False by (simp add: Let_def del: map_of_alist)
      with Cons.IH [OF orphan(2) P rest] e show ?thesis by simp
    qed
  qed
qed auto

lemma forest_empty: "forest gs [] [] [] []"
  by (simp add: forest_def heap_ok_def heap_linked_def)

lemma entries_ok_sorted:
  assumes "placed gs (es @ flat)" "distinct (map (gp_id \<circ> fst) (es @ flat))" "sorted (map snd (es @ flat))"
    "\<And>x h. map_of gs x = Some h \<Longrightarrow> gp_id h = x \<and> h \<in> fst ` set (es @ flat)"
  shows "entries_ok gs es flat"
  using assms
proof (induction flat arbitrary: es)
  case (Cons e flat)
  obtain g d where e: "e = (g, d)" by fastforce
  have gd: "map_of gs (gp_id g) = Some g" "depth_is gs (gp_id g) d"
    using Cons.prems(1) by (auto simp: placed_def e)
  have "\<exists>k. (h, k) \<in> set es \<and> gp_id h = gp_parent g \<and> depth_is gs (gp_id h) k"
    if h: "gp_parent g \<noteq> []" "map_of gs (gp_parent g) = Some h" for h
  proof -
    from Cons.prems(4) [OF h(2)] obtain k where k: "gp_id h = gp_parent g" "(h, k) \<in> set (es @ e # flat)"
      by (metis imageE prod.collapse)
    then have dk: "depth_is gs (gp_id h) k" using placedD [OF Cons.prems(1)] by blast
    have "parent_of gs (gp_id g) = Some (gp_parent g)" using gd(1) h(1) by (simp add: parent_of_def)
    then obtain e' where "d = Suc e'" "depth_is gs (gp_parent g) e'" using depth_parent [OF gd(2)] by blast
    then have "k < d" using dk k(1) depth_is_fun [of gs "gp_parent g" e' k] by simp
    moreover have "\<forall>k' \<in> snd ` set (e # flat). d \<le> k'"
      using Cons.prems(3) by (auto simp: e sorted_append)
    ultimately have "(h, k) \<in> set es" using k(2) by force
    with k(1) dk show ?thesis by blast
  qed
  moreover have "gp_id g \<notin> gp_id ` fst ` set es" using Cons.prems(2) by (auto simp: e image_image)
  ultimately have "entry_ok gs es e" using gd unfolding entry_ok_def e by blast
  moreover have "entries_ok gs (es @ [e]) flat"
    using Cons.prems by (intro Cons.IH) (simp_all only: append_assoc append.simps)
  ultimately show ?case by simp
qed simp

lemma buildGroupTree_forest:
  assumes "entries_ok gs [] flat"
  shows "\<exists>ts. buildGroupTree flat = Some ts \<and> list_all (linked [] 0) ts \<and>
    mset (concat (map tree_groups ts)) = filter_mset (\<lambda>g. rooted gs (gp_id g)) (mset (map fst flat))"
proof -
  from build_forest [OF forest_empty _ assms] obtain heap nm roots where
    b: "build_nodes [] [] [] flat = (heap, roots)" and F: "forest gs flat heap nm roots"
    by (auto simp: placed_def)
  let ?n = "length heap" and ?g = "\<lambda>j. fst (heap ! j)"
  let ?P = "\<lambda>r t. toTreeNode (Suc ?n) heap r = Some t \<and> linked [] 0 t \<and>
    mset (tree_groups t) = image_mset ?g (desc (Suc ?n) heap r)"
  have "\<exists>t. ?P r t" if "r \<in> set roots" for r
    using toTreeNode_total [OF forestD(1,2) [OF F], of r "Suc ?n"] forestD(5) [OF F that] by simp
  then obtain T where T: "\<And>r. r \<in> set roots \<Longrightarrow> ?P r (T r)" by metis
  have ts: "those (map (toTreeNode (Suc ?n) heap) roots) = Some (map T roots)"
    using T by (intro those_map_Some) blast
  have "mset (concat (map tree_groups (map T roots))) = image_mset ?g (\<Sum>r \<leftarrow> roots. desc (Suc ?n) heap r)"
    using T by (induction roots) auto
  also have "(\<Sum>r \<leftarrow> roots. desc (Suc ?n) heap r) = filter_mset (\<lambda>j. rooted gs (gp_id (?g j))) (mset_set {..<?n})"
    by (rule multiset_eqI, subst forestD(6) [OF F]) auto
  also have "image_mset ?g \<dots> = filter_mset (\<lambda>g. rooted gs (gp_id g)) (image_mset ?g (mset_set {..<?n}))"
    by (simp add: filter_mset_image_mset)
  also have "image_mset ?g (mset_set {..<?n}) = mset (map ?g [0..<?n])"
    by (simp add: atLeast0LessThan)
  also have "map ?g [0..<?n] = map fst flat"
    by (rule nth_equalityI) (use forest_len [OF F] forest_entry [OF F] in auto)
  finally have "mset (concat (map tree_groups (map T roots))) = filter_mset (\<lambda>g. rooted gs (gp_id g)) (mset (map fst flat))" .
  with b ts T show ?thesis
    by (intro exI [of _ "map T roots"]) (auto simp: buildGroupTree_def list_all_iff)
qed

section \<open>The tree of a store\<close>

definition groups_wf :: "(string \<times> group) list \<Rightarrow> bool" where
  "groups_wf gs = (distinct (map fst gs) \<and> (\<forall>(k, g) \<in> set gs. gp_id g = k \<and> k \<noteq> []))"

lemma groups_wf_map_of: "groups_wf gs \<Longrightarrow> map_of gs k = Some g \<longleftrightarrow> gp_id g = k \<and> g \<in> snd ` set gs"
  unfolding groups_wf_def by (force dest: map_of_SomeD)

lemma byID_map_of:
  assumes "groups_wf (gs_groups m)"
  shows "map_of (map (\<lambda>g. (gp_id g, g)) (rev (ListGroups m))) = map_of (gs_groups m)"
proof -
  let ?b = "map (\<lambda>g. (gp_id g, g)) (rev (ListGroups m))"
  have ids: "map (\<lambda>g. (gp_id g, g)) (map snd (gs_groups m)) = gs_groups m"
    using assms unfolding map_map by (intro map_idI) (auto simp: groups_wf_def)
  have "mset ?b = mset (map (\<lambda>g. (gp_id g, g)) (map snd (gs_groups m)))"
    by (simp only: ListGroups_def mset_map mset_rev mset_sort)
  also note ids
  finally have eq: "mset ?b = mset (gs_groups m)" .
  then have "mset (map fst ?b) = mset (map fst (gs_groups m))" by (metis mset_map)
  then have "distinct (map fst ?b)"
    using assms unfolding groups_wf_def by (metis mset_eq_imp_distinct_iff)
  with assms eq show ?thesis
    unfolding groups_wf_def by (metis map_of_inject_set mset_eq_setD)
qed

lemma lookup_only:
  assumes "map_of gs = map_of gs'"
  shows "parent_rel gs = parent_rel gs'" "rooted gs = rooted gs'"
proof -
  show rel: "parent_rel gs = parent_rel gs'" using assms by (simp add: parent_rel_def parent_of_def)
  show "rooted gs = rooted gs'" by (rule ext) (simp add: rooted_def rel assms)
qed

lemma GetGroupTree_acyclic:
  assumes wf: "groups_wf (gs_groups m)" and ac: "acyclic (parent_rel (gs_groups m))"
  shows "\<exists>ts. GetGroupTree m = Some ts \<and> list_all (linked [] 0) ts \<and>
    mset (concat (map tree_groups ts)) = mset (filter (\<lambda>g. rooted (gs_groups m) (gp_id g)) (map snd (gs_groups m)))"
proof -
  define xs where "xs = ListGroups m"
  define b where "b = map (\<lambda>g. (gp_id g, g)) (rev xs)"
  have b: "map_of b = map_of (gs_groups m)" using byID_map_of [OF wf] by (simp add: b_def xs_def)
  have msx: "mset xs = mset (map snd (gs_groups m))" by (simp add: xs_def ListGroups_def)
  have acb: "acyclic (parent_rel b)" using ac lookup_only(1) [OF b] by simp
  obtain memo where memo: "compute_depths b [] xs = Some memo"
    using compute_depths_total [of xs b "[]"] acyclic_depth [OF acb] by blast
  have dep: "depth_is b (gp_id g) (case map_of memo (gp_id g) of None \<Rightarrow> 0 | Some d \<Rightarrow> d)" if "g \<in> set xs" for g
    using compute_depths_sound [OF memo] that by (fastforce simp: memo_ok_def)
  let ?e = "\<lambda>g. (g, case map_of memo (gp_id g) of None \<Rightarrow> 0 | Some d \<Rightarrow> d)"
  let ?k = "\<lambda>(g, d). (d, gp_sort_order g, gp_name g)"
  define flat where "flat = sort_key ?k (map ?e xs)"
  have fst_flat: "mset (map fst flat) = mset xs"
    by (simp add: flat_def image_mset.compositionality comp_def)
  have "map_of b (gp_id g) = Some g" if "g \<in> set xs" for g
    using groups_wf_map_of [OF wf] that mset_eq_setD [OF msx] by (simp add: b)
  then have "placed b flat" using dep unfolding placed_def flat_def by simp
  moreover have "sorted (map snd flat)"
  proof -
    have "sorted (map ?k flat)" unfolding flat_def by (rule sorted_sort_key)
    then show ?thesis
      unfolding sorted_map by (rule sorted_wrt_mono_rel [rotated]) (auto simp: less_eq_prod_def)
  qed
  moreover have "distinct (map (gp_id \<circ> fst) flat)"
  proof -
    have "mset (map (gp_id \<circ> fst) flat) = mset (map gp_id (map snd (gs_groups m)))"
      by (metis fst_flat map_map msx mset_map)
    moreover have "map gp_id (map snd (gs_groups m)) = map fst (gs_groups m)"
      using wf by (auto simp: groups_wf_def)
    ultimately show ?thesis using wf unfolding groups_wf_def by (metis mset_eq_imp_distinct_iff)
  qed
  moreover have "gp_id h = x \<and> h \<in> fst ` set flat" if "map_of b x = Some h" for x h
    using that groups_wf_map_of [OF wf] mset_eq_setD [OF msx] mset_eq_setD [OF fst_flat] by (auto simp: b)
  ultimately have "entries_ok b [] flat" by (intro entries_ok_sorted) simp_all
  from buildGroupTree_forest [OF this] obtain ts where ts: "buildGroupTree flat = Some ts" "list_all (linked [] 0) ts"
    "mset (concat (map tree_groups ts)) = filter_mset (\<lambda>g. rooted b (gp_id g)) (mset (map fst flat))" by blast
  have "GetGroupTree m = Some ts"
    using memo ts(1) by (simp add: GetGroupTree_def Let_def b_def xs_def flat_def)
  moreover have "mset (concat (map tree_groups ts)) = mset (filter (\<lambda>g. rooted (gs_groups m) (gp_id g)) (map snd (gs_groups m)))"
    using ts(3) by (simp only: fst_flat msx lookup_only(2) [OF b] mset_filter)
  ultimately show ?thesis using ts(2) by blast
qed

lemma GetGroupTree_returns:
  assumes wf: "groups_wf (gs_groups m)" and ret: "GetGroupTree m \<noteq> None"
  shows "acyclic (parent_rel (gs_groups m))"
proof -
  define b where "b = map (\<lambda>g. (gp_id g, g)) (rev (ListGroups m))"
  have b: "map_of b = map_of (gs_groups m)" using byID_map_of [OF wf] by (simp add: b_def)
  from ret obtain memo where memo: "compute_depths b [] (ListGroups m) = Some memo"
    by (auto simp: GetGroupTree_def Let_def b_def Option.bind_eq_Some_conv)
  have "(x, x) \<notin> (parent_rel b)\<^sup>+" for x
  proof
    assume cyc: "(x, x) \<in> (parent_rel b)\<^sup>+"
    then obtain p where "parent_of b x = Some p" by (rule parent_trancl_cases)
    then obtain g where "map_of b x = Some g" by (rule parent_of_SomeD)
    then have "gp_id g = x" "g \<in> set (ListGroups m)"
      using groups_wf_map_of [OF wf] by (auto simp: b ListGroups_def)
    moreover have "memo_ok b []" by (simp add: memo_ok_def)
    ultimately obtain d where "depth_is b x d"
      using compute_depths_sound [OF memo] by blast
    with depth_no_cycle cyc show False by blast
  qed
  then show ?thesis using lookup_only(1) [OF b] by (simp add: acyclic_def)
qed

section \<open>Operations keep the tree\<close>

lemma parent_of_update:
  "parent_of (AList.update k g gs) x =
     (if x = k then (if gp_parent g = [] then None else Some (gp_parent g)) else parent_of gs x)"
  by (simp add: parent_of_def)

lemma groups_wf_update:
  "groups_wf gs \<Longrightarrow> gp_id g = k \<Longrightarrow> k \<noteq> [] \<Longrightarrow> groups_wf (AList.update k g gs)"
  unfolding groups_wf_def using alist_update_subset [of k g gs] by (fastforce simp: distinct_update)

lemma acyclic_set_parent:
  assumes ac: "acyclic (parent_rel gs)" and no: "gp_parent g \<noteq> [] \<Longrightarrow> (gp_parent g, k) \<notin> (parent_rel gs)\<^sup>*"
  shows "acyclic (parent_rel (AList.update k g gs))"
proof (cases "gp_parent g = []")
  case True
  then have "parent_rel (AList.update k g gs) \<subseteq> parent_rel gs"
    by (auto simp: parent_of_update split: if_splits)
  with ac show ?thesis by (rule acyclic_subset)
next
  case False
  then have "parent_rel (AList.update k g gs) \<subseteq> insert (k, gp_parent g) (parent_rel gs)"
    by (auto simp: parent_of_update split: if_splits)
  moreover have "acyclic (insert (k, gp_parent g) (parent_rel gs))"
    using ac no [OF False] by (simp add: acyclic_insert)
  ultimately show ?thesis by (rule acyclic_subset [rotated])
qed

definition group_tree_ok :: "group_store \<Rightarrow> bool" where
  "group_tree_ok m = (groups_wf (gs_groups m) \<and> acyclic (parent_rel (gs_groups m)))"

text \<open>A fresh identifier is neither a group nor named as a parent.\<close>

definition fresh_group_id :: "group_store \<Rightarrow> string \<Rightarrow> bool" where
  "fresh_group_id m gid =
     (gid \<noteq> [] \<and> gid \<notin> fst ` set (gs_groups m) \<and> gid \<notin> gp_parent ` snd ` set (gs_groups m))"

lemma rtrancl_into_fresh:
  assumes "gid \<notin> gp_parent ` snd ` set gs" "(x, gid) \<in> (parent_rel gs)\<^sup>*"
  shows "x = gid"
  using assms(2)
proof (cases rule: rtranclE)
  case (step y)
  then have "parent_of gs y = Some gid" by simp
  then obtain g where "map_of gs y = Some g" "gp_parent g = gid" by (rule parent_of_SomeD)
  then have "gid \<in> gp_parent ` snd ` set gs" by (force dest: map_of_SomeD)
  with assms(1) show ?thesis ..
qed

lemma CreateGroup_ok:
  assumes "group_tree_ok m" "fresh_group_id m gid" "trim_space (cg_parent req) \<noteq> gid"
  shows "group_tree_ok (snd (CreateGroup m gid now req))"
proof -
  obtain g where g: "snd (CreateGroup m gid now req) = m\<lparr>gs_groups := AList.update gid g (gs_groups m)\<rparr>"
    "gp_id g = gid" "gp_parent g = trim_space (cg_parent req)"
    by (simp add: CreateGroup_def Let_def)
  have "(gp_parent g, gid) \<notin> (parent_rel (gs_groups m))\<^sup>*"
    using rtrancl_into_fresh [of gid "gs_groups m" "gp_parent g"] assms(2,3) g(3) by (auto simp: fresh_group_id_def)
  with assms(1,2) g show ?thesis
    by (simp add: group_tree_ok_def acyclic_set_parent groups_wf_update fresh_group_id_def)
qed

lemma put_frame: "(\<And>x r. get (f x r) = get r) \<Longrightarrow> get (put v f r) = get r"
  by (simp add: put_def split: option.split)

lemma put_parent:
  "gp_parent (put v (\<lambda>v. gp_parent_update (\<lambda>_. trim_space v)) g) = (case v of None \<Rightarrow> gp_parent g | Some p \<Rightarrow> trim_space p)"
  by (simp add: put_def split: option.split)

lemma UpdateGroup_cases:
  obtains (missing) "map_of (gs_groups m) (trim_space gid) = None" "UpdateGroup m now gid req = (Inl ErrNotFound, m)"
  | (found) g g' where "map_of (gs_groups m) (trim_space gid) = Some g"
      "UpdateGroup m now gid req = (Inr g', m\<lparr>gs_groups := AList.update (trim_space gid) g' (gs_groups m)\<rparr>)"
      "gp_id g' = gp_id g" "gp_parent g' = (case ug_parent req of None \<Rightarrow> gp_parent g | Some p \<Rightarrow> trim_space p)"
proof (cases "map_of (gs_groups m) (trim_space gid)")
  case None
  then show ?thesis by (intro missing) (simp_all add: UpdateGroup_def)
next
  case (Some g)
  show ?thesis
    by (rule found [OF Some])
      (unfold UpdateGroup_def Let_def Some option.case, rule refl,
        simp add: put_frame [of gp_id],
        simp add: put_frame [of gp_parent] put_parent cong: option.case_cong)
qed

lemma UpdateGroup_ok:
  assumes ok: "group_tree_ok m"
    and new: "\<And>p. ug_parent req = Some p \<Longrightarrow> trim_space p \<noteq> [] \<Longrightarrow>
      (trim_space p, trim_space gid) \<notin> (parent_rel (gs_groups m))\<^sup>*"
  shows "group_tree_ok (snd (UpdateGroup m now gid req))"
proof (cases rule: UpdateGroup_cases [of m gid now req])
  case (found g g')
  let ?gs = "gs_groups m"
  have wf: "groups_wf ?gs" and ac: "acyclic (parent_rel ?gs)" using ok by (auto simp: group_tree_ok_def)
  have id: "gp_id g = trim_space gid" "trim_space gid \<noteq> []"
    using wf map_of_SomeD [OF found(1)] by (auto simp: groups_wf_def)
  have "(gp_parent g', trim_space gid) \<notin> (parent_rel ?gs)\<^sup>*" if "gp_parent g' \<noteq> []"
  proof (cases "ug_parent req")
    case None
    with found that have "(trim_space gid, gp_parent g') \<in> parent_rel ?gs" by (simp add: parent_of_def)
    then show ?thesis using ac by (meson acyclic_def rtrancl_into_trancl2)
  qed (use found(4) that new in auto)
  with found id wf ac show ?thesis
    by (simp add: group_tree_ok_def acyclic_set_parent groups_wf_update)
qed (use ok in simp)

lemma map_of_map_values: "map_of (map (\<lambda>(k, v). (k, f v)) xs) k = map_option f (map_of xs k)"
  by (induction xs) auto

lemma groups_wf_delete: "groups_wf gs \<Longrightarrow> groups_wf (AList.delete k gs)"
  unfolding groups_wf_def using alist_delete_subset [of k gs] by (blast intro: distinct_delete)

lemma groups_wf_map:
  "groups_wf gs \<Longrightarrow> (\<And>c. gp_id (f c) = gp_id c) \<Longrightarrow> groups_wf (map (\<lambda>(k, c). (k, f c)) gs)"
  unfolding groups_wf_def by (auto simp: comp_def case_prod_beta)

lemma DeleteGroup_ok:
  assumes ok: "group_tree_ok m"
  shows "group_tree_ok (snd (DeleteGroup m now gid))"
proof (cases "map_of (gs_groups m) (trim_space gid)")
  case (Some g)
  let ?gs = "gs_groups m" and ?id = "trim_space gid" and ?f = "reparent (trim_space gid) (gp_parent g) now"
  define gs' where "gs' = AList.delete ?id (map (\<lambda>(k, child). (k, ?f child)) ?gs)"
  have wf: "groups_wf gs'"
    using ok unfolding gs'_def group_tree_ok_def
    by (intro groups_wf_delete groups_wf_map) (simp_all add: reparent_def)
  have "parent_rel gs' \<subseteq> (parent_rel ?gs)\<^sup>+"
  proof
    fix e
    assume "e \<in> parent_rel gs'"
    then obtain x p where e: "e = (x, p)" and "parent_of gs' x = Some p" by (cases e) auto
    then obtain c' where c': "map_of gs' x = Some c'" "gp_parent c' = p" "p \<noteq> []" by (auto elim: parent_of_SomeD)
    then obtain c where c: "map_of ?gs x = Some c" "c' = ?f c"
      by (auto simp: gs'_def map_of_map_values split: if_splits)
    have "(x, p) \<in> (parent_rel ?gs)\<^sup>+"
    proof (cases "gp_parent c = ?id")
      case True
      then have "p = gp_parent g" using c c' by (simp add: reparent_def)
      moreover have "?id \<noteq> []" using ok map_of_SomeD [OF Some] by (auto simp: group_tree_ok_def groups_wf_def)
      ultimately have "(x, ?id) \<in> parent_rel ?gs" "(?id, p) \<in> parent_rel ?gs"
        using c c' True Some by (simp_all add: parent_of_def)
      then show ?thesis by (meson trancl.intros)
    next
      case False
      then have "(x, p) \<in> parent_rel ?gs" using c c' by (simp add: reparent_def parent_of_def)
      then show ?thesis ..
    qed
    with e show "e \<in> (parent_rel ?gs)\<^sup>+" by simp
  qed
  moreover have "acyclic ((parent_rel ?gs)\<^sup>+)" using ok by (simp add: group_tree_ok_def acyclic_def)
  ultimately have "acyclic (parent_rel gs')" by (rule acyclic_subset [rotated])
  with wf Some show ?thesis by (simp add: group_tree_ok_def DeleteGroup_def Let_def gs'_def)
qed (use ok in \<open>simp add: DeleteGroup_def\<close>)

end
