(* ===== verification/Group_Access.thy ===== *)
theory Group_Access
  imports Group_Tree Access_Control
begin

text \<open>
  What an asset-restricted principal may see of the groups: \<open>internal/hubapi/shared/asset_authorization.go\<close>
  and \<open>internal/hubapi/resources/group_authorization.go\<close>. The set of group ids a function returns is a
  list read as a set.
\<close>

section \<open>Asset restrictions\<close>

definition HasAssetRestriction :: "auth_ctx \<Rightarrow> bool" where
  "HasAssetRestriction ctx = (slice (cx_assets ctx) \<noteq> [])"

fun all_assets_loop :: "string list option \<Rightarrow> nat \<Rightarrow> string list \<Rightarrow> bool" where
  "all_assets_loop allowed checked [] = (0 < checked)"
| "all_assets_loop allowed checked (a # as) =
     (let a = trim_space a
      in if a = [] then all_assets_loop allowed checked as
         else if \<not> AssetCheck allowed a then False
         else all_assets_loop allowed (checked + 1) as)"

definition AllAssetsAllowed :: "auth_ctx \<Rightarrow> string list \<Rightarrow> bool" where
  "AllAssetsAllowed ctx assetIDs =
     (if slice (cx_assets ctx) = [] then True else all_assets_loop (cx_assets ctx) 0 assetIDs)"

definition FilterAssetsByAccess :: "auth_ctx \<Rightarrow> asset list \<Rightarrow> asset list" where
  "FilterAssetsByAccess ctx assetList =
     (if \<not> HasAssetRestriction ctx then assetList
      else filter (\<lambda>a. AssetCheckContext ctx (as_id a)) assetList)"

fun collector_loop :: "auth_ctx \<Rightarrow> string \<Rightarrow> string \<Rightarrow> bool \<Rightarrow> asset list \<Rightarrow> bool" where
  "collector_loop ctx source collectorID found [] = found"
| "collector_loop ctx source collectorID found (a # as) =
     (if \<not> equal_fold (trim_space (as_source a)) source then collector_loop ctx source collectorID found as
      else let assetCollectorID = trim_space (mget (as_metadata a) ''collector_id'')
           in if assetCollectorID = [] then False
              else if assetCollectorID \<noteq> collectorID then collector_loop ctx source collectorID found as
              else if \<not> AssetCheckContext ctx (as_id a) then False
              else collector_loop ctx source collectorID True as)"

definition AllCollectorAssetsAllowed :: "auth_ctx \<Rightarrow> asset_store option \<Rightarrow> string \<Rightarrow> string \<Rightarrow> (unit, bool) res" where
  "AllCollectorAssetsAllowed ctx store source collectorID =
     (if \<not> HasAssetRestriction ctx then Inr True
      else case store of
             None \<Rightarrow> Inl ()
           | Some m \<Rightarrow>
               (let source = trim_space source; collectorID = trim_space collectorID
                in if source = [] \<or> collectorID = [] then Inr False
                   else Inr (collector_loop ctx source collectorID False (ListAssets m))))"

section \<open>Accessible groups\<close>

definition read_count :: "(string \<times> nat) list \<Rightarrow> string \<Rightarrow> nat" where
  "read_count m k = (case map_of m k of None \<Rightarrow> 0 | Some n \<Rightarrow> n)"

definition incr :: "string \<Rightarrow> (string \<times> nat) list \<Rightarrow> (string \<times> nat) list" where
  "incr k m = AList.update k (read_count m k + 1) m"

definition parents_map :: "group list \<Rightarrow> (string \<times> string) list" where
  "parents_map groupList =
     fold (\<lambda>g parents. let groupID = trim_space (gp_id g)
             in if groupID \<noteq> [] then AList.update groupID (trim_space (gp_parent g)) parents else parents)
       groupList []"

text \<open>The groups one asset counts for: the loop of \<open>AccessibleGroupIDs\<close> up the parents.\<close>

function group_chain :: "(string \<times> string) list \<Rightarrow> string list \<Rightarrow> string \<Rightarrow> string list" where
  "group_chain parents visited groupID =
     (if groupID = [] then []
      else if groupID \<in> set visited then []
      else groupID # group_chain parents (groupID # visited) (mget parents groupID))"
  by pat_completeness auto

termination
proof (relation "measure (\<lambda>(parents, visited, g). if g = [] then 0 else Suc (card (insert g (snd ` set parents) - set visited)))", goal_cases)
  case (2 parents visited groupID)
  let ?next = "mget parents groupID"
  have "?next = [] \<or> ?next \<in> snd ` set parents"
    by (force simp: mget_def dest: map_of_SomeD split: option.splits)
  moreover have "card (insert ?next (snd ` set parents) - set (groupID # visited)) <
      card (insert groupID (snd ` set parents) - set visited)" if "?next \<in> snd ` set parents"
    using that 2 by (intro psubset_card_mono) auto
  ultimately show ?case using 2 by auto
qed simp

declare group_chain.simps [simp del]

fun count_assets ::
    "auth_ctx \<Rightarrow> (string \<times> string) list \<Rightarrow> (string \<times> nat) list \<Rightarrow> (string \<times> nat) list \<Rightarrow> asset list \<Rightarrow>
     (string \<times> nat) list \<times> (string \<times> nat) list" where
  "count_assets ctx parents totals permitted [] = (totals, permitted)"
| "count_assets ctx parents totals permitted (a # as) =
     (let groupID = trim_space (as_group_id a)
      in if groupID = [] then count_assets ctx parents totals permitted as
         else let chain = group_chain parents [] groupID;
                  totals = fold incr chain totals;
                  permitted = (if AssetCheckContext ctx (as_id a) then fold incr chain permitted else permitted)
              in count_assets ctx parents totals permitted as)"

definition AccessibleGroupIDs :: "auth_ctx \<Rightarrow> group list \<Rightarrow> asset list \<Rightarrow> string list" where
  "AccessibleGroupIDs ctx groupList assetList =
     (let ids = filter (\<lambda>i. i \<noteq> []) (map (\<lambda>g. trim_space (gp_id g)) groupList)
      in if \<not> HasAssetRestriction ctx then ids
         else case count_assets ctx (parents_map groupList) [] [] assetList of
                (totals, permitted) \<Rightarrow>
                  filter (\<lambda>i. 0 < read_count totals i \<and> read_count totals i = read_count permitted i) ids)"

definition FilterGroupsByAssetAccess :: "auth_ctx \<Rightarrow> group list \<Rightarrow> asset list \<Rightarrow> group list" where
  "FilterGroupsByAssetAccess ctx groupList assetList =
     (if \<not> HasAssetRestriction ctx then groupList
      else filter (\<lambda>g. trim_space (gp_id g) \<in> set (AccessibleGroupIDs ctx groupList assetList)) groupList)"

definition requireGroupAccess ::
    "auth_ctx \<Rightarrow> group_store option \<Rightarrow> asset_store option \<Rightarrow> string list \<Rightarrow> (nat \<times> string, unit) res" where
  "requireGroupAccess ctx gs as groupIDs =
     (if \<not> HasAssetRestriction ctx then Inr ()
      else case (gs, as) of
             (Some g, Some a) \<Rightarrow>
               (if list_all (\<lambda>i. trim_space i \<in> set (AccessibleGroupIDs ctx (ListGroups g) (ListAssets a))) groupIDs
                then Inr () else Inl (403, ''api key does not have access to every asset in this group''))
           | _ \<Rightarrow> Inl (503, ''asset authorization stores unavailable''))"

fun filterGroupTreeLevel :: "string list \<Rightarrow> string \<Rightarrow> nat \<Rightarrow> tree_node list \<Rightarrow> tree_node list" where
  "filterGroupTreeLevel accessible parentID depth [] = []"
| "filterGroupTreeLevel accessible parentID depth (TreeNode g d cs # nodes) =
     (let groupID = trim_space (gp_id g)
      in if groupID \<notin> set accessible
         then filterGroupTreeLevel accessible parentID depth cs @ filterGroupTreeLevel accessible parentID depth nodes
         else TreeNode (g\<lparr>gp_parent := parentID\<rparr>) depth (filterGroupTreeLevel accessible groupID (depth + 1) cs)
              # filterGroupTreeLevel accessible parentID depth nodes)"

definition filterGroupTreeForAccess :: "tree_node list \<Rightarrow> string list \<Rightarrow> tree_node list" where
  "filterGroupTreeForAccess nodes accessible = filterGroupTreeLevel accessible [] 0 nodes"

section \<open>What the counts mean\<close>

definition up_rel :: "(string \<times> string) list \<Rightarrow> (string \<times> string) set" where
  "up_rel parents = {(x, p). p \<noteq> [] \<and> mget parents x = p}"

lemma up_rel_iff [simp]: "(x, p) \<in> up_rel parents \<longleftrightarrow> p \<noteq> [] \<and> mget parents x = p"
  by (simp add: up_rel_def)

lemma group_chain_sound:
  "x \<in> set (group_chain parents visited g) \<Longrightarrow> (g, x) \<in> (up_rel parents)\<^sup>* \<and> x \<noteq> [] \<and> x \<notin> set visited"
proof (induction parents visited g rule: group_chain.induct)
  case (1 parents visited g)
  from "1.prems" have g: "g \<noteq> []" "g \<notin> set visited"
    and x: "x = g \<or> x \<in> set (group_chain parents (g # visited) (mget parents g))"
    by (subst (asm) group_chain.simps; simp split: if_splits)+
  show ?case
  proof (cases "x = g")
    case False
    with x have *: "x \<in> set (group_chain parents (g # visited) (mget parents g))" by simp
    from "1.IH" [OF g *] have "(mget parents g, x) \<in> (up_rel parents)\<^sup>*" "x \<noteq> []" "x \<notin> set visited" by auto
    moreover have "mget parents g \<noteq> []" using * by (subst (asm) group_chain.simps) (auto split: if_splits)
    ultimately show ?thesis by (meson converse_rtrancl_into_rtrancl up_rel_iff)
  qed (use g in simp)
qed

lemma distinct_group_chain: "distinct (group_chain parents visited g)"
proof (induction parents visited g rule: group_chain.induct)
  case (1 parents visited g)
  then show ?case
    using group_chain_sound [of g parents "g # visited" "mget parents g"]
    by (subst group_chain.simps) auto
qed

lemma up_closed:
  assumes "(x, y) \<in> (up_rel parents)\<^sup>*" "x \<in> V" "\<And>v. v \<in> V \<Longrightarrow> mget parents v = [] \<or> mget parents v \<in> V"
  shows "y \<in> V"
  using assms(1,2) by (induction rule: rtrancl_induct) (use assms(3) in auto)

lemma group_chain_complete:
  assumes "(g, x) \<in> (up_rel parents)\<^sup>*" "g \<noteq> []" "x \<notin> set visited"
    "\<And>v. v \<in> set visited \<Longrightarrow> mget parents v = [] \<or> mget parents v \<in> insert g (set visited)"
  shows "x \<in> set (group_chain parents visited g)"
  using assms
proof (induction parents visited g rule: group_chain.induct)
  case (1 parents visited g)
  have g: "g \<notin> set visited"
    using up_closed [OF "1.prems"(1), of "set visited"] "1.prems"(3,4) by blast
  show ?case
  proof (cases "x = g")
    case True
    with g "1.prems"(2) show ?thesis by (subst group_chain.simps) simp
  next
    case False
    with "1.prems"(1) have step: "mget parents g \<noteq> []" "(mget parents g, x) \<in> (up_rel parents)\<^sup>*"
      by (auto elim: converse_rtranclE)
    have "x \<in> set (group_chain parents (g # visited) (mget parents g))"
      using "1.prems"(3,4) False step by (intro "1.IH" [OF "1.prems"(2) g]) auto
    with g "1.prems"(2) show ?thesis by (subst group_chain.simps) simp
  qed
qed

lemma set_group_chain: "g \<noteq> [] \<Longrightarrow> x \<in> set (group_chain parents [] g) \<longleftrightarrow> (g, x) \<in> (up_rel parents)\<^sup>*"
  using group_chain_sound [of x parents "[]" g] group_chain_complete [of g x parents "[]"] by auto

lemma read_count_incr: "read_count (incr j m) k = read_count m k + (if k = j then 1 else 0)"
  by (simp add: incr_def read_count_def)

lemma read_count_fold_incr: "distinct ks \<Longrightarrow> read_count (fold incr ks m) k = read_count m k + (if k \<in> set ks then 1 else 0)"
  by (induction ks arbitrary: m) (auto simp: read_count_incr)

text \<open>An asset lies below a group when the chain of parents of its own group leads there.\<close>

definition asset_below :: "(string \<times> string) list \<Rightarrow> string \<Rightarrow> asset \<Rightarrow> bool" where
  "asset_below parents g a =
     (trim_space (as_group_id a) \<noteq> [] \<and> g \<in> set (group_chain parents [] (trim_space (as_group_id a))))"

lemma count_assets_counts:
  "read_count (fst (count_assets ctx parents t p as)) k = read_count t k + length (filter (asset_below parents k) as)"
  "read_count (snd (count_assets ctx parents t p as)) k =
     read_count p k + length (filter (\<lambda>a. asset_below parents k a \<and> AssetCheckContext ctx (as_id a)) as)"
  by (induction as arbitrary: t p)
    (auto simp: Let_def asset_below_def read_count_fold_incr [OF distinct_group_chain])

lemma filter_length_all: "length (filter P xs) = length (filter (\<lambda>x. P x \<and> Q x) xs) \<longleftrightarrow> (\<forall>x \<in> set xs. P x \<longrightarrow> Q x)"
proof (induction xs)
  case (Cons x xs)
  have "length (filter (\<lambda>x. P x \<and> Q x) xs) \<le> length (filter P xs)"
    by (induction xs) auto
  with Cons show ?case by auto
qed simp

lemma accessible_iff:
  assumes "HasAssetRestriction ctx"
  shows "g \<in> set (AccessibleGroupIDs ctx gl al) \<longleftrightarrow>
    g \<noteq> [] \<and> g \<in> trim_space ` gp_id ` set gl \<and> (\<exists>a \<in> set al. asset_below (parents_map gl) g a) \<and>
    (\<forall>a \<in> set al. asset_below (parents_map gl) g a \<longrightarrow> AssetCheckContext ctx (as_id a))"
proof -
  let ?c = "count_assets ctx (parents_map gl) [] [] al" and ?b = "asset_below (parents_map gl) g"
  have t: "read_count (fst ?c) g = length (filter ?b al)"
    and p: "read_count (snd ?c) g = length (filter (\<lambda>a. ?b a \<and> AssetCheckContext ctx (as_id a)) al)"
    by (simp_all add: count_assets_counts read_count_def [of "[]"])
  have "g \<in> set (AccessibleGroupIDs ctx gl al) \<longleftrightarrow> g \<noteq> [] \<and> g \<in> trim_space ` gp_id ` set gl \<and>
      0 < read_count (fst ?c) g \<and> read_count (fst ?c) g = read_count (snd ?c) g"
    using assms by (auto simp: AccessibleGroupIDs_def Let_def case_prod_beta)
  then show ?thesis unfolding t p by (simp only: filter_length_all) (auto simp: filter_empty_conv)
qed

section \<open>Access to the groups of a store\<close>

definition groups_trimmed :: "(string \<times> group) list \<Rightarrow> bool" where
  "groups_trimmed gs = (\<forall>(k, g) \<in> set gs. trim_space k = k \<and> trim_space (gp_parent g) = gp_parent g)"

lemma parents_fold_other:
  "x \<notin> trim_space ` gp_id ` set gl \<Longrightarrow>
   mget (fold (\<lambda>g parents. let groupID = trim_space (gp_id g)
             in if groupID \<noteq> [] then AList.update groupID (trim_space (gp_parent g)) parents else parents) gl ps) x
     = mget ps x"
  by (induction gl arbitrary: ps) (auto simp: Let_def)

lemma parents_fold_in:
  assumes "distinct (map (\<lambda>g. trim_space (gp_id g)) gl)" "g \<in> set gl" "trim_space (gp_id g) \<noteq> []"
  shows "mget (fold (\<lambda>g parents. let groupID = trim_space (gp_id g)
             in if groupID \<noteq> [] then AList.update groupID (trim_space (gp_parent g)) parents else parents) gl ps)
           (trim_space (gp_id g)) = trim_space (gp_parent g)"
  using assms
proof (induction gl arbitrary: ps)
  case (Cons h gl)
  show ?case
  proof (cases "g = h")
    case True
    then have "trim_space (gp_id g) \<notin> trim_space ` gp_id ` set gl" using Cons.prems(1) by (auto simp: image_image)
    with True Cons.prems(3) show ?thesis by (simp add: Let_def parents_fold_other [unfolded Let_def])
  next
    case False
    with Cons show ?thesis by simp
  qed
qed simp

lemma stored_group_facts:
  assumes "groups_wf gs" "groups_trimmed gs" "g \<in> snd ` set gs"
  shows "trim_space (gp_id g) = gp_id g" "trim_space (gp_parent g) = gp_parent g" "gp_id g \<noteq> []"
  using assms by (fastforce simp: groups_wf_def groups_trimmed_def)+

lemma mget_parents_map:
  assumes wf: "groups_wf (gs_groups m)" and tr: "groups_trimmed (gs_groups m)"
  shows "mget (parents_map (ListGroups m)) x =
    (case map_of (gs_groups m) x of None \<Rightarrow> [] | Some g \<Rightarrow> gp_parent g)"
proof -
  have mem: "g \<in> set (ListGroups m) \<longleftrightarrow> g \<in> snd ` set (gs_groups m)" for g by (simp add: ListGroups_def)
  note id = stored_group_facts [OF wf tr]
  have "mset (map (\<lambda>g. trim_space (gp_id g)) (ListGroups m)) = mset (map fst (gs_groups m))"
  proof -
    have "mset (map (\<lambda>g. trim_space (gp_id g)) (ListGroups m)) =
        mset (map (\<lambda>g. trim_space (gp_id g)) (map snd (gs_groups m)))"
      by (simp only: ListGroups_def mset_map mset_sort)
    also have "map (\<lambda>g. trim_space (gp_id g)) (map snd (gs_groups m)) = map fst (gs_groups m)"
      using wf id by (auto simp: groups_wf_def)
    finally show ?thesis .
  qed
  then have dist: "distinct (map (\<lambda>g. trim_space (gp_id g)) (ListGroups m))"
    using wf unfolding groups_wf_def by (metis mset_eq_imp_distinct_iff)
  show ?thesis
  proof (cases "map_of (gs_groups m) x")
    case None
    have "x \<notin> trim_space ` gp_id ` set (ListGroups m)"
    proof
      assume "x \<in> trim_space ` gp_id ` set (ListGroups m)"
      then obtain g where "g \<in> snd ` set (gs_groups m)" "x = trim_space (gp_id g)" using mem by blast
      with id [of g] groups_wf_map_of [OF wf, of x g] None show False by simp
    qed
    with None show ?thesis by (simp add: parents_map_def parents_fold_other)
  next
    case (Some g)
    then have g: "gp_id g = x" "g \<in> snd ` set (gs_groups m)" using groups_wf_map_of [OF wf] by auto
    from parents_fold_in [OF dist, of g "[]"] g id [OF g(2)] Some show ?thesis
      by (simp add: parents_map_def mem)
  qed
qed

lemma up_rel_store:
  assumes "groups_wf (gs_groups m)" "groups_trimmed (gs_groups m)"
  shows "up_rel (parents_map (ListGroups m)) = parent_rel (gs_groups m)"
  by (auto simp: mget_parents_map [OF assms] parent_of_def split: option.splits if_splits)

text \<open>An asset of the subtree of a group.\<close>

definition in_subtree :: "group_store \<Rightarrow> string \<Rightarrow> asset \<Rightarrow> bool" where
  "in_subtree m g a =
     (trim_space (as_group_id a) \<noteq> [] \<and> (trim_space (as_group_id a), g) \<in> (parent_rel (gs_groups m))\<^sup>*)"

lemma set_ListAssets: "set (ListAssets as) = applyAssetCanonical ` snd ` set (st_assets as)"
  by (simp add: ListAssets_def image_comp)

lemma canonical_id_group [simp]: "as_id (applyAssetCanonical a) = as_id a"
  "as_group_id (applyAssetCanonical a) = as_group_id a"
  by (simp_all add: applyAssetCanonical_def)

lemma in_subtree_canonical [simp]: "in_subtree m g (applyAssetCanonical a) = in_subtree m g a"
  by (simp add: in_subtree_def)

lemma accessible_store_iff:
  assumes "groups_wf (gs_groups m)" "groups_trimmed (gs_groups m)" "HasAssetRestriction ctx"
  shows "g \<in> set (AccessibleGroupIDs ctx (ListGroups m) (ListAssets as)) \<longleftrightarrow>
    map_of (gs_groups m) g \<noteq> None \<and> (\<exists>a \<in> snd ` set (st_assets as). in_subtree m g a) \<and>
    (\<forall>a \<in> snd ` set (st_assets as). in_subtree m g a \<longrightarrow> AssetCheckContext ctx (as_id a))"
proof -
  have below: "asset_below (parents_map (ListGroups m)) g a = in_subtree m g a" for a
    unfolding asset_below_def in_subtree_def up_rel_store [OF assms(1,2), symmetric]
    using set_group_chain by blast
  have keys: "g \<noteq> [] \<and> g \<in> trim_space ` gp_id ` set (ListGroups m) \<longleftrightarrow> map_of (gs_groups m) g \<noteq> None"
  proof
    assume "g \<noteq> [] \<and> g \<in> trim_space ` gp_id ` set (ListGroups m)"
    then obtain x where "x \<in> snd ` set (gs_groups m)" "g = trim_space (gp_id x)" by (auto simp: ListGroups_def)
    then show "map_of (gs_groups m) g \<noteq> None"
      using groups_wf_map_of [OF assms(1), of g x] stored_group_facts(1) [OF assms(1,2)] by auto
  next
    assume "map_of (gs_groups m) g \<noteq> None"
    then obtain x where "gp_id x = g" "x \<in> snd ` set (gs_groups m)" using groups_wf_map_of [OF assms(1)] by blast
    moreover have "x \<in> set (ListGroups m)" using calculation by (simp add: ListGroups_def)
    ultimately show "g \<noteq> [] \<and> g \<in> trim_space ` gp_id ` set (ListGroups m)"
      using stored_group_facts(1,3) [OF assms(1,2)] by (metis imageI)
  qed
  show ?thesis
    unfolding accessible_iff [OF assms(3)] below set_ListAssets
    by (simp only: keys [symmetric] ball_simps bex_simps in_subtree_canonical canonical_id_group conj_assoc)
qed

section \<open>The filtered tree\<close>

lemma filtered_tree_ids:
  "map gp_id (concat (map tree_groups (filterGroupTreeLevel acc p d nodes))) =
     filter (\<lambda>i. trim_space i \<in> set acc) (map gp_id (concat (map tree_groups nodes)))"
  by (induction acc p d nodes rule: filterGroupTreeLevel.induct) (auto simp: Let_def)

lemma filtered_tree_linked:
  "(\<And>g. g \<in> set (concat (map tree_groups nodes)) \<Longrightarrow> trim_space (gp_id g) = gp_id g) \<Longrightarrow>
   list_all (linked p d) (filterGroupTreeLevel acc p d nodes)"
  by (induction acc p d nodes rule: filterGroupTreeLevel.induct) (auto simp: Let_def)

text \<open>Every parent a filtered tree names is one of its own groups.\<close>

lemma linked_parents:
  assumes "list_all (linked p k) ts" "g \<in> set (concat (map tree_groups ts))"
  shows "gp_parent g = p \<or> gp_parent g \<in> gp_id ` set (concat (map tree_groups ts))"
proof -
  have "linked p k t \<Longrightarrow> g \<in> set (tree_groups t) \<Longrightarrow> gp_parent g = p \<or> gp_parent g \<in> gp_id ` set (tree_groups t)" for t
  proof (induction t arbitrary: p k)
    case (TreeNode h d cs)
    show ?case
    proof (cases "g = h")
      case False
      with TreeNode.prems obtain c where "c \<in> set cs" "g \<in> set (tree_groups c)" "linked (gp_id h) (Suc k) c"
        by (auto simp: list_all_iff)
      from TreeNode.IH [OF this(1,3,2)] this(1) show ?thesis by auto
    qed (use TreeNode.prems in simp)
  qed
  with assms show ?thesis by (fastforce simp: list_all_iff)
qed

end
