(* ===== verification/Group_Handlers.thy ===== *)
theory Group_Handlers
  imports Group_Access
begin

text \<open>
  The HTTP handlers of groups (\<open>internal/hubapi/resources/groups_handlers.go\<close>) over the memory
  stores. A request carries the path, the method, the query and the outcome of decoding its body
  (\<open>None\<close> when \<open>DecodeJSONBody\<close> fails), and whether the rate limiter admitted it. The validation of a
  jump chain (\<open>normalizeGroupJumpChain\<close>) is a function argument: it gives the normalized text or the
  response it wrote. The memory stores return no error but \<open>ErrNotFound\<close>.
\<close>

section \<open>Requests and responses\<close>

record group_request =
  rq_path :: string
  rq_method :: string
  rq_format :: string
  rq_has_location :: string
  rq_admitted :: bool
  rq_create :: "group_create option"
  rq_update :: "group_update option"
  rq_move :: "string option"
  rq_reorder :: "int option"

datatype group_reply =
  GError nat string
| GLimited
| GTree "tree_node list"
| GList "group list"
| GGroup nat group
| GDeleted string nat
| GNoReply

record group_hub =
  gh_groups :: "group_store option"
  gh_assets :: "asset_store option"

type_synonym jump_check = "string \<Rightarrow> (nat \<times> string, string) res"

definition with_jump_chain :: "jump_check \<Rightarrow> string option \<Rightarrow> (nat \<times> string, string option) res" where
  "with_jump_chain norm chain =
     (case chain of None \<Rightarrow> Inr None | Some raw \<Rightarrow> (case norm raw of Inl e \<Rightarrow> Inl e | Inr v \<Rightarrow> Inr (Some v)))"

definition hide_parent :: "string list \<Rightarrow> group \<Rightarrow> group" where
  "hide_parent accessible g =
     (let parentID = trim_space (gp_parent g)
      in if parentID \<noteq> [] \<and> parentID \<notin> set accessible then g\<lparr>gp_parent := []\<rparr> else g)"

section \<open>The collection\<close>

definition groups_get :: "auth_ctx \<Rightarrow> group_request \<Rightarrow> group_store \<Rightarrow> asset_store option \<Rightarrow> group_reply" where
  "groups_get ctx rq gs assets =
     (case (if HasAssetRestriction ctx
            then (case assets of
                    None \<Rightarrow> Inl ()
                  | Some a \<Rightarrow> Inr (Some (AccessibleGroupIDs ctx (ListGroups gs) (ListAssets a))))
            else Inr None) of
        Inl _ \<Rightarrow> GError 503 ''asset authorization stores unavailable''
      | Inr accessible \<Rightarrow>
          (if trim_space (rq_format rq) = ''tree'' then
             (case GetGroupTree gs of
                None \<Rightarrow> GNoReply
              | Some tree \<Rightarrow>
                  GTree (case accessible of None \<Rightarrow> tree | Some ids \<Rightarrow> filterGroupTreeForAccess tree ids))
           else
             (let allGroups = ListGroups gs;
                  allGroups =
                    (case accessible of
                       None \<Rightarrow> allGroups
                     | Some ids \<Rightarrow>
                         map (hide_parent ids) (filter (\<lambda>g. trim_space (gp_id g) \<in> set ids) allGroups));
                  allGroups =
                    (if rq_has_location rq = ''true''
                     then filter (\<lambda>g. gp_timezone g \<noteq> [] \<or> gp_location g \<noteq> []) allGroups else allGroups)
              in GList allGroups)))"

definition groups_post ::
    "auth_ctx \<Rightarrow> jump_check \<Rightarrow> group_request \<Rightarrow> string \<Rightarrow> gtime \<Rightarrow> group_store \<Rightarrow> group_reply \<times> group_store" where
  "groups_post ctx norm rq gid now gs =
     (if HasAssetRestriction ctx
      then (GError 403 ''asset-restricted api keys cannot access global group configuration'', gs)
      else if \<not> rq_admitted rq then (GLimited, gs)
      else case rq_create rq of
             None \<Rightarrow> (GError 400 ''invalid group payload'', gs)
           | Some req \<Rightarrow>
               (let req = req\<lparr>cg_name := trim_space (cg_name req)\<rparr>
                in if cg_name req = [] then (GError 400 ''name is required'', gs)
                   else case with_jump_chain norm (cg_jump_chain req) of
                          Inl (code, msg) \<Rightarrow> (GError code msg, gs)
                        | Inr chain \<Rightarrow>
                            (case CreateGroup gs gid now (req\<lparr>cg_jump_chain := chain\<rparr>) of
                               (g, gs') \<Rightarrow> (GGroup 201 g, gs'))))"

definition HandleGroups ::
    "auth_ctx \<Rightarrow> jump_check \<Rightarrow> group_request \<Rightarrow> string \<Rightarrow> gtime \<Rightarrow> group_hub \<Rightarrow> group_reply \<times> group_hub" where
  "HandleGroups ctx norm rq gid now h =
     (if rq_path rq \<noteq> ''/groups'' then (GError 404 ''not found'', h)
      else case gh_groups h of
             None \<Rightarrow> (GError 503 ''group store unavailable'', h)
           | Some gs \<Rightarrow>
               if rq_method rq = ''GET'' then (groups_get ctx rq gs (gh_assets h), h)
               else if rq_method rq = ''POST'' then
                 (case groups_post ctx norm rq gid now gs of (r, gs') \<Rightarrow> (r, h\<lparr>gh_groups := Some gs'\<rparr>))
               else (GError 405 ''method not allowed'', h))"

section \<open>One group\<close>

definition update_reply :: "(store_error, group) res \<times> group_store \<Rightarrow> group_reply \<times> group_store" where
  "update_reply r =
     (case r of (Inr g, gs) \<Rightarrow> (GGroup 200 g, gs) | (Inl _, gs) \<Rightarrow> (GError 404 ''group not found'', gs))"

definition handleGroupMove :: "group_request \<Rightarrow> string \<Rightarrow> gtime \<Rightarrow> group_store \<Rightarrow> group_reply \<times> group_store" where
  "handleGroupMove rq groupID now gs =
     (if \<not> rq_admitted rq then (GLimited, gs)
      else case rq_move rq of
             None \<Rightarrow> (GError 400 ''invalid move payload'', gs)
           | Some parent \<Rightarrow>
               (let newParentID = trim_space parent
                in if newParentID = groupID then (GError 409 ''a group cannot be its own parent'', gs)
                   else if newParentID \<noteq> [] \<and> IsAncestor gs groupID newParentID
                   then (GError 409 ''moving this group under the target would create a cycle'', gs)
                   else update_reply (UpdateGroup gs now groupID (empty_update\<lparr>ug_parent := Some newParentID\<rparr>))))"

definition handleGroupReorder :: "group_request \<Rightarrow> string \<Rightarrow> gtime \<Rightarrow> group_store \<Rightarrow> group_reply \<times> group_store" where
  "handleGroupReorder rq groupID now gs =
     (if \<not> rq_admitted rq then (GLimited, gs)
      else case rq_reorder rq of
             None \<Rightarrow> (GError 400 ''invalid reorder payload'', gs)
           | Some order \<Rightarrow>
               update_reply (UpdateGroup gs now groupID (empty_update\<lparr>ug_sort_order := Some order\<rparr>)))"

definition group_put :: "jump_check \<Rightarrow> group_request \<Rightarrow> string \<Rightarrow> gtime \<Rightarrow> group_store \<Rightarrow> group_reply \<times> group_store" where
  "group_put norm rq groupID now gs =
     (if \<not> rq_admitted rq then (GLimited, gs)
      else case rq_update rq of
             None \<Rightarrow> (GError 400 ''invalid group payload'', gs)
           | Some req \<Rightarrow>
               (case with_jump_chain norm (ug_jump_chain req) of
                  Inl (code, msg) \<Rightarrow> (GError code msg, gs)
                | Inr chain \<Rightarrow> update_reply (UpdateGroup gs now groupID (req\<lparr>ug_jump_chain := chain\<rparr>))))"

fun unlink_assets :: "gtime \<Rightarrow> string \<Rightarrow> asset list \<Rightarrow> asset_store \<Rightarrow> nat \<times> asset_store" where
  "unlink_assets now groupID [] m = (0, m)"
| "unlink_assets now groupID (a # as) m =
     (if trim_space (as_group_id a) = groupID then
        (case UpdateAsset m now (as_id a) \<lparr>au_name = None, au_group_id = Some [], au_tags = None\<rparr> of
           (Inr _, m) \<Rightarrow> (case unlink_assets now groupID as m of (n, m) \<Rightarrow> (Suc n, m))
         | (Inl _, m) \<Rightarrow> unlink_assets now groupID as m)
      else unlink_assets now groupID as m)"

definition group_delete :: "string \<Rightarrow> gtime \<Rightarrow> group_store \<Rightarrow> asset_store option \<Rightarrow> group_reply \<times> group_store \<times> asset_store option" where
  "group_delete groupID now gs assets =
     (case DeleteGroup gs now groupID of
        (Some _, gs') \<Rightarrow> (GError 404 ''group not found'', gs', assets)
      | (None, gs') \<Rightarrow>
          (case assets of
             None \<Rightarrow> (GDeleted groupID 0, gs', None)
           | Some a \<Rightarrow> (case unlink_assets now groupID (ListAssets a) a of (n, a') \<Rightarrow> (GDeleted groupID n, gs', Some a'))))"

definition HandleGroupActions ::
    "auth_ctx \<Rightarrow> jump_check \<Rightarrow> group_request \<Rightarrow> gtime \<Rightarrow> group_hub \<Rightarrow> group_reply \<times> group_hub" where
  "HandleGroupActions ctx norm rq now h =
     (let path = trim_prefix (rq_path rq) ''/groups/''
      in if path = rq_path rq \<or> path = [] then (GError 404 ''group path not found'', h)
         else case gh_groups h of
                None \<Rightarrow> (GError 503 ''group store unavailable'', h)
              | Some gs \<Rightarrow>
                  (let parts = split_on CHR ''/'' path;
                       groupID = trim_space (hd parts);
                       stored = (\<lambda>(r, gs'). (r, h\<lparr>gh_groups := Some gs'\<rparr>))
                   in if groupID = [] then (GError 404 ''group path not found'', h)
                      else if HasAssetRestriction ctx \<and> rq_method rq \<noteq> ''GET''
                      then (GError 403 ''asset-restricted api keys cannot mutate global group configuration'', h)
                      else if length parts = 2 then
                        (if parts ! 1 = ''move'' then
                           (if rq_method rq \<noteq> ''PUT'' then (GError 405 ''method not allowed'', h)
                            else stored (handleGroupMove rq groupID now gs))
                         else if parts ! 1 = ''reorder'' then
                           (if rq_method rq \<noteq> ''PUT'' then (GError 405 ''method not allowed'', h)
                            else stored (handleGroupReorder rq groupID now gs))
                         else (GError 404 ''unknown group action'', h))
                      else if length parts \<noteq> 1 then (GError 404 ''unknown group action'', h)
                      else if rq_method rq = ''GET'' then
                        (case requireGroupAccess ctx (Some gs) (gh_assets h) [groupID] of
                           Inl (code, msg) \<Rightarrow> (GError code msg, h)
                         | Inr _ \<Rightarrow> (case GetGroup gs groupID of
                                      None \<Rightarrow> (GError 404 ''group not found'', h)
                                    | Some g \<Rightarrow> (GGroup 200 g, h)))
                      else if rq_method rq = ''PUT'' \<or> rq_method rq = ''PATCH'' then stored (group_put norm rq groupID now gs)
                      else if rq_method rq = ''DELETE'' then
                        (case group_delete groupID now gs (gh_assets h) of
                           (r, gs', as') \<Rightarrow> (r, h\<lparr>gh_groups := Some gs', gh_assets := as'\<rparr>))
                      else (GError 405 ''method not allowed'', h)))"

section \<open>Runs\<close>

text \<open>
  A run handles requests one after the other. The identifier drawn for a new group is fresh. The
  guard on the second rule leaves out the one request that sets a parent without the cycle check: a
  \<open>PUT\<close> or \<open>PATCH\<close> of \<open>/groups/{id}\<close> with a \<open>parent_group_id\<close> (see \<open>patch_makes_cycle\<close>).
\<close>

inductive group_step :: "group_hub \<Rightarrow> group_hub \<Rightarrow> bool" where
  collection: "(\<And>gs. gh_groups h = Some gs \<Longrightarrow> fresh_group_id gs gid) \<Longrightarrow> trim_space gid = gid \<Longrightarrow>
     (\<And>req. rq_create rq = Some req \<Longrightarrow> trim_space (cg_parent req) \<noteq> gid) \<Longrightarrow>
     group_step h (snd (HandleGroups ctx norm rq gid now h))"
| action: "(\<And>req. rq_update rq = Some req \<Longrightarrow> ug_parent req = None) \<Longrightarrow>
     group_step h (snd (HandleGroupActions ctx norm rq now h))"

definition store_ok :: "group_store \<Rightarrow> bool" where
  "store_ok gs = (group_tree_ok gs \<and> groups_trimmed (gs_groups gs))"

definition hub_ok :: "group_hub \<Rightarrow> bool" where
  "hub_ok h = (\<forall>gs. gh_groups h = Some gs \<longrightarrow> store_ok gs)"

section \<open>Every handler keeps the groups well formed\<close>

lemma groups_trimmed_update:
  "groups_trimmed gs \<Longrightarrow> trim_space k = k \<Longrightarrow> trim_space (gp_parent g) = gp_parent g \<Longrightarrow>
   groups_trimmed (AList.update k g gs)"
  unfolding groups_trimmed_def using alist_update_subset [of k g gs] by blast

lemma groups_trimmed_delete: "groups_trimmed gs \<Longrightarrow> groups_trimmed (AList.delete k gs)"
  unfolding groups_trimmed_def using alist_delete_subset [of k gs] by blast

lemma CreateGroup_store_ok:
  assumes "store_ok gs" "fresh_group_id gs gid" "trim_space gid = gid" "trim_space (cg_parent req) \<noteq> gid"
  shows "store_ok (snd (CreateGroup gs gid now req))"
proof -
  have "groups_trimmed (gs_groups (snd (CreateGroup gs gid now req)))"
    using assms(1,3) by (simp add: store_ok_def CreateGroup_def Let_def groups_trimmed_update)
  with CreateGroup_ok [of gs gid req now] assms show ?thesis by (simp add: store_ok_def)
qed

lemma UpdateGroup_store_ok:
  assumes "store_ok gs"
    and "\<And>p. ug_parent req = Some p \<Longrightarrow> trim_space p \<noteq> [] \<Longrightarrow>
      (trim_space p, trim_space gid) \<notin> (parent_rel (gs_groups gs))\<^sup>*"
  shows "store_ok (snd (UpdateGroup gs now gid req))"
proof (cases rule: UpdateGroup_cases [of gs gid now req])
  case (found g g')
  have "trim_space (gp_parent g) = gp_parent g"
    using assms(1) map_of_SomeD [OF found(1)] by (auto simp: store_ok_def groups_trimmed_def)
  then have "trim_space (gp_parent g') = gp_parent g'" using found(4) by (simp split: option.split)
  then have "groups_trimmed (gs_groups (snd (UpdateGroup gs now gid req)))"
    using found(2) assms(1) by (simp add: store_ok_def groups_trimmed_update)
  with UpdateGroup_ok [of gs req gid now] assms show ?thesis by (simp add: store_ok_def)
qed (use assms in simp)

lemma DeleteGroup_store_ok:
  assumes "store_ok gs"
  shows "store_ok (snd (DeleteGroup gs now gid))"
proof -
  have "groups_trimmed (gs_groups (snd (DeleteGroup gs now gid)))"
  proof (cases "map_of (gs_groups gs) (trim_space gid)")
    case (Some g)
    then have "trim_space (gp_parent g) = gp_parent g"
      using assms map_of_SomeD [OF Some] by (auto simp: store_ok_def groups_trimmed_def)
    then have "groups_trimmed (map (\<lambda>(k, c). (k, reparent (trim_space gid) (gp_parent g) now c)) (gs_groups gs))"
      using assms by (auto simp: store_ok_def groups_trimmed_def reparent_def)
    with Some show ?thesis by (simp add: DeleteGroup_def Let_def groups_trimmed_delete)
  qed (use assms in \<open>simp add: DeleteGroup_def store_ok_def\<close>)
  with DeleteGroup_ok assms show ?thesis by (simp add: store_ok_def)
qed

lemma snd_update_reply [simp]: "snd (update_reply r) = snd r"
  by (simp add: update_reply_def split: prod.split sum.split)

lemma handleGroupMove_store_ok:
  assumes ok: "store_ok gs" and id: "trim_space groupID = groupID" "groupID \<noteq> []"
  shows "store_ok (snd (handleGroupMove rq groupID now gs))"
proof (cases "rq_admitted rq \<and> (\<exists>p. rq_move rq = Some p)")
  case True
  then obtain p where p: "rq_admitted rq" "rq_move rq = Some p" by blast
  let ?p = "trim_space p"
  show ?thesis
  proof (cases "?p = groupID \<or> ?p \<noteq> [] \<and> IsAncestor gs groupID ?p")
    case False
    then have "store_ok (snd (UpdateGroup gs now groupID (empty_update\<lparr>ug_parent := Some ?p\<rparr>)))"
    proof (intro UpdateGroup_store_ok [OF ok])
      fix q
      assume q: "ug_parent (empty_update\<lparr>ug_parent := Some ?p\<rparr>) = Some q" "trim_space q \<noteq> []"
      have "(?p, groupID) \<notin> (parent_rel (gs_groups gs))\<^sup>+"
        using False q id by (auto simp: IsAncestor_iff)
      then show "(trim_space q, trim_space groupID) \<notin> (parent_rel (gs_groups gs))\<^sup>*"
        using False q id by (auto simp: rtrancl_eq_or_trancl)
    qed
    with False p show ?thesis by (auto simp: handleGroupMove_def Let_def)
  qed (use p ok in \<open>auto simp: handleGroupMove_def Let_def\<close>)
qed (use ok in \<open>auto simp: handleGroupMove_def split: option.splits\<close>)

lemma handleGroupReorder_store_ok: "store_ok gs \<Longrightarrow> store_ok (snd (handleGroupReorder rq groupID now gs))"
  by (auto simp: handleGroupReorder_def empty_update_def intro!: UpdateGroup_store_ok split: option.split)

lemma group_put_store_ok:
  assumes "store_ok gs" "\<And>req. rq_update rq = Some req \<Longrightarrow> ug_parent req = None"
  shows "store_ok (snd (group_put norm rq groupID now gs))"
  using assms by (auto simp: group_put_def intro!: UpdateGroup_store_ok split: option.split sum.split)

lemma group_delete_store_ok: "store_ok gs \<Longrightarrow> store_ok (fst (snd (group_delete groupID now gs as)))"
  using DeleteGroup_store_ok [of gs now groupID]
  by (auto simp: group_delete_def split: prod.splits option.splits)

lemma hub_ok_update [simp]: "hub_ok (h\<lparr>gh_groups := Some gs\<rparr>) = store_ok gs"
  "hub_ok (h\<lparr>gh_groups := Some gs, gh_assets := as\<rparr>) = store_ok gs"
  by (simp_all add: hub_ok_def)

lemma HandleGroups_hub_ok:
  assumes "hub_ok h" "\<And>gs. gh_groups h = Some gs \<Longrightarrow> fresh_group_id gs gid" "trim_space gid = gid"
    "\<And>req. rq_create rq = Some req \<Longrightarrow> trim_space (cg_parent req) \<noteq> gid"
  shows "hub_ok (snd (HandleGroups ctx norm rq gid now h))"
proof (cases "gh_groups h")
  case (Some gs)
  have ok: "store_ok gs" and fresh: "fresh_group_id gs gid" using assms(1,2) Some by (auto simp: hub_ok_def)
  have "store_ok (snd (groups_post ctx norm rq gid now gs))"
    using ok CreateGroup_store_ok [OF ok fresh assms(3)] assms(4)
    by (auto simp: groups_post_def Let_def case_prod_beta split: option.split sum.split)
  with Some assms(1) show ?thesis by (simp add: HandleGroups_def case_prod_beta)
qed (use assms in \<open>simp add: HandleGroups_def\<close>)

lemma HandleGroupActions_hub_ok:
  assumes "hub_ok h" "\<And>req. rq_update rq = Some req \<Longrightarrow> ug_parent req = None"
  shows "hub_ok (snd (HandleGroupActions ctx norm rq now h))"
proof (cases "gh_groups h")
  case (Some gs)
  have ok: "store_ok gs" using assms(1) Some by (auto simp: hub_ok_def)
  note parts = handleGroupMove_store_ok [OF ok] handleGroupReorder_store_ok [OF ok]
    group_put_store_ok [OF ok assms(2)] group_delete_store_ok [OF ok]
  show ?thesis
    using Some assms(1) parts
    by (simp add: HandleGroupActions_def Let_def case_prod_beta split: sum.split option.split)
qed (use assms in \<open>simp add: HandleGroupActions_def Let_def\<close>)

lemma group_step_hub_ok: "group_step h h' \<Longrightarrow> hub_ok h \<Longrightarrow> hub_ok h'"
  by (induction rule: group_step.induct) (simp_all add: HandleGroups_hub_ok HandleGroupActions_hub_ok)

definition tree_request :: group_request where
  "tree_request = \<lparr>rq_path = ''/groups'', rq_method = ''GET'', rq_format = ''tree'', rq_has_location = [],
     rq_admitted = True, rq_create = None, rq_update = None, rq_move = None, rq_reorder = None\<rparr>"

definition initial_hub :: group_hub where
  "initial_hub = \<lparr>gh_groups = Some NewMemoryGroupStore, gh_assets = Some NewMemoryAssetStore\<rparr>"

lemma initial_hub_ok: "hub_ok initial_hub"
  by (simp add: hub_ok_def initial_hub_def NewMemoryGroupStore_def store_ok_def group_tree_ok_def groups_wf_def
      groups_trimmed_def parent_rel_def parent_of_def acyclic_def)

lemma tree_request_reply:
  assumes "gh_groups h = Some gs" "\<not> HasAssetRestriction ctx"
  shows "fst (HandleGroups ctx norm tree_request gid now h) = (case GetGroupTree gs of None \<Rightarrow> GNoReply | Some ts \<Rightarrow> GTree ts)"
  using assms by (simp add: HandleGroups_def tree_request_def groups_get_def go_string_simps split: option.split)

section \<open>What a restricted key is told\<close>

definition reply_groups :: "group_reply \<Rightarrow> group list" where
  "reply_groups r =
     (case r of GTree ts \<Rightarrow> concat (map tree_groups ts) | GList gs \<Rightarrow> gs | GGroup _ g \<Rightarrow> [g] | _ \<Rightarrow> [])"

definition accessible_ids :: "auth_ctx \<Rightarrow> group_store \<Rightarrow> asset_store \<Rightarrow> string list" where
  "accessible_ids ctx gs as = AccessibleGroupIDs ctx (ListGroups gs) (ListAssets as)"

lemma tree_of_store:
  assumes "store_ok gs" "GetGroupTree gs = Some ts" "g \<in> set (concat (map tree_groups ts))"
  shows "g \<in> snd ` set (gs_groups gs)"
proof -
  have wf: "groups_wf (gs_groups gs)" "acyclic (parent_rel (gs_groups gs))"
    using assms(1) by (auto simp: store_ok_def group_tree_ok_def)
  from GetGroupTree_acyclic [OF wf] assms(2)
  have "mset (concat (map tree_groups ts)) = mset (filter (\<lambda>g. rooted (gs_groups gs) (gp_id g)) (map snd (gs_groups gs)))"
    by auto
  from mset_eq_setD [OF this] assms(3) show ?thesis by auto
qed

lemma restricted_list:
  assumes "g \<in> set (map (hide_parent ids) (filter (\<lambda>g. trim_space (gp_id g) \<in> set ids) gl))"
    "\<And>x. x \<in> set gl \<Longrightarrow> trim_space (gp_id x) = gp_id x \<and> trim_space (gp_parent x) = gp_parent x"
  shows "gp_id g \<in> set ids \<and> (gp_parent g = [] \<or> gp_parent g \<in> set ids)"
proof -
  from assms(1) obtain x where x: "x \<in> set gl" "trim_space (gp_id x) \<in> set ids" "g = hide_parent ids x" by auto
  with assms(2) [OF x(1)] show ?thesis by (auto simp: hide_parent_def Let_def)
qed

lemma restricted_tree:
  assumes ok: "store_ok gs" and tree: "GetGroupTree gs = Some ts"
    and g: "g \<in> set (concat (map tree_groups (filterGroupTreeForAccess ts ids)))"
  shows "gp_id g \<in> set ids \<and> (gp_parent g = [] \<or> gp_parent g \<in> set ids)"
proof -
  let ?shown = "concat (map tree_groups (filterGroupTreeLevel ids [] 0 ts))"
  have trimmed: "trim_space (gp_id x) = gp_id x" if "x \<in> set (concat (map tree_groups ts))" for x
    using stored_group_facts(1) tree_of_store [OF ok tree that] ok by (auto simp: store_ok_def group_tree_ok_def)
  have shown: "i \<in> set ids" if "i \<in> gp_id ` set ?shown" for i
  proof -
    from that have "i \<in> set (map gp_id ?shown)" by simp
    then have "trim_space i \<in> set ids" "i \<in> gp_id ` set (concat (map tree_groups ts))"
      unfolding filtered_tree_ids by auto
    with trimmed show ?thesis by (metis imageE)
  qed
  have "list_all (linked [] 0) (filterGroupTreeLevel ids [] 0 ts)"
    by (rule filtered_tree_linked) (rule trimmed)
  from linked_parents [OF this] g shown show ?thesis
    unfolding filterGroupTreeForAccess_def by blast
qed

lemma restricted_reply:
  assumes ok: "store_ok gs" and r: "HasAssetRestriction ctx"
    and g: "g \<in> set (reply_groups (groups_get ctx rq gs (Some as)))"
  shows "gp_id g \<in> set (accessible_ids ctx gs as) \<and> (gp_parent g = [] \<or> gp_parent g \<in> set (accessible_ids ctx gs as))"
proof (cases "trim_space (rq_format rq) = ''tree''")
  case True
  with g r obtain ts where "GetGroupTree gs = Some ts"
    "g \<in> set (concat (map tree_groups (filterGroupTreeForAccess ts (accessible_ids ctx gs as))))"
    by (auto simp: groups_get_def accessible_ids_def reply_groups_def split: option.splits)
  then show ?thesis by (rule restricted_tree [OF ok])
next
  case False
  have "g \<in> set (map (hide_parent (accessible_ids ctx gs as))
      (filter (\<lambda>g. trim_space (gp_id g) \<in> set (accessible_ids ctx gs as)) (ListGroups gs)))"
    using False g r by (auto simp: groups_get_def accessible_ids_def reply_groups_def Let_def split: if_splits)
  moreover have "trim_space (gp_id x) = gp_id x \<and> trim_space (gp_parent x) = gp_parent x" if "x \<in> set (ListGroups gs)" for x
    using stored_group_facts [of "gs_groups gs" x] that ok
    by (simp add: ListGroups_def store_ok_def group_tree_ok_def)
  ultimately show ?thesis by (rule restricted_list)
qed

lemma restricted_unchanged:
  assumes "HasAssetRestriction ctx" "gh_groups h = Some gs"
  shows "snd (HandleGroups ctx norm rq gid now h) = h" "snd (HandleGroupActions ctx norm rq now h) = h"
proof -
  have same: "h\<lparr>gh_groups := Some gs\<rparr> = h" using assms(2) by (intro group_hub.equality) simp_all
  show "snd (HandleGroups ctx norm rq gid now h) = h"
    using assms same by (simp add: HandleGroups_def groups_post_def)
  show "snd (HandleGroupActions ctx norm rq now h) = h"
    using assms by (simp add: HandleGroupActions_def Let_def split: sum.split option.split)
qed

lemma restricted_collection:
  assumes "gh_groups h = Some gs" "gh_assets h = Some as" "HasAssetRestriction ctx"
    "g \<in> set (reply_groups (fst (HandleGroups ctx norm rq gid now h)))"
  shows "g \<in> set (reply_groups (groups_get ctx rq gs (Some as)))"
  using assms by (simp add: HandleGroups_def groups_post_def reply_groups_def split: if_splits)

lemma restricted_single:
  assumes ok: "store_ok gs" and h: "gh_groups h = Some gs" "gh_assets h = Some as" and r: "HasAssetRestriction ctx"
    and g: "g \<in> set (reply_groups (fst (HandleGroupActions ctx norm rq now h)))"
  shows "gp_id g \<in> set (accessible_ids ctx gs as)"
proof -
  let ?id = "trim_space (hd (split_on CHR ''/'' (trim_prefix (rq_path rq) ''/groups/'')))"
  have "?id \<in> set (accessible_ids ctx gs as)" "GetGroup gs ?id = Some g"
    using g h r
    by (auto simp: HandleGroupActions_def Let_def reply_groups_def requireGroupAccess_def accessible_ids_def
        split: if_splits option.splits)
  moreover have "groups_wf (gs_groups gs)" using ok by (simp add: store_ok_def group_tree_ok_def)
  ultimately show ?thesis using groups_wf_map_of [of "gs_groups gs" ?id g] by (simp add: GetGroup_def)
qed

section \<open>A concrete run\<close>

definition sample_create :: "string \<Rightarrow> string \<Rightarrow> group_create" where
  "sample_create name parent = \<lparr>cg_name = name, cg_slug = [], cg_parent = parent, cg_icon = [], cg_sort_order = 0,
     cg_timezone = [], cg_location = [], cg_latitude = None, cg_longitude = None, cg_metadata = [], cg_jump_chain = None\<rparr>"

definition post_request :: "group_create \<Rightarrow> group_request" where
  "post_request req = tree_request\<lparr>rq_method := ''POST'', rq_create := Some req\<rparr>"

definition move_request :: "string \<Rightarrow> string \<Rightarrow> group_request" where
  "move_request gid parent = tree_request\<lparr>rq_path := ''/groups/'' @ gid @ ''/move'', rq_method := ''PUT'', rq_move := Some parent\<rparr>"

definition sample_hub :: "nat \<Rightarrow> group_hub" where
  "sample_hub n =
     (let post = (\<lambda>gid parent h. snd (HandleGroups background Inr (post_request (sample_create gid parent)) gid 0 h));
          h1 = post ''a'' [] initial_hub; h2 = post ''b'' ''a'' h1
      in if n = 0 then initial_hub else if n = 1 then h1 else if n = 2 then h2
         else snd (HandleGroupActions background Inr (move_request ''a'' ''b'') 0 h2))"

lemma sample_hub_eval:
  "map_option (\<lambda>gs. map (\<lambda>(k, g). (k, gp_parent g)) (gs_groups gs)) (gh_groups (sample_hub 3)) = Some [(''a'', []), (''b'', ''a'')]"
  "fst (HandleGroupActions background Inr (move_request ''a'' ''b'') 0 (sample_hub 2)) =
     GError 409 ''moving this group under the target would create a cycle''"
  by code_simp+

lemma sample_run_hubs:
  "sample_hub 1 = snd (HandleGroups background Inr (post_request (sample_create ''a'' [])) ''a'' 0 (sample_hub 0))"
  "sample_hub 2 = snd (HandleGroups background Inr (post_request (sample_create ''b'' ''a'')) ''b'' 0 (sample_hub 1))"
  "sample_hub 3 = snd (HandleGroupActions background Inr (move_request ''a'' ''b'') 0 (sample_hub 2))"
  by (simp_all add: sample_hub_def Let_def)

lemma sample_fresh:
  "case_option True (\<lambda>gs. fresh_group_id gs ''a'') (gh_groups (sample_hub 0))"
  "case_option True (\<lambda>gs. fresh_group_id gs ''b'') (gh_groups (sample_hub 1))"
  "trim_space ''a'' = ''a''" "trim_space ''b'' = ''b''" "trim_space [] \<noteq> ''a''" "trim_space ''a'' \<noteq> ''b''"
  by code_simp+

lemma sample_run: "group_step\<^sup>*\<^sup>* initial_hub (sample_hub 3)"
proof -
  have "group_step (sample_hub 0) (sample_hub 1)"
    unfolding sample_run_hubs(1)
    by (rule group_step.collection) (use sample_fresh in \<open>auto simp: post_request_def sample_create_def\<close>)
  moreover have "group_step (sample_hub 1) (sample_hub 2)"
    unfolding sample_run_hubs(2)
    by (rule group_step.collection) (use sample_fresh in \<open>auto simp: post_request_def sample_create_def\<close>)
  moreover have "group_step (sample_hub 2) (sample_hub 3)"
    unfolding sample_run_hubs(3)
    by (rule group_step.action) (simp add: move_request_def tree_request_def)
  moreover have "initial_hub = sample_hub 0" by (simp add: sample_hub_def Let_def)
  ultimately show ?thesis by (simp add: converse_rtranclp_into_rtranclp)
qed

lemma unrestricted_background: "\<not> HasAssetRestriction background"
  by (simp add: HasAssetRestriction_def background_def slice_def)

lemma sample_store:
  obtains gs where "gh_groups (sample_hub 3) = Some gs" "store_ok gs" "map fst (gs_groups gs) = [''a'', ''b'']"
proof -
  obtain gs where gs: "gh_groups (sample_hub 3) = Some gs"
    "map (\<lambda>(k, g). (k, gp_parent g)) (gs_groups gs) = [(''a'', []), (''b'', ''a'')]"
    using sample_hub_eval(1) by auto
  have "map fst (map (\<lambda>(k, g). (k, gp_parent g)) (gs_groups gs)) = [''a'', ''b'']" unfolding gs(2) by simp
  then have "map fst (gs_groups gs) = [''a'', ''b'']" by (simp add: comp_def case_prod_beta)
  moreover have "hub_ok (sample_hub 3)"
    using sample_run initial_hub_ok by (rule rtranclp_invariant) (rule group_step_hub_ok)
  ultimately show ?thesis using that gs(1) by (simp add: hub_ok_def)
qed

section \<open>Properties\<close>

text \<open>C18: The tree view of groups returns exactly when no group is its own ancestor: over the memory
  store, \<open>GET /groups?format=tree\<close> gets an answer if and only if the parents are acyclic. (The
  depth computation recurses over the parents and has no guard of its own.)\<close>

theorem tree_view_returns_iff_acyclic:
  assumes "gh_groups h = Some gs" "groups_wf (gs_groups gs)" "\<not> HasAssetRestriction ctx"
  shows "fst (HandleGroups ctx norm tree_request gid now h) \<noteq> GNoReply \<longleftrightarrow> acyclic (parent_rel (gs_groups gs))"
  using GetGroupTree_acyclic [OF assms(2)] GetGroupTree_returns [OF assms(2)]
  by (auto simp: tree_request_reply [OF assms(1,3)] split: option.splits)


theorem tree_view_returns_iff_acyclic_witness:
  "\<exists>gs. gh_groups (sample_hub 3) = Some gs \<and> length (gs_groups gs) = 2 \<and> acyclic (parent_rel (gs_groups gs)) \<and>
     fst (HandleGroups background Inr tree_request [] 0 (sample_hub 3)) \<noteq> GNoReply"
proof -
  obtain gs where gs: "gh_groups (sample_hub 3) = Some gs" "store_ok gs" "map fst (gs_groups gs) = [''a'', ''b'']"
    by (rule sample_store)
  from gs(2) have ok: "groups_wf (gs_groups gs)" "acyclic (parent_rel (gs_groups gs))"
    by (auto simp: store_ok_def group_tree_ok_def)
  have "length (gs_groups gs) = 2" using arg_cong [OF gs(3), of length] by simp
  with gs(1) ok tree_view_returns_iff_acyclic [OF gs(1) ok(1) unrestricted_background, of Inr "[]" 0] show ?thesis
    by blast
qed


text \<open>C19: An API key restricted to a list of assets changes no group, and of the groups it is only told
  those whose whole subtree of assets it may use: every group in a reply of the collection or of one
  group has an asset below it, and all assets below it are allowed for the key. The collection, as a
  list and as a tree, also never names a parent outside that set.\<close>

theorem restricted_key_sees_covered_groups:
  assumes "hub_ok h" "gh_groups h = Some gs" "gh_assets h = Some as" "HasAssetRestriction ctx"
  shows "snd (HandleGroups ctx norm rq gid now h) = h \<and> snd (HandleGroupActions ctx norm rq now h) = h \<and>
    (\<forall>g \<in> set (reply_groups (fst (HandleGroups ctx norm rq gid now h))) \<union>
          set (reply_groups (fst (HandleGroupActions ctx norm rq now h))).
       (\<exists>a \<in> snd ` set (st_assets as). in_subtree gs (gp_id g) a) \<and>
       (\<forall>a \<in> snd ` set (st_assets as). in_subtree gs (gp_id g) a \<longrightarrow> AssetCheckContext ctx (as_id a))) \<and>
    (\<forall>g \<in> set (reply_groups (fst (HandleGroups ctx norm rq gid now h))).
       gp_parent g = [] \<or> gp_parent g \<in> set (accessible_ids ctx gs as))"
proof -
  have ok: "store_ok gs" using assms(1,2) by (simp add: hub_ok_def)
  have wf: "groups_wf (gs_groups gs)" "groups_trimmed (gs_groups gs)"
    using ok by (simp_all add: store_ok_def group_tree_ok_def)
  have same: "snd (HandleGroups ctx norm rq gid now h) = h" "snd (HandleGroupActions ctx norm rq now h) = h"
    using restricted_unchanged [OF assms(4,2)] by auto
  have c: "gp_id g \<in> set (accessible_ids ctx gs as)" "gp_parent g = [] \<or> gp_parent g \<in> set (accessible_ids ctx gs as)"
    if "g \<in> set (reply_groups (fst (HandleGroups ctx norm rq gid now h)))" for g
    using restricted_reply [OF ok assms(4)] restricted_collection [OF assms(2-4) that] by auto
  have o: "gp_id g \<in> set (accessible_ids ctx gs as)"
    if "g \<in> set (reply_groups (fst (HandleGroupActions ctx norm rq now h)))" for g
    using restricted_single [OF ok assms(2-4) that] .
  from c o same show ?thesis
    unfolding accessible_ids_def accessible_store_iff [OF wf assms(4)] by blast
qed

definition sample_assets :: asset_store where
  "sample_assets = \<lparr>st_assets = [(''x'', zero_asset\<lparr>as_id := ''x'', as_group_id := ''b''\<rparr>)], st_retired = []\<rparr>"

definition sample_key :: auth_ctx where
  "sample_key = background\<lparr>cx_assets := Some [''x'']\<rparr>"

lemma head_of_map: "map f xs = y # ys \<Longrightarrow> \<exists>x \<in> set xs. f x = y"
  by (cases xs) auto

lemma sample_key_reply:
  "map gp_id (reply_groups (fst (HandleGroups sample_key Inr (tree_request\<lparr>rq_format := []\<rparr>) [] 0
     ((sample_hub 3)\<lparr>gh_assets := Some sample_assets\<rparr>)))) = [''a'', ''b'']"
  by code_simp

theorem restricted_key_sees_covered_groups_witness:
  "\<exists>gs. gh_groups (sample_hub 3) = Some gs \<and> (\<exists>a \<in> snd ` set (st_assets sample_assets). in_subtree gs ''a'' a) \<and>
     snd (HandleGroups sample_key Inr (tree_request\<lparr>rq_format := []\<rparr>) [] 0
       ((sample_hub 3)\<lparr>gh_assets := Some sample_assets\<rparr>)) = (sample_hub 3)\<lparr>gh_assets := Some sample_assets\<rparr>"
proof -
  obtain gs where gs: "gh_groups (sample_hub 3) = Some gs" "store_ok gs" by (rule sample_store)
  let ?h = "(sample_hub 3)\<lparr>gh_assets := Some sample_assets\<rparr>"
  have h: "hub_ok ?h" "gh_groups ?h = Some gs" "gh_assets ?h = Some sample_assets"
    using gs by (auto simp: hub_ok_def)
  have r: "HasAssetRestriction sample_key" by (simp add: HasAssetRestriction_def sample_key_def slice_def)
  note t = restricted_key_sees_covered_groups [OF h r, of Inr "tree_request\<lparr>rq_format := []\<rparr>" "[]" 0]
  obtain g where g: "g \<in> set (reply_groups (fst (HandleGroups sample_key Inr (tree_request\<lparr>rq_format := []\<rparr>) [] 0 ?h)))"
    "gp_id g = ''a''"
    using head_of_map [OF sample_key_reply] by blast
  from t g(1) have "\<exists>a \<in> snd ` set (st_assets sample_assets). in_subtree gs (gp_id g) a" by blast
  with t gs(1) g(2) show ?thesis by (intro exI [of _ gs]) simp
qed

text \<open>The request the runs leave out: a \<open>PATCH\<close> of a group with a new parent is not checked. Moving
  \<open>a\<close> below its own child \<open>b\<close> is refused by \<open>/groups/a/move\<close> with a conflict and accepted by
  \<open>PATCH /groups/a\<close>; the tree view then never answers.\<close>

definition patch_request :: group_request where
  "patch_request = tree_request\<lparr>rq_path := ''/groups/a'', rq_method := ''PATCH'',
     rq_update := Some (empty_update\<lparr>ug_parent := Some ''b''\<rparr>)\<rparr>"

definition patched_hub :: group_hub where
  "patched_hub = snd (HandleGroupActions background Inr patch_request 0 (sample_hub 2))"

lemma patched_parents:
  "map_option (\<lambda>gs. (parent_of (gs_groups gs) ''a'', parent_of (gs_groups gs) ''b'', map fst (gs_groups gs),
      map (\<lambda>(k, g). gp_id g) (gs_groups gs))) (gh_groups patched_hub) =
     Some (Some ''b'', Some ''a'', [''a'', ''b''], [''a'', ''b''])"
  by code_simp

lemma patch_makes_cycle:
  "\<exists>gs. gh_groups patched_hub = Some gs \<and> (''a'', ''a'') \<in> (parent_rel (gs_groups gs))\<^sup>+ \<and>
     GetGroupTree gs = None"
proof -
  obtain gs where gs: "gh_groups patched_hub = Some gs" "parent_of (gs_groups gs) ''a'' = Some ''b''"
    "parent_of (gs_groups gs) ''b'' = Some ''a''" "map fst (gs_groups gs) = [''a'', ''b'']"
    "map (\<lambda>(k, g). gp_id g) (gs_groups gs) = [''a'', ''b'']"
    using patched_parents by auto
  have cyc: "(''a'', ''a'') \<in> (parent_rel (gs_groups gs))\<^sup>+"
    using gs(2,3) by (meson parent_rel_iff trancl.simps)
  moreover have "groups_wf (gs_groups gs)"
    using gs(4,5) by (auto simp: groups_wf_def Cons_eq_map_conv map_eq_Cons_conv)
  ultimately have "GetGroupTree gs = None" using GetGroupTree_returns [of gs] by (meson acyclic_def)
  with gs(1) cyc show ?thesis by (intro exI [of _ gs]) simp
qed

text \<open>The reply for one group names its parent, also when the key may not see the parent.\<close>

lemma single_group_names_hidden_parent:
  "map (\<lambda>g. (gp_id g, gp_parent g)) (reply_groups (fst (HandleGroupActions sample_key Inr
     (tree_request\<lparr>rq_path := ''/groups/b''\<rparr>) 0
     ((sample_hub 3)\<lparr>gh_assets := Some (sample_assets\<lparr>st_assets := (''y'', zero_asset\<lparr>as_id := ''y'', as_group_id := ''a''\<rparr>) #
       st_assets sample_assets\<rparr>)\<rparr>)))) = [(''b'', ''a'')]"
  "map (\<lambda>g. (gp_id g, gp_parent g)) (reply_groups (fst (HandleGroups sample_key Inr (tree_request\<lparr>rq_format := []\<rparr>) [] 0
     ((sample_hub 3)\<lparr>gh_assets := Some (sample_assets\<lparr>st_assets := (''y'', zero_asset\<lparr>as_id := ''y'', as_group_id := ''a''\<rparr>) #
       st_assets sample_assets\<rparr>)\<rparr>)))) = [(''b'', [])]"
  by code_simp+

end
