(* ===== verification/Reliability_History.thy ===== *)
theory Reliability_History
  imports Group_Store
begin

text \<open>
  The reliability scores kept per group (\<open>internal/persistence/memory_reliability_history_store.go\<close>):
  recording, listing newest first, pruning, and the latest score of every group for the metrics
  endpoint. The free-form factors of a record are left out; the context of a request is an argument
  (\<open>None\<close> is the nil context, \<open>Some (Some e)\<close> one that is already done; a context that ends while the
  loops run is not modelled).
\<close>

definition day :: duration where "day = 24 * 60 * minute"

definition InsertReliabilityRecord ::
    "group_store \<Rightarrow> string \<Rightarrow> gtime \<Rightarrow> string \<Rightarrow> int \<Rightarrow> string \<Rightarrow> int \<Rightarrow> store_error option \<times> group_store" where
  "InsertReliabilityRecord m rid now groupID score grade windowHours =
     (let groupID = trim_space groupID;
          record = \<lparr>rr_id = rid, rr_group_id = groupID, rr_score = score, rr_grade = trim_space grade,
            rr_window_hours = windowHours, rr_computed_at = now\<rparr>
      in if map_of (gs_groups m) groupID = None then (Some ErrNotFound, m)
         else (None, m\<lparr>gs_history :=
           AList.update groupID ((case map_of (gs_history m) groupID of None \<Rightarrow> [] | Some rs \<Rightarrow> rs) @ [record])
             (gs_history m)\<rparr>))"

definition history_of :: "group_store \<Rightarrow> string \<Rightarrow> reliability_record list" where
  "history_of m groupID = (case map_of (gs_history m) groupID of None \<Rightarrow> [] | Some rs \<Rightarrow> rs)"

text \<open>Newest first, equal instants by descending id.\<close>

definition ListReliabilityHistory :: "group_store \<Rightarrow> gtime \<Rightarrow> string \<Rightarrow> int \<Rightarrow> reliability_record list" where
  "ListReliabilityHistory m now groupID days =
     (let days = (if days \<le> 0 then 7 else days);
          days = (if 365 < days then 365 else days);
          oldest = now - days * day;
          out = filter (\<lambda>r. oldest < rr_computed_at r) (history_of m (trim_space groupID))
      in rev (sort_key (\<lambda>r. (rr_computed_at r, rr_id r)) (rev out)))"

definition PruneReliabilityHistory :: "group_store \<Rightarrow> gtime \<Rightarrow> int \<Rightarrow> nat \<times> group_store" where
  "PruneReliabilityHistory m now olderThanDays =
     (let days = (if olderThanDays \<le> 0 then 90 else olderThanDays);
          oldest = now + wrap64 (- days * day);
          removed = sum_list (map (\<lambda>(g, rs). length (filter (\<lambda>r. rr_computed_at r < oldest) rs)) (gs_history m));
          kept = map (\<lambda>(g, rs). (g, filter (\<lambda>r. \<not> rr_computed_at r < oldest) rs)) (gs_history m)
      in (removed, m\<lparr>gs_history := filter (\<lambda>(g, rs). rs \<noteq> []) kept\<rparr>))"

definition MaxSiteReliabilityMetricSeries :: int where "MaxSiteReliabilityMetricSeries = 1024"

definition newer_record :: "gtime \<Rightarrow> gtime \<Rightarrow> reliability_record option \<Rightarrow> reliability_record \<Rightarrow> reliability_record option" where
  "newer_record at oldest latest candidate =
     (if at < rr_computed_at candidate \<or> \<not> oldest < rr_computed_at candidate then latest
      else case latest of
             None \<Rightarrow> Some candidate
           | Some l \<Rightarrow>
               if rr_computed_at l < rr_computed_at candidate \<or>
                  rr_computed_at candidate = rr_computed_at l \<and> rr_id l < rr_id candidate
               then Some candidate else Some l)"

definition LatestReliabilityMetricSnapshots ::
    "group_store \<Rightarrow> string option option \<Rightarrow> gtime \<Rightarrow> gtime \<Rightarrow> int \<Rightarrow> (store_error, (string \<times> string \<times> int) list) res" where
  "LatestReliabilityMetricSnapshots m ctx now at maxGroups =
     (case ctx of
        None \<Rightarrow> Inl (ContextErr ''reliability metric snapshot context is required'')
      | Some ctxErr \<Rightarrow>
          if maxGroups \<le> 0 \<or> MaxSiteReliabilityMetricSeries < maxGroups
          then Inl (ContextErr ''reliability metric snapshot limit exceeded'')
          else case ctxErr of
                 Some e \<Rightarrow> Inl (ContextErr e)
               | None \<Rightarrow>
                   (let at = (if at = zero_time then now else at);
                        oldest = at - 24 * 60 * minute;
                        groupIDs = take (nat maxGroups) (sort (map fst (gs_groups m)))
                    in Inr (concat (map (\<lambda>g.
                         case foldl (newer_record at oldest) None (history_of m g) of
                           None \<Rightarrow> []
                         | Some r \<Rightarrow> [(g, (case map_of (gs_groups m) g of None \<Rightarrow> [] | Some gr \<Rightarrow> gp_name gr), rr_score r)])
                       groupIDs))))"

text \<open>Pruning keeps exactly the records that are not too old, and counts the others.\<close>

lemma map_of_keep_nonempty:
  assumes "distinct (map fst xs)"
  shows "map_of (filter (\<lambda>(g, rs). rs \<noteq> []) (map (\<lambda>(g, rs). (g, filter p rs)) xs)) g =
    (case map_of xs g of None \<Rightarrow> None | Some rs \<Rightarrow> if filter p rs = [] then None else Some (filter p rs))"
  using assms
proof (induction xs)
  case (Cons a xs)
  obtain k v where a: "a = (k, v)" by fastforce
  have "k = g \<Longrightarrow> map_of xs g = None" using Cons.prems by (auto simp: a map_of_eq_None_iff)
  with Cons show ?case by (cases "k = g") (simp_all add: a)
qed simp

lemma prune_history_of:
  assumes "distinct (map fst (gs_history m))"
  shows "history_of (snd (PruneReliabilityHistory m now d)) g =
    filter (\<lambda>r. now + wrap64 (- (if d \<le> 0 then 90 else d) * day) \<le> rr_computed_at r) (history_of m g)"
  unfolding PruneReliabilityHistory_def Let_def history_of_def not_less
  by (simp add: map_of_keep_nonempty [OF assms] split: option.split)

lemma latest_record:
  "foldl (newer_record at oldest) acc rs = Some r \<Longrightarrow> acc = Some r \<or> r \<in> set rs \<and> rr_computed_at r \<le> at \<and> oldest < rr_computed_at r"
  by (induction rs arbitrary: acc) (fastforce simp: newer_record_def split: option.splits if_splits)+

lemma latest_is_newest:
  assumes "x \<in> set rs \<or> acc = Some x" "rr_computed_at x \<le> at" "oldest < rr_computed_at x"
    "\<And>z. acc = Some z \<Longrightarrow> rr_computed_at z \<le> at \<and> oldest < rr_computed_at z"
  shows "\<exists>r. foldl (newer_record at oldest) acc rs = Some r \<and>
    (rr_computed_at x < rr_computed_at r \<or> rr_computed_at x = rr_computed_at r \<and> rr_id x \<le> rr_id r)"
  using assms
proof (induction rs arbitrary: acc x)
  case (Cons y rs)
  let ?acc = "newer_record at oldest acc y"
  have inw: "rr_computed_at z \<le> at \<and> oldest < rr_computed_at z" if "?acc = Some z" for z
    using that Cons.prems(4) by (auto simp: newer_record_def split: option.splits if_splits)
  have step: "\<exists>z. ?acc = Some z \<and>
      (rr_computed_at x < rr_computed_at z \<or> rr_computed_at x = rr_computed_at z \<and> rr_id x \<le> rr_id z)"
    if "x = y \<or> acc = Some x"
    using that Cons.prems(2,3) by (auto simp: newer_record_def split: option.split)
  show ?case
  proof (cases "x \<in> set rs")
    case True
    from Cons.IH [of x ?acc] True Cons.prems(2,3) inw show ?thesis by simp
  next
    case False
    with Cons.prems(1) step obtain z where z: "?acc = Some z"
      "rr_computed_at x < rr_computed_at z \<or> rr_computed_at x = rr_computed_at z \<and> rr_id x \<le> rr_id z" by auto
    from Cons.IH [of z ?acc] z inw show ?thesis by fastforce
  qed
qed auto

end
