(* ===== verification/Enrollment.thy ===== *)
theory Enrollment
  imports Group_Store
begin

text \<open>
  Enrollment of agents: enrollment tokens, agent credentials, console approvals, decommissioning and
  the authenticated heartbeats (\<open>internal/enrollment\<close>, and \<open>memory_enrollment_store.go\<close>,
  \<open>memory_agent_enrollment_transactions.go\<close>, \<open>enrollment_token_scope.go\<close>,
  \<open>enrollment_token_outcome.go\<close> of \<open>internal/persistence\<close>).

  The store holds the asset store and the group store it was built with. Maps are association lists;
  an operation is one step, as the code holds the locks of all three stores for its whole body. The
  layout RFC 3339 enters in two places, as function arguments: \<open>fmt\<close> is \<open>Time.Format\<close> and \<open>parses\<close>
  says whether \<open>time.Parse\<close> accepts a text. The context of a call is \<open>Some e\<close> when it is already done.
\<close>

section \<open>Limits\<close>

definition HardTokenMaxUsesCeiling :: int where "HardTokenMaxUsesCeiling = 4096"
definition DefaultTokenMaxUses :: int where "DefaultTokenMaxUses = 1"
definition DefaultTokenMaxUsesCeiling :: int where "DefaultTokenMaxUsesCeiling = 256"
definition DefaultMaxEnrolledAgents :: int where "DefaultMaxEnrolledAgents = 1024"
definition HardMaxEnrolledAgents :: int where "HardMaxEnrolledAgents = 65536"

definition BoundedLimit :: "int \<Rightarrow> int \<Rightarrow> int \<Rightarrow> int" where
  "BoundedLimit value fallback hardMax =
     (let fallback = (if fallback \<le> 0 \<or> hardMax < fallback then hardMax else fallback)
      in if value \<le> 0 then fallback else if hardMax < value then hardMax else value)"

definition NormalizeRequestedTokenMaxUses :: "int \<Rightarrow> int \<Rightarrow> (store_error, int) res" where
  "NormalizeRequestedTokenMaxUses value configuredCeiling =
     (let ceiling = BoundedLimit configuredCeiling DefaultTokenMaxUsesCeiling HardTokenMaxUsesCeiling
      in if value = 0 then Inr DefaultTokenMaxUses
         else if value < 0 \<or> ceiling < value \<or> HardTokenMaxUsesCeiling < value then Inl MaxUsesOutOfRange
         else Inr value)"

definition ValidateStoredTokenMaxUses :: "int \<Rightarrow> store_error option" where
  "ValidateStoredTokenMaxUses value =
     (if value < 1 \<or> HardTokenMaxUsesCeiling < value then Some MaxUsesOutOfRange else None)"

definition normalizedMaxEnrolledAgents :: "int \<Rightarrow> int" where
  "normalizedMaxEnrolledAgents value = BoundedLimit value DefaultMaxEnrolledAgents HardMaxEnrolledAgents"

section \<open>Tokens\<close>

definition TokenScopeAsset :: string where "TokenScopeAsset = ''asset''"
definition TokenScopeGroup :: string where "TokenScopeGroup = ''group''"
definition TokenScopeUnplaced :: string where "TokenScopeUnplaced = ''unplaced''"
definition TokenScopeUnrestricted :: string where "TokenScopeUnrestricted = ''unrestricted''"

lemmas token_scopes = TokenScopeAsset_def TokenScopeGroup_def TokenScopeUnplaced_def TokenScopeUnrestricted_def

record enrollment_token =
  et_id :: string
  et_label :: string
  et_expires_at :: gtime
  et_max_uses :: int
  et_use_count :: int
  et_created_at :: gtime
  et_revoked_at :: "gtime option"
  et_scope :: string
  et_asset_id :: string
  et_allowed_group_id :: string
  et_created_by :: string

record agent_token =
  at_id :: string
  at_asset_id :: string
  at_status :: string
  at_enrolled_via :: string
  at_expires_at :: gtime
  at_last_used_at :: "gtime option"
  at_created_at :: gtime
  at_revoked_at :: "gtime option"

definition zero_enrollment_token :: enrollment_token where
  "zero_enrollment_token = \<lparr>et_id = [], et_label = [], et_expires_at = zero_time, et_max_uses = 0, et_use_count = 0,
     et_created_at = zero_time, et_revoked_at = None, et_scope = [], et_asset_id = [], et_allowed_group_id = [],
     et_created_by = []\<rparr>"

definition zero_agent_token :: agent_token where
  "zero_agent_token = \<lparr>at_id = [], at_asset_id = [], at_status = [], at_enrolled_via = [], at_expires_at = zero_time,
     at_last_used_at = None, at_created_at = zero_time, at_revoked_at = None\<rparr>"

record token_params =
  tp_hash :: string
  tp_label :: string
  tp_expires_at :: gtime
  tp_max_uses :: int
  tp_scope :: string
  tp_asset_id :: string
  tp_allowed_group_id :: string
  tp_created_by :: string

definition validateEnrollmentTokenCreateParams :: "token_params \<Rightarrow> store_error option" where
  "validateEnrollmentTokenCreateParams params =
     (if trim_space (tp_hash params) = [] then Some TokenHashRequired
      else if trim_space (tp_created_by params) = [] then Some TokenCreatorRequired
      else case ValidateStoredTokenMaxUses (tp_max_uses params) of
             Some e \<Rightarrow> Some e
           | None \<Rightarrow>
               (let assetID = trim_space (tp_asset_id params);
                    groupID = trim_space (tp_allowed_group_id params);
                    scope = trim_space (tp_scope params)
                in if scope = TokenScopeAsset then
                     (if assetID = [] then Some (InvalidTokenScope ''asset scope requires an asset id'')
                      else if tp_max_uses params \<noteq> 1
                      then Some (InvalidTokenScope ''asset-scoped enrollment tokens must be single-use'')
                      else None)
                   else if scope = TokenScopeGroup then
                     (if assetID \<noteq> [] \<or> groupID = []
                      then Some (InvalidTokenScope ''group scope requires one allowed group and no asset id'') else None)
                   else if scope = TokenScopeUnplaced then
                     (if assetID \<noteq> [] \<or> groupID \<noteq> []
                      then Some (InvalidTokenScope ''unplaced scope cannot bind an asset or group'') else None)
                   else if scope = TokenScopeUnrestricted then
                     (if assetID \<noteq> [] \<or> groupID \<noteq> []
                      then Some (InvalidTokenScope ''unrestricted scope cannot bind an asset or group'') else None)
                   else Some (InvalidTokenScope ''invalid enrollment token scope'')))"

definition initialEnrollmentGroupForToken :: "enrollment_token \<Rightarrow> string \<Rightarrow> string \<Rightarrow> (store_error, string) res" where
  "initialEnrollmentGroupForToken token assetID requestedGroupID =
     (let assetID = trim_space assetID; requestedGroupID = trim_space requestedGroupID;
          allowedGroupID = trim_space (et_allowed_group_id token)
      in if et_scope token = TokenScopeAsset then
           (if trim_space (et_asset_id token) \<noteq> assetID then Inl ErrEnrollmentTokenScopeMismatch
            else if requestedGroupID \<noteq> [] \<and> requestedGroupID \<noteq> allowedGroupID then Inl ErrEnrollmentTokenScopeMismatch
            else Inr allowedGroupID)
         else if et_scope token = TokenScopeGroup then
           (if requestedGroupID \<noteq> [] \<and> requestedGroupID \<noteq> allowedGroupID then Inl ErrEnrollmentTokenScopeMismatch
            else Inr allowedGroupID)
         else if et_scope token = TokenScopeUnplaced then
           (if requestedGroupID \<noteq> [] then Inl ErrEnrollmentTokenScopeMismatch else Inr [])
         else if et_scope token = TokenScopeUnrestricted then Inr requestedGroupID
         else Inl ErrEnrollmentTokenScopeMismatch)"

definition validateEnrollmentRecoveryScope :: "enrollment_token \<Rightarrow> string \<Rightarrow> string \<Rightarrow> store_error option" where
  "validateEnrollmentRecoveryScope token assetID existingGroupID =
     (let assetID = trim_space assetID; existingGroupID = trim_space existingGroupID
      in if et_scope token = TokenScopeAsset then
           (if trim_space (et_asset_id token) \<noteq> assetID then Some ErrEnrollmentTokenScopeMismatch else None)
         else if et_scope token = TokenScopeGroup then
           (if trim_space (et_allowed_group_id token) \<noteq> existingGroupID then Some ErrEnrollmentTokenScopeMismatch else None)
         else if et_scope token = TokenScopeUnplaced then
           (if existingGroupID \<noteq> [] then Some ErrEnrollmentTokenScopeMismatch else None)
         else if et_scope token = TokenScopeUnrestricted then None
         else Some ErrEnrollmentTokenScopeMismatch)"

definition classifyUnusableEnrollmentToken :: "enrollment_token \<Rightarrow> bool \<Rightarrow> gtime \<Rightarrow> store_error" where
  "classifyUnusableEnrollmentToken token found now =
     (if \<not> found then ErrEnrollmentTokenInvalid
      else if et_revoked_at token \<noteq> None then ErrEnrollmentTokenRevoked
      else if \<not> now < et_expires_at token then ErrEnrollmentTokenExpired
      else if 1 \<le> et_max_uses token \<and> et_max_uses token \<le> et_use_count token then ErrEnrollmentTokenUsed
      else ErrEnrollmentTokenInvalid)"

definition readmitsRetiredIdentity :: "enrollment_token \<Rightarrow> gtime \<Rightarrow> bool" where
  "readmitsRetiredIdentity token retiredAt = (et_max_uses token = 1 \<and> retiredAt < et_created_at token)"

section \<open>The store\<close>

record enrollment_store =
  es_tokens :: "(string \<times> enrollment_token) list"
  es_by_hash :: "(string \<times> string) list"
  es_agents :: "(string \<times> agent_token) list"
  es_agent_by_hash :: "(string \<times> string) list"
  es_rotated :: "(string \<times> gtime) list"
  es_next_id :: nat
  es_assets :: "asset_store option"
  es_groups :: "group_store option"

definition NewMemoryEnrollmentStore :: "asset_store option \<Rightarrow> enrollment_store" where
  "NewMemoryEnrollmentStore assets = \<lparr>es_tokens = [], es_by_hash = [], es_agents = [], es_agent_by_hash = [],
     es_rotated = [], es_next_id = 0, es_assets = assets, es_groups = None\<rparr>"

definition NewMemoryEnrollmentStoreWithGroupStore :: "asset_store option \<Rightarrow> group_store option \<Rightarrow> enrollment_store" where
  "NewMemoryEnrollmentStoreWithGroupStore assets groups = (NewMemoryEnrollmentStore assets)\<lparr>es_groups := groups\<rparr>"

definition read_token :: "enrollment_store \<Rightarrow> string \<Rightarrow> enrollment_token" where
  "read_token m i = (case map_of (es_tokens m) i of None \<Rightarrow> zero_enrollment_token | Some t \<Rightarrow> t)"

definition token_usable :: "enrollment_token \<Rightarrow> gtime \<Rightarrow> bool" where
  "token_usable tok now =
     (et_revoked_at tok = None \<and> now < et_expires_at tok \<and>
      \<not> (et_max_uses tok < 1 \<or> HardTokenMaxUsesCeiling < et_max_uses tok \<or> et_max_uses tok \<le> et_use_count tok))"

definition CreateEnrollmentToken ::
    "enrollment_store \<Rightarrow> gtime \<Rightarrow> token_params \<Rightarrow> (store_error, enrollment_token) res \<times> enrollment_store" where
  "CreateEnrollmentToken m now params =
     (let params = params\<lparr>tp_hash := trim_space (tp_hash params), tp_scope := trim_space (tp_scope params),
            tp_asset_id := trim_space (tp_asset_id params),
            tp_allowed_group_id := trim_space (tp_allowed_group_id params),
            tp_created_by := trim_space (tp_created_by params)\<rparr>
      in case validateEnrollmentTokenCreateParams params of
           Some e \<Rightarrow> (Inl e, m)
         | None \<Rightarrow>
             if tp_allowed_group_id params \<noteq> [] \<and>
                (case es_groups m of None \<Rightarrow> True | Some g \<Rightarrow> map_of (gs_groups g) (tp_allowed_group_id params) = None)
             then (Inl ErrEnrollmentTokenScopeMismatch, m)
             else
               (let n = Suc (es_next_id m);
                    tok = \<lparr>et_id = ''etok-'' @ itoa n, et_label = tp_label params, et_expires_at = tp_expires_at params,
                      et_max_uses = tp_max_uses params, et_use_count = 0, et_created_at = now, et_revoked_at = None,
                      et_scope = tp_scope params, et_asset_id = tp_asset_id params,
                      et_allowed_group_id = tp_allowed_group_id params, et_created_by = tp_created_by params\<rparr>
                in (Inr tok, m\<lparr>es_next_id := n, es_tokens := AList.update (et_id tok) tok (es_tokens m),
                      es_by_hash := AList.update (tp_hash params) (et_id tok) (es_by_hash m)\<rparr>)))"

definition ValidateEnrollmentToken :: "enrollment_store \<Rightarrow> gtime \<Rightarrow> string \<Rightarrow> enrollment_token \<times> bool" where
  "ValidateEnrollmentToken m now tokenHash =
     (case map_of (es_by_hash m) tokenHash of
        None \<Rightarrow> (zero_enrollment_token, False)
      | Some i \<Rightarrow> (let tok = read_token m i in (tok, token_usable tok now)))"

definition ConsumeEnrollmentToken ::
    "enrollment_store \<Rightarrow> gtime \<Rightarrow> string \<Rightarrow> (enrollment_token \<times> bool) \<times> enrollment_store" where
  "ConsumeEnrollmentToken m now tokenHash =
     (case map_of (es_by_hash m) tokenHash of
        None \<Rightarrow> ((zero_enrollment_token, False), m)
      | Some i \<Rightarrow>
          (let tok = read_token m i
           in if \<not> token_usable tok now then ((tok, False), m)
              else let tok = tok\<lparr>et_use_count := et_use_count tok + 1\<rparr>
                   in ((tok, True), m\<lparr>es_tokens := AList.update i tok (es_tokens m)\<rparr>)))"

definition IncrementEnrollmentTokenUse :: "enrollment_store \<Rightarrow> gtime \<Rightarrow> string \<Rightarrow> store_error option \<times> enrollment_store" where
  "IncrementEnrollmentTokenUse m now i =
     (case map_of (es_tokens m) i of
        None \<Rightarrow> (Some ErrEnrollmentTokenInvalid, m)
      | Some tok \<Rightarrow>
          if \<not> token_usable tok now then (Some ErrEnrollmentTokenInvalid, m)
          else (None, m\<lparr>es_tokens := AList.update i (tok\<lparr>et_use_count := et_use_count tok + 1\<rparr>) (es_tokens m)\<rparr>))"

definition RevokeEnrollmentToken :: "enrollment_store \<Rightarrow> gtime \<Rightarrow> string \<Rightarrow> store_error option \<times> enrollment_store" where
  "RevokeEnrollmentToken m now i =
     (case map_of (es_tokens m) i of
        None \<Rightarrow> (Some ErrNotFound, m)
      | Some tok \<Rightarrow>
          if et_revoked_at tok \<noteq> None then (None, m)
          else (None, m\<lparr>es_tokens := AList.update i (tok\<lparr>et_revoked_at := Some now\<rparr>) (es_tokens m)\<rparr>))"

definition ListEnrollmentTokens :: "enrollment_store \<Rightarrow> int \<Rightarrow> enrollment_token list" where
  "ListEnrollmentTokens m limit =
     take (nat (if limit \<le> 0 then 50 else limit)) (map snd (es_tokens m))"

section \<open>Agent credentials\<close>

definition asset_exists :: "enrollment_store \<Rightarrow> string \<Rightarrow> bool" where
  "asset_exists m assetID = (case es_assets m of None \<Rightarrow> False | Some a \<Rightarrow> map_of (st_assets a) assetID \<noteq> None)"

definition mark_rotated :: "string \<Rightarrow> gtime \<Rightarrow> enrollment_store \<Rightarrow> enrollment_store" where
  "mark_rotated assetID now m =
     (if asset_exists m assetID then m\<lparr>es_rotated := AList.update assetID now (es_rotated m)\<rparr> else m)"

definition map_agents :: "(agent_token \<Rightarrow> agent_token) \<Rightarrow> (string \<times> agent_token) list \<Rightarrow> (string \<times> agent_token) list" where
  "map_agents f xs = map (\<lambda>(i, t). (i, f t)) xs"

text \<open>The loop that revokes the active credentials of an asset.\<close>

definition revoke_if_active :: "string \<Rightarrow> gtime \<Rightarrow> agent_token \<Rightarrow> agent_token" where
  "revoke_if_active assetID now t =
     (if at_asset_id t = assetID \<and> at_status t = ''active''
      then t\<lparr>at_status := ''revoked'', at_revoked_at := Some now\<rparr> else t)"

definition add_agent_token :: "agent_token \<Rightarrow> string \<Rightarrow> enrollment_store \<Rightarrow> enrollment_store" where
  "add_agent_token tok tokenHash m =
     m\<lparr>es_agents := AList.update (at_id tok) tok (es_agents m),
       es_agent_by_hash := AList.update tokenHash (at_id tok) (es_agent_by_hash m)\<rparr>"

definition new_agent_token :: "nat \<Rightarrow> string \<Rightarrow> string \<Rightarrow> string \<Rightarrow> gtime \<Rightarrow> gtime \<Rightarrow> agent_token" where
  "new_agent_token n assetID status enrolledVia expiresAt now =
     \<lparr>at_id = ''atok-'' @ itoa n, at_asset_id = assetID, at_status = status, at_enrolled_via = enrolledVia,
      at_expires_at = expiresAt, at_last_used_at = None, at_created_at = now, at_revoked_at = None\<rparr>"

definition CreateAgentToken ::
    "enrollment_store \<Rightarrow> gtime \<Rightarrow> string \<Rightarrow> string \<Rightarrow> string \<Rightarrow> gtime \<Rightarrow> (store_error, agent_token) res \<times> enrollment_store" where
  "CreateAgentToken m now assetID tokenHash enrolledVia expiresAt =
     (let assetID = trim_space assetID
      in if assetID = [] then (Inl AssetIDRequired, m)
         else let n = Suc (es_next_id m);
                  tok = new_agent_token n assetID ''active'' enrolledVia expiresAt now;
                  m = add_agent_token tok tokenHash (m\<lparr>es_next_id := n\<rparr>)
              in (Inr tok, mark_rotated assetID now m))"

definition RotateAgentToken ::
    "enrollment_store \<Rightarrow> gtime \<Rightarrow> string \<Rightarrow> string \<Rightarrow> string \<Rightarrow> gtime \<Rightarrow> (store_error, agent_token) res \<times> enrollment_store" where
  "RotateAgentToken m now assetID tokenHash enrolledVia expiresAt =
     (let assetID = trim_space assetID
      in if assetID = [] then (Inl AssetIDRequired, m)
         else let m = m\<lparr>es_agents := map_agents (revoke_if_active assetID now) (es_agents m)\<rparr>;
                  n = Suc (es_next_id m);
                  tok = new_agent_token n assetID ''active'' enrolledVia expiresAt now;
                  m = add_agent_token tok tokenHash (m\<lparr>es_next_id := n\<rparr>)
              in (Inr tok, mark_rotated assetID now m))"

definition ValidateAgentToken :: "enrollment_store \<Rightarrow> gtime \<Rightarrow> string \<Rightarrow> agent_token \<times> bool" where
  "ValidateAgentToken m now tokenHash =
     (case map_of (es_agent_by_hash m) tokenHash of
        None \<Rightarrow> (zero_agent_token, False)
      | Some i \<Rightarrow>
          (let tok = (case map_of (es_agents m) i of None \<Rightarrow> zero_agent_token | Some t \<Rightarrow> t)
           in if at_status tok \<noteq> ''active'' \<or> at_revoked_at tok \<noteq> None then (tok, False)
              else if \<not> now < at_expires_at tok then (tok, False)
              else (tok, True)))"

definition GetAgentToken :: "enrollment_store \<Rightarrow> string \<Rightarrow> agent_token option" where
  "GetAgentToken m i = map_of (es_agents m) i"

definition TouchAgentTokenLastUsed :: "enrollment_store \<Rightarrow> gtime \<Rightarrow> string \<Rightarrow> store_error option \<times> enrollment_store" where
  "TouchAgentTokenLastUsed m now i =
     (case map_of (es_agents m) i of
        None \<Rightarrow> (Some AgentTokenNotFound, m)
      | Some tok \<Rightarrow> (None, m\<lparr>es_agents := AList.update i (tok\<lparr>at_last_used_at := Some now\<rparr>) (es_agents m)\<rparr>))"

definition RevokeAgentToken :: "enrollment_store \<Rightarrow> gtime \<Rightarrow> string \<Rightarrow> store_error option \<times> enrollment_store" where
  "RevokeAgentToken m now i =
     (case map_of (es_agents m) i of
        None \<Rightarrow> (Some ErrNotFound, m)
      | Some tok \<Rightarrow>
          if at_status tok \<noteq> ''active'' then (None, m)
          else (None, m\<lparr>es_agents :=
                  AList.update i (tok\<lparr>at_status := ''revoked'', at_revoked_at := Some now\<rparr>) (es_agents m)\<rparr>))"

definition RevokeAgentTokensByAsset :: "enrollment_store \<Rightarrow> gtime \<Rightarrow> string \<Rightarrow> enrollment_store" where
  "RevokeAgentTokensByAsset m now assetID =
     m\<lparr>es_agents := map_agents (revoke_if_active assetID now) (es_agents m)\<rparr>"

definition dead_enrollment_token :: "gtime \<Rightarrow> enrollment_token \<Rightarrow> bool" where
  "dead_enrollment_token now tok =
     (et_revoked_at tok \<noteq> None \<or> \<not> now < et_expires_at tok \<or> et_max_uses tok < 1 \<or>
      HardTokenMaxUsesCeiling < et_max_uses tok \<or> et_max_uses tok \<le> et_use_count tok)"

definition dead_agent_token :: "gtime \<Rightarrow> agent_token \<Rightarrow> bool" where
  "dead_agent_token now tok =
     (at_status tok = ''revoked'' \<and> at_last_used_at tok = None \<or> at_status tok = ''pending'' \<and> \<not> now < at_expires_at tok)"

definition DeleteDeadTokens :: "enrollment_store \<Rightarrow> gtime \<Rightarrow> (nat \<times> nat) \<times> enrollment_store" where
  "DeleteDeadTokens m now =
     (let deadE = map fst (filter (\<lambda>(i, t). dead_enrollment_token now t) (es_tokens m));
          deadA = map fst (filter (\<lambda>(i, t). dead_agent_token now t) (es_agents m))
      in ((length deadE, length deadA),
          m\<lparr>es_tokens := filter (\<lambda>(i, t). i \<notin> set deadE) (es_tokens m),
            es_by_hash := filter (\<lambda>(h, i). i \<notin> set deadE) (es_by_hash m),
            es_agents := filter (\<lambda>(i, t). i \<notin> set deadA) (es_agents m),
            es_agent_by_hash := filter (\<lambda>(h, i). i \<notin> set deadA) (es_agent_by_hash m)\<rparr>))"

definition ListAgentTokens :: "enrollment_store \<Rightarrow> int \<Rightarrow> agent_token list" where
  "ListAgentTokens m limit =
     take (nat (if limit \<le> 0 then 100 else limit)) (map snd (es_agents m))"

section \<open>Transactions\<close>

definition DeviceProofVersionV1 :: string where "DeviceProofVersionV1 = ''v1''"
definition DeviceProofVersionV2 :: string where "DeviceProofVersionV2 = ''v2''"

record enroll_request =
  er_asset_id :: string
  er_hostname :: string
  er_platform :: string
  er_group_id :: string
  er_token_hash :: string
  er_agent_hash :: string
  er_agent_expires_at :: gtime
  er_fingerprint :: string
  er_key_algorithm :: string
  er_proof_version :: string
  er_max_agents :: int

record enroll_result =
  rs_enrollment_token :: enrollment_token
  rs_agent_token :: agent_token
  rs_asset :: asset
  rs_recovery :: bool
  rs_readmitted :: bool
  rs_revoked :: "string list"

definition validateEnrollmentTokenLocked :: "enrollment_store \<Rightarrow> string \<Rightarrow> gtime \<Rightarrow> enrollment_token \<times> bool" where
  "validateEnrollmentTokenLocked m tokenHash now =
     (case map_of (es_by_hash m) tokenHash of
        None \<Rightarrow> (zero_enrollment_token, False)
      | Some i \<Rightarrow>
          (let token = read_token m i
           in if et_revoked_at token \<noteq> None \<or> \<not> now < et_expires_at token \<or> et_max_uses token < 1 \<or>
                 HardTokenMaxUsesCeiling < et_max_uses token \<or> et_max_uses token \<le> et_use_count token
              then (token, False) else (token, True)))"

definition enrolledFleetCardinalityLocked :: "enrollment_store \<Rightarrow> gtime \<Rightarrow> int" where
  "enrolledFleetCardinalityLocked m now =
     int (length (remdups
       (map fst (es_rotated m) @
        (case es_assets m of
           None \<Rightarrow> []
         | Some a \<Rightarrow> map fst (filter (\<lambda>(k, v). equal_fold (trim_space (as_source v)) ''agent'') (st_assets a))) @
        map (at_asset_id \<circ> snd) (filter (\<lambda>(i, t). at_status t = ''pending'' \<and> now < at_expires_at t) (es_agents m)))))"

definition identityMarkerLocked :: "enrollment_store \<Rightarrow> string \<Rightarrow> asset \<Rightarrow> gtime" where
  "identityMarkerLocked m assetID existing =
     (case map_of (es_rotated m) assetID of
        Some marker \<Rightarrow> marker
      | None \<Rightarrow>
          foldl (\<lambda>marker (i, t). if at_asset_id t = assetID \<and> marker < at_created_at t then at_created_at t else marker)
            (as_created_at existing) (es_agents m))"

definition validateInitialIdentityFields :: "enroll_request \<Rightarrow> store_error option" where
  "validateInitialIdentityFields req =
     (let fingerprint = trim_space (er_fingerprint req);
          algorithm = trim_space (er_key_algorithm req);
          version = trim_space (er_proof_version req);
          provided = (fingerprint \<noteq> [] \<or> algorithm \<noteq> [] \<or> version \<noteq> [])
      in if \<not> provided then None
         else if fingerprint = [] \<or> algorithm = [] \<or> (version \<noteq> DeviceProofVersionV1 \<and> version \<noteq> DeviceProofVersionV2)
         then Some ErrAgentIdentityContinuityConflict else None)"

definition buildInitialEnrolledAsset :: "(gtime \<Rightarrow> string) \<Rightarrow> enroll_request \<Rightarrow> gtime \<Rightarrow> asset" where
  "buildInitialEnrolledAsset fmt req now =
     (let meta = (if trim_space (er_fingerprint req) \<noteq> []
                  then AList.update MetadataKeyAgentIdentityVerifiedAt (fmt now)
                         (AList.update MetadataKeyAgentDeviceKeyAlgorithm (trim_space (er_key_algorithm req))
                            (AList.update MetadataKeyAgentDeviceFingerprint (trim_space (er_fingerprint req)) []))
                  else [])
      in applyAssetCanonical
           (zero_asset\<lparr>as_id := er_asset_id req, as_type := ''node'', as_name := er_hostname req, as_source := ''agent'',
              as_group_id := trim_space (er_group_id req), as_status := ''online'', as_platform := er_platform req,
              as_metadata := meta, as_created_at := now, as_updated_at := now, as_last_seen_at := now\<rparr>))"

definition requireEnrollmentGroupLocked :: "enrollment_store \<Rightarrow> string \<Rightarrow> (store_error, string) res" where
  "requireEnrollmentGroupLocked m groupID =
     (let groupID = trim_space groupID
      in case es_groups m of
           None \<Rightarrow> if groupID \<noteq> [] then Inl ErrEnrollmentTokenScopeMismatch else Inr groupID
         | Some g \<Rightarrow>
             if groupID = [] then Inr groupID
             else if map_of (gs_groups g) groupID = None then Inl ErrEnrollmentTokenScopeMismatch
             else Inr groupID)"

text \<open>The checks on an enrollment of a known asset (a recovery) and of a new one.\<close>

definition recovery_check ::
    "(string \<Rightarrow> bool) \<Rightarrow> enrollment_store \<Rightarrow> enroll_request \<Rightarrow> enrollment_token \<Rightarrow> asset \<Rightarrow> store_error option" where
  "recovery_check parses m req etok existing =
     (case validateEnrollmentRecoveryScope etok (er_asset_id req) (as_group_id existing) of
        Some e \<Rightarrow> Some e
      | None \<Rightarrow>
          if trim_space (er_proof_version req) \<noteq> DeviceProofVersionV2 then Some ErrAgentIdentityProofV2Required
          else if et_max_uses etok \<noteq> 1 then Some ErrRecoveryRequiresSingleUseToken
          else if \<not> validateVerifiedAgentRecoveryAnchor parses (as_metadata existing) (er_fingerprint req) (er_key_algorithm req)
          then Some ErrAgentIdentityContinuityConflict
          else if \<not> identityMarkerLocked m (er_asset_id req) existing < et_created_at etok
          then Some ErrEnrollmentTokenPredatesRotation
          else None)"

definition initial_check ::
    "enrollment_store \<Rightarrow> gtime \<Rightarrow> enroll_request \<Rightarrow> enrollment_token \<Rightarrow> (store_error, string) res" where
  "initial_check m now req etok =
     (case initialEnrollmentGroupForToken etok (er_asset_id req) (er_group_id req) of
        Inl e \<Rightarrow> Inl e
      | Inr effectiveGroupID \<Rightarrow>
          (case validateInitialIdentityFields req of
             Some e \<Rightarrow> Inl e
           | None \<Rightarrow>
               if normalizedMaxEnrolledAgents (er_max_agents req) \<le> enrolledFleetCardinalityLocked m now
               then Inl ErrAgentFleetCapacityReached
               else requireEnrollmentGroupLocked m effectiveGroupID))"

definition commit_enrollment ::
    "(gtime \<Rightarrow> string) \<Rightarrow> enrollment_store \<Rightarrow> asset_store \<Rightarrow> gtime \<Rightarrow> enroll_request \<Rightarrow> enrollment_token \<Rightarrow>
     asset option \<Rightarrow> bool \<Rightarrow> enroll_result \<times> enrollment_store" where
  "commit_enrollment fmt m st now req etok existing retired =
     (let aid = er_asset_id req;
          st = (if retired then st\<lparr>st_retired := AList.delete aid (st_retired st)\<rparr> else st);
          etok = etok\<lparr>et_use_count := et_use_count etok + 1\<rparr>;
          revoked = map (at_id \<circ> snd) (filter (\<lambda>(i, t). at_asset_id t = aid \<and> at_status t = ''active'') (es_agents m));
          m = m\<lparr>es_tokens := AList.update (et_id etok) etok (es_tokens m),
                es_agents := map_agents (revoke_if_active aid now) (es_agents m)\<rparr>;
          n = Suc (es_next_id m);
          tok = new_agent_token n aid ''active'' (et_id etok) (er_agent_expires_at req) now;
          m = add_agent_token tok (er_agent_hash req) (m\<lparr>es_next_id := n\<rparr>);
          a = (case existing of None \<Rightarrow> buildInitialEnrolledAsset fmt req now | Some a \<Rightarrow> a);
          st = (if existing = None then st\<lparr>st_assets := AList.update aid a (st_assets st)\<rparr> else st);
          m = m\<lparr>es_assets := Some st, es_rotated := AList.update aid now (es_rotated m)\<rparr>
      in (\<lparr>rs_enrollment_token = etok, rs_agent_token = tok, rs_asset = a, rs_recovery = (existing \<noteq> None),
           rs_readmitted = retired, rs_revoked = revoked\<rparr>, m))"

definition CommitAgentEnrollment ::
    "(gtime \<Rightarrow> string) \<Rightarrow> (string \<Rightarrow> bool) \<Rightarrow> string option \<Rightarrow> enrollment_store \<Rightarrow> gtime \<Rightarrow> enroll_request \<Rightarrow>
     (store_error, enroll_result) res \<times> enrollment_store" where
  "CommitAgentEnrollment fmt parses ctx m now req =
     (case ctx of
        Some e \<Rightarrow> (Inl (ContextErr e), m)
      | None \<Rightarrow>
          (let aid = trim_space (er_asset_id req); req = req\<lparr>er_asset_id := aid\<rparr>
           in if aid = [] then (Inl AssetIDRequired, m)
              else case es_assets m of
                     None \<Rightarrow> (Inl ErrTransactionsUnavailable, m)
                   | Some st \<Rightarrow>
                       if \<not> now < er_agent_expires_at req then (Inl ExpiryNotInFuture, m)
                       else
                         (case validateEnrollmentTokenLocked m (er_token_hash req) now of
                            (etok, False) \<Rightarrow>
                              (Inl (classifyUnusableEnrollmentToken etok (map_of (es_by_hash m) (er_token_hash req) \<noteq> None) now), m)
                          | (etok, True) \<Rightarrow>
                              (let existing = map_of (st_assets st) aid; retired = map_of (st_retired st) aid
                               in if (case retired of None \<Rightarrow> False
                                      | Some at \<Rightarrow> existing \<noteq> None \<or> \<not> readmitsRetiredIdentity etok at)
                                  then (Inl ErrAgentIdentityRetired, m)
                                  else if map_of (es_agent_by_hash m) (er_agent_hash req) \<noteq> None
                                  then (Inl AgentTokenHashExists, m)
                                  else case existing of
                                         Some a \<Rightarrow>
                                           (case recovery_check parses m req etok a of
                                              Some e \<Rightarrow> (Inl e, m)
                                            | None \<Rightarrow>
                                                (case commit_enrollment fmt m st now req etok existing (retired \<noteq> None) of
                                                   (r, m) \<Rightarrow> (Inr r, m)))
                                       | None \<Rightarrow>
                                           (case initial_check m now req etok of
                                              Inl e \<Rightarrow> (Inl e, m)
                                            | Inr g \<Rightarrow>
                                                (case commit_enrollment fmt m st now (req\<lparr>er_group_id := g\<rparr>) etok None (retired \<noteq> None) of
                                                   (r, m) \<Rightarrow> (Inr r, m)))))))"

definition maxPreparedAgentApprovalTTL :: duration where "maxPreparedAgentApprovalTTL = 5 * minute"

definition boundedPreparedApprovalExpiry :: "gtime \<Rightarrow> gtime \<Rightarrow> gtime" where
  "boundedPreparedApprovalExpiry requested now =
     (let maximum = now + maxPreparedAgentApprovalTTL
      in if requested = zero_time \<or> \<not> now < requested \<or> maximum < requested then maximum else requested)"

definition PrepareAgentApproval ::
    "string option \<Rightarrow> enrollment_store \<Rightarrow> gtime \<Rightarrow> string \<Rightarrow> string \<Rightarrow> gtime \<Rightarrow> int \<Rightarrow>
     (store_error, agent_token) res \<times> enrollment_store" where
  "PrepareAgentApproval ctx m now assetID tokenHash requestedExpiry maxAgents =
     (case ctx of
        Some e \<Rightarrow> (Inl (ContextErr e), m)
      | None \<Rightarrow>
          (let aid = trim_space assetID
           in if aid = [] then (Inl AssetIDRequired, m)
              else case es_assets m of
                     None \<Rightarrow> (Inl ErrTransactionsUnavailable, m)
                   | Some st \<Rightarrow>
                       if map_of (st_retired st) aid \<noteq> None then (Inl ErrAgentIdentityRetired, m)
                       else if map_of (st_assets st) aid \<noteq> None then (Inl ErrAgentApprovalAssetConflict, m)
                       else if map_of (es_agent_by_hash m) tokenHash \<noteq> None then (Inl AgentTokenHashExists, m)
                       else if list_ex (\<lambda>(i, t). at_asset_id t = aid \<and> at_status t = ''pending'' \<and> now < at_expires_at t) (es_agents m)
                       then (Inl ErrAgentApprovalAssetConflict, m)
                       else if normalizedMaxEnrolledAgents maxAgents \<le> enrolledFleetCardinalityLocked m now
                       then (Inl ErrAgentFleetCapacityReached, m)
                       else let n = Suc (es_next_id m);
                                tok = new_agent_token n aid ''pending'' ''console-approval''
                                        (boundedPreparedApprovalExpiry requestedExpiry now) now
                            in (Inr tok, add_agent_token tok tokenHash (m\<lparr>es_next_id := n\<rparr>))))"

record finalize_request =
  fr_token_id :: string
  fr_asset_id :: string
  fr_hostname :: string
  fr_platform :: string
  fr_fingerprint :: string
  fr_key_algorithm :: string
  fr_agent_expires_at :: gtime

definition approved_asset :: "(gtime \<Rightarrow> string) \<Rightarrow> finalize_request \<Rightarrow> string \<Rightarrow> gtime \<Rightarrow> asset" where
  "approved_asset fmt req aid now =
     applyAssetCanonical
       (zero_asset\<lparr>as_id := aid, as_type := ''node'', as_name := fr_hostname req, as_source := ''agent'',
          as_status := ''pending'', as_platform := fr_platform req,
          as_metadata := AList.update MetadataKeyAgentIdentityVerifiedAt (fmt now)
            (AList.update MetadataKeyAgentDeviceKeyAlgorithm (trim_space (fr_key_algorithm req))
               (AList.update MetadataKeyAgentDeviceFingerprint (trim_space (fr_fingerprint req)) [])),
          as_created_at := now, as_last_seen_at := now, as_updated_at := now\<rparr>)"

definition FinalizeAgentApproval ::
    "(gtime \<Rightarrow> string) \<Rightarrow> string option \<Rightarrow> enrollment_store \<Rightarrow> gtime \<Rightarrow> finalize_request \<Rightarrow>
     (store_error, asset) res \<times> enrollment_store" where
  "FinalizeAgentApproval fmt ctx m now req =
     (case ctx of
        Some e \<Rightarrow> (Inl (ContextErr e), m)
      | None \<Rightarrow>
          (let aid = trim_space (fr_asset_id req)
           in if aid = [] then (Inl ErrAgentIdentityContinuityConflict, m)
              else case es_assets m of
                     None \<Rightarrow> (Inl ErrTransactionsUnavailable, m)
                   | Some st \<Rightarrow>
                       (case map_of (es_agents m) (trim_space (fr_token_id req)) of
                          None \<Rightarrow> (Inl ErrPreparedAgentApprovalNotFound, m)
                        | Some prepared \<Rightarrow>
                            if at_status prepared \<noteq> ''pending'' \<or> at_revoked_at prepared \<noteq> None \<or>
                               at_asset_id prepared \<noteq> aid \<or> \<not> now < at_expires_at prepared
                            then (Inl ErrPreparedAgentApprovalNotFound, m)
                            else if \<not> now < fr_agent_expires_at req then (Inl ExpiryNotInFuture, m)
                            else if trim_space (fr_fingerprint req) = [] \<or> trim_space (fr_key_algorithm req) = []
                            then (Inl ErrAgentIdentityContinuityConflict, m)
                            else if map_of (st_retired st) aid \<noteq> None then (Inl ErrAgentIdentityRetired, m)
                            else if map_of (st_assets st) aid \<noteq> None then (Inl ErrAgentApprovalAssetConflict, m)
                            else let a = approved_asset fmt req aid now;
                                     agents = map_agents (revoke_if_active aid now) (es_agents m);
                                     prepared = prepared\<lparr>at_status := ''active'', at_expires_at := fr_agent_expires_at req\<rparr>
                                 in (Inr a, m\<lparr>es_agents := AList.update (at_id prepared) prepared agents,
                                        es_assets := Some (st\<lparr>st_assets := AList.update aid a (st_assets st)\<rparr>),
                                        es_rotated := AList.update aid now (es_rotated m)\<rparr>))))"

definition CancelAgentApproval ::
    "string option \<Rightarrow> enrollment_store \<Rightarrow> gtime \<Rightarrow> string \<Rightarrow> store_error option \<times> enrollment_store" where
  "CancelAgentApproval ctx m now tokenID =
     (case ctx of
        Some e \<Rightarrow> (Some (ContextErr e), m)
      | None \<Rightarrow>
          (case map_of (es_agents m) (trim_space tokenID) of
             None \<Rightarrow> (None, m)
           | Some token \<Rightarrow>
               if at_status token \<noteq> ''pending'' then (None, m)
               else (None, m\<lparr>es_agents :=
                       AList.update (at_id token) (token\<lparr>at_status := ''revoked'', at_revoked_at := Some now\<rparr>) (es_agents m)\<rparr>)))"

definition identity_bearing :: "agent_token \<Rightarrow> bool" where
  "identity_bearing t =
     (at_status t = ''active'' \<or> at_last_used_at t \<noteq> None \<or>
      \<not> equal_fold (trim_space (at_enrolled_via t)) ''console-approval'')"

definition revoke_for_removal :: "string \<Rightarrow> gtime \<Rightarrow> agent_token \<Rightarrow> agent_token" where
  "revoke_for_removal assetID now t =
     (if at_asset_id t = assetID \<and> (at_status t = ''active'' \<or> at_status t = ''pending'')
      then t\<lparr>at_status := ''revoked'', at_revoked_at := Some now\<rparr> else t)"

definition DecommissionAgentAsset ::
    "string option \<Rightarrow> enrollment_store \<Rightarrow> gtime \<Rightarrow> string \<Rightarrow> store_error option \<times> enrollment_store" where
  "DecommissionAgentAsset ctx m now assetID =
     (case ctx of
        Some e \<Rightarrow> (Some (ContextErr e), m)
      | None \<Rightarrow>
          (case es_assets m of
             None \<Rightarrow> (Some ErrTransactionsUnavailable, m)
           | Some st \<Rightarrow>
               (let aid = trim_space assetID
                in case map_of (st_assets st) aid of
                     None \<Rightarrow> (Some ErrNotFound, m)
                   | Some a \<Rightarrow>
                       (let retire = (equal_fold (trim_space (as_source a)) ''agent'' \<or> map_of (es_rotated m) aid \<noteq> None \<or>
                              list_ex (\<lambda>(i, t). at_asset_id t = aid \<and> identity_bearing t) (es_agents m));
                            retired = (if retire \<and> map_of (st_retired st) aid = None
                                       then AList.update aid now (st_retired st) else st_retired st)
                        in (None, m\<lparr>es_agents := map_agents (revoke_for_removal aid now) (es_agents m),
                              es_assets := Some (st\<lparr>st_assets := AList.delete aid (st_assets st), st_retired := retired\<rparr>),
                              es_rotated := AList.delete aid (es_rotated m)\<rparr>)))))"

definition CommitAuthenticatedAgentHeartbeat ::
    "string option \<Rightarrow> enrollment_store \<Rightarrow> gtime \<Rightarrow> string \<Rightarrow> duration \<Rightarrow> heartbeat_request \<Rightarrow>
     (store_error, asset) res \<times> enrollment_store" where
  "CommitAuthenticatedAgentHeartbeat ctx m now tokenID tokenTTL req =
     (case ctx of
        Some e \<Rightarrow> (Inl (ContextErr e), m)
      | None \<Rightarrow>
          (let aid = trim_space (hb_asset_id req)
           in if aid = [] then (Inl ErrAgentCredentialInactive, m)
              else case es_assets m of
                     None \<Rightarrow> (Inl ErrTransactionsUnavailable, m)
                   | Some st \<Rightarrow>
                       (case map_of (es_agents m) (trim_space tokenID) of
                          None \<Rightarrow> (Inl ErrAgentCredentialInactive, m)
                        | Some token \<Rightarrow>
                            if at_status token \<noteq> ''active'' \<or> at_revoked_at token \<noteq> None \<or>
                               \<not> now < at_expires_at token \<or> at_asset_id token \<noteq> aid
                            then (Inl ErrAgentCredentialInactive, m)
                            else case map_of (st_assets st) aid of
                                   None \<Rightarrow> (Inl ErrAgentCredentialInactive, m)
                                 | Some existing \<Rightarrow>
                                     (let token = token\<lparr>at_last_used_at := Some now\<rparr>;
                                          renewed = now + tokenTTL;
                                          token = (if 0 < tokenTTL \<and> at_expires_at token < renewed
                                                   then token\<lparr>at_expires_at := renewed\<rparr> else token);
                                          req = req\<lparr>hb_asset_id := aid, hb_allow_tofu := True, hb_source := ''agent'',
                                                  hb_group_id := as_group_id existing\<rparr>
                                      in case upsertAssetHeartbeatLocked st req now of
                                           (a, st') \<Rightarrow>
                                             (Inr a, m\<lparr>es_agents := AList.update (at_id token) token (es_agents m),
                                                es_assets := Some st'\<rparr>)))))"

definition CommitExistingOwnerAgentHeartbeat ::
    "string option \<Rightarrow> enrollment_store \<Rightarrow> gtime \<Rightarrow> heartbeat_request \<Rightarrow> (store_error, asset) res \<times> enrollment_store" where
  "CommitExistingOwnerAgentHeartbeat ctx m now req =
     (case ctx of
        Some e \<Rightarrow> (Inl (ContextErr e), m)
      | None \<Rightarrow>
          (let aid = trim_space (hb_asset_id req)
           in if aid = [] then (Inl ErrNotFound, m)
              else case es_assets m of
                     None \<Rightarrow> (Inl ErrTransactionsUnavailable, m)
                   | Some st \<Rightarrow>
                       if map_of (st_retired st) aid \<noteq> None then (Inl ErrAgentIdentityRetired, m)
                       else case map_of (st_assets st) aid of
                              None \<Rightarrow> (Inl ErrNotFound, m)
                            | Some existing \<Rightarrow>
                                (case upsertAssetHeartbeatLocked st
                                        (req\<lparr>hb_asset_id := aid, hb_source := ''agent'', hb_group_id := as_group_id existing\<rparr>) now of
                                   (a, st') \<Rightarrow> (Inr a, m\<lparr>es_assets := Some st'\<rparr>))))"

definition IsAgentIdentityRetired :: "string option \<Rightarrow> enrollment_store \<Rightarrow> string \<Rightarrow> (store_error, bool) res" where
  "IsAgentIdentityRetired ctx m assetID =
     (case ctx of
        Some e \<Rightarrow> Inl (ContextErr e)
      | None \<Rightarrow>
          (case es_assets m of
             None \<Rightarrow> Inl ErrTransactionsUnavailable
           | Some st \<Rightarrow> Inr (map_of (st_retired st) (trim_space assetID) \<noteq> None)))"

definition ValidateActiveAgentTokenID ::
    "string option \<Rightarrow> enrollment_store \<Rightarrow> gtime \<Rightarrow> string \<Rightarrow> string \<Rightarrow> store_error option" where
  "ValidateActiveAgentTokenID ctx m now tokenID assetID =
     (case ctx of
        Some e \<Rightarrow> Some (ContextErr e)
      | None \<Rightarrow>
          (case es_assets m of
             None \<Rightarrow> Some ErrTransactionsUnavailable
           | Some st \<Rightarrow>
               (let aid = trim_space assetID
                in case map_of (es_agents m) (trim_space tokenID) of
                     None \<Rightarrow> Some ErrAgentCredentialInactive
                   | Some token \<Rightarrow>
                       if map_of (st_assets st) aid = None \<or> at_status token \<noteq> ''active'' \<or> at_revoked_at token \<noteq> None \<or>
                          \<not> now < at_expires_at token \<or> at_asset_id token \<noteq> aid
                       then Some ErrAgentCredentialInactive else None)))"

end
