(* ===== verification/Enrollment_Runs.thy ===== *)
theory Enrollment_Runs
  imports Enrollment
begin

text \<open>
  Runs of the enrollment store: any sequence of its operations, of the operations of the asset store it
  shares, and of changes to the groups, at any instants. The invariants are proved operation by
  operation; the properties are about whole runs.

  Heartbeat requests come from JSON, where \<open>AllowAgentIdentityRotation\<close> is not decoded; no caller sets
  it, so the runs take it to be false.
\<close>

section \<open>Operations\<close>

datatype enroll_op =
  OpCreateToken token_params
| OpConsume string
| OpIncrement string
| OpRevokeToken string
| OpCreateAgent string string string gtime
| OpRotateAgent string string string gtime
| OpTouch string
| OpRevokeAgent string
| OpRevokeByAsset string
| OpDeleteDead
| OpEnroll "string option" enroll_request
| OpPrepare "string option" string string gtime int
| OpFinalize "string option" finalize_request
| OpCancel "string option" string
| OpDecommission "string option" string
| OpHeartbeat "string option" string duration heartbeat_request
| OpOwnerHeartbeat "string option" heartbeat_request
| OpUpsert heartbeat_request
| OpUpdateAsset string asset_update
| OpDeleteAsset string
| OpGroups "group_store option"

text \<open>What an operation did with enrollment tokens.\<close>

datatype token_event = Created string int | Used string

definition on_assets :: "(asset_store \<Rightarrow> asset_store) \<Rightarrow> enrollment_store \<Rightarrow> enrollment_store" where
  "on_assets f m = m\<lparr>es_assets := map_option f (es_assets m)\<rparr>"

fun exec_op ::
    "(gtime \<Rightarrow> string) \<Rightarrow> (string \<Rightarrow> bool) \<Rightarrow> gtime \<Rightarrow> enroll_op \<Rightarrow> enrollment_store \<Rightarrow> token_event list \<times> enrollment_store" where
  "exec_op fmt parses now (OpCreateToken p) m =
     (case CreateEnrollmentToken m now p of (r, m') \<Rightarrow>
        ((case r of Inl _ \<Rightarrow> [] | Inr t \<Rightarrow> [Created (et_id t) (et_max_uses t)]), m'))"
| "exec_op fmt parses now (OpConsume h) m =
     (case ConsumeEnrollmentToken m now h of ((t, ok), m') \<Rightarrow> (if ok then [Used (et_id t)] else [], m'))"
| "exec_op fmt parses now (OpIncrement i) m =
     (case IncrementEnrollmentTokenUse m now i of (e, m') \<Rightarrow> (if e = None then [Used i] else [], m'))"
| "exec_op fmt parses now (OpRevokeToken i) m = ([], snd (RevokeEnrollmentToken m now i))"
| "exec_op fmt parses now (OpCreateAgent a h v e) m = ([], snd (CreateAgentToken m now a h v e))"
| "exec_op fmt parses now (OpRotateAgent a h v e) m = ([], snd (RotateAgentToken m now a h v e))"
| "exec_op fmt parses now (OpTouch i) m = ([], snd (TouchAgentTokenLastUsed m now i))"
| "exec_op fmt parses now (OpRevokeAgent i) m = ([], snd (RevokeAgentToken m now i))"
| "exec_op fmt parses now (OpRevokeByAsset a) m = ([], RevokeAgentTokensByAsset m now a)"
| "exec_op fmt parses now OpDeleteDead m = ([], snd (DeleteDeadTokens m now))"
| "exec_op fmt parses now (OpEnroll ctx req) m =
     (case CommitAgentEnrollment fmt parses ctx m now req of (r, m') \<Rightarrow>
        ((case r of Inl _ \<Rightarrow> [] | Inr x \<Rightarrow> [Used (et_id (rs_enrollment_token x))]), m'))"
| "exec_op fmt parses now (OpPrepare ctx a h e n) m = ([], snd (PrepareAgentApproval ctx m now a h e n))"
| "exec_op fmt parses now (OpFinalize ctx req) m = ([], snd (FinalizeAgentApproval fmt ctx m now req))"
| "exec_op fmt parses now (OpCancel ctx i) m = ([], snd (CancelAgentApproval ctx m now i))"
| "exec_op fmt parses now (OpDecommission ctx a) m = ([], snd (DecommissionAgentAsset ctx m now a))"
| "exec_op fmt parses now (OpHeartbeat ctx i ttl req) m =
     ([], snd (CommitAuthenticatedAgentHeartbeat ctx m now i ttl (req\<lparr>hb_allow_rotation := False\<rparr>)))"
| "exec_op fmt parses now (OpOwnerHeartbeat ctx req) m =
     ([], snd (CommitExistingOwnerAgentHeartbeat ctx m now (req\<lparr>hb_allow_rotation := False\<rparr>)))"
| "exec_op fmt parses now (OpUpsert req) m =
     ([], on_assets (\<lambda>st. snd (UpsertAssetHeartbeat st (req\<lparr>hb_allow_rotation := False\<rparr>) now)) m)"
| "exec_op fmt parses now (OpUpdateAsset i u) m = ([], on_assets (\<lambda>st. snd (UpdateAsset st now i u)) m)"
| "exec_op fmt parses now (OpDeleteAsset i) m = ([], on_assets (\<lambda>st. snd (DeleteAsset st i)) m)"
| "exec_op fmt parses now (OpGroups g) m = ([], m\<lparr>es_groups := g\<rparr>)"

inductive enroll_step ::
    "(gtime \<Rightarrow> string) \<Rightarrow> (string \<Rightarrow> bool) \<Rightarrow> enrollment_store \<times> token_event list \<Rightarrow>
     enrollment_store \<times> token_event list \<Rightarrow> bool" for fmt parses where
  step: "exec_op fmt parses now oper m = (ev, m') \<Longrightarrow> enroll_step fmt parses (m, log) (m', log @ ev)"

section \<open>How an operation touches the enrollment tokens\<close>

text \<open>Every operation leaves the tokens alone, adds a new one, uses one, revokes one, or drops some.\<close>

inductive token_change ::
    "enrollment_store \<Rightarrow> token_event list \<Rightarrow> enrollment_store \<Rightarrow> bool" where
  same: "es_tokens m' = es_tokens m \<Longrightarrow> es_next_id m \<le> es_next_id m' \<Longrightarrow> token_change m [] m'"
| new: "es_next_id m' = Suc (es_next_id m) \<Longrightarrow> et_id t = ''etok-'' @ itoa (Suc (es_next_id m)) \<Longrightarrow>
     et_use_count t = 0 \<Longrightarrow> 1 \<le> et_max_uses t \<Longrightarrow> et_max_uses t \<le> HardTokenMaxUsesCeiling \<Longrightarrow>
     es_tokens m' = AList.update (et_id t) t (es_tokens m) \<Longrightarrow> token_change m [Created (et_id t) (et_max_uses t)] m'"
| used: "map_of (es_tokens m) i = Some t \<Longrightarrow> et_use_count t < et_max_uses t \<Longrightarrow>
     es_tokens m' = AList.update i (t\<lparr>et_use_count := et_use_count t + 1\<rparr>) (es_tokens m) \<Longrightarrow>
     es_next_id m \<le> es_next_id m' \<Longrightarrow> token_change m [Used i] m'"
| revoked: "map_of (es_tokens m) i = Some t \<Longrightarrow>
     es_tokens m' = AList.update i (t\<lparr>et_revoked_at := r\<rparr>) (es_tokens m) \<Longrightarrow>
     es_next_id m \<le> es_next_id m' \<Longrightarrow> token_change m [] m'"
| dropped: "es_tokens m' = filter P (es_tokens m) \<Longrightarrow> es_next_id m \<le> es_next_id m' \<Longrightarrow> token_change m [] m'"

definition tokens_keyed :: "enrollment_store \<Rightarrow> bool" where
  "tokens_keyed m = (distinct (map fst (es_tokens m)) \<and> (\<forall>(i, t) \<in> set (es_tokens m). et_id t = i))"

lemma read_token_usable:
  assumes "token_usable (read_token m i) now"
  shows "map_of (es_tokens m) i = Some (read_token m i)" "et_use_count (read_token m i) < et_max_uses (read_token m i)"
proof -
  show "et_use_count (read_token m i) < et_max_uses (read_token m i)"
    using assms by (auto simp: token_usable_def)
  show "map_of (es_tokens m) i = Some (read_token m i)"
    using assms by (cases "map_of (es_tokens m) i") (auto simp: read_token_def token_usable_def zero_enrollment_token_def)
qed

lemma keyed_id: "tokens_keyed m \<Longrightarrow> map_of (es_tokens m) i = Some t \<Longrightarrow> et_id t = i"
  by (auto simp: tokens_keyed_def dest: map_of_SomeD)

lemma mark_rotated_frame [simp]:
  "es_tokens (mark_rotated a now m) = es_tokens m" "es_next_id (mark_rotated a now m) = es_next_id m"
  "es_agents (mark_rotated a now m) = es_agents m" "es_assets (mark_rotated a now m) = es_assets m"
  by (simp_all add: mark_rotated_def)

lemma add_agent_token_frame [simp]:
  "es_tokens (add_agent_token t h m) = es_tokens m" "es_next_id (add_agent_token t h m) = es_next_id m"
  "es_agents (add_agent_token t h m) = AList.update (at_id t) t (es_agents m)"
  "es_assets (add_agent_token t h m) = es_assets m" "es_rotated (add_agent_token t h m) = es_rotated m"
  by (simp_all add: add_agent_token_def)

lemma new_agent_token_fields [simp]:
  "at_id (new_agent_token n a s v e now) = ''atok-'' @ itoa n" "at_asset_id (new_agent_token n a s v e now) = a"
  "at_status (new_agent_token n a s v e now) = s" "at_expires_at (new_agent_token n a s v e now) = e"
  "at_created_at (new_agent_token n a s v e now) = now" "at_revoked_at (new_agent_token n a s v e now) = None"
  by (simp_all add: new_agent_token_def)

lemma validate_locked_usable:
  assumes "validateEnrollmentTokenLocked m h now = (etok, True)"
  obtains i where "map_of (es_by_hash m) h = Some i" "map_of (es_tokens m) i = Some etok" "token_usable etok now"
proof -
  from assms obtain i where i: "map_of (es_by_hash m) h = Some i" "etok = read_token m i" "token_usable (read_token m i) now"
    by (auto simp: validateEnrollmentTokenLocked_def Let_def token_usable_def split: option.splits if_splits)
  with read_token_usable [OF i(3)] that show ?thesis by simp
qed

section \<open>The outcomes of an enrollment\<close>

lemma CommitAgentEnrollment_cases:
  fixes req :: enroll_request
  defines "aid \<equiv> trim_space (er_asset_id req)"
  obtains (fail) e where "CommitAgentEnrollment fmt parses ctx m now req = (Inl e, m)"
  | (recovery) st etok a r m' where "ctx = None" "aid \<noteq> []" "es_assets m = Some st" "now < er_agent_expires_at req"
      "validateEnrollmentTokenLocked m (er_token_hash req) now = (etok, True)"
      "map_of (st_assets st) aid = Some a" "map_of (st_retired st) aid = None"
      "map_of (es_agent_by_hash m) (er_agent_hash req) = None"
      "recovery_check parses m (req\<lparr>er_asset_id := aid\<rparr>) etok a = None"
      "commit_enrollment fmt m st now (req\<lparr>er_asset_id := aid\<rparr>) etok (Some a) False = (r, m')"
      "CommitAgentEnrollment fmt parses ctx m now req = (Inr r, m')"
  | (initial) st etok g r m' where "ctx = None" "aid \<noteq> []" "es_assets m = Some st" "now < er_agent_expires_at req"
      "validateEnrollmentTokenLocked m (er_token_hash req) now = (etok, True)"
      "map_of (st_assets st) aid = None"
      "\<And>at. map_of (st_retired st) aid = Some at \<Longrightarrow> readmitsRetiredIdentity etok at"
      "map_of (es_agent_by_hash m) (er_agent_hash req) = None"
      "initial_check m now (req\<lparr>er_asset_id := aid\<rparr>) etok = Inr g"
      "commit_enrollment fmt m st now (req\<lparr>er_asset_id := aid, er_group_id := g\<rparr>) etok None
         (map_of (st_retired st) aid \<noteq> None) = (r, m')"
      "CommitAgentEnrollment fmt parses ctx m now req = (Inr r, m')"
proof -
  define req' where "req' = req\<lparr>er_asset_id := aid\<rparr>"
  note D = CommitAgentEnrollment_def [of fmt parses ctx m now req, folded aid_def, unfolded Let_def, folded aid_def req'_def]
  have f: "er_agent_expires_at req' = er_agent_expires_at req" "er_token_hash req' = er_token_hash req"
    "er_agent_hash req' = er_agent_hash req" by (simp_all add: req'_def)
  show ?thesis
  proof (cases "ctx = None \<and> aid \<noteq> [] \<and> es_assets m \<noteq> None \<and> now < er_agent_expires_at req \<and>
      snd (validateEnrollmentTokenLocked m (er_token_hash req) now) \<and> map_of (es_agent_by_hash m) (er_agent_hash req) = None")
    case False
    then have "\<exists>e. CommitAgentEnrollment fmt parses ctx m now req = (Inl e, m)"
      unfolding D f by (auto split: option.split prod.split bool.split)
    then show ?thesis using fail by blast
  next
    case True
    then obtain st etok where st: "es_assets m = Some st"
      and etok: "validateEnrollmentTokenLocked m (er_token_hash req) now = (etok, True)" by (metis not_None_eq prod.collapse)
    let ?r = "map_of (st_retired st) aid"
    show ?thesis
    proof (cases "map_of (st_assets st) aid")
      case (Some a)
      show ?thesis
      proof (cases "?r = None \<and> recovery_check parses m req' etok a = None")
        case False
        then have "\<exists>e. CommitAgentEnrollment fmt parses ctx m now req = (Inl e, m)"
          using True st etok Some unfolding D f by (auto split: option.split)
        then show ?thesis using fail by blast
      next
        case ok: True
        obtain r m' where c: "commit_enrollment fmt m st now req' etok (Some a) False = (r, m')" by fastforce
        have "CommitAgentEnrollment fmt parses ctx m now req = (Inr r, m')"
          using True st etok Some ok c unfolding D f by simp
        with True st etok Some ok c recovery show ?thesis unfolding req'_def by blast
      qed
    next
      case None
      show ?thesis
      proof (cases "(\<forall>at. ?r = Some at \<longrightarrow> readmitsRetiredIdentity etok at) \<and> (\<exists>g. initial_check m now req' etok = Inr g)")
        case False
        then have "\<exists>e. CommitAgentEnrollment fmt parses ctx m now req = (Inl e, m)"
          using True st etok None unfolding D f by (auto split: option.split sum.split)
        then show ?thesis using fail by blast
      next
        case ok: True
        then obtain g where g: "initial_check m now req' etok = Inr g" by blast
        obtain r m' where c: "commit_enrollment fmt m st now (req'\<lparr>er_group_id := g\<rparr>) etok None (?r \<noteq> None) = (r, m')" by fastforce
        have "CommitAgentEnrollment fmt parses ctx m now req = (Inr r, m')"
          using True st etok None ok g c unfolding D f by (auto split: option.splits)
        moreover have "req'\<lparr>er_group_id := g\<rparr> = req\<lparr>er_asset_id := aid, er_group_id := g\<rparr>" by (simp add: req'_def)
        ultimately show ?thesis using True st etok None ok g c initial unfolding req'_def by blast
      qed
    qed
  qed
qed

lemma commit_enrollment_fields:
  assumes "commit_enrollment fmt m st now req etok existing retired = (r, m')"
  shows "es_tokens m' = AList.update (et_id etok) (etok\<lparr>et_use_count := et_use_count etok + 1\<rparr>) (es_tokens m)"
    "es_next_id m' = Suc (es_next_id m)" "et_id (rs_enrollment_token r) = et_id etok"
    "es_agents m' = AList.update (''atok-'' @ itoa (Suc (es_next_id m))) (rs_agent_token r)
       (map_agents (revoke_if_active (er_asset_id req) now) (es_agents m))"
    "rs_agent_token r = new_agent_token (Suc (es_next_id m)) (er_asset_id req) ''active'' (et_id etok) (er_agent_expires_at req) now"
    "es_rotated m' = AList.update (er_asset_id req) now (es_rotated m)"
    "rs_asset r = (case existing of None \<Rightarrow> buildInitialEnrolledAsset fmt req now | Some a \<Rightarrow> a)"
    "es_assets m' = Some (st\<lparr>st_assets := (if existing = None then AList.update (er_asset_id req) (rs_asset r) (st_assets st) else st_assets st),
       st_retired := (if retired then AList.delete (er_asset_id req) (st_retired st) else st_retired st)\<rparr>)"
    "es_groups m' = es_groups m" "es_by_hash m' = es_by_hash m"
  using assms by (auto simp: commit_enrollment_def Let_def add_agent_token_def)

lemma enroll_token_change:
  assumes "tokens_keyed m" "CommitAgentEnrollment fmt parses ctx m now req = (Inr r, m')"
  shows "token_change m [Used (et_id (rs_enrollment_token r))] m'"
proof -
  have "\<exists>etok st req' ex rt. validateEnrollmentTokenLocked m (er_token_hash req) now = (etok, True) \<and>
      commit_enrollment fmt m st now req' etok ex rt = (r, m')"
    using assms(2) by (cases rule: CommitAgentEnrollment_cases [of fmt parses ctx m now req]) auto
  then obtain etok st req' ex rt where v: "validateEnrollmentTokenLocked m (er_token_hash req) now = (etok, True)"
    and c: "commit_enrollment fmt m st now req' etok ex rt = (r, m')" by blast
  obtain i where i: "map_of (es_tokens m) i = Some etok" "token_usable etok now"
    using validate_locked_usable [OF v] by blast
  have "et_id etok = i" using keyed_id [OF assms(1) i(1)] .
  moreover have "et_use_count etok < et_max_uses etok" using i(2) by (auto simp: token_usable_def)
  ultimately show ?thesis
    using token_change.used [OF i(1)] commit_enrollment_fields(1-3) [OF c] by simp
qed

lemma enroll_fail_unchanged: "CommitAgentEnrollment fmt parses ctx m now req = (Inl e, m') \<Longrightarrow> m' = m"
  by (cases rule: CommitAgentEnrollment_cases [of fmt parses ctx m now req]) auto

lemma create_token_change:
  assumes "CreateEnrollmentToken m now p = (r, m')"
  shows "token_change m (case r of Inl _ \<Rightarrow> [] | Inr t \<Rightarrow> [Created (et_id t) (et_max_uses t)]) m'"
proof (cases r)
  case (Inl e)
  then have "m' = m" using assms by (auto simp: CreateEnrollmentToken_def Let_def split: option.splits if_splits)
  with Inl show ?thesis by (auto intro: token_change.same)
next
  case (Inr t)
  have "1 \<le> et_max_uses t \<and> et_max_uses t \<le> HardTokenMaxUsesCeiling \<and> et_use_count t = 0 \<and>
      et_id t = ''etok-'' @ itoa (Suc (es_next_id m)) \<and> es_next_id m' = Suc (es_next_id m) \<and>
      es_tokens m' = AList.update (et_id t) t (es_tokens m)"
    using assms Inr
    by (auto simp: CreateEnrollmentToken_def Let_def validateEnrollmentTokenCreateParams_def ValidateStoredTokenMaxUses_def
        split: option.splits if_splits)
  then have "token_change m [Created (et_id t) (et_max_uses t)] m'"
    by (intro token_change.new) blast+
  with Inr show ?thesis by simp
qed

lemma consume_token_change:
  assumes "tokens_keyed m" "ConsumeEnrollmentToken m now h = ((t, ok), m')"
  shows "token_change m (if ok then [Used (et_id t)] else []) m'"
proof (cases ok)
  case True
  with assms(2) obtain i where i: "map_of (es_by_hash m) h = Some i" "token_usable (read_token m i) now"
    "t = (read_token m i)\<lparr>et_use_count := et_use_count (read_token m i) + 1\<rparr>"
    "m' = m\<lparr>es_tokens := AList.update i t (es_tokens m)\<rparr>"
    by (auto simp: ConsumeEnrollmentToken_def Let_def split: option.splits if_splits)
  have "et_id t = i" using keyed_id [OF assms(1) read_token_usable(1) [OF i(2)]] i(3) by simp
  then show ?thesis
    using token_change.used [OF read_token_usable [OF i(2)], of m'] i(3,4) True by simp
next
  case False
  then have "m' = m" using assms(2) by (auto simp: ConsumeEnrollmentToken_def Let_def split: option.splits if_splits)
  with False show ?thesis by (auto intro: token_change.same)
qed

lemma increment_token_change:
  assumes "IncrementEnrollmentTokenUse m now i = (e, m')"
  shows "token_change m (if e = None then [Used i] else []) m'"
proof (cases e)
  case None
  with assms obtain t where "map_of (es_tokens m) i = Some t" "token_usable t now"
    "m' = m\<lparr>es_tokens := AList.update i (t\<lparr>et_use_count := et_use_count t + 1\<rparr>) (es_tokens m)\<rparr>"
    by (auto simp: IncrementEnrollmentTokenUse_def split: option.splits if_splits)
  with None show ?thesis by (auto intro!: token_change.used simp: token_usable_def)
next
  case (Some x)
  then have "m' = m" using assms by (auto simp: IncrementEnrollmentTokenUse_def split: option.splits if_splits)
  with Some show ?thesis by (auto intro: token_change.same)
qed

lemma revoke_token_change: "token_change m [] (snd (RevokeEnrollmentToken m now i))"
  by (auto simp: RevokeEnrollmentToken_def intro: token_change.same token_change.revoked split: option.split)

lemma delete_dead_change: "token_change m [] (snd (DeleteDeadTokens m now))"
  by (rule token_change.dropped) (auto simp: DeleteDeadTokens_def Let_def)

text \<open>The other operations leave the tokens alone.\<close>

lemma agent_ops_frame:
  "es_tokens (snd (CreateAgentToken m now a h v e)) = es_tokens m"
  "es_next_id m \<le> es_next_id (snd (CreateAgentToken m now a h v e))"
  "es_tokens (snd (RotateAgentToken m now a h v e)) = es_tokens m"
  "es_next_id m \<le> es_next_id (snd (RotateAgentToken m now a h v e))"
  "es_tokens (snd (TouchAgentTokenLastUsed m now i)) = es_tokens m"
  "es_next_id (snd (TouchAgentTokenLastUsed m now i)) = es_next_id m"
  "es_tokens (snd (RevokeAgentToken m now i)) = es_tokens m"
  "es_next_id (snd (RevokeAgentToken m now i)) = es_next_id m"
  "es_tokens (snd (PrepareAgentApproval ctx m now a h e n)) = es_tokens m"
  "es_next_id m \<le> es_next_id (snd (PrepareAgentApproval ctx m now a h e n))"
  "es_tokens (snd (FinalizeAgentApproval fmt ctx m now fr)) = es_tokens m"
  "es_next_id (snd (FinalizeAgentApproval fmt ctx m now fr)) = es_next_id m"
  "es_tokens (snd (CancelAgentApproval ctx m now i)) = es_tokens m"
  "es_next_id (snd (CancelAgentApproval ctx m now i)) = es_next_id m"
  "es_tokens (snd (DecommissionAgentAsset ctx m now a)) = es_tokens m"
  "es_next_id (snd (DecommissionAgentAsset ctx m now a)) = es_next_id m"
  "es_tokens (snd (CommitAuthenticatedAgentHeartbeat ctx m now i ttl hb)) = es_tokens m"
  "es_next_id (snd (CommitAuthenticatedAgentHeartbeat ctx m now i ttl hb)) = es_next_id m"
  "es_tokens (snd (CommitExistingOwnerAgentHeartbeat ctx m now hb)) = es_tokens m"
  "es_next_id (snd (CommitExistingOwnerAgentHeartbeat ctx m now hb)) = es_next_id m"
  by (simp_all add: CreateAgentToken_def RotateAgentToken_def TouchAgentTokenLastUsed_def RevokeAgentToken_def
      PrepareAgentApproval_def FinalizeAgentApproval_def CancelAgentApproval_def DecommissionAgentAsset_def
      CommitAuthenticatedAgentHeartbeat_def CommitExistingOwnerAgentHeartbeat_def Let_def case_prod_beta
      split: option.split)

lemma exec_token_change:
  assumes keyed: "tokens_keyed m" and x: "exec_op fmt parses now oper m = (ev, m')"
  shows "token_change m ev m'"
proof -
  note same = token_change.same [of _ m]
  show ?thesis
  proof (cases oper)
    case (OpCreateToken p)
    with x create_token_change [of m now p] show ?thesis by (auto split: prod.splits)
  next
    case (OpConsume h)
    with x consume_token_change [OF keyed, of now h] show ?thesis by (auto split: prod.splits)
  next
    case (OpIncrement i)
    with x increment_token_change [of m now i] show ?thesis by (auto split: prod.splits)
  next
    case (OpRevokeToken i)
    with x revoke_token_change show ?thesis by auto
  next
    case OpDeleteDead
    with x delete_dead_change show ?thesis by auto
  next
    case (OpEnroll ctx req)
    with x enroll_token_change [OF keyed, of fmt parses ctx now req] enroll_fail_unchanged [of fmt parses ctx m now req]
    show ?thesis by (auto split: prod.splits sum.splits intro: same)
  qed (use x in \<open>auto simp: agent_ops_frame RevokeAgentTokensByAsset_def on_assets_def intro!: same\<close>)
qed

section \<open>The use of a token is bounded\<close>

definition issued :: "string \<Rightarrow> nat \<Rightarrow> string \<Rightarrow> bool" where
  "issued prefix n i = (\<exists>k \<le> n. i = prefix @ itoa k)"

lemma issued_mono: "issued p a i \<Longrightarrow> a \<le> b \<Longrightarrow> issued p b i"
  unfolding issued_def using le_trans by blast

lemma not_issued_next: "\<not> issued p n (p @ itoa (Suc n))"
  by (simp add: issued_def)

lemma issued_next: "issued p (Suc n) (p @ itoa (Suc n))"
  unfolding issued_def by blast

definition log_ok :: "enrollment_store \<times> token_event list \<Rightarrow> bool" where
  "log_ok s =
     (case s of (m, log) \<Rightarrow>
        tokens_keyed m \<and>
        (\<forall>i k. Created i k \<in> set log \<longrightarrow> int (count_list log (Used i)) \<le> k \<and> k \<le> HardTokenMaxUsesCeiling \<and>
           issued ''etok-'' (es_next_id m) i) \<and>
        (\<forall>i k l. Created i k \<in> set log \<and> Created i l \<in> set log \<longrightarrow> k = l) \<and>
        (\<forall>i. Used i \<in> set log \<longrightarrow> (\<exists>k. Created i k \<in> set log)) \<and>
        (\<forall>i t. map_of (es_tokens m) i = Some t \<longrightarrow>
           Created i (et_max_uses t) \<in> set log \<and> et_use_count t = int (count_list log (Used i))))"

lemma log_okD:
  assumes "log_ok (m, log)"
  shows "tokens_keyed m"
    "Created i k \<in> set log \<Longrightarrow> int (count_list log (Used i)) \<le> k"
    "Created i k \<in> set log \<Longrightarrow> k \<le> HardTokenMaxUsesCeiling"
    "Created i k \<in> set log \<Longrightarrow> issued ''etok-'' (es_next_id m) i"
    "Created i k \<in> set log \<Longrightarrow> Created i l \<in> set log \<Longrightarrow> k = l"
    "Used i \<in> set log \<Longrightarrow> \<exists>k. Created i k \<in> set log"
    "map_of (es_tokens m) i = Some t \<Longrightarrow> Created i (et_max_uses t) \<in> set log"
    "map_of (es_tokens m) i = Some t \<Longrightarrow> et_use_count t = int (count_list log (Used i))"
  using assms unfolding log_ok_def by blast+

lemma log_okI:
  assumes "tokens_keyed m"
    "\<And>i k. Created i k \<in> set log \<Longrightarrow> int (count_list log (Used i)) \<le> k"
    "\<And>i k. Created i k \<in> set log \<Longrightarrow> k \<le> HardTokenMaxUsesCeiling"
    "\<And>i k. Created i k \<in> set log \<Longrightarrow> issued ''etok-'' (es_next_id m) i"
    "\<And>i k l. Created i k \<in> set log \<Longrightarrow> Created i l \<in> set log \<Longrightarrow> k = l"
    "\<And>i. Used i \<in> set log \<Longrightarrow> \<exists>k. Created i k \<in> set log"
    "\<And>i t. map_of (es_tokens m) i = Some t \<Longrightarrow> Created i (et_max_uses t) \<in> set log"
    "\<And>i t. map_of (es_tokens m) i = Some t \<Longrightarrow> et_use_count t = int (count_list log (Used i))"
  shows "log_ok (m, log)"
  unfolding log_ok_def prod.case
  by (intro conjI allI impI; (elim conjE)?; rule assms; assumption)

lemma tokens_keyed_update: "tokens_keyed m \<Longrightarrow> et_id t = i \<Longrightarrow> es_tokens m' = AList.update i t (es_tokens m) \<Longrightarrow> tokens_keyed m'"
  unfolding tokens_keyed_def using alist_update_subset [of i t "es_tokens m"] by (fastforce simp: distinct_update)

lemma tokens_keyed_filter: "tokens_keyed m \<Longrightarrow> es_tokens m' = filter P (es_tokens m) \<Longrightarrow> tokens_keyed m'"
  unfolding tokens_keyed_def by (auto simp: distinct_map_filter)

lemma map_of_filter_SomeD:
  assumes "distinct (map fst xs)" "map_of (filter P xs) k = Some v"
  shows "map_of xs k = Some v"
proof -
  have "(k, v) \<in> set xs" using map_of_SomeD [OF assms(2)] by simp
  with assms(1) show ?thesis by simp
qed

lemma log_ok_keep:
  assumes "log_ok (m, log)" "tokens_keyed m'" "es_next_id m \<le> es_next_id m'"
    "\<And>i t. map_of (es_tokens m') i = Some t \<Longrightarrow>
       \<exists>u. map_of (es_tokens m) i = Some u \<and> et_max_uses t = et_max_uses u \<and> et_use_count t = et_use_count u"
  shows "log_ok (m', log)"
proof (rule log_okI)
  show "issued ''etok-'' (es_next_id m') i" if "Created i k \<in> set log" for i k
    using issued_mono [OF log_okD(4) [OF assms(1) that] assms(3)] .
  show "Created i (et_max_uses t) \<in> set log" "et_use_count t = int (count_list log (Used i))"
    if "map_of (es_tokens m') i = Some t" for i t
    using assms(4) [OF that] log_okD(7,8) [OF assms(1)] by auto
qed (use assms(2) log_okD [OF assms(1)] in blast)+

lemma log_ok_new:
  assumes ok: "log_ok (m, log)" and n: "es_next_id m' = Suc (es_next_id m)"
    and t: "et_id t = ''etok-'' @ itoa (Suc (es_next_id m))" "et_use_count t = 0" "1 \<le> et_max_uses t"
      "et_max_uses t \<le> HardTokenMaxUsesCeiling" "es_tokens m' = AList.update (et_id t) t (es_tokens m)"
  shows "log_ok (m', log @ [Created (et_id t) (et_max_uses t)])"
proof -
  have fresh: "Created (et_id t) k \<notin> set log" for k
    using log_okD(4) [OF ok, of "et_id t" k] not_issued_next t(1) by metis
  then have unused: "Used (et_id t) \<notin> set log" using log_okD(6) [OF ok] by blast
  have cnt: "count_list (log @ [Created (et_id t) (et_max_uses t)]) (Used i) = count_list log (Used i)" for i by simp
  have zero: "count_list log (Used (et_id t)) = 0" using unused by (simp add: count_list_0_iff)
  show ?thesis
  proof (rule log_okI)
    show "tokens_keyed m'" using tokens_keyed_update [OF log_okD(1) [OF ok] refl t(5)] .
    show "int (count_list (log @ [Created (et_id t) (et_max_uses t)]) (Used i)) \<le> k"
      if "Created i k \<in> set (log @ [Created (et_id t) (et_max_uses t)])" for i k
      using that zero t(3) log_okD(2) [OF ok, of i k] unfolding cnt by auto
    show "issued ''etok-'' (es_next_id m') i"
      if "Created i k \<in> set (log @ [Created (et_id t) (et_max_uses t)])" for i k
    proof (cases "Created i k \<in> set log")
      case True
      show ?thesis by (rule issued_mono [OF log_okD(4) [OF ok True]]) (simp add: n)
    next
      case False
      with that have "i = et_id t" by simp
      with n t(1) issued_next show ?thesis by metis
    qed
    show "Created i (et_max_uses u) \<in> set (log @ [Created (et_id t) (et_max_uses t)])"
      "et_use_count u = int (count_list (log @ [Created (et_id t) (et_max_uses t)]) (Used i))"
      if "map_of (es_tokens m') i = Some u" for i u
      using that t(2) zero log_okD(7,8) [OF ok, of i u] unfolding cnt t(5) by (auto split: if_splits)
    show "\<exists>k. Created i k \<in> set (log @ [Created (et_id t) (et_max_uses t)])"
      if "Used i \<in> set (log @ [Created (et_id t) (et_max_uses t)])" for i
      using that log_okD(6) [OF ok, of i] by auto
  qed (use fresh log_okD(3,5) [OF ok] t(4) in auto)
qed

lemma log_ok_used:
  assumes ok: "log_ok (m, log)" and t: "map_of (es_tokens m) i = Some t" "et_use_count t < et_max_uses t"
    and m': "es_tokens m' = AList.update i (t\<lparr>et_use_count := et_use_count t + 1\<rparr>) (es_tokens m)" "es_next_id m \<le> es_next_id m'"
  shows "log_ok (m', log @ [Used i])"
proof -
  have c: "Created i (et_max_uses t) \<in> set log" "et_use_count t = int (count_list log (Used i))"
    using log_okD(7,8) [OF ok t(1)] .
  show ?thesis
  proof (rule log_okI)
    show "tokens_keyed m'"
      using tokens_keyed_update [OF log_okD(1) [OF ok] _ m'(1)] keyed_id [OF log_okD(1) [OF ok] t(1)] by simp
    show "int (count_list (log @ [Used i]) (Used j)) \<le> k" if "Created j k \<in> set (log @ [Used i])" for j k
    proof -
      from that have j: "Created j k \<in> set log" by simp
      show ?thesis
      proof (cases "j = i")
        case True
        with log_okD(5) [OF ok _ c(1), of k] j have "k = et_max_uses t" by simp
        with True c(2) t(2) show ?thesis by simp
      qed (use log_okD(2) [OF ok j] in simp)
    qed
    show "issued ''etok-'' (es_next_id m') j" if "Created j k \<in> set (log @ [Used i])" for j k
    proof -
      from that have "Created j k \<in> set log" by simp
      from issued_mono [OF log_okD(4) [OF ok this] m'(2)] show ?thesis .
    qed
    show "Created j (et_max_uses u) \<in> set (log @ [Used i])" "et_use_count u = int (count_list (log @ [Used i]) (Used j))"
      if "map_of (es_tokens m') j = Some u" for j u
      using that c log_okD(7,8) [OF ok, of j u] unfolding m'(1) by (auto split: if_splits)
    show "\<exists>k. Created j k \<in> set (log @ [Used i])" if "Used j \<in> set (log @ [Used i])" for j
      using that log_okD(6) [OF ok, of j] c(1) by auto
    show "k = l" if "Created j k \<in> set (log @ [Used i])" "Created j l \<in> set (log @ [Used i])" for j k l
      using log_okD(5) [OF ok, of j k l] that by simp
  qed (use log_okD(3) [OF ok] in auto)
qed

lemma enroll_step_log_ok:
  assumes "enroll_step fmt parses s s'" "log_ok s"
  shows "log_ok s'"
  using assms
proof (cases rule: enroll_step.cases)
  case (step now oper m ev m' log)
  have ok: "log_ok (m, log)" using assms(2) step by simp
  have keyed: "tokens_keyed m" using log_okD(1) [OF ok] .
  from exec_token_change [OF keyed step(3)] have "log_ok (m', log @ ev)"
  proof (cases rule: token_change.cases)
    case same
    with keyed have "tokens_keyed m'" by (simp add: tokens_keyed_def)
    with log_ok_keep [OF ok, of m'] same show ?thesis by simp
  next
    case (new t)
    with log_ok_new [OF ok] show ?thesis by blast
  next
    case (used i t)
    with log_ok_used [OF ok] show ?thesis by blast
  next
    case (revoked i t r)
    have k: "tokens_keyed m'"
      using tokens_keyed_update [OF keyed _ revoked(3)] keyed_id [OF keyed revoked(2)] by simp
    have "log_ok (m', log)"
      by (rule log_ok_keep [OF ok k revoked(4)]) (use revoked(2,3) in \<open>auto split: if_splits\<close>)
    with revoked(1) show ?thesis by simp
  next
    case (dropped P)
    have "tokens_keyed m'" using tokens_keyed_filter [OF keyed dropped(2)] .
    moreover have "map_of (es_tokens m) i = Some t" if "map_of (es_tokens m') i = Some t" for i t
      using that keyed map_of_filter_SomeD unfolding dropped(2) tokens_keyed_def by metis
    ultimately show ?thesis using log_ok_keep [OF ok, of m'] dropped by simp
  qed
  with step show ?thesis by simp
qed

lemma log_ok_initial: "log_ok (NewMemoryEnrollmentStoreWithGroupStore st gs, [])"
  by (simp add: log_ok_def tokens_keyed_def NewMemoryEnrollmentStoreWithGroupStore_def NewMemoryEnrollmentStore_def)

section \<open>Executing a list of operations\<close>

fun run_ops ::
    "(gtime \<Rightarrow> string) \<Rightarrow> (string \<Rightarrow> bool) \<Rightarrow> (gtime \<times> enroll_op) list \<Rightarrow> enrollment_store \<times> token_event list \<Rightarrow>
     enrollment_store \<times> token_event list" where
  "run_ops fmt parses [] s = s"
| "run_ops fmt parses ((now, oper) # ops) (m, log) =
     (case exec_op fmt parses now oper m of (ev, m') \<Rightarrow> run_ops fmt parses ops (m', log @ ev))"

lemma run_ops_is_run: "(enroll_step fmt parses)\<^sup>*\<^sup>* s (run_ops fmt parses ops s)"
proof (induction fmt parses ops s rule: run_ops.induct)
  case (2 fmt parses now oper ops m log)
  obtain ev m' where e: "exec_op fmt parses now oper m = (ev, m')" by fastforce
  from enroll_step.step [OF e] "2.IH" [OF e [symmetric]] e show ?case
    by (auto intro: converse_rtranclp_into_rtranclp)
qed simp

definition empty_enrollment :: enrollment_store where
  "empty_enrollment = NewMemoryEnrollmentStoreWithGroupStore (Some NewMemoryAssetStore) (Some NewMemoryGroupStore)"

definition sample_token :: "string \<Rightarrow> int \<Rightarrow> token_params" where
  "sample_token h uses = \<lparr>tp_hash = h, tp_label = [], tp_expires_at = 1000, tp_max_uses = uses, tp_scope = ''unrestricted'',
     tp_asset_id = [], tp_allowed_group_id = [], tp_created_by = ''admin''\<rparr>"

definition sample_uses :: "enrollment_store \<times> token_event list" where
  "sample_uses = run_ops (\<lambda>_. ''t'') (\<lambda>_. True)
     [(0, OpCreateToken (sample_token ''h'' 2)), (1, OpConsume ''h''), (2, OpIncrement ''etok-1''), (3, OpConsume ''h'')]
     (empty_enrollment, [])"

lemma sample_uses_log: "snd sample_uses = [Created ''etok-1'' 2, Used ''etok-1'', Used ''etok-1'']"
  by code_simp

section \<open>Property\<close>

text \<open>C20: An enrollment token is used at most as often as it was made for, and never more than 4096
  times: in every run the successful uses of a token, through whichever operation, are at most its
  maximum, and while the token is stored its counter is exactly that number.\<close>

theorem enrollment_token_uses_bounded:
  assumes "(enroll_step fmt parses)\<^sup>*\<^sup>* (NewMemoryEnrollmentStoreWithGroupStore st gs, []) (m, log)"
    and "Created i k \<in> set log"
  shows "int (count_list log (Used i)) \<le> k \<and> k \<le> 4096 \<and>
    (\<forall>t. map_of (es_tokens m) i = Some t \<longrightarrow> et_max_uses t = k \<and> et_use_count t = int (count_list log (Used i)))"
proof -
  have ok: "log_ok (m, log)"
    using assms(1) log_ok_initial by (rule rtranclp_invariant) (rule enroll_step_log_ok)
  have "et_max_uses t = k" if "map_of (es_tokens m) i = Some t" for t
    using log_okD(5) [OF ok log_okD(7) [OF ok that] assms(2)] .
  then show ?thesis
    using log_okD(2,3) [OF ok assms(2)] log_okD(8) [OF ok] by (simp add: HardTokenMaxUsesCeiling_def)
qed

theorem enrollment_token_uses_bounded_witness:
  "Created ''etok-1'' 2 \<in> set (snd sample_uses) \<and> int (count_list (snd sample_uses) (Used ''etok-1'')) = 2 \<and>
   int (count_list (snd sample_uses) (Used ''etok-1'')) \<le> 2"
proof -
  have "(enroll_step (\<lambda>_. ''t'') (\<lambda>_. True))\<^sup>*\<^sup>* (empty_enrollment, []) (fst sample_uses, snd sample_uses)"
    unfolding sample_uses_def prod.collapse by (rule run_ops_is_run)
  from enrollment_token_uses_bounded [OF this [unfolded empty_enrollment_def], of "''etok-1''" 2]
  show ?thesis by (simp add: sample_uses_log)
qed

end
