(* ===== verification/Enrollment_Credentials.thy ===== *)
theory Enrollment_Credentials
  imports Enrollment_Runs
begin

text \<open>
  The credentials of agents over runs of the enrollment store: identifiers are never reused, a credential
  only moves forward (pending, active, revoked), and the credentials of a decommissioned asset are never
  accepted again.
\<close>

section \<open>How an operation touches the credentials\<close>

definition status_moves :: "string \<Rightarrow> string \<Rightarrow> bool" where
  "status_moves s s' =
     (s' = s \<or> s = ''pending'' \<and> (s' = ''active'' \<or> s' = ''revoked'') \<or> s = ''active'' \<and> s' = ''revoked'')"

definition status_known :: "string \<Rightarrow> bool" where
  "status_known s = (s = ''pending'' \<or> s = ''active'' \<or> s = ''revoked'')"

definition agents_ok :: "enrollment_store \<Rightarrow> bool" where
  "agents_ok m =
     (distinct (map fst (es_agents m)) \<and>
      (\<forall>(i, t) \<in> set (es_agents m). at_id t = i \<and> issued ''atok-'' (es_next_id m) i \<and>
         status_known (at_status t)))"

definition agent_change :: "enrollment_store \<Rightarrow> enrollment_store \<Rightarrow> bool" where
  "agent_change m m' =
     (agents_ok m' \<and> es_next_id m \<le> es_next_id m' \<and>
      (\<forall>i t'. map_of (es_agents m') i = Some t' \<longrightarrow>
         (\<exists>t. map_of (es_agents m) i = Some t \<and> at_asset_id t' = at_asset_id t \<and> status_moves (at_status t) (at_status t')) \<or>
         \<not> issued ''atok-'' (es_next_id m) i))"

lemma agents_okD:
  assumes "agents_ok m"
  shows "distinct (map fst (es_agents m))"
    "map_of (es_agents m) i = Some t \<Longrightarrow> at_id t = i"
    "map_of (es_agents m) i = Some t \<Longrightarrow> issued ''atok-'' (es_next_id m) i"
    "map_of (es_agents m) i = Some t \<Longrightarrow> status_known (at_status t)"
  using assms unfolding agents_ok_def by (fast dest: map_of_SomeD)+

text \<open>A rewriting of credentials that keeps the identifier and the asset and only moves the status forward.\<close>

definition forward :: "(agent_token \<Rightarrow> agent_token) \<Rightarrow> bool" where
  "forward f = (\<forall>t. at_id (f t) = at_id t \<and> at_asset_id (f t) = at_asset_id t \<and> status_moves (at_status t) (at_status (f t)))"

lemma forwardI:
  "(\<And>t. at_id (f t) = at_id t) \<Longrightarrow> (\<And>t. at_asset_id (f t) = at_asset_id t) \<Longrightarrow>
   (\<And>t. status_moves (at_status t) (at_status (f t))) \<Longrightarrow> forward f"
  unfolding forward_def by blast

lemma forward_revoke: "forward (revoke_if_active a now)" "forward (revoke_for_removal a now)"
  by (auto intro!: forwardI simp: revoke_if_active_def revoke_for_removal_def status_moves_def)

lemma forward_id: "forward (\<lambda>t. t)"
  by (simp add: forward_def status_moves_def)

lemma status_moves_known:
  "status_moves s s' \<Longrightarrow> status_known s \<Longrightarrow> status_known s'"
  unfolding status_moves_def status_known_def by auto

lemma map_of_map_agents: "map_of (map_agents f xs) i = map_option f (map_of xs i)"
  by (induction xs) (auto simp: map_agents_def)

lemma fst_map_agents [simp]: "map fst (map_agents f xs) = map fst xs"
  by (simp add: map_agents_def comp_def case_prod_beta)

lemma agents_ok_map:
  assumes "agents_ok m" "forward f" "es_agents m' = map_agents f (es_agents m)" "es_next_id m \<le> es_next_id m'"
  shows "agents_ok m'"
  unfolding agents_ok_def
proof (intro conjI ballI)
  show "distinct (map fst (es_agents m'))" using assms(1,3) by (simp add: agents_ok_def)
  fix e
  assume "e \<in> set (es_agents m')"
  then obtain i t where e: "e = (i, f t)" "(i, t) \<in> set (es_agents m)"
    unfolding assms(3) map_agents_def by auto
  then have "at_id t = i \<and> issued ''atok-'' (es_next_id m) i \<and> status_known (at_status t)"
    using assms(1) unfolding agents_ok_def by blast
  then show "case e of (i, t) \<Rightarrow> at_id t = i \<and> issued ''atok-'' (es_next_id m') i \<and>
      status_known (at_status t)"
    using assms(2) issued_mono [OF _ assms(4)] status_moves_known unfolding e(1) forward_def prod.case by metis
qed

lemma change_map:
  assumes "agents_ok m" "forward f" "es_agents m' = map_agents f (es_agents m)" "es_next_id m \<le> es_next_id m'"
  shows "agent_change m m'"
  using agents_ok_map [OF assms] assms(2,4) unfolding agent_change_def assms(3) map_of_map_agents forward_def by fastforce

lemma change_same: "agents_ok m \<Longrightarrow> es_agents m' = es_agents m \<Longrightarrow> es_next_id m \<le> es_next_id m' \<Longrightarrow> agent_change m m'"
  by (rule change_map [OF _ forward_id]) (simp_all add: map_agents_def)

lemma agents_ok_update:
  assumes "agents_ok m" "at_id t = i" "issued ''atok-'' (es_next_id m') i"
    "status_known (at_status t)"
    "es_agents m' = AList.update i t (es_agents m)" "es_next_id m \<le> es_next_id m'"
  shows "agents_ok m'"
  unfolding agents_ok_def
proof (intro conjI ballI)
  show "distinct (map fst (es_agents m'))" using assms(1,5) by (simp add: agents_ok_def distinct_update)
  fix e
  assume "e \<in> set (es_agents m')"
  then have "e = (i, t) \<or> e \<in> set (es_agents m)" using alist_update_subset [of i t "es_agents m"] assms(5) by auto
  then show "case e of (i, t) \<Rightarrow> at_id t = i \<and> issued ''atok-'' (es_next_id m') i \<and>
      status_known (at_status t)"
  proof
    assume "e = (i, t)"
    with assms(2-4) show ?thesis by simp
  next
    assume "e \<in> set (es_agents m)"
    with assms(1) issued_mono [OF _ assms(6)] show ?thesis unfolding agents_ok_def by (cases e) blast
  qed
qed

lemma change_update:
  assumes "agents_ok m" "map_of (es_agents m) i = Some t" "at_id t' = i" "at_asset_id t' = at_asset_id t"
    "status_moves (at_status t) (at_status t')" "es_agents m' = AList.update i t' (es_agents m)" "es_next_id m' = es_next_id m"
  shows "agent_change m m'"
proof -
  have "agents_ok m'"
    by (rule agents_ok_update [OF assms(1,3) _ _ assms(6)])
      (use assms(2,5,7) agents_okD(3,4) [OF assms(1)] status_moves_known in auto)
  moreover have "(\<exists>u. map_of (es_agents m) j = Some u \<and> at_asset_id v = at_asset_id u \<and> status_moves (at_status u) (at_status v))"
    if "map_of (es_agents m') j = Some v" for j v
    using that assms(2,4,5) unfolding assms(6) by (auto simp: status_moves_def split: if_splits)
  ultimately show ?thesis unfolding agent_change_def using assms(7) by simp
qed

lemma change_new:
  assumes "agents_ok m" "forward f" "at_id t = ''atok-'' @ itoa (Suc (es_next_id m))"
    "at_status t = ''pending'' \<or> at_status t = ''active''"
    "es_agents m' = AList.update (at_id t) t (map_agents f (es_agents m))" "es_next_id m' = Suc (es_next_id m)"
  shows "agent_change m m'"
proof -
  define m1 where "m1 = m\<lparr>es_agents := map_agents f (es_agents m)\<rparr>"
  have ch: "agent_change m m1" by (rule change_map [OF assms(1,2)]) (simp_all add: m1_def)
  have ok1: "agents_ok m1" using ch by (simp add: agent_change_def)
  have iss: "issued ''atok-'' (es_next_id m') (at_id t)" unfolding assms(3,6) by (rule issued_next)
  have st: "status_known (at_status t)" using assms(4) by (auto simp: status_known_def)
  have ok: "agents_ok m'"
    by (rule agents_ok_update [OF ok1 refl iss st]) (simp_all add: m1_def assms(5,6))
  have "(\<exists>u. map_of (es_agents m) j = Some u \<and> at_asset_id v = at_asset_id u \<and> status_moves (at_status u) (at_status v)) \<or>
      \<not> issued ''atok-'' (es_next_id m) j" if "map_of (es_agents m') j = Some v" for j v
  proof (cases "j = at_id t")
    case True
    with assms(3) not_issued_next show ?thesis by metis
  next
    case False
    with that have "map_of (es_agents m1) j = Some v" unfolding assms(5) m1_def by simp
    with ch show ?thesis unfolding agent_change_def by blast
  qed
  with ok assms(6) show ?thesis unfolding agent_change_def by simp
qed

lemma change_filter:
  assumes "agents_ok m" "es_agents m' = filter P (es_agents m)" "es_next_id m' = es_next_id m"
  shows "agent_change m m'"
proof -
  have "agents_ok m'" using assms unfolding agents_ok_def by (auto simp: distinct_map_filter)
  moreover have "map_of (es_agents m) i = Some t" if "map_of (es_agents m') i = Some t" for i t
    using that map_of_filter_SomeD agents_okD(1) [OF assms(1)] unfolding assms(2) by metis
  ultimately show ?thesis unfolding agent_change_def status_moves_def using assms(3) by fastforce
qed

lemma status_moves_trans: "status_moves a b \<Longrightarrow> status_moves b c \<Longrightarrow> status_moves a c"
  unfolding status_moves_def by auto

lemma change_trans:
  assumes "agent_change m m1" "agent_change m1 m2"
  shows "agent_change m m2"
proof -
  have le: "es_next_id m \<le> es_next_id m1" "es_next_id m1 \<le> es_next_id m2" using assms by (simp_all add: agent_change_def)
  have "(\<exists>u. map_of (es_agents m) j = Some u \<and> at_asset_id v = at_asset_id u \<and> status_moves (at_status u) (at_status v)) \<or>
      \<not> issued ''atok-'' (es_next_id m) j" if v: "map_of (es_agents m2) j = Some v" for j v
  proof (cases "issued ''atok-'' (es_next_id m) j")
    case True
    then have "issued ''atok-'' (es_next_id m1) j" using issued_mono le(1) by blast
    then obtain w where w: "map_of (es_agents m1) j = Some w" "at_asset_id v = at_asset_id w" "status_moves (at_status w) (at_status v)"
      using assms(2) v unfolding agent_change_def by blast
    then obtain u where "map_of (es_agents m) j = Some u" "at_asset_id w = at_asset_id u" "status_moves (at_status u) (at_status w)"
      using assms(1) True unfolding agent_change_def by blast
    with w status_moves_trans show ?thesis by metis
  qed simp
  then show ?thesis using assms(2) le unfolding agent_change_def by (meson le_trans)
qed

subsection \<open>The operations one by one\<close>

lemma map_agents_id [simp]: "map_agents (\<lambda>t. t) xs = xs"
  by (simp add: map_agents_def)

lemma create_agent_change:
  assumes "agents_ok m"
  shows "agent_change m (snd (CreateAgentToken m now a h v e))"
proof (cases "trim_space a = []")
  case False
  show ?thesis
    by (rule change_new [OF assms forward_id, of "new_agent_token (Suc (es_next_id m)) (trim_space a) ''active'' v e now"])
      (simp_all add: CreateAgentToken_def Let_def False)
qed (simp add: CreateAgentToken_def change_same assms)

lemma rotate_agent_change:
  assumes "agents_ok m"
  shows "agent_change m (snd (RotateAgentToken m now a h v e))"
proof (cases "trim_space a = []")
  case False
  show ?thesis
    by (rule change_new [OF assms forward_revoke(1), of "new_agent_token (Suc (es_next_id m)) (trim_space a) ''active'' v e now"])
      (simp_all add: RotateAgentToken_def Let_def False)
qed (simp add: RotateAgentToken_def change_same assms)

lemma touch_agent_change:
  assumes "agents_ok m"
  shows "agent_change m (snd (TouchAgentTokenLastUsed m now i))"
proof (cases "map_of (es_agents m) i")
  case (Some t)
  show ?thesis
    by (rule change_update [OF assms Some, of "t\<lparr>at_last_used_at := Some now\<rparr>"])
      (use Some agents_okD(2) [OF assms Some] in \<open>simp_all add: TouchAgentTokenLastUsed_def status_moves_def\<close>)
qed (simp add: TouchAgentTokenLastUsed_def change_same assms)

lemma revoke_agent_change:
  assumes "agents_ok m"
  shows "agent_change m (snd (RevokeAgentToken m now i))"
proof (cases "map_of (es_agents m) i")
  case (Some t)
  show ?thesis
  proof (cases "at_status t = ''active''")
    case True
    show ?thesis
      by (rule change_update [OF assms Some, of "t\<lparr>at_status := ''revoked'', at_revoked_at := Some now\<rparr>"])
        (use Some True agents_okD(2) [OF assms Some] in \<open>simp_all add: RevokeAgentToken_def status_moves_def\<close>)
  qed (simp add: RevokeAgentToken_def change_same assms Some)
qed (simp add: RevokeAgentToken_def change_same assms)

lemma prepare_change:
  assumes "agents_ok m"
  shows "agent_change m (snd (PrepareAgentApproval ctx m now a h e n))"
proof -
  let ?tok = "new_agent_token (Suc (es_next_id m)) (trim_space a) ''pending'' ''console-approval''
    (boundedPreparedApprovalExpiry e now) now"
  have "snd (PrepareAgentApproval ctx m now a h e n) = m \<or>
      snd (PrepareAgentApproval ctx m now a h e n) = add_agent_token ?tok h (m\<lparr>es_next_id := Suc (es_next_id m)\<rparr>)"
    by (simp add: PrepareAgentApproval_def Let_def split: option.split)
  moreover have "agent_change m (add_agent_token ?tok h (m\<lparr>es_next_id := Suc (es_next_id m)\<rparr>))"
    by (rule change_new [OF assms forward_id, of ?tok]) simp_all
  ultimately show ?thesis using change_same [OF assms] by auto
qed

lemma finalize_change:
  assumes "agents_ok m"
  shows "agent_change m (snd (FinalizeAgentApproval fmt ctx m now req))"
proof (cases "fst (FinalizeAgentApproval fmt ctx m now req)")
  case (Inl e)
  then have "snd (FinalizeAgentApproval fmt ctx m now req) = m"
    by (auto simp: FinalizeAgentApproval_def Let_def split: option.splits if_splits)
  then show ?thesis by (simp add: change_same assms)
next
  case (Inr a)
  let ?f = "revoke_if_active (trim_space (fr_asset_id req)) now"
  from Inr obtain p st where p: "map_of (es_agents m) (trim_space (fr_token_id req)) = Some p" "at_status p = ''pending''"
    and m': "snd (FinalizeAgentApproval fmt ctx m now req) =
      m\<lparr>es_agents := AList.update (at_id p) (p\<lparr>at_status := ''active'', at_expires_at := fr_agent_expires_at req\<rparr>)
          (map_agents ?f (es_agents m)), es_assets := Some st, es_rotated := AList.update (trim_space (fr_asset_id req)) now (es_rotated m)\<rparr>"
    by (auto simp: FinalizeAgentApproval_def Let_def split: option.splits if_splits)
  define m1 where "m1 = m\<lparr>es_agents := map_agents ?f (es_agents m)\<rparr>"
  have c: "agent_change m m1" by (rule change_map [OF assms forward_revoke(1)]) (simp_all add: m1_def)
  then have ok: "agents_ok m1" by (simp add: agent_change_def)
  have "map_of (es_agents m1) (at_id p) = Some p"
    using p agents_okD(2) [OF assms p(1)] by (simp add: m1_def map_of_map_agents revoke_if_active_def)
  then have "agent_change m1 (snd (FinalizeAgentApproval fmt ctx m now req))"
    unfolding m'
    by (rule change_update [OF ok, where t' = "p\<lparr>at_status := ''active'', at_expires_at := fr_agent_expires_at req\<rparr>"])
      (simp_all add: p(2) status_moves_def m1_def)
  with c show ?thesis by (rule change_trans)
qed

lemma cancel_change:
  assumes "agents_ok m"
  shows "agent_change m (snd (CancelAgentApproval ctx m now i))"
proof (cases "ctx = None \<and> (\<exists>t. map_of (es_agents m) (trim_space i) = Some t \<and> at_status t = ''pending'')")
  case True
  then obtain t where t: "map_of (es_agents m) (trim_space i) = Some t" "at_status t = ''pending''" by blast
  show ?thesis
    by (rule change_update [OF assms t(1), of "t\<lparr>at_status := ''revoked'', at_revoked_at := Some now\<rparr>"])
      (use t True agents_okD(2) [OF assms t(1)] in \<open>simp_all add: CancelAgentApproval_def status_moves_def\<close>)
next
  case False
  then have "snd (CancelAgentApproval ctx m now i) = m" by (auto simp: CancelAgentApproval_def split: option.split)
  then show ?thesis by (simp add: change_same assms)
qed

lemma decommission_cases:
  obtains e where "DecommissionAgentAsset ctx m now a = (Some e, m)"
  | st x where "es_assets m = Some st" "map_of (st_assets st) (trim_space a) = Some x"
      "fst (DecommissionAgentAsset ctx m now a) = None"
      "es_agents (snd (DecommissionAgentAsset ctx m now a)) = map_agents (revoke_for_removal (trim_space a) now) (es_agents m)"
      "es_next_id (snd (DecommissionAgentAsset ctx m now a)) = es_next_id m"
  by (cases ctx; cases "es_assets m"; cases "map_of (st_assets (the (es_assets m))) (trim_space a)")
    (auto simp: DecommissionAgentAsset_def Let_def)

lemma decommission_change:
  assumes "agents_ok m"
  shows "agent_change m (snd (DecommissionAgentAsset ctx m now a))"
proof (cases rule: decommission_cases [of ctx m now a])
  case 1
  then show ?thesis by (simp add: change_same assms)
next
  case 2
  show ?thesis by (rule change_map [OF assms forward_revoke(2)]) (simp_all add: 2)
qed

definition agent_heartbeat :: "heartbeat_request \<Rightarrow> string \<Rightarrow> heartbeat_request" where
  "agent_heartbeat req g =
     req\<lparr>hb_asset_id := trim_space (hb_asset_id req), hb_allow_tofu := True, hb_source := ''agent'', hb_group_id := g\<rparr>"

lemma heartbeat_cases:
  obtains e where "CommitAuthenticatedAgentHeartbeat ctx m now i ttl req = (Inl e, m)"
  | st t t' x where "es_assets m = Some st" "map_of (es_agents m) (trim_space i) = Some t"
      "at_status t = ''active''" "at_asset_id t = trim_space (hb_asset_id req)"
      "map_of (st_assets st) (trim_space (hb_asset_id req)) = Some x"
      "at_id t' = at_id t" "at_asset_id t' = at_asset_id t" "at_status t' = at_status t"
      "snd (CommitAuthenticatedAgentHeartbeat ctx m now i ttl req) =
         m\<lparr>es_agents := AList.update (at_id t) t' (es_agents m),
           es_assets := Some (snd (upsertAssetHeartbeatLocked st (agent_heartbeat req (as_group_id x)) now))\<rparr>"
proof (cases "fst (CommitAuthenticatedAgentHeartbeat ctx m now i ttl req)")
  case (Inl e)
  then have "CommitAuthenticatedAgentHeartbeat ctx m now i ttl req = (Inl e, m)"
    by (auto simp: CommitAuthenticatedAgentHeartbeat_def Let_def split: option.splits if_splits prod.splits)
  then show ?thesis using that(1) by blast
next
  case (Inr a)
  then obtain t st x where f: "ctx = None" "es_assets m = Some st" "map_of (es_agents m) (trim_space i) = Some t"
    "map_of (st_assets st) (trim_space (hb_asset_id req)) = Some x"
    "trim_space (hb_asset_id req) \<noteq> []" "at_status t = ''active''" "at_revoked_at t = None" "now < at_expires_at t"
    "at_asset_id t = trim_space (hb_asset_id req)"
    by (auto simp: CommitAuthenticatedAgentHeartbeat_def Let_def split: option.splits if_splits prod.splits)
  define t' where "t' = (if 0 < ttl \<and> at_expires_at t < now + ttl
    then t\<lparr>at_last_used_at := Some now, at_expires_at := now + ttl\<rparr> else t\<lparr>at_last_used_at := Some now\<rparr>)"
  show ?thesis
    by (rule that(2) [OF f(2,3,6,9,4), of t'])
      (use f in \<open>simp_all add: t'_def agent_heartbeat_def CommitAuthenticatedAgentHeartbeat_def Let_def case_prod_beta\<close>)
qed

lemma heartbeat_change:
  assumes "agents_ok m"
  shows "agent_change m (snd (CommitAuthenticatedAgentHeartbeat ctx m now i ttl req))"
proof (cases rule: heartbeat_cases [of ctx m now i ttl req])
  case 1
  then show ?thesis by (simp add: change_same assms)
next
  case (2 st t t' x)
  show ?thesis
    by (rule change_update [OF assms 2(2), of t'])
      (use 2(6-9) agents_okD(2) [OF assms 2(2)] in \<open>simp_all add: status_moves_def\<close>)
qed

lemma owner_heartbeat_agents: "es_agents (snd (CommitExistingOwnerAgentHeartbeat ctx m now req)) = es_agents m"
  by (simp add: CommitExistingOwnerAgentHeartbeat_def Let_def case_prod_beta split: option.split)

lemma enroll_change:
  assumes "agents_ok m"
  shows "agent_change m (snd (CommitAgentEnrollment fmt parses ctx m now req))"
proof -
  have commit: "agent_change m m'" if c: "commit_enrollment fmt m st now rq etok ex rt = (r, m')" for st rq etok ex rt r m'
    by (rule change_new [OF assms forward_revoke(1), of "rs_agent_token r" _ "er_asset_id rq" now])
      (simp_all add: commit_enrollment_fields [OF c])
  show ?thesis
  proof (cases rule: CommitAgentEnrollment_cases [of fmt parses ctx m now req])
    case fail
    then show ?thesis by (simp add: change_same assms)
  next
    case recovery
    then show ?thesis using commit by simp
  next
    case initial
    then show ?thesis using commit by simp
  qed
qed

lemma other_ops_agents:
  "es_agents (snd (CreateEnrollmentToken m now p)) = es_agents m"
  "es_agents (snd (ConsumeEnrollmentToken m now h)) = es_agents m"
  "es_next_id (snd (ConsumeEnrollmentToken m now h)) = es_next_id m"
  "es_agents (snd (IncrementEnrollmentTokenUse m now i)) = es_agents m"
  "es_next_id (snd (IncrementEnrollmentTokenUse m now i)) = es_next_id m"
  "es_agents (snd (RevokeEnrollmentToken m now i)) = es_agents m"
  "es_next_id (snd (RevokeEnrollmentToken m now i)) = es_next_id m"
  "es_next_id m \<le> es_next_id (snd (CreateEnrollmentToken m now p))"
  by (simp_all add: CreateEnrollmentToken_def ConsumeEnrollmentToken_def IncrementEnrollmentTokenUse_def
      RevokeEnrollmentToken_def Let_def split: option.split)

lemma exec_agent_change:
  assumes ok: "agents_ok m" and x: "exec_op fmt parses now oper m = (ev, m')"
  shows "agent_change m m'"
proof -
  note same = change_same [OF ok]
  have "m' = snd (exec_op fmt parses now oper m)" using x by simp
  also have "agent_change m \<dots>"
  proof (cases oper)
    case (OpRevokeByAsset a)
    show ?thesis
      by (rule change_map [OF ok forward_revoke(1)]) (simp_all add: OpRevokeByAsset RevokeAgentTokensByAsset_def)
  next
    case OpDeleteDead
    show ?thesis by (rule change_filter [OF ok]) (simp_all add: OpDeleteDead DeleteDeadTokens_def Let_def)
  qed (simp_all add: case_prod_beta create_agent_change rotate_agent_change touch_agent_change revoke_agent_change
      prepare_change finalize_change cancel_change decommission_change heartbeat_change enroll_change ok
      same owner_heartbeat_agents other_ops_agents on_assets_def agent_ops_frame)
  finally show ?thesis .
qed

lemma agents_ok_initial: "agents_ok (NewMemoryEnrollmentStoreWithGroupStore st gs)"
  by (simp add: agents_ok_def NewMemoryEnrollmentStoreWithGroupStore_def NewMemoryEnrollmentStore_def)

lemma enroll_step_agents: "enroll_step fmt parses s s' \<Longrightarrow> agents_ok (fst s) \<Longrightarrow> agent_change (fst s) (fst s')"
  by (cases rule: enroll_step.cases, assumption) (auto intro: exec_agent_change)

lemma enroll_run_agents_ok:
  assumes "(enroll_step fmt parses)\<^sup>*\<^sup>* s s'" "agents_ok (fst s)"
  shows "agents_ok (fst s')"
  using assms by (rule rtranclp_invariant) (use enroll_step_agents agent_change_def in blast)

section \<open>A credential that is revoked or gone stays so\<close>

definition credential_dead :: "string \<Rightarrow> enrollment_store \<Rightarrow> bool" where
  "credential_dead i m =
     (agents_ok m \<and> issued ''atok-'' (es_next_id m) i \<and> (\<forall>t. map_of (es_agents m) i = Some t \<longrightarrow> at_status t = ''revoked''))"

lemma status_moves_revoked: "status_moves ''revoked'' s \<Longrightarrow> s = ''revoked''"
  by (auto simp: status_moves_def)

lemma credential_dead_change:
  assumes "credential_dead i m" "agent_change m m'"
  shows "credential_dead i m'"
  unfolding credential_dead_def
proof (intro conjI allI impI)
  show "agents_ok m'" using assms(2) by (simp add: agent_change_def)
  have iss: "issued ''atok-'' (es_next_id m) i" using assms(1) by (simp add: credential_dead_def)
  then show "issued ''atok-'' (es_next_id m') i" using assms(2) issued_mono unfolding agent_change_def by blast
  show "at_status t' = ''revoked''" if "map_of (es_agents m') i = Some t'" for t'
  proof -
    from that iss assms(2) obtain t where t: "map_of (es_agents m) i = Some t" "status_moves (at_status t) (at_status t')"
      unfolding agent_change_def by blast
    with assms(1) have "at_status t = ''revoked''" by (simp add: credential_dead_def)
    with t(2) status_moves_revoked show ?thesis by metis
  qed
qed

lemma credential_dead_run:
  assumes "(enroll_step fmt parses)\<^sup>*\<^sup>* s s'" "credential_dead i (fst s)"
  shows "credential_dead i (fst s')"
  using assms
  by (rule rtranclp_invariant) (metis credential_dead_change credential_dead_def enroll_step_agents)

lemma credential_dead_rejected:
  assumes "credential_dead (trim_space i) m"
  shows "ValidateActiveAgentTokenID ctx m now i b \<noteq> None"
    "isl (fst (CommitAuthenticatedAgentHeartbeat ctx m now i ttl hb))"
    "ValidateAgentToken m now h = (t, True) \<Longrightarrow> at_id t \<noteq> trim_space i"
proof -
  have rv: "at_status t = ''revoked''" if "map_of (es_agents m) (trim_space i) = Some t" for t
    using assms that by (simp add: credential_dead_def)
  show "ValidateActiveAgentTokenID ctx m now i b \<noteq> None"
    using rv by (auto simp: ValidateActiveAgentTokenID_def Let_def split: option.split)
  show "isl (fst (CommitAuthenticatedAgentHeartbeat ctx m now i ttl hb))"
  proof (cases rule: heartbeat_cases [of ctx m now i ttl hb])
    case (2 st t t' x)
    with rv [OF 2(2)] show ?thesis by simp
  qed simp
  assume v: "ValidateAgentToken m now h = (t, True)"
  then obtain j where j: "map_of (es_agents m) j = Some t" "at_status t = ''active''"
    by (auto simp: ValidateAgentToken_def zero_agent_token_def Let_def split: option.splits if_splits)
  have "agents_ok m" using assms by (simp add: credential_dead_def)
  from agents_okD(2) [OF this j(1)] j rv show "at_id t \<noteq> trim_space i" by auto
qed

lemma decommission_kills:
  assumes "agents_ok m" "DecommissionAgentAsset ctx m now a = (None, m')" "map_of (es_agents m) i = Some t"
    "at_asset_id t = trim_space a"
  shows "credential_dead i m'"
proof (cases rule: decommission_cases [of ctx m now a])
  case 2
  have ch: "agent_change m m'" using decommission_change [OF assms(1), of ctx now a] assms(2) by simp
  have iss: "issued ''atok-'' (es_next_id m') i"
    using agents_okD(3) [OF assms(1,3)] issued_mono ch unfolding agent_change_def by blast
  have "map_of (es_agents m') i = Some (revoke_for_removal (trim_space a) now t)"
    using 2(4) assms(2,3) by (simp add: map_of_map_agents)
  moreover have "at_status (revoke_for_removal (trim_space a) now t) = ''revoked''"
    using agents_okD(4) [OF assms(1,3)] assms(4) by (auto simp: revoke_for_removal_def status_known_def)
  ultimately show ?thesis using ch iss by (simp add: credential_dead_def agent_change_def)
qed (use assms(2) in simp)

section \<open>Property\<close>

definition sample_enroll :: "string \<Rightarrow> string \<Rightarrow> enroll_request" where
  "sample_enroll token agent =
     \<lparr>er_asset_id = ''n1'', er_hostname = ''n1'', er_platform = ''linux'', er_group_id = [], er_token_hash = token,
      er_agent_hash = agent, er_agent_expires_at = 900, er_fingerprint = ''fp'', er_key_algorithm = ''ed25519'',
      er_proof_version = ''v2'', er_max_agents = 0\<rparr>"

definition sample_fleet :: "enrollment_store \<times> token_event list" where
  "sample_fleet = run_ops (\<lambda>_. ''t'') (\<lambda>_. True)
     [(0, OpCreateToken (sample_token ''h'' 1)), (1, OpEnroll None (sample_enroll ''h'' ''ah''))] (empty_enrollment, [])"

definition sample_after :: "enrollment_store \<times> token_event list" where
  "sample_after = run_ops (\<lambda>_. ''t'') (\<lambda>_. True)
     [(4, OpTouch ''atok-2''), (5, OpCreateToken (sample_token ''h2'' 1)), (6, OpEnroll None (sample_enroll ''h2'' ''ah2''))]
     (snd (DecommissionAgentAsset None (fst sample_fleet) 3 ''n1''), [])"

text \<open>C21: Decommissioning an asset kills its credentials for good. Whatever happens afterwards, including
  a readmission of the same asset, no credential the asset had is accepted again: not by the check of a
  credential id, not by an authenticated heartbeat, and no secret resolves to it.\<close>

theorem decommissioned_credentials_stay_dead:
  assumes "(enroll_step fmt parses)\<^sup>*\<^sup>* (NewMemoryEnrollmentStoreWithGroupStore st gs, []) (m, log)"
    and "DecommissionAgentAsset ctx m now a = (None, m1)"
    and "map_of (es_agents m) (trim_space i) = Some t" and "at_asset_id t = trim_space a"
    and "(enroll_step fmt parses)\<^sup>*\<^sup>* (m1, log1) (m2, log2)"
  shows "ValidateActiveAgentTokenID ctx2 m2 now2 i b \<noteq> None \<and>
    isl (fst (CommitAuthenticatedAgentHeartbeat ctx2 m2 now2 i ttl hb)) \<and>
    (\<forall>h u. ValidateAgentToken m2 now2 h = (u, True) \<longrightarrow> at_id u \<noteq> trim_space i)"
proof -
  have "agents_ok m" using enroll_run_agents_ok [OF assms(1)] agents_ok_initial by simp
  from decommission_kills [OF this assms(2-4)] have "credential_dead (trim_space i) m2"
    using credential_dead_run [OF assms(5)] by simp
  with credential_dead_rejected show ?thesis by blast
qed

theorem decommissioned_credentials_stay_dead_witness:
  "ValidateActiveAgentTokenID None (fst sample_fleet) 3 ''atok-2'' ''n1'' = None \<and>
   ValidateActiveAgentTokenID None (fst sample_after) 7 ''atok-2'' ''n1'' \<noteq> None \<and>
   ValidateActiveAgentTokenID None (fst sample_after) 7 ''atok-4'' ''n1'' = None"
proof -
  let ?m = "fst sample_fleet" and ?f = "\<lambda>_. ''t''" and ?p = "\<lambda>_. True"
  have run: "(enroll_step ?f ?p)\<^sup>*\<^sup>* (empty_enrollment, []) (?m, snd sample_fleet)"
    unfolding sample_fleet_def prod.collapse by (rule run_ops_is_run)
  have dec: "DecommissionAgentAsset None ?m 3 ''n1'' = (None, snd (DecommissionAgentAsset None ?m 3 ''n1''))"
    by (subst prod.collapse [symmetric]) (simp only: prod.inject simp_thms, code_simp)
  have tok: "map_of (es_agents ?m) (trim_space ''atok-2'') =
      Some (new_agent_token 2 ''n1'' ''active'' ''etok-1'' 900 1)" by code_simp
  have later: "(enroll_step ?f ?p)\<^sup>*\<^sup>* (snd (DecommissionAgentAsset None ?m 3 ''n1''), []) (fst sample_after, snd sample_after)"
    unfolding sample_after_def prod.collapse by (rule run_ops_is_run)
  have "at_asset_id (new_agent_token 2 ''n1'' ''active'' ''etok-1'' 900 1) = trim_space ''n1''" by code_simp
  from decommissioned_credentials_stay_dead [OF run [unfolded empty_enrollment_def] dec tok this later, of None 7 "''n1''"]
  have "ValidateActiveAgentTokenID None (fst sample_after) 7 ''atok-2'' ''n1'' \<noteq> None" by blast
  moreover have "ValidateActiveAgentTokenID None ?m 3 ''atok-2'' ''n1'' = None"
    "ValidateActiveAgentTokenID None (fst sample_after) 7 ''atok-4'' ''n1'' = None" by code_simp+
  ultimately show ?thesis by blast
qed

end
