(* ===== verification/Enrollment_Identity.thy ===== *)
theory Enrollment_Identity
  imports Enrollment_Credentials
begin

text \<open>
  The identities of agents over runs of the enrollment store: what happens to the assets and to the list
  of retired identities. A removed identity stays out until a single-use token issued after the removal
  readmits it, such a token does readmit it, an enrollment is all or nothing, and the verified device
  anchor of an asset never moves.
\<close>

section \<open>How an operation touches the assets\<close>

text \<open>Every operation leaves the asset store alone, writes one asset that is not retired and keeps its
  verified anchor, removes an asset, retires it, or readmits a retired identity.\<close>

definition keeps_anchor :: "asset option \<Rightarrow> asset \<Rightarrow> bool" where
  "keeps_anchor old a = (\<forall>b v. old = Some b \<longrightarrow> verified_anchor b = Some v \<longrightarrow> verified_anchor a = Some v)"

inductive asset_change :: "string option \<Rightarrow> asset_store \<Rightarrow> asset_store \<Rightarrow> bool" where
  same: "asset_change None st st"
| put: "map_of (st_retired st) k = None \<Longrightarrow> keeps_anchor (map_of (st_assets st) k) a \<Longrightarrow>
     asset_change None st (st\<lparr>st_assets := AList.update k a (st_assets st)\<rparr>)"
| del: "asset_change None st (st\<lparr>st_assets := AList.delete k (st_assets st)\<rparr>)"
| retire: "map_of (st_retired st) k = None \<Longrightarrow> trim_space k = k \<Longrightarrow>
     asset_change None st (st\<lparr>st_assets := AList.delete k (st_assets st), st_retired := AList.update k at (st_retired st)\<rparr>)"
| readmit: "map_of (st_assets st) k = None \<Longrightarrow>
     asset_change (Some k) st (st\<lparr>st_assets := AList.update k a (st_assets st), st_retired := AList.delete k (st_retired st)\<rparr>)"

definition identity_ok :: "asset_store \<Rightarrow> bool" where
  "identity_ok st = (\<forall>k at. map_of (st_retired st) k = Some at \<longrightarrow> trim_space k = k \<and> map_of (st_assets st) k = None)"

lemma identity_okD:
  "identity_ok st \<Longrightarrow> map_of (st_retired st) k = Some at \<Longrightarrow> trim_space k = k"
  "identity_ok st \<Longrightarrow> map_of (st_retired st) k = Some at \<Longrightarrow> map_of (st_assets st) k = None"
  "identity_ok st \<Longrightarrow> map_of (st_assets st) k = Some a \<Longrightarrow> map_of (st_retired st) k = None"
  unfolding identity_ok_def by (auto intro: ccontr)

lemma asset_change_identity_ok: "asset_change rd st st' \<Longrightarrow> identity_ok st \<Longrightarrow> identity_ok st'"
  by (induction rule: asset_change.induct) (auto simp: identity_ok_def delete_conv' update_conv' split: if_splits)

lemma asset_change_keeps_retired:
  "asset_change rd st st' \<Longrightarrow> identity_ok st \<Longrightarrow> map_of (st_retired st) k = Some at \<Longrightarrow> rd \<noteq> Some k \<Longrightarrow>
   map_of (st_retired st') k = Some at"
  by (induction rule: asset_change.induct) (auto simp: identity_ok_def delete_conv' update_conv' split: if_splits)

lemma asset_change_keeps_anchor:
  "asset_change rd st st' \<Longrightarrow> map_of (st_assets st) k = Some a \<Longrightarrow> map_of (st_assets st') k = Some a' \<Longrightarrow>
   verified_anchor a = Some v \<Longrightarrow> verified_anchor a' = Some v"
  by (induction rule: asset_change.induct) (auto simp: keeps_anchor_def delete_conv' update_conv' simp del: split_paired_All split: if_splits)

subsection \<open>The operations of the asset store\<close>

lemma verified_anchor_cong:
  "as_metadata a = as_metadata b \<Longrightarrow> verified_anchor a = verified_anchor b"
  by (simp add: verified_anchor_def)

lemma verified_anchor_name:
  "as_metadata a' = AList.update MetadataKeyNameOverride v (as_metadata a) \<Longrightarrow> verified_anchor a' = verified_anchor a"
  by (simp add: verified_anchor_def metadata_keys)

lemma verified_anchor_merge:
  assumes "verified_anchor b = Some v"
    "as_metadata a = mergeHeartbeatIdentityAnchor (as_metadata b) reported False tofu"
  shows "verified_anchor a = Some v"
proof -
  let ?m = "as_metadata b"
  have ne: "trim_space (mget ?m MetadataKeyAgentDeviceFingerprint) \<noteq> []"
    "trim_space (mget ?m MetadataKeyAgentDeviceKeyAlgorithm) \<noteq> []"
    "trim_space (mget ?m MetadataKeyAgentIdentityVerifiedAt) \<noteq> []"
    using assms(1) by (auto simp: verified_anchor_def Let_def split: if_splits)
  note keep = merge_keeps_verified [OF refl ne(1) refl ne(2) refl ne(3), of reported tofu]
  show ?thesis using assms(1) by (simp add: verified_anchor_def assms(2) keep)
qed

lemma locked_upsert_change:
  assumes "map_of (st_retired st) (hb_asset_id req) = None" "\<not> hb_allow_rotation req"
  shows "asset_change None st (snd (upsertAssetHeartbeatLocked st req now))"
proof -
  obtain a where st': "snd (upsertAssetHeartbeatLocked st req now) = st\<lparr>st_assets := AList.update (hb_asset_id req) a (st_assets st)\<rparr>"
    and a: "a = fst (upsertAssetHeartbeatLocked st req now)"
    by (simp add: upsertAssetHeartbeatLocked_def Let_def)
  have "verified_anchor a = Some v" if b: "map_of (st_assets st) (hb_asset_id req) = Some b" "verified_anchor b = Some v" for b v
  proof -
    define mg where "mg = mergeHeartbeatIdentityAnchor (as_metadata b) (hb_metadata req) False (hb_allow_tofu req)"
    have "verified_anchor (b\<lparr>as_metadata := mg\<rparr>) = Some v"
      by (rule verified_anchor_merge [OF b(2)]) (simp add: mg_def)
    moreover have "as_metadata a = mg \<or> (\<exists>n. as_metadata a = AList.update MetadataKeyNameOverride n mg)"
      using b(1) assms(2) by (auto simp: a mg_def upsertAssetHeartbeatLocked_def Let_def applyAssetCanonical_def)
    ultimately show ?thesis
      using verified_anchor_cong [of a "b\<lparr>as_metadata := mg\<rparr>"] verified_anchor_name [of a _ "b\<lparr>as_metadata := mg\<rparr>"] by auto
  qed
  then show ?thesis unfolding st' by (intro asset_change.put assms(1)) (auto simp: keeps_anchor_def)
qed

lemma upsert_change:
  assumes "identity_ok st" "\<not> hb_allow_rotation req"
  shows "asset_change None st (snd (UpsertAssetHeartbeat st req now))"
proof (cases "map_of (st_retired st) (trim_space (hb_asset_id req))")
  case None
  then have "map_of (st_retired st) (hb_asset_id req) = None"
    using identity_okD(1) [OF assms(1), of "hb_asset_id req"] by (metis option.exhaust)
  from locked_upsert_change [OF this assms(2)] None show ?thesis by (simp add: UpsertAssetHeartbeat_def case_prod_beta)
qed (simp add: UpsertAssetHeartbeat_def asset_change.same)

lemma update_asset_change:
  assumes "identity_ok st"
  shows "asset_change None st (snd (UpdateAsset st now k u))"
proof (cases "map_of (st_assets st) k")
  case (Some b)
  define a where "a = projr (fst (UpdateAsset st now k u))"
  have st': "snd (UpdateAsset st now k u) = st\<lparr>st_assets := AList.update k a (st_assets st)\<rparr>"
    using Some by (simp add: a_def UpdateAsset_def Let_def)
  have a: "as_metadata a = as_metadata b \<or> (\<exists>n. as_metadata a = AList.update MetadataKeyNameOverride n (as_metadata b))"
    using Some by (cases "au_name u"; cases "au_group_id u"; cases "au_tags u")
      (auto simp: a_def UpdateAsset_def Let_def applyAssetCanonical_def)
  have "verified_anchor a = verified_anchor b" using a verified_anchor_cong verified_anchor_name by blast
  then show ?thesis unfolding st' using Some identity_okD(3) [OF assms Some]
    by (intro asset_change.put) (auto simp: keeps_anchor_def)
qed (simp add: UpdateAsset_def asset_change.same)

lemma delete_asset_change: "asset_change None st (snd (DeleteAsset st k))"
  by (simp add: DeleteAsset_def asset_change.same asset_change.del)

subsection \<open>The transactions\<close>

lemma enroll_asset_change:
  assumes "es_assets m = Some st" "CommitAgentEnrollment fmt parses ctx m now req = (Inr r, m')"
  shows "\<exists>st'. es_assets m' = Some st' \<and>
    asset_change (if rs_readmitted r then Some (trim_space (er_asset_id req)) else None) st st'"
proof (cases rule: CommitAgentEnrollment_cases [of fmt parses ctx m now req])
  case (recovery st0 etok a r0 m0)
  note c = recovery(10)
  have "m0 = m'" "r0 = r" "st0 = st" using recovery(3,11) assms by auto
  moreover have "\<not> rs_readmitted r0" using c by (auto simp: commit_enrollment_def Let_def)
  ultimately show ?thesis using commit_enrollment_fields(8) [OF c] by (simp add: asset_change.same)
next
  case (initial st0 etok g r0 m0)
  note c = initial(10)
  have eq: "m0 = m'" "r0 = r" "st0 = st" using initial(3,11) assms by auto
  have rd: "rs_readmitted r \<longleftrightarrow> map_of (st_retired st) (trim_space (er_asset_id req)) \<noteq> None"
    using c eq by (auto simp: commit_enrollment_def Let_def)
  note st' = commit_enrollment_fields(8) [OF c, unfolded eq]
  show ?thesis
  proof (cases "rs_readmitted r")
    case True
    with st' rd asset_change.readmit [of st "trim_space (er_asset_id req)" "rs_asset r"] initial(6) eq show ?thesis by simp
  next
    case False
    with st' rd asset_change.put [of st "trim_space (er_asset_id req)" "rs_asset r"] initial(6) eq show ?thesis
      by (simp add: keeps_anchor_def)
  qed
qed (use assms in simp)

lemma finalize_asset_change:
  assumes "es_assets m = Some st"
  shows "\<exists>st'. es_assets (snd (FinalizeAgentApproval fmt ctx m now req)) = Some st' \<and> asset_change None st st'"
proof (cases "fst (FinalizeAgentApproval fmt ctx m now req)")
  case (Inl e)
  then have "snd (FinalizeAgentApproval fmt ctx m now req) = m"
    by (auto simp: FinalizeAgentApproval_def Let_def split: option.splits if_splits)
  with assms show ?thesis by (auto intro: asset_change.same)
next
  case (Inr a)
  let ?k = "trim_space (fr_asset_id req)"
  have "es_assets (snd (FinalizeAgentApproval fmt ctx m now req)) = Some (st\<lparr>st_assets := AList.update ?k a (st_assets st)\<rparr>) \<and>
      map_of (st_retired st) ?k = None \<and> map_of (st_assets st) ?k = None"
    using Inr assms by (auto simp: FinalizeAgentApproval_def Let_def split: option.splits if_splits)
  with asset_change.put [of st ?k a] show ?thesis by (simp add: keeps_anchor_def)
qed

lemma decommission_asset_change:
  assumes "es_assets m = Some st"
  shows "\<exists>st'. es_assets (snd (DecommissionAgentAsset ctx m now a)) = Some st' \<and> asset_change None st st'"
proof (cases "ctx = None \<and> map_of (st_assets st) (trim_space a) \<noteq> None")
  case False
  then have "snd (DecommissionAgentAsset ctx m now a) = m"
    using assms by (auto simp: DecommissionAgentAsset_def Let_def split: option.split)
  with assms show ?thesis by (auto intro: asset_change.same)
next
  case True
  then show ?thesis
    using assms asset_change.del [of st "trim_space a"] asset_change.retire [of st "trim_space a" now]
    by (auto simp: DecommissionAgentAsset_def Let_def)
qed

lemma heartbeat_asset_change:
  assumes "es_assets m = Some st" "identity_ok st" "\<not> hb_allow_rotation req"
  shows "\<exists>st'. es_assets (snd (CommitAuthenticatedAgentHeartbeat ctx m now i ttl req)) = Some st' \<and> asset_change None st st'"
proof (cases rule: heartbeat_cases [of ctx m now i ttl req])
  case 1
  with assms(1) show ?thesis by (auto intro: asset_change.same)
next
  case (2 st0 t t' x)
  have eq: "st0 = st" using 2(1) assms(1) by simp
  have "map_of (st_retired st) (hb_asset_id (agent_heartbeat req g)) = None" for g
    using identity_okD(3) [OF assms(2)] 2(5) eq by (simp add: agent_heartbeat_def)
  from locked_upsert_change [OF this, of "as_group_id x" now] 2(9) assms(3) show ?thesis
    by (simp add: eq agent_heartbeat_def)
qed

lemma owner_heartbeat_asset_change:
  assumes "es_assets m = Some st" "identity_ok st" "\<not> hb_allow_rotation req"
  shows "\<exists>st'. es_assets (snd (CommitExistingOwnerAgentHeartbeat ctx m now req)) = Some st' \<and> asset_change None st st'"
proof (cases "ctx = None \<and> trim_space (hb_asset_id req) \<noteq> [] \<and> map_of (st_retired st) (trim_space (hb_asset_id req)) = None \<and>
    map_of (st_assets st) (trim_space (hb_asset_id req)) \<noteq> None")
  case True
  then obtain x where x: "map_of (st_assets st) (trim_space (hb_asset_id req)) = Some x" by blast
  let ?rq = "req\<lparr>hb_asset_id := trim_space (hb_asset_id req), hb_source := ''agent'', hb_group_id := as_group_id x\<rparr>"
  have "asset_change None st (snd (upsertAssetHeartbeatLocked st ?rq now))"
    by (rule locked_upsert_change) (use True assms(3) in simp_all)
  with True x assms(1) show ?thesis by (simp add: CommitExistingOwnerAgentHeartbeat_def Let_def case_prod_beta)
next
  case False
  then have "snd (CommitExistingOwnerAgentHeartbeat ctx m now req) = m"
    using assms(1) by (auto simp: CommitExistingOwnerAgentHeartbeat_def Let_def case_prod_beta split: option.split)
  with assms(1) show ?thesis by (auto intro: asset_change.same)
qed

lemma other_ops_assets:
  "es_assets (snd (CreateEnrollmentToken m now p)) = es_assets m"
  "es_assets (snd (ConsumeEnrollmentToken m now h)) = es_assets m"
  "es_assets (snd (IncrementEnrollmentTokenUse m now i)) = es_assets m"
  "es_assets (snd (RevokeEnrollmentToken m now i)) = es_assets m"
  "es_assets (snd (CreateAgentToken m now a h v e)) = es_assets m"
  "es_assets (snd (RotateAgentToken m now a h v e)) = es_assets m"
  "es_assets (snd (TouchAgentTokenLastUsed m now i)) = es_assets m"
  "es_assets (snd (RevokeAgentToken m now i)) = es_assets m"
  "es_assets (RevokeAgentTokensByAsset m now a) = es_assets m"
  "es_assets (snd (DeleteDeadTokens m now)) = es_assets m"
  "es_assets (snd (PrepareAgentApproval ctx m now a h e n)) = es_assets m"
  "es_assets (snd (CancelAgentApproval ctx m now i)) = es_assets m"
  by (simp_all add: CreateEnrollmentToken_def ConsumeEnrollmentToken_def IncrementEnrollmentTokenUse_def
      RevokeEnrollmentToken_def CreateAgentToken_def RotateAgentToken_def TouchAgentTokenLastUsed_def
      RevokeAgentToken_def RevokeAgentTokensByAsset_def DeleteDeadTokens_def PrepareAgentApproval_def
      CancelAgentApproval_def Let_def split: option.split)

definition readmitted_by ::
    "(gtime \<Rightarrow> string) \<Rightarrow> (string \<Rightarrow> bool) \<Rightarrow> gtime \<Rightarrow> enroll_op \<Rightarrow> enrollment_store \<Rightarrow> string option" where
  "readmitted_by fmt parses now oper m =
     (case oper of
        OpEnroll ctx req \<Rightarrow>
          (case fst (CommitAgentEnrollment fmt parses ctx m now req) of
             Inl _ \<Rightarrow> None
           | Inr r \<Rightarrow> if rs_readmitted r then Some (trim_space (er_asset_id req)) else None)
      | _ \<Rightarrow> None)"

lemma exec_asset_change:
  assumes st: "es_assets m = Some st" and ok: "identity_ok st" and x: "exec_op fmt parses now oper m = (ev, m')"
  shows "\<exists>st'. es_assets m' = Some st' \<and> asset_change (readmitted_by fmt parses now oper m) st st'"
proof -
  have m': "m' = snd (exec_op fmt parses now oper m)" using x by simp
  show ?thesis
    unfolding m'
  proof (cases oper)
    case (OpEnroll ctx req)
    show "\<exists>st'. es_assets (snd (exec_op fmt parses now oper m)) = Some st' \<and>
      asset_change (readmitted_by fmt parses now oper m) st st'"
    proof (cases "CommitAgentEnrollment fmt parses ctx m now req")
      case (Pair r m1)
      then show ?thesis
        using enroll_asset_change [OF st] OpEnroll st
        by (cases r) (auto simp: readmitted_by_def intro: asset_change.same dest!: enroll_fail_unchanged)
    qed
  qed (simp_all add: readmitted_by_def case_prod_beta st ok other_ops_assets finalize_asset_change decommission_asset_change
      heartbeat_asset_change owner_heartbeat_asset_change upsert_change update_asset_change delete_asset_change
      on_assets_def asset_change.same)
qed

section \<open>Runs\<close>

definition identities_ok :: "enrollment_store \<Rightarrow> bool" where
  "identities_ok m = (\<forall>st. es_assets m = Some st \<longrightarrow> identity_ok st)"

lemma exec_keeps_no_assets: "es_assets m = None \<Longrightarrow> es_assets (snd (exec_op fmt parses now oper m)) = None"
  by (cases oper) (simp_all add: case_prod_beta other_ops_assets on_assets_def CommitAgentEnrollment_def
      FinalizeAgentApproval_def DecommissionAgentAsset_def CommitAuthenticatedAgentHeartbeat_def
      CommitExistingOwnerAgentHeartbeat_def Let_def split: option.split)

lemma enroll_step_identities:
  assumes "enroll_step fmt parses s s'" "identities_ok (fst s)"
  shows "identities_ok (fst s')"
  using assms(1)
proof (cases rule: enroll_step.cases)
  case (step now oper m ev m' log)
  show ?thesis
  proof (cases "es_assets m")
    case None
    then have "es_assets m' = None" using exec_keeps_no_assets [OF None, of fmt parses now oper] step(3) by simp
    with step show ?thesis by (simp add: identities_ok_def)
  next
    case (Some st)
    with assms(2) step have "identity_ok st" by (simp add: identities_ok_def)
    with exec_asset_change [OF Some this step(3)] asset_change_identity_ok step show ?thesis
      by (auto simp: identities_ok_def)
  qed
qed

lemma identities_ok_initial: "identities_ok (NewMemoryEnrollmentStoreWithGroupStore (Some NewMemoryAssetStore) gs)"
  by (simp add: identities_ok_def identity_ok_def NewMemoryAssetStore_def NewMemoryEnrollmentStoreWithGroupStore_def
      NewMemoryEnrollmentStore_def)

lemma enroll_run_identities:
  assumes "(enroll_step fmt parses)\<^sup>*\<^sup>* (NewMemoryEnrollmentStoreWithGroupStore (Some NewMemoryAssetStore) gs, []) (m, log)"
    "es_assets m = Some st"
  shows "identity_ok st"
proof -
  have "identities_ok (fst (m, log))"
    using assms(1) by (rule rtranclp_invariant) (simp_all add: identities_ok_initial enroll_step_identities)
  with assms(2) show ?thesis by (simp add: identities_ok_def)
qed

section \<open>The result of an enrollment\<close>

lemma readmission_token:
  assumes "es_assets m = Some st" "CommitAgentEnrollment fmt parses ctx m now req = (Inr r, m')" "rs_readmitted r"
    "map_of (st_retired st) (trim_space (er_asset_id req)) = Some at"
  shows "et_max_uses (rs_enrollment_token r) = 1 \<and> at < et_created_at (rs_enrollment_token r)"
proof (cases rule: CommitAgentEnrollment_cases [of fmt parses ctx m now req])
  case (initial st0 etok g r0 m0)
  then have "readmitsRetiredIdentity etok at" using assms by simp
  moreover have "rs_enrollment_token r = etok\<lparr>et_use_count := et_use_count etok + 1\<rparr>"
    using initial(10,11) assms(2) by (auto simp: commit_enrollment_def Let_def)
  ultimately show ?thesis by (simp add: readmitsRetiredIdentity_def)
qed (use assms in \<open>auto simp: commit_enrollment_def Let_def\<close>)

lemma commit_one_active:
  assumes "agents_ok m" "commit_enrollment fmt m st now rq etok ex rt = (r, m')"
  shows "map_of (es_agents m') i = Some t \<and> at_asset_id t = er_asset_id rq \<and> at_status t = ''active'' \<longleftrightarrow>
    i = at_id (rs_agent_token r) \<and> t = rs_agent_token r"
proof -
  note f = commit_enrollment_fields [OF assms(2)]
  show ?thesis
  proof (cases "i = at_id (rs_agent_token r)")
    case True
    then show ?thesis by (auto simp: f)
  next
    case False
    then have "map_of (es_agents m') i = map_option (revoke_if_active (er_asset_id rq) now) (map_of (es_agents m) i)"
      by (simp add: f(4,5) map_of_map_agents)
    with False show ?thesis by (auto simp: revoke_if_active_def split: if_splits)
  qed
qed

lemma enroll_one_active:
  assumes "agents_ok m" "CommitAgentEnrollment fmt parses ctx m now req = (Inr r, m')"
  shows "map_of (es_agents m') i = Some t \<and> at_asset_id t = trim_space (er_asset_id req) \<and> at_status t = ''active'' \<longleftrightarrow>
    i = at_id (rs_agent_token r) \<and> t = rs_agent_token r"
proof (cases rule: CommitAgentEnrollment_cases [of fmt parses ctx m now req])
  case (recovery st etok a r0 m0)
  then show ?thesis using commit_one_active [OF assms(1) recovery(10), of i t] assms(2) by simp
next
  case (initial st etok g r0 m0)
  then show ?thesis using commit_one_active [OF assms(1) initial(10), of i t] assms(2) by simp
qed (use assms(2) in simp)

lemma recovery_requires:
  assumes "es_assets m = Some st" "map_of (st_assets st) (trim_space (er_asset_id req)) = Some a"
    "CommitAgentEnrollment fmt parses ctx m now req = (Inr r, m')"
  shows "rs_asset r = a \<and> es_assets m' = Some st \<and> et_max_uses (rs_enrollment_token r) = 1 \<and>
    trim_space (er_proof_version req) = ''v2'' \<and>
    mget (as_metadata a) MetadataKeyAgentDeviceFingerprint \<noteq> [] \<and>
    trim_space (mget (as_metadata a) MetadataKeyAgentDeviceFingerprint) = trim_space (er_fingerprint req) \<and>
    trim_space (mget (as_metadata a) MetadataKeyAgentDeviceKeyAlgorithm) = trim_space (er_key_algorithm req) \<and>
    parses (trim_space (mget (as_metadata a) MetadataKeyAgentIdentityVerifiedAt))"
proof (cases rule: CommitAgentEnrollment_cases [of fmt parses ctx m now req])
  case (recovery st0 etok b r0 m0)
  have eq: "r0 = r" "m0 = m'" "st0 = st" "b = a" using recovery assms by auto
  note f = commit_enrollment_fields [OF recovery(10), unfolded eq]
  have tok: "rs_enrollment_token r = etok\<lparr>et_use_count := et_use_count etok + 1\<rparr>"
    using recovery(10) eq by (auto simp: commit_enrollment_def Let_def)
  from recovery(9) eq have "et_max_uses etok = 1" "trim_space (er_proof_version req) = DeviceProofVersionV2"
    "validateVerifiedAgentRecoveryAnchor parses (as_metadata a) (er_fingerprint req) (er_key_algorithm req)"
    by (auto simp: recovery_check_def split: option.splits if_splits)
  with f(7,8) tok show ?thesis
    by (auto simp: validateVerifiedAgentRecoveryAnchor_def DeviceProofVersionV2_def Let_def split: if_splits)
qed (use assms in auto)

section \<open>Readmission\<close>

lemma trim_agent_id [simp]: "trim_space (''atok-'' @ itoa n) = ''atok-'' @ itoa n"
  by (rule trim_space_fixed) (use last_itoa [of n] digit_not_space [of "n mod 10"] in \<open>simp_all add: is_space_def\<close>)

definition readmission_params :: "string \<Rightarrow> gtime \<Rightarrow> string \<Rightarrow> token_params" where
  "readmission_params h expires who =
     \<lparr>tp_hash = h, tp_label = [], tp_expires_at = expires, tp_max_uses = 1, tp_scope = TokenScopeUnrestricted,
      tp_asset_id = [], tp_allowed_group_id = [], tp_created_by = who\<rparr>"

definition readmission_tok :: "enrollment_store \<Rightarrow> gtime \<Rightarrow> gtime \<Rightarrow> string \<Rightarrow> enrollment_token" where
  "readmission_tok m now expires who =
     \<lparr>et_id = ''etok-'' @ itoa (Suc (es_next_id m)), et_label = [], et_expires_at = expires, et_max_uses = 1,
      et_use_count = 0, et_created_at = now, et_revoked_at = None, et_scope = TokenScopeUnrestricted,
      et_asset_id = [], et_allowed_group_id = [], et_created_by = trim_space who\<rparr>"

lemma readmission_token_created:
  assumes "trim_space h \<noteq> []" "trim_space who \<noteq> []"
  shows "CreateEnrollmentToken m now (readmission_params h e who) =
    (Inr (readmission_tok m now e who),
     m\<lparr>es_next_id := Suc (es_next_id m),
       es_tokens := AList.update (et_id (readmission_tok m now e who)) (readmission_tok m now e who) (es_tokens m),
       es_by_hash := AList.update (trim_space h) (et_id (readmission_tok m now e who)) (es_by_hash m)\<rparr>)"
proof -
  have "trim_space TokenScopeUnrestricted = TokenScopeUnrestricted" by code_simp
  moreover have "TokenScopeUnrestricted \<noteq> TokenScopeAsset" "TokenScopeUnrestricted \<noteq> TokenScopeGroup"
    "TokenScopeUnrestricted \<noteq> TokenScopeUnplaced" by code_simp+
  ultimately show ?thesis
    using assms by (simp add: CreateEnrollmentToken_def readmission_params_def readmission_tok_def
        validateEnrollmentTokenCreateParams_def ValidateStoredTokenMaxUses_def HardTokenMaxUsesCeiling_def Let_def)
qed

lemma new_identity_usable:
  assumes "CommitAgentEnrollment fmt parses ctx m now req = (Inr r, m')" "es_assets m = Some st"
    "map_of (st_retired st) (trim_space (er_asset_id req)) = Some at"
  shows "rs_readmitted r \<and> IsAgentIdentityRetired None m' (er_asset_id req) = Inr False \<and>
    (now2 < er_agent_expires_at req \<longrightarrow>
       ValidateActiveAgentTokenID None m' now2 (at_id (rs_agent_token r)) (er_asset_id req) = None)"
proof (cases rule: CommitAgentEnrollment_cases [of fmt parses ctx m now req])
  case (initial st0 etok g r0 m0)
  have eq: "r0 = r" "m0 = m'" "st0 = st" using initial assms by auto
  note c = initial(10) [unfolded eq]
  note f = commit_enrollment_fields [OF c]
  have "rs_readmitted r" using c assms(3) by (auto simp: commit_enrollment_def Let_def)
  moreover have "map_of (es_agents m') (at_id (rs_agent_token r)) = Some (rs_agent_token r)" by (simp add: f)
  ultimately show ?thesis
    using f(5,8) assms(3) trim_agent_id [of "Suc (es_next_id m)"]
    by (simp add: IsAgentIdentityRetired_def ValidateActiveAgentTokenID_def Let_def delete_conv')
qed (use assms in auto)

lemma fresh_token_accepted:
  assumes st: "es_assets m = Some st" "identity_ok st" "map_of (st_retired st) k = Some at" "k \<noteq> []"
    and h: "trim_space h \<noteq> []" "trim_space who \<noteq> []" and tm: "at < t1" "t2 < e" "t2 < er_agent_expires_at req"
    and rq: "trim_space (er_asset_id req) = k" "er_token_hash req = trim_space h" "trim_space (er_group_id req) = []"
      "validateInitialIdentityFields (req\<lparr>er_asset_id := k\<rparr>) = None"
    and ag: "map_of (es_agent_by_hash m) (er_agent_hash req) = None"
    and cap: "enrolledFleetCardinalityLocked m t2 < normalizedMaxEnrolledAgents (er_max_agents req)"
    and m1: "m1 = snd (CreateEnrollmentToken m t1 (readmission_params h e who))"
  shows "\<exists>r m2. CommitAgentEnrollment fmt parses None m1 t2 req = (Inr r, m2)"
proof -
  define tok where "tok = readmission_tok m t1 e who"
  have m1: "m1 = m\<lparr>es_next_id := Suc (es_next_id m), es_tokens := AList.update (et_id tok) tok (es_tokens m),
      es_by_hash := AList.update (trim_space h) (et_id tok) (es_by_hash m)\<rparr>"
    unfolding m1 readmission_token_created [OF h] tok_def by simp
  have v: "validateEnrollmentTokenLocked m1 (trim_space h) t2 = (tok, True)"
    using tm(2) by (simp add: m1 validateEnrollmentTokenLocked_def read_token_def tok_def readmission_tok_def
        HardTokenMaxUsesCeiling_def Let_def)
  have rd: "readmitsRetiredIdentity tok at" using tm(1) by (simp add: readmitsRetiredIdentity_def tok_def readmission_tok_def)
  have "TokenScopeUnrestricted \<noteq> TokenScopeAsset" "TokenScopeUnrestricted \<noteq> TokenScopeGroup"
    "TokenScopeUnrestricted \<noteq> TokenScopeUnplaced" by code_simp+
  then have "initialEnrollmentGroupForToken tok k (er_group_id req) = Inr []"
    using rq(3) by (simp add: initialEnrollmentGroupForToken_def tok_def readmission_tok_def Let_def)
  moreover have "enrolledFleetCardinalityLocked m1 t2 = enrolledFleetCardinalityLocked m t2"
    by (simp add: enrolledFleetCardinalityLocked_def m1)
  ultimately have ic: "initial_check m1 t2 (req\<lparr>er_asset_id := k\<rparr>) tok = Inr []"
    using rq(4) cap by (simp add: initial_check_def requireEnrollmentGroupLocked_def split: option.split)
  have "es_assets m1 = Some st" "map_of (es_agent_by_hash m1) (er_agent_hash req) = None" by (simp_all add: m1 st(1) ag)
  then show ?thesis
    using st(3,4) identity_okD(2) [OF st(2,3)] tm(3) rq(1,2) v rd ic
    by (simp add: CommitAgentEnrollment_def Let_def case_prod_beta)
qed

section \<open>Properties\<close>

definition sample_removed :: "enrollment_store \<times> token_event list" where
  "sample_removed = run_ops (\<lambda>_. ''t'') (\<lambda>_. True)
     [(0, OpCreateToken (sample_token ''h'' 1)), (1, OpEnroll None (sample_enroll ''h'' ''ah'')), (3, OpDecommission None ''n1'')]
     (empty_enrollment, [])"

definition removed_assets :: asset_store where
  "removed_assets = \<lparr>st_assets = [], st_retired = [(''n1'', 3)]\<rparr>"

lemma sample_removed_run:
  "(enroll_step (\<lambda>_. ''t'') (\<lambda>_. True))\<^sup>*\<^sup>* (NewMemoryEnrollmentStoreWithGroupStore (Some NewMemoryAssetStore) (Some NewMemoryGroupStore), [])
     (fst sample_removed, snd sample_removed)"
  unfolding sample_removed_def prod.collapse empty_enrollment_def by (rule run_ops_is_run)

lemma sample_removed_assets: "es_assets (fst sample_removed) = Some removed_assets"
  by code_simp

text \<open>C22: A removed identity stays out. While an asset id is on the list of retired identities there is no
  asset of that id, and the only operation that brings it back is an enrollment with a token that is
  single-use and was created after the removal; heartbeats, approvals, updates and reusable or older
  tokens leave it retired.\<close>

theorem removed_identity_needs_fresh_token:
  assumes "(enroll_step fmt parses)\<^sup>*\<^sup>* (NewMemoryEnrollmentStoreWithGroupStore (Some NewMemoryAssetStore) gs, []) (m, log)"
    and "es_assets m = Some st" and "map_of (st_retired st) k = Some at"
    and "exec_op fmt parses now oper m = (ev, m')"
  shows "map_of (st_assets st) k = None \<and>
    (\<exists>st'. es_assets m' = Some st' \<and>
      (map_of (st_retired st') k = Some at \<and> map_of (st_assets st') k = None \<or>
       (\<exists>ctx req r. oper = OpEnroll ctx req \<and> trim_space (er_asset_id req) = k \<and>
          CommitAgentEnrollment fmt parses ctx m now req = (Inr r, m') \<and>
          et_max_uses (rs_enrollment_token r) = 1 \<and> at < et_created_at (rs_enrollment_token r))))"
proof -
  have ok: "identity_ok st" by (rule enroll_run_identities [OF assms(1,2)])
  obtain st' where st': "es_assets m' = Some st'" "asset_change (readmitted_by fmt parses now oper m) st st'"
    using exec_asset_change [OF assms(2) ok assms(4)] by blast
  show ?thesis
  proof (cases "readmitted_by fmt parses now oper m = Some k")
    case False
    with asset_change_keeps_retired [OF st'(2) ok assms(3)] have "map_of (st_retired st') k = Some at" by simp
    then show ?thesis
      using identity_okD(2) [OF ok assms(3)] identity_okD(2) [OF asset_change_identity_ok [OF st'(2) ok]] st'(1) by blast
  next
    case True
    then obtain ctx req r where o: "oper = OpEnroll ctx req" "trim_space (er_asset_id req) = k"
      "fst (CommitAgentEnrollment fmt parses ctx m now req) = Inr r" "rs_readmitted r"
      by (auto simp: readmitted_by_def split: enroll_op.splits sum.splits if_splits)
    then have c: "CommitAgentEnrollment fmt parses ctx m now req = (Inr r, m')"
      using assms(4) by (auto split: prod.splits)
    have "et_max_uses (rs_enrollment_token r) = 1 \<and> at < et_created_at (rs_enrollment_token r)"
      by (rule readmission_token [OF assms(2) c o(4)]) (simp add: o(2) assms(3))
    with o(1,2) c st'(1) identity_okD(2) [OF ok assms(3)] show ?thesis by blast
  qed
qed

theorem removed_identity_needs_fresh_token_witness:
  "map_of (st_assets removed_assets) ''n1'' = None \<and> map_of (st_retired removed_assets) ''n1'' = Some 3 \<and>
   snd (exec_op (\<lambda>_. ''t'') (\<lambda>_. True) 4 (OpEnroll None (sample_enroll ''h'' ''ah3'')) (fst sample_removed)) = fst sample_removed"
proof -
  have r: "map_of (st_retired removed_assets) ''n1'' = Some 3" by code_simp
  have x: "exec_op (\<lambda>_. ''t'') (\<lambda>_. True) 4 (OpEnroll None (sample_enroll ''h'' ''ah3'')) (fst sample_removed) = ([], fst sample_removed)"
    by code_simp
  from removed_identity_needs_fresh_token [OF sample_removed_run sample_removed_assets r x] r x show ?thesis by simp
qed

text \<open>C23: A removed agent can be brought back. From every state of every run in which an identity is
  retired, creating an unrestricted single-use token after the removal and enrolling with it before it
  expires succeeds, provided the fleet has room, the new secret is unused and the identity fields are
  complete: the identity is readmitted, is no longer retired, and its new credential is accepted until
  it expires.\<close>

theorem removed_agent_can_return:
  assumes "(enroll_step fmt parses)\<^sup>*\<^sup>* (NewMemoryEnrollmentStoreWithGroupStore (Some NewMemoryAssetStore) gs, []) (m, log)"
    and "es_assets m = Some st" "map_of (st_retired st) k = Some at" "k \<noteq> []"
    and "trim_space h \<noteq> []" "trim_space who \<noteq> []" "at < t1" "t2 < e" "t2 < er_agent_expires_at req"
    and "trim_space (er_asset_id req) = k" "er_token_hash req = trim_space h" "trim_space (er_group_id req) = []"
    and "validateInitialIdentityFields (req\<lparr>er_asset_id := k\<rparr>) = None"
    and "map_of (es_agent_by_hash m) (er_agent_hash req) = None"
    and "enrolledFleetCardinalityLocked m t2 < normalizedMaxEnrolledAgents (er_max_agents req)"
  shows "\<exists>tok m1 r m2. CreateEnrollmentToken m t1 (readmission_params h e who) = (Inr tok, m1) \<and>
    CommitAgentEnrollment fmt parses None m1 t2 req = (Inr r, m2) \<and> rs_readmitted r \<and>
    IsAgentIdentityRetired None m2 (er_asset_id req) = Inr False \<and>
    (\<forall>now. now < er_agent_expires_at req \<longrightarrow>
       ValidateActiveAgentTokenID None m2 now (at_id (rs_agent_token r)) (er_asset_id req) = None)"
proof -
  define m1 where "m1 = snd (CreateEnrollmentToken m t1 (readmission_params h e who))"
  have ok: "identity_ok st" by (rule enroll_run_identities [OF assms(1,2)])
  obtain r m2 where c: "CommitAgentEnrollment fmt parses None m1 t2 req = (Inr r, m2)"
    using fresh_token_accepted [OF assms(2) ok assms(3-15) m1_def] by blast
  have "es_assets m1 = Some st" using assms(2) by (simp add: m1_def other_ops_assets)
  from new_identity_usable [OF c this] assms(3,10)
  have "rs_readmitted r \<and> IsAgentIdentityRetired None m2 (er_asset_id req) = Inr False \<and>
      (now < er_agent_expires_at req \<longrightarrow>
        ValidateActiveAgentTokenID None m2 now (at_id (rs_agent_token r)) (er_asset_id req) = None)" for now by blast
  moreover have "CreateEnrollmentToken m t1 (readmission_params h e who) = (Inr (readmission_tok m t1 e who), m1)"
    unfolding m1_def by (simp add: readmission_token_created [OF assms(5,6)])
  ultimately show ?thesis using c by blast
qed

theorem removed_agent_can_return_witness:
  "\<exists>tok m1 r m2. CreateEnrollmentToken (fst sample_removed) 5 (readmission_params ''h2'' 100 ''admin'') = (Inr tok, m1) \<and>
    CommitAgentEnrollment (\<lambda>_. ''t'') (\<lambda>_. True) None m1 6 (sample_enroll ''h2'' ''ah2'') = (Inr r, m2) \<and> rs_readmitted r"
proof -
  have "map_of (st_retired removed_assets) ''n1'' = Some 3" "''n1'' \<noteq> []" "trim_space ''h2'' \<noteq> []" "trim_space ''admin'' \<noteq> []"
    "(3 :: gtime) < 5" "(6 :: gtime) < 100" "6 < er_agent_expires_at (sample_enroll ''h2'' ''ah2'')"
    "trim_space (er_asset_id (sample_enroll ''h2'' ''ah2'')) = ''n1''"
    "er_token_hash (sample_enroll ''h2'' ''ah2'') = trim_space ''h2''"
    "trim_space (er_group_id (sample_enroll ''h2'' ''ah2'')) = []"
    "validateInitialIdentityFields ((sample_enroll ''h2'' ''ah2'')\<lparr>er_asset_id := ''n1''\<rparr>) = None"
    "map_of (es_agent_by_hash (fst sample_removed)) (er_agent_hash (sample_enroll ''h2'' ''ah2'')) = None"
    "enrolledFleetCardinalityLocked (fst sample_removed) 6 < normalizedMaxEnrolledAgents (er_max_agents (sample_enroll ''h2'' ''ah2''))"
    by code_simp+
  from removed_agent_can_return [OF sample_removed_run sample_removed_assets this] show ?thesis by blast
qed

text \<open>C24: An enrollment is all or nothing. A refused request leaves the store as it was. An accepted one
  leaves the new credential as the only active one of the asset; and when the asset already existed, the
  asset itself is untouched and the request carried a single-use token, a version 2 device proof and the
  fingerprint and key algorithm of the asset's own verified anchor.\<close>

theorem enrollment_all_or_nothing:
  assumes "(enroll_step fmt parses)\<^sup>*\<^sup>* (NewMemoryEnrollmentStoreWithGroupStore st0 gs, []) (m, log)"
    and "CommitAgentEnrollment fmt parses ctx m now req = (res, m')"
  shows "case res of
      Inl e \<Rightarrow> m' = m
    | Inr r \<Rightarrow>
        (\<forall>i t. (map_of (es_agents m') i = Some t \<and> at_asset_id t = trim_space (er_asset_id req) \<and> at_status t = ''active'') =
           (i = at_id (rs_agent_token r) \<and> t = rs_agent_token r)) \<and>
        (\<forall>st a. es_assets m = Some st \<longrightarrow> map_of (st_assets st) (trim_space (er_asset_id req)) = Some a \<longrightarrow>
           rs_asset r = a \<and> es_assets m' = Some st \<and> et_max_uses (rs_enrollment_token r) = 1 \<and>
           trim_space (er_proof_version req) = ''v2'' \<and>
           mget (as_metadata a) MetadataKeyAgentDeviceFingerprint \<noteq> [] \<and>
           trim_space (mget (as_metadata a) MetadataKeyAgentDeviceFingerprint) = trim_space (er_fingerprint req) \<and>
           trim_space (mget (as_metadata a) MetadataKeyAgentDeviceKeyAlgorithm) = trim_space (er_key_algorithm req) \<and>
           parses (trim_space (mget (as_metadata a) MetadataKeyAgentIdentityVerifiedAt)))"
proof (cases res)
  case (Inl e)
  with assms(2) enroll_fail_unchanged show ?thesis by fastforce
next
  case (Inr r)
  have ok: "agents_ok m" using enroll_run_agents_ok [OF assms(1)] agents_ok_initial by simp
  note c = assms(2) [unfolded Inr]
  show ?thesis unfolding Inr sum.case
    by (intro conjI allI impI; (rule enroll_one_active [OF ok c] | (drule (1) recovery_requires [OF _ _ c], blast)))
qed

definition sample_recoverable :: "enrollment_store \<times> token_event list" where
  "sample_recoverable = run_ops (\<lambda>_. ''t'') (\<lambda>_. True)
     [(0, OpCreateToken (sample_token ''h'' 1)), (1, OpEnroll None (sample_enroll ''h'' ''ah'')), (3, OpCreateToken (sample_token ''h2'' 1))]
     (empty_enrollment, [])"

lemma sample_recoverable_run:
  "(enroll_step (\<lambda>_. ''t'') (\<lambda>_. True))\<^sup>*\<^sup>* (NewMemoryEnrollmentStoreWithGroupStore (Some NewMemoryAssetStore) (Some NewMemoryGroupStore), [])
     (fst sample_recoverable, snd sample_recoverable)"
  unfolding sample_recoverable_def prod.collapse empty_enrollment_def by (rule run_ops_is_run)

definition sample_recovery :: "(store_error, enroll_result) res \<times> enrollment_store" where
  "sample_recovery = CommitAgentEnrollment (\<lambda>_. ''t'') (\<lambda>_. True) None (fst sample_recoverable) 4 (sample_enroll ''h2'' ''ah2'')"

theorem enrollment_all_or_nothing_witness:
  "fst sample_recovery = Inr (projr (fst sample_recovery)) \<and> rs_recovery (projr (fst sample_recovery)) \<and>
   (\<forall>i t. (map_of (es_agents (snd sample_recovery)) i = Some t \<and> at_asset_id t = ''n1'' \<and> at_status t = ''active'') =
      (i = ''atok-4'' \<and> t = rs_agent_token (projr (fst sample_recovery)))) \<and>
   snd (CommitAgentEnrollment (\<lambda>_. ''t'') (\<lambda>_. True) None (fst sample_recoverable) 4 (sample_enroll ''h'' ''ah2'')) =
     fst sample_recoverable"
proof -
  have r: "isl (fst sample_recovery) = False" "rs_recovery (projr (fst sample_recovery))"
    "at_id (rs_agent_token (projr (fst sample_recovery))) = ''atok-4''" by code_simp+
  then have Inr: "fst sample_recovery = Inr (projr (fst sample_recovery))" by (cases "fst sample_recovery") simp_all
  have aid: "trim_space (er_asset_id (sample_enroll ''h2'' ''ah2'')) = ''n1''" by code_simp
  have c: "CommitAgentEnrollment (\<lambda>_. ''t'') (\<lambda>_. True) None (fst sample_recoverable) 4 (sample_enroll ''h2'' ''ah2'') =
      (Inr (projr (fst sample_recovery)), snd sample_recovery)"
    using Inr unfolding sample_recovery_def by (metis prod.collapse)
  have refused: "CommitAgentEnrollment (\<lambda>_. ''t'') (\<lambda>_. True) None (fst sample_recoverable) 4 (sample_enroll ''h'' ''ah2'') =
      (Inl ErrEnrollmentTokenUsed, snd (CommitAgentEnrollment (\<lambda>_. ''t'') (\<lambda>_. True) None (fst sample_recoverable) 4 (sample_enroll ''h'' ''ah2'')))"
    by (subst prod.collapse [symmetric]) (simp only: prod.inject simp_thms, code_simp)
  note accepted = conjunct1 [OF enrollment_all_or_nothing [OF sample_recoverable_run c, unfolded sum.case aid r(3)]]
  note unchanged = enrollment_all_or_nothing [OF sample_recoverable_run refused, unfolded sum.case]
  show ?thesis by (intro conjI Inr r(2) accepted unchanged)
qed


definition sample_heartbeat :: heartbeat_request where
  "sample_heartbeat = \<lparr>hb_asset_id = ''n1'', hb_type = ''node'', hb_name = ''n1'', hb_source = ''agent'', hb_group_id = [],
     hb_status = [], hb_platform = ''linux'',
     hb_metadata = [(MetadataKeyAgentDeviceFingerprint, ''forged''), (MetadataKeyAgentIdentityVerifiedAt, ''now'')],
     hb_allow_rotation = False, hb_allow_tofu = False\<rparr>"

definition sample_beaten :: "token_event list \<times> enrollment_store" where
  "sample_beaten = exec_op (\<lambda>_. ''t'') (\<lambda>_. True) 4 (OpHeartbeat None ''atok-2'' 0 sample_heartbeat) (fst sample_recoverable)"

definition asset_of :: "enrollment_store \<Rightarrow> string \<Rightarrow> asset option" where
  "asset_of m k = (case es_assets m of None \<Rightarrow> None | Some st \<Rightarrow> map_of (st_assets st) k)"


end
