(* ===== verification/Terminal_Scrollback.thy ===== *)
theory Terminal_Scrollback
  imports LT_Prelude "HOL-Library.Sublist"
begin

text \<open>
  The scrollback of terminals: the ring buffer of lines (\<open>internal/terminal/scrollback.go\<close>), the merge of
  the stored scrollback with a capture of the terminal (\<open>scrollback_merge.go\<close>) and the bounded output of
  a replay (\<open>sshReplayTail\<close> and \<open>sshReplayOutput\<close> of \<open>internal/hubapi/terminal/stream_ssh_replay.go\<close>).

  The array of a ring buffer is a list of fixed length with a write position; \<open>None\<close> is a panic. Every
  exported operation holds the mutex of the buffer for its whole body and is one step.
\<close>

section \<open>Lines\<close>

definition newline :: char where "newline = char_of (10 :: nat)"

definition index_byte :: "char \<Rightarrow> string \<Rightarrow> nat option" where
  "index_byte c s = (let n = length (takeWhile (\<lambda>x. x \<noteq> c) s) in if n < length s then Some n else None)"

function splitLines :: "string \<Rightarrow> string list" where
  "splitLines data =
     (if data = [] then []
      else case index_byte newline data of
             None \<Rightarrow> [data]
           | Some idx \<Rightarrow> take (idx + 1) data # splitLines (drop (idx + 1) data))"
  by pat_completeness auto
termination by (relation "measure length") (auto simp: index_byte_def Let_def split: if_splits)

declare splitLines.simps [simp del]

section \<open>The ring buffer\<close>

record ring_buffer =
  rb_lines :: "string list"
  rb_max :: nat
  rb_head :: nat
  rb_count :: nat
  rb_partial :: string

definition NewRingBuffer :: "int \<Rightarrow> ring_buffer option" where
  "NewRingBuffer maxLines =
     (if maxLines < 0 then None
      else Some \<lparr>rb_lines = replicate (nat maxLines) [], rb_max = nat maxLines, rb_head = 0, rb_count = 0, rb_partial = []\<rparr>)"

definition pushLine :: "ring_buffer \<Rightarrow> string \<Rightarrow> ring_buffer option" where
  "pushLine rb line =
     (if \<not> rb_head rb < length (rb_lines rb) then None
      else Some (rb\<lparr>rb_lines := (rb_lines rb)[rb_head rb := line], rb_head := (rb_head rb + 1) mod rb_max rb,
                   rb_count := (if rb_count rb < rb_max rb then rb_count rb + 1 else rb_count rb)\<rparr>))"

function write_loop :: "ring_buffer \<Rightarrow> string \<Rightarrow> ring_buffer option" where
  "write_loop rb data =
     (if data = [] then Some rb
      else case index_byte newline data of
             None \<Rightarrow> Some (rb\<lparr>rb_partial := data\<rparr>)
           | Some idx \<Rightarrow>
               (case pushLine rb (take (idx + 1) data) of
                  None \<Rightarrow> None
                | Some rb \<Rightarrow> write_loop rb (drop (idx + 1) data)))"
  by pat_completeness auto
termination by (relation "measure (length \<circ> snd)") (auto simp: index_byte_def Let_def split: if_splits)

declare write_loop.simps [simp del]

definition writeLocked :: "ring_buffer \<Rightarrow> string \<Rightarrow> ring_buffer option" where
  "writeLocked rb p =
     (if 0 < length (rb_partial rb) then write_loop (rb\<lparr>rb_partial := []\<rparr>) (rb_partial rb @ p) else write_loop rb p)"

definition Write :: "ring_buffer \<Rightarrow> string \<Rightarrow> ring_buffer option" where
  "Write rb p = writeLocked rb p"

definition SeedIfEmpty :: "ring_buffer \<Rightarrow> string \<Rightarrow> (bool \<times> ring_buffer) option" where
  "SeedIfEmpty rb p =
     (if rb_count rb \<noteq> 0 \<or> length (rb_partial rb) \<noteq> 0 \<or> length p = 0 then Some (False, rb)
      else case writeLocked rb p of None \<Rightarrow> None | Some rb \<Rightarrow> Some (True, rb))"

definition ring_start :: "ring_buffer \<Rightarrow> nat" where
  "ring_start rb = (if rb_count rb = rb_max rb then rb_head rb else 0)"

definition stored_lines :: "ring_buffer \<Rightarrow> string list" where
  "stored_lines rb = map (\<lambda>i. rb_lines rb ! ((ring_start rb + i) mod rb_max rb)) [0..<rb_count rb]"

definition Snapshot :: "ring_buffer \<Rightarrow> string" where
  "Snapshot rb =
     (if rb_count rb = 0 \<and> length (rb_partial rb) = 0 then []
      else concat (stored_lines rb) @ (if 0 < length (rb_partial rb) then rb_partial rb else []))"

definition Lines :: "ring_buffer \<Rightarrow> nat" where
  "Lines rb = rb_count rb"

definition ByteSize :: "ring_buffer \<Rightarrow> nat" where
  "ByteSize rb = foldl (\<lambda>size line. size + length line) (length (rb_partial rb)) (stored_lines rb)"

section \<open>Merging with a capture\<close>

text \<open>\<open>ansiRegex\<close> matches an escape, a bracket, digits and semicolons, and a letter. The two classes are
  disjoint, so the leftmost match is found by taking all digits and semicolons.\<close>

definition is_param :: "char \<Rightarrow> bool" where
  "is_param c = (48 \<le> byte_of c \<and> byte_of c \<le> 57 \<or> byte_of c = 59)"

definition is_letter :: "char \<Rightarrow> bool" where
  "is_letter c = (97 \<le> byte_of c \<and> byte_of c \<le> 122 \<or> 65 \<le> byte_of c \<and> byte_of c \<le> 90)"

definition ansi_rest :: "string \<Rightarrow> string option" where
  "ansi_rest s =
     (case s of
        e # b # r \<Rightarrow>
          (if byte_of e = 27 \<and> byte_of b = 91 then
             (case dropWhile is_param r of c # r' \<Rightarrow> if is_letter c then Some r' else None | [] \<Rightarrow> None)
           else None)
      | _ \<Rightarrow> None)"

lemma ansi_rest_shorter: "ansi_rest s = Some r \<Longrightarrow> length r < length s"
proof -
  have "length (dropWhile is_param x) \<le> length x" for x by (rule length_dropWhile_le)
  then show "ansi_rest s = Some r \<Longrightarrow> length r < length s"
    by (auto simp: ansi_rest_def split: list.splits if_splits) (metis Suc_le_lessD length_Cons less_SucI)
qed

function StripANSI :: "string \<Rightarrow> string" where
  "StripANSI s =
     (case ansi_rest s of
        Some r \<Rightarrow> StripANSI r
      | None \<Rightarrow> (case s of [] \<Rightarrow> [] | c # r \<Rightarrow> c # StripANSI r))"
  by pat_completeness auto
termination by (relation "measure length") (auto dest: ansi_rest_shorter)

declare StripANSI.simps [simp del]

definition mergeOverlapWindow :: nat where "mergeOverlapWindow = 100"

definition trim_eol :: "string \<Rightarrow> string" where
  "trim_eol s = trim_right_by (\<lambda>c. byte_of c = 13 \<or> byte_of c = 10) s"

definition slicesEqual :: "string list \<Rightarrow> string list \<Rightarrow> bool" where
  "slicesEqual a b = (length a = length b \<and> list_all2 (\<lambda>x y. trim_eol x = trim_eol y) a b)"

fun match_len :: "string list \<Rightarrow> string list \<Rightarrow> nat \<Rightarrow> nat" where
  "match_len storedPlain tmuxPlain 0 = 0"
| "match_len storedPlain tmuxPlain (Suc n) =
     (if slicesEqual (drop (length storedPlain - Suc n) storedPlain) (take (Suc n) tmuxPlain) then Suc n
      else match_len storedPlain tmuxPlain n)"

definition reconnect_marker :: string where "reconnect_marker = ''--- reconnected ---'' @ [newline]"

definition overlap :: "string \<Rightarrow> string \<Rightarrow> nat" where
  "overlap stored tmuxCapture =
     (let storedLines = splitLines stored; tmuxLines = splitLines tmuxCapture;
          storedTail = (if mergeOverlapWindow < length storedLines
                        then drop (length storedLines - mergeOverlapWindow) storedLines else storedLines);
          tmuxHead = (if mergeOverlapWindow < length tmuxLines then take mergeOverlapWindow tmuxLines else tmuxLines);
          storedPlain = map StripANSI storedTail; tmuxPlain = map StripANSI tmuxHead
      in match_len storedPlain tmuxPlain (min (length storedPlain) (length tmuxPlain)))"

definition MergeScrollback :: "string \<Rightarrow> string \<Rightarrow> string" where
  "MergeScrollback stored tmuxCapture =
     (if length tmuxCapture = 0 then stored
      else if length stored = 0 then tmuxCapture
      else let matchLen = overlap stored tmuxCapture
           in if matchLen = 0 then stored @ reconnect_marker @ tmuxCapture
              else stored @ concat (drop matchLen (splitLines tmuxCapture)))"

section \<open>The bounded output of a replay\<close>

definition sshReplayMaxBytes :: nat where "sshReplayMaxBytes = 1024 * 1024"

definition sshReplayTail :: "string \<Rightarrow> string" where
  "sshReplayTail data =
     (if sshReplayMaxBytes < length data then drop (length data - sshReplayMaxBytes) data else data)"

record replay_output =
  ro_data :: string
  ro_limit :: nat

definition replay_write :: "replay_output \<Rightarrow> string \<Rightarrow> nat \<times> replay_output" where
  "replay_write out data =
     (let n = length data
      in if ro_limit out \<le> n then (n, out\<lparr>ro_data := drop (n - ro_limit out) data\<rparr>)
         else let overflow = int (length (ro_data out)) + int n - int (ro_limit out);
                  kept = (if 0 < overflow then drop (nat overflow) (ro_data out) else ro_data out)
              in (n, out\<lparr>ro_data := kept @ data\<rparr>))"

section \<open>The ring buffer holds the last lines\<close>

text \<open>The specification is a log of one character at a time: a line is closed by its newline, and of the
  closed lines the last \<open>k\<close> are kept.\<close>

definition last_n :: "nat \<Rightarrow> 'a list \<Rightarrow> 'a list" where
  "last_n k xs = drop (length xs - k) xs"

definition feed :: "nat \<Rightarrow> string list \<times> string \<Rightarrow> char \<Rightarrow> string list \<times> string" where
  "feed k = (\<lambda>(ls, part) c. if c = newline then (last_n k (ls @ [part @ [c]]), []) else (ls, part @ [c]))"

definition ring_ok :: "ring_buffer \<Rightarrow> bool" where
  "ring_ok rb =
     (0 < rb_max rb \<and> length (rb_lines rb) = rb_max rb \<and> rb_head rb < rb_max rb \<and> rb_count rb \<le> rb_max rb \<and>
      (rb_count rb < rb_max rb \<longrightarrow> rb_head rb = rb_count rb) \<and> newline \<notin> set (rb_partial rb))"

definition ring_abs :: "ring_buffer \<Rightarrow> string list \<times> string" where
  "ring_abs rb = (stored_lines rb, rb_partial rb)"

lemma last_n_length [simp]: "length (last_n k xs) = min k (length xs)"
  by (simp add: last_n_def)

lemma last_n_small [simp]: "length xs \<le> k \<Longrightarrow> last_n k xs = xs"
  by (simp add: last_n_def)

lemma last_n_last_n_snoc: "0 < k \<Longrightarrow> last_n k (last_n k xs @ [x]) = last_n k (xs @ [x])"
  unfolding last_n_def by (cases "length xs \<le> k") (auto simp: Suc_diff_le)

lemma suffix_last_n: "suffix (last_n k xs) xs"
  by (simp add: last_n_def suffix_drop)

lemma stored_lines_length [simp]: "length (stored_lines rb) = rb_count rb"
  by (simp add: stored_lines_def)

lemma pushLine_below:
  assumes "ring_ok rb" "rb_count rb < rb_max rb" "pushLine rb l = Some rb'"
  shows "stored_lines rb' = stored_lines rb @ [l]"
proof -
  have h: "rb_head rb = rb_count rb" "length (rb_lines rb) = rb_max rb" using assms by (simp_all add: ring_ok_def)
  have rb': "rb_lines rb' = (rb_lines rb)[rb_count rb := l]" "rb_count rb' = Suc (rb_count rb)" "rb_max rb' = rb_max rb"
    "rb_head rb' = Suc (rb_count rb) mod rb_max rb"
    using assms(2,3) h by (auto simp: pushLine_def)
  have st: "ring_start rb = 0" "ring_start rb' = 0" using assms(2) rb' by (auto simp: ring_start_def)
  show ?thesis
  proof (rule nth_equalityI)
    fix i
    assume "i < length (stored_lines rb')"
    then have i: "i < Suc (rb_count rb)" by (simp add: rb')
    then have "stored_lines rb' ! i = (rb_lines rb)[rb_count rb := l] ! i"
      using assms(2) by (simp add: stored_lines_def st rb' del: upt_Suc)
    then show "stored_lines rb' ! i = (stored_lines rb @ [l]) ! i"
      using i assms(2) h(2) by (cases "i = rb_count rb") (simp_all add: nth_append stored_lines_def st)
  qed (simp add: rb')
qed

lemma pushLine_full:
  assumes "ring_ok rb" "rb_count rb = rb_max rb" "pushLine rb l = Some rb'"
  shows "stored_lines rb' = tl (stored_lines rb) @ [l]"
proof -
  let ?n = "rb_max rb" and ?h = "rb_head rb"
  have h: "0 < ?n" "?h < ?n" "length (rb_lines rb) = ?n" using assms(1) by (simp_all add: ring_ok_def)
  have rb': "rb_lines rb' = (rb_lines rb)[?h := l]" "rb_count rb' = ?n" "rb_max rb' = ?n" "rb_head rb' = Suc ?h mod ?n"
    using assms(2,3) h by (auto simp: pushLine_def)
  have st: "ring_start rb = ?h" "ring_start rb' = Suc ?h mod ?n" using assms(2) rb' by (simp_all add: ring_start_def)
  show ?thesis
  proof (rule nth_equalityI)
    show "length (stored_lines rb') = length (tl (stored_lines rb) @ [l])" using h(1) by (simp add: rb' assms(2))
    fix i
    assume "i < length (stored_lines rb')"
    then have i: "i < ?n" by (simp add: rb')
    have at: "stored_lines rb' ! i = (rb_lines rb)[?h := l] ! ((Suc ?h + i) mod ?n)"
      using i by (simp add: stored_lines_def st rb' mod_add_left_eq)
    show "stored_lines rb' ! i = (tl (stored_lines rb) @ [l]) ! i"
    proof (cases "Suc i = ?n")
      case True
      then have "(Suc ?h + i) mod ?n = ?h" using h(2) by (metis add_Suc_shift mod_add_self2 mod_less)
      moreover have "\<not> i < ?n - 1" "i - (?n - 1) = 0" using True by simp_all
      ultimately show ?thesis using at h by (simp add: nth_append assms(2))
    next
      case False
      have lt: "Suc i < ?n" using i False by simp
      have "(Suc ?h + i) mod ?n \<noteq> ?h"
      proof (cases "Suc ?h + i < ?n")
        case beyond: False
        then have "(Suc ?h + i) mod ?n = (Suc ?h + i - ?n) mod ?n" by (simp add: le_mod_geq)
        then show ?thesis using lt h(2) beyond by simp
      qed simp
      then have "stored_lines rb' ! i = rb_lines rb ! ((?h + Suc i) mod ?n)" using at by simp
      moreover have "tl (stored_lines rb) ! i = stored_lines rb ! Suc i" "i < length (tl (stored_lines rb))"
        using lt by (simp_all add: nth_tl assms(2))
      moreover have "stored_lines rb ! Suc i = rb_lines rb ! ((?h + Suc i) mod ?n)"
        using lt by (simp add: stored_lines_def st assms(2) del: upt_Suc)
      ultimately show ?thesis by (simp add: nth_append)
    qed
  qed
qed

lemma pushLine_spec:
  assumes "ring_ok rb"
  shows "\<exists>rb'. pushLine rb l = Some rb' \<and> ring_ok rb' \<and> rb_max rb' = rb_max rb \<and> rb_partial rb' = rb_partial rb \<and>
    stored_lines rb' = last_n (rb_max rb) (stored_lines rb @ [l])"
proof -
  have "rb_head rb < length (rb_lines rb)" using assms by (simp add: ring_ok_def)
  then obtain rb' where rb': "pushLine rb l = Some rb'" by (simp add: pushLine_def)
  have ok: "ring_ok rb'" "rb_max rb' = rb_max rb" "rb_partial rb' = rb_partial rb"
    using rb' assms by (auto simp: pushLine_def ring_ok_def le_Suc_eq split: if_splits)
  have "stored_lines rb' = last_n (rb_max rb) (stored_lines rb @ [l])"
  proof (cases "rb_count rb < rb_max rb")
    case True
    then show ?thesis using pushLine_below [OF assms True rb'] by simp
  next
    case False
    then have c: "rb_count rb = rb_max rb" using assms by (simp add: ring_ok_def)
    have "0 < rb_max rb" using assms by (simp add: ring_ok_def)
    then show ?thesis using pushLine_full [OF assms c rb'] c by (simp add: last_n_def drop_Suc)
  qed
  with rb' ok show ?thesis by blast
qed

lemma index_byte_None: "index_byte c s = None \<longleftrightarrow> c \<notin> set s"
  by (induction s) (auto simp: index_byte_def Let_def)

lemma index_byte_Some:
  assumes "index_byte c s = Some i"
  obtains a b where "s = a @ c # b" "c \<notin> set a" "take (i + 1) s = a @ [c]" "drop (i + 1) s = b"
proof -
  define a where "a = takeWhile (\<lambda>x. x \<noteq> c) s"
  have i: "i = length a" "i < length s" using assms by (auto simp: index_byte_def a_def Let_def split: if_splits)
  have ab: "s = a @ dropWhile (\<lambda>x. x \<noteq> c) s" by (simp add: a_def)
  then have "dropWhile (\<lambda>x. x \<noteq> c) s \<noteq> []" using i by (metis append_Nil2 less_irrefl)
  then obtain b where b: "dropWhile (\<lambda>x. x \<noteq> c) s = c # b" by (metis (mono_tags, lifting) hd_dropWhile list.collapse)
  have "c \<notin> set a" by (auto simp: a_def dest: set_takeWhileD)
  moreover have "s = a @ c # b" using ab b by simp
  ultimately show ?thesis using that [of a b] i(1) by simp
qed

lemma feed_open: "newline \<notin> set xs \<Longrightarrow> foldl (feed k) (ls, p) xs = (ls, p @ xs)"
  by (induction xs arbitrary: p) (auto simp: feed_def)

lemma feed_line: "newline \<notin> set xs \<Longrightarrow> foldl (feed k) (ls, p) (xs @ [newline]) = (last_n k (ls @ [p @ xs @ [newline]]), [])"
  by (simp add: feed_open) (simp add: feed_def)

lemma write_loop_spec:
  assumes "ring_ok rb" "rb_partial rb = []"
  shows "\<exists>rb'. write_loop rb data = Some rb' \<and> ring_ok rb' \<and> rb_max rb' = rb_max rb \<and>
    ring_abs rb' = foldl (feed (rb_max rb)) (ring_abs rb) data"
  using assms
proof (induction rb data rule: write_loop.induct)
  case (1 rb data)
  show ?case
  proof (cases "index_byte newline data")
    case None
    then have n: "newline \<notin> set data" by (simp add: index_byte_None)
    have "ring_ok (rb\<lparr>rb_partial := data\<rparr>)" using 1(2) n by (simp add: ring_ok_def)
    moreover have "ring_abs (rb\<lparr>rb_partial := data\<rparr>) = foldl (feed (rb_max rb)) (ring_abs rb) data"
      by (simp add: ring_abs_def feed_open [OF n] stored_lines_def ring_start_def 1(3))
    ultimately show ?thesis using 1(2,3) None by (auto simp: write_loop.simps [of rb] ring_abs_def)
  next
    case (Some i)
    then obtain a b where ab: "data = a @ newline # b" "newline \<notin> set a" "take (i + 1) data = a @ [newline]" "drop (i + 1) data = b"
      by (rule index_byte_Some)
    obtain rb1 where rb1: "pushLine rb (a @ [newline]) = Some rb1" "ring_ok rb1" "rb_max rb1 = rb_max rb" "rb_partial rb1 = []"
      "stored_lines rb1 = last_n (rb_max rb) (stored_lines rb @ [a @ [newline]])"
      using pushLine_spec [OF 1(2)] 1(3) by metis
    have ne: "data \<noteq> []" using ab(1) by simp
    have "ring_abs rb1 = foldl (feed (rb_max rb)) (ring_abs rb) (a @ [newline])"
      by (simp add: ring_abs_def rb1 1(3) feed_line [OF ab(2), simplified])
    moreover have "foldl (feed (rb_max rb)) (ring_abs rb) data =
        foldl (feed (rb_max rb)) (foldl (feed (rb_max rb)) (ring_abs rb) (a @ [newline])) b" by (simp add: ab(1))
    ultimately show ?thesis
      using 1(1) [OF ne Some, unfolded ab(3), OF rb1(1) rb1(2) rb1(4)] ne Some rb1 ab(3,4)
      by (simp add: write_loop.simps [of rb data])
  qed
qed

lemma write_refines_feed:
  assumes "ring_ok rb"
  shows "\<exists>rb'. Write rb p = Some rb' \<and> ring_ok rb' \<and> rb_max rb' = rb_max rb \<and>
    ring_abs rb' = foldl (feed (rb_max rb)) (ring_abs rb) p"
proof -
  define rb0 where "rb0 = rb\<lparr>rb_partial := []\<rparr>"
  have "ring_ok rb0" "rb_partial rb0 = []" "rb_max rb0 = rb_max rb" using assms by (simp_all add: rb0_def ring_ok_def)
  from write_loop_spec [OF this(1,2), of "rb_partial rb @ p"] this(3)
  obtain rb' where rb': "write_loop rb0 (rb_partial rb @ p) = Some rb'" "ring_ok rb'" "rb_max rb' = rb_max rb"
    "ring_abs rb' = foldl (feed (rb_max rb)) (ring_abs rb0) (rb_partial rb @ p)" by auto
  have "newline \<notin> set (rb_partial rb)" using assms by (simp add: ring_ok_def)
  then have "foldl (feed (rb_max rb)) (ring_abs rb0) (rb_partial rb) = ring_abs rb"
    by (simp add: ring_abs_def feed_open rb0_def stored_lines_def ring_start_def)
  moreover have "rb_partial rb = [] \<Longrightarrow> rb0 = rb" by (cases rb) (simp add: rb0_def)
  then have "Write rb p = write_loop rb0 (rb_partial rb @ p)"
    unfolding Write_def writeLocked_def by (fold rb0_def) (cases "rb_partial rb = []"; simp)
  ultimately show ?thesis using rb' by simp
qed

subsection \<open>Whole runs\<close>

datatype ring_op = OpWrite string | OpSeed string

fun ring_run :: "ring_buffer \<Rightarrow> ring_op list \<Rightarrow> ring_buffer option" where
  "ring_run rb [] = Some rb"
| "ring_run rb (OpWrite p # ops) = (case Write rb p of None \<Rightarrow> None | Some rb \<Rightarrow> ring_run rb ops)"
| "ring_run rb (OpSeed p # ops) = (case SeedIfEmpty rb p of None \<Rightarrow> None | Some (_, rb) \<Rightarrow> ring_run rb ops)"

text \<open>What the operations put into the buffer: every write, and a seed only when nothing came before it.\<close>

fun taken :: "string \<Rightarrow> ring_op list \<Rightarrow> string" where
  "taken s [] = s"
| "taken s (OpWrite p # ops) = taken (s @ p) ops"
| "taken s (OpSeed p # ops) = taken (if s = [] then p else s) ops"

definition closed_lines :: "string \<Rightarrow> string list" where
  "closed_lines s = filter (\<lambda>l. newline \<in> set l) (splitLines s)"

definition open_line :: "string \<Rightarrow> string" where
  "open_line s = concat (filter (\<lambda>l. newline \<notin> set l) (splitLines s))"

lemma splitLines_Nil [simp]: "splitLines [] = []"
  by (simp add: splitLines.simps)

lemma splitLines_open: "newline \<notin> set s \<Longrightarrow> splitLines s = (if s = [] then [] else [s])"
  by (simp add: splitLines.simps [of s] index_byte_None [THEN iffD2])

lemma splitLines_line:
  assumes "newline \<notin> set a"
  shows "splitLines (a @ newline # b) = (a @ [newline]) # splitLines b"
proof -
  have "takeWhile (\<lambda>x. x \<noteq> newline) (a @ newline # b) = a" using assms by (induction a) auto
  then have "index_byte newline (a @ newline # b) = Some (length a)" by (simp add: index_byte_def)
  then show ?thesis by (simp add: splitLines.simps [of "a @ newline # b"])
qed

lemma lines_induct [case_names open_end line]:
  assumes "\<And>s. newline \<notin> set s \<Longrightarrow> P s" "\<And>a b. newline \<notin> set a \<Longrightarrow> P b \<Longrightarrow> P (a @ newline # b)"
  shows "P s"
proof (induction s rule: measure_induct_rule [where f = length])
  case (less s)
  show ?case
  proof (cases "newline \<in> set s")
    case True
    then obtain a b where "s = a @ newline # b" "newline \<notin> set a" by (metis split_list_first)
    with less assms(2) show ?thesis by simp
  qed (simp add: assms(1))
qed

lemma concat_splitLines [simp]: "concat (splitLines s) = s"
  by (induction s rule: lines_induct) (auto simp: splitLines_open splitLines_line)

lemma closed_then_open: "concat (closed_lines s) @ open_line s = s"
  by (induction s rule: lines_induct) (auto simp: closed_lines_def open_line_def splitLines_open splitLines_line)

lemma foldl_feed: "0 < k \<Longrightarrow> foldl (feed k) (last_n k ls, []) s = (last_n k (ls @ closed_lines s), open_line s)"
proof (induction s arbitrary: ls rule: lines_induct)
  case (open_end s)
  then show ?case by (simp add: feed_open closed_lines_def open_line_def splitLines_open)
next
  case (line a b)
  have "foldl (feed k) (last_n k ls, []) (a @ newline # b) = foldl (feed k) (last_n k (ls @ [a @ [newline]]), []) b"
    using feed_line [OF line(1), of k "last_n k ls" "[]"] line(3)
      foldl_append [of "feed k" "(last_n k ls, [])" "a @ [newline]" b]
    by (simp add: last_n_last_n_snoc del: foldl_append)
  then show ?case using line by (simp add: closed_lines_def open_line_def splitLines_line)
qed

lemma feed_nonempty: "foldl (feed k) ([], []) s = ([], []) \<Longrightarrow> 0 < k \<Longrightarrow> s = []"
proof -
  assume "foldl (feed k) ([], []) s = ([], [])" "0 < k"
  then have "last_n k (closed_lines s) = []" "open_line s = []" using foldl_feed [of k "[]" s] by simp_all
  moreover have "closed_lines s = []" using calculation(1) \<open>0 < k\<close> by (metis last_n_length length_0_conv min_0L min_def neq0_conv)
  ultimately have "\<forall>l \<in> set (splitLines s). l = []" by (auto simp: closed_lines_def open_line_def filter_empty_conv)
  then have "concat (splitLines s) = []" unfolding concat_eq_Nil_conv by blast
  then show "s = []" by simp
qed

lemma ring_run_spec:
  assumes "ring_ok rb" "ring_abs rb = foldl (feed (rb_max rb)) ([], []) s"
  shows "\<exists>rb'. ring_run rb ops = Some rb' \<and> ring_ok rb' \<and> rb_max rb' = rb_max rb \<and>
    ring_abs rb' = foldl (feed (rb_max rb)) ([], []) (taken s ops)"
  using assms
proof (induction s ops arbitrary: rb rule: taken.induct)
  case (2 s p ops)
  obtain rb1 where rb1: "Write rb p = Some rb1" "ring_ok rb1" "rb_max rb1 = rb_max rb"
    "ring_abs rb1 = foldl (feed (rb_max rb)) (ring_abs rb) p" using write_refines_feed [OF "2.prems"(1)] by blast
  with "2.IH" [of rb1] "2.prems"(2) show ?case by simp
next
  case (3 s p ops)
  have pos: "0 < rb_max rb" using "3.prems"(1) by (simp add: ring_ok_def)
  have empty: "rb_count rb = 0 \<and> rb_partial rb = [] \<longleftrightarrow> s = []"
  proof -
    have "rb_count rb = 0 \<longleftrightarrow> stored_lines rb = []" by (metis stored_lines_length length_0_conv)
    then have "rb_count rb = 0 \<and> rb_partial rb = [] \<longleftrightarrow> ring_abs rb = ([], [])" by (simp add: ring_abs_def)
    with feed_nonempty pos "3.prems"(2) show ?thesis by auto
  qed
  show ?case
  proof (cases "s = [] \<and> p \<noteq> []")
    case True
    obtain rb1 where rb1: "Write rb p = Some rb1" "ring_ok rb1" "rb_max rb1 = rb_max rb"
      "ring_abs rb1 = foldl (feed (rb_max rb)) (ring_abs rb) p" using write_refines_feed [OF "3.prems"(1)] by blast
    then have "SeedIfEmpty rb p = Some (True, rb1)" using True empty by (simp add: SeedIfEmpty_def Write_def)
    with "3.IH" [of rb1] "3.prems"(2) rb1 True show ?thesis by simp
  next
    case False
    then have "SeedIfEmpty rb p = Some (False, rb)" using empty by (auto simp: SeedIfEmpty_def)
    moreover have "(if s = [] then p else s) = s" using False by auto
    ultimately show ?thesis using "3.IH" [of rb] "3.prems" by simp
  qed
qed simp

lemma ByteSize_Snapshot: "ByteSize rb = length (Snapshot rb)"
proof -
  have "foldl (\<lambda>size line. size + length line) n ls = n + length (concat ls)" for n and ls :: "string list"
    by (induction ls arbitrary: n) auto
  moreover have "rb_count rb = 0 \<Longrightarrow> stored_lines rb = []" by (simp add: stored_lines_def)
  ultimately show ?thesis by (auto simp: ByteSize_def Snapshot_def)
qed

lemma new_ring: "0 < n \<Longrightarrow> NewRingBuffer n = Some rb \<Longrightarrow> ring_ok rb \<and> rb_max rb = nat n \<and> ring_abs rb = ([], [])"
  by (auto simp: NewRingBuffer_def ring_ok_def ring_abs_def stored_lines_def)

section \<open>The merge\<close>

definition plain_lines :: "string \<Rightarrow> string list" where
  "plain_lines s = map (trim_eol \<circ> StripANSI) (splitLines s)"

lemma slicesEqual_map: "slicesEqual a b \<longleftrightarrow> map trim_eol a = map trim_eol b"
  by (auto simp: slicesEqual_def list_all2_conv_all_nth list_eq_iff_nth_eq)

lemma match_len_le: "match_len a b n \<le> n"
  by (induction n) auto

lemma match_len_agrees:
  "match_len a b n = m \<Longrightarrow> 0 < m \<Longrightarrow> slicesEqual (drop (length a - m) a) (take m b)"
  by (induction n) (auto split: if_splits)

lemma match_len_longest:
  "match_len a b n < m \<Longrightarrow> m \<le> n \<Longrightarrow> \<not> slicesEqual (drop (length a - m) a) (take m b)"
proof (induction n)
  case (Suc n)
  then show ?case by (cases "m = Suc n") (auto split: if_splits)
qed simp

text \<open>The overlap is the greatest number of lines, at most a hundred, such that the last lines of the one
  text read as the first lines of the other.\<close>

definition agree :: "string \<Rightarrow> string \<Rightarrow> nat \<Rightarrow> bool" where
  "agree stored capture n =
     (n \<le> length (plain_lines stored) \<and> n \<le> length (plain_lines capture) \<and>
      last_n n (plain_lines stored) = take n (plain_lines capture))"

lemma overlap_windows:
  fixes stored capture :: string
  defines "a \<equiv> map StripANSI (last_n 100 (splitLines stored))" and "b \<equiv> map StripANSI (take 100 (splitLines capture))"
  shows "overlap stored capture = match_len a b (min (length a) (length b))"
  by (simp add: overlap_def a_def b_def mergeOverlapWindow_def last_n_def Let_def)

lemma last_n_last_n: "n \<le> m \<Longrightarrow> last_n n (last_n m xs) = last_n n xs"
  by (cases "m \<le> length xs") (simp_all add: last_n_def)

lemma window_agrees:
  assumes "n \<le> 100" "n \<le> length (splitLines stored)" "n \<le> length (splitLines capture)"
  defines "a \<equiv> map StripANSI (last_n 100 (splitLines stored))" and "b \<equiv> map StripANSI (take 100 (splitLines capture))"
  shows "slicesEqual (drop (length a - n) a) (take n b) \<longleftrightarrow> agree stored capture n"
proof -
  have "map trim_eol (drop (length a - n) a) = last_n n (plain_lines stored)"
    using last_n_last_n [OF assms(1), of "splitLines stored"]
    by (simp add: a_def plain_lines_def last_n_def drop_map)
  moreover have "map trim_eol (take n b) = take n (plain_lines capture)"
    using assms(1) by (simp add: b_def plain_lines_def take_map min_absorb1)
  ultimately show ?thesis using assms(2,3) by (simp add: slicesEqual_map agree_def plain_lines_def)
qed

lemma overlap_longest:
  "overlap stored capture \<le> 100"
  "agree stored capture (overlap stored capture)"
  "overlap stored capture < n \<Longrightarrow> n \<le> 100 \<Longrightarrow> \<not> agree stored capture n"
proof -
  define a where "a = map StripANSI (last_n 100 (splitLines stored))"
  define b where "b = map StripANSI (take 100 (splitLines capture))"
  define ov where "ov = overlap stored capture"
  have ov: "ov = match_len a b (min (length a) (length b))" by (simp add: ov_def a_def b_def overlap_windows)
  have len: "length a = min 100 (length (splitLines stored))" "length b = min 100 (length (splitLines capture))"
    by (simp_all add: a_def b_def)
  have le: "ov \<le> min (length a) (length b)" unfolding ov by (rule match_len_le)
  then show 100: "overlap stored capture \<le> 100" using len by (simp add: ov_def)
  note w = window_agrees [of _ stored capture, folded a_def b_def]
  show "agree stored capture (overlap stored capture)"
  proof (cases "ov = 0")
    case True
    then show ?thesis by (simp add: agree_def last_n_def ov_def)
  next
    case False
    with match_len_agrees [OF ov [symmetric]] w [of ov] le len show ?thesis by (simp add: ov_def)
  qed
  show "\<not> agree stored capture n" if n: "overlap stored capture < n" "n \<le> 100"
  proof
    assume ag: "agree stored capture n"
    then have "n \<le> min (length a) (length b)" using n(2) len by (simp add: agree_def plain_lines_def)
    with match_len_longest [of a b "min (length a) (length b)" n] n(1) w [OF n(2)] ag ov len show False
      by (simp add: ov_def agree_def plain_lines_def)
  qed
qed

lemma splitLines_append_closed: "s = [] \<or> last s = newline \<Longrightarrow> splitLines (s @ t) = splitLines s @ splitLines t"
proof (induction s rule: lines_induct)
  case (open_end s)
  then have "s = []" using last_in_set by force
  then show ?case by simp
next
  case (line a b)
  then show ?case by (cases "b = []") (simp_all add: splitLines_line)
qed

lemma splitLines_drop: "splitLines (concat (drop n (splitLines s))) = drop n (splitLines s)"
proof (induction s arbitrary: n rule: lines_induct)
  case (open_end s)
  then show ?case by (cases n) (simp_all add: splitLines_open)
next
  case (line a b)
  then show ?case by (cases n) (simp_all add: splitLines_line)
qed

text \<open>When the stored text ends inside a line, the line break of the matched line of the capture is lost.\<close>

definition as_text :: "string list \<Rightarrow> string" where
  "as_text ls = concat (map (\<lambda>l. l @ [newline]) ls)"

lemma merge_glues_open_line:
  "MergeScrollback (as_text [''make''] @ ''$'') (as_text [''make'', ''$'', ''done'']) = as_text [''make'', ''$done'']"
  by code_simp

section \<open>The replay output\<close>

lemma last_n_append: "last_n k (xs @ ys) = last_n (k - length ys) xs @ last_n k ys"
  by (cases "length ys \<le> k") (simp_all add: last_n_def)

lemma replay_write_tail:
  assumes "ro_data out = last_n (ro_limit out) s"
  shows "ro_data (snd (replay_write out p)) = last_n (ro_limit out) (s @ p) \<and> ro_limit (snd (replay_write out p)) = ro_limit out"
proof (cases "ro_limit out \<le> length p")
  case True
  then show ?thesis by (simp add: replay_write_def last_n_append Let_def) (simp add: last_n_def)
next
  case False
  let ?o = "int (length (ro_data out)) + int (length p) - int (ro_limit out)"
  have "nat ?o = length (ro_data out) - (ro_limit out - length p)" using False by linarith
  then have "(if 0 < ?o then drop (nat ?o) (ro_data out) else ro_data out) = last_n (ro_limit out - length p) (ro_data out)"
    by (auto simp: last_n_def)
  also have "\<dots> = last_n (ro_limit out - length p) s" unfolding assms by (rule last_n_last_n) simp
  finally show ?thesis using False by (simp add: replay_write_def last_n_append Let_def)
qed

section \<open>Properties\<close>

text \<open>C26: A scrollback buffer keeps exactly the last lines of what was written to it. Whatever the
  operations and however the output was cut into pieces, a buffer for \<open>n\<close> lines holds the last \<open>n\<close>
  complete lines, in order and unchanged, followed by the line still open; the reported sizes are
  those of this text, and a seed counts only when it comes first. No operation panics.\<close>

theorem scrollback_keeps_last_lines:
  assumes "0 < n" and "NewRingBuffer n = Some rb0"
  shows "\<exists>rb. ring_run rb0 ops = Some rb \<and>
    Snapshot rb = concat (last_n (nat n) (closed_lines (taken [] ops))) @ open_line (taken [] ops) \<and>
    Lines rb = min (nat n) (length (closed_lines (taken [] ops))) \<and>
    ByteSize rb = length (Snapshot rb) \<and> suffix (Snapshot rb) (taken [] ops)"
proof -
  note new = new_ring [OF assms]
  let ?s = "taken [] ops"
  obtain rb where rb: "ring_run rb0 ops = Some rb" "ring_abs rb = foldl (feed (nat n)) ([], []) ?s"
    using ring_run_spec [of rb0 "[]" ops] new by auto
  have ab: "stored_lines rb = last_n (nat n) (closed_lines ?s)" "rb_partial rb = open_line ?s"
    using rb(2) foldl_feed [of "nat n" "[]" ?s] assms(1) by (simp_all add: ring_abs_def)
  have c: "rb_count rb = length (stored_lines rb)" by simp
  have snap: "Snapshot rb = concat (stored_lines rb) @ rb_partial rb" by (auto simp: Snapshot_def stored_lines_def)
  obtain u where "closed_lines ?s = u @ stored_lines rb" using suffix_last_n [of "nat n" "closed_lines ?s"] ab(1)
    by (auto simp: suffix_def)
  then have "concat (closed_lines ?s) @ open_line ?s = concat u @ Snapshot rb" using snap ab(2) by simp
  moreover have "concat (closed_lines ?s) @ open_line ?s = ?s" by (rule closed_then_open)
  ultimately have "suffix (Snapshot rb) ?s" by (metis suffixI)
  then show ?thesis using rb(1) snap ab c by (simp add: Lines_def ByteSize_Snapshot)
qed

theorem scrollback_keeps_last_lines_witness:
  "\<exists>rb. ring_run \<lparr>rb_lines = [[], []], rb_max = 2, rb_head = 0, rb_count = 0, rb_partial = []\<rparr>
      [OpSeed (as_text [''a'']), OpWrite ''b'', OpWrite (newline # as_text [''c''] @ ''d'')] = Some rb \<and>
    Snapshot rb = as_text [''b'', ''c''] @ ''d'' \<and> Lines rb = 2"
proof -
  have new: "NewRingBuffer 2 = Some \<lparr>rb_lines = [[], []], rb_max = 2, rb_head = 0, rb_count = 0, rb_partial = []\<rparr>" by code_simp
  let ?ops = "[OpSeed (as_text [''a'']), OpWrite ''b'', OpWrite (newline # as_text [''c''] @ ''d'')]"
  have "concat (last_n (nat 2) (closed_lines (taken [] ?ops))) @ open_line (taken [] ?ops) = as_text [''b'', ''c''] @ ''d''"
    "min (nat 2) (length (closed_lines (taken [] ?ops))) = 2" by code_simp+
  with scrollback_keeps_last_lines [OF _ new, of ?ops] show ?thesis by auto
qed

text \<open>The merge of the stored scrollback with a capture joins them at their longest overlap. The
  overlap is the greatest number of lines, up to a hundred, for which the end of the stored text and the
  start of the capture read the same without colours and line ends; the stored text is kept as it
  is, and exactly the overlapping lines of the capture are left out, or the reconnect marker is put
  between the two. If the stored text ends at a line end, the lines of the result are those of the
  stored text and the remaining ones of the capture.\<close>

lemma merge_joins_at_longest_overlap:
  assumes "stored \<noteq> []" and "capture \<noteq> []"
  shows "\<exists>n \<le> 100. agree stored capture n \<and> (\<forall>m. n < m \<and> m \<le> 100 \<longrightarrow> \<not> agree stored capture m) \<and>
    MergeScrollback stored capture = stored @ (if n = 0 then reconnect_marker else []) @ concat (drop n (splitLines capture)) \<and>
    (last stored = newline \<longrightarrow>
       splitLines (MergeScrollback stored capture) =
         splitLines stored @ (if n = 0 then [reconnect_marker] else []) @ drop n (splitLines capture))"
proof -
  let ?n = "overlap stored capture"
  have m: "MergeScrollback stored capture = stored @ (if ?n = 0 then reconnect_marker else []) @ concat (drop ?n (splitLines capture))"
    using assms by (simp add: MergeScrollback_def Let_def)
  have mk: "splitLines (reconnect_marker @ t) = reconnect_marker # splitLines t" for t
  proof -
    have "newline \<notin> set ''--- reconnected ---''" by code_simp
    from splitLines_line [OF this, of t] show ?thesis unfolding reconnect_marker_def by simp
  qed
  have "splitLines (MergeScrollback stored capture) =
      splitLines stored @ (if ?n = 0 then [reconnect_marker] else []) @ drop ?n (splitLines capture)"
    if "last stored = newline"
    unfolding m by (subst splitLines_append_closed) (simp_all add: that mk splitLines_drop)
  then show ?thesis using overlap_longest [of stored capture] m by blast
qed

end
