(* ===== verification/Net_Address.thy ===== *)
theory Net_Address
  imports LT_Prelude "HOL-Library.Word"
begin

unbundle bit_operations_syntax

text \<open>
  What the hub uses of the packages \<open>net\<close> and \<open>net/netip\<close>: an address is a slice of bytes (4 or 16 of
  them for a valid one), its textual form, the predicates on its class and prefixes. The parser
  follows \<open>netip.ParseAddr\<close>: dotted decimals without leading zeros, and groups of hexadecimal digits with
  at most one ellipsis and an optional trailing dotted form; \<open>net.ParseIP\<close> returns sixteen bytes for both.
\<close>

type_synonym byte = "8 word"
type_synonym ip = "byte list"

section \<open>Parsing\<close>

definition is_digit :: "char \<Rightarrow> bool" where
  "is_digit c = (48 \<le> byte_of c \<and> byte_of c \<le> 57)"

definition dec_value :: "string \<Rightarrow> nat" where
  "dec_value s = foldl (\<lambda>acc c. 10 * acc + (byte_of c - 48)) 0 s"

definition octet :: "string \<Rightarrow> byte option" where
  "octet s =
     (if s = [] \<or> \<not> list_all is_digit s \<or> (1 < length s \<and> dec_value (take 1 s) = 0) \<or> 255 < dec_value s then None
      else Some (of_nat (dec_value s)))"

fun octets :: "string list \<Rightarrow> byte list option" where
  "octets [] = Some []"
| "octets (s # ss) = (case octet s of None \<Rightarrow> None | Some b \<Rightarrow> map_option ((#) b) (octets ss))"

definition parseIPv4 :: "string \<Rightarrow> byte list option" where
  "parseIPv4 s = (let parts = split_on (CHR ''.'') s in if length parts = 4 then octets parts else None)"

definition hex_digit :: "char \<Rightarrow> int option" where
  "hex_digit c =
     (let b = of_char c
      in if 48 \<le> b \<and> b \<le> 57 then Some (b - 48)
         else if 97 \<le> b \<and> b \<le> 102 then Some (b - 87)
         else if 65 \<le> b \<and> b \<le> 70 then Some (b - 55)
         else None)"

definition hex_value :: "string \<Rightarrow> int" where
  "hex_value s = foldl (\<lambda>acc c. 16 * acc + (case hex_digit c of None \<Rightarrow> 0 | Some d \<Rightarrow> d)) 0 s"

text \<open>The loop over the groups: the bytes so far, the position of the ellipsis and the rest of the text.\<close>

lemma takeWhile_shortens: "takeWhile P s \<noteq> [] \<Longrightarrow> length (dropWhile P s) < length s"
  by (cases s) (auto simp: less_Suc_eq_le length_dropWhile_le split: if_splits)

function groups6 :: "byte list \<Rightarrow> nat option \<Rightarrow> string \<Rightarrow> (byte list \<times> nat option) option" where
  "groups6 bs ellipsis s =
     (if 16 \<le> length bs then None
      else
        (let h = takeWhile (\<lambda>c. hex_digit c \<noteq> None) s; r = dropWhile (\<lambda>c. hex_digit c \<noteq> None) s
         in if h = [] \<or> 4 < length h then None
            else if r \<noteq> [] \<and> hd r = CHR ''.'' then
              (if ellipsis = None \<and> length bs \<noteq> 12 then None
               else if 16 < length bs + 4 then None
               else map_option (\<lambda>v4. (bs @ v4, ellipsis)) (parseIPv4 s))
            else
              (let bs = bs @ [of_int (hex_value h div 256), of_int (hex_value h mod 256)]
               in if r = [] then Some (bs, ellipsis)
                  else if hd r \<noteq> CHR '':'' \<or> length r = 1 then None
                  else
                    (let r = tl r
                     in if hd r = CHR '':'' then
                          (if ellipsis \<noteq> None then None
                           else if tl r = [] then Some (bs, Some (length bs))
                           else groups6 bs (Some (length bs)) (tl r))
                        else groups6 bs ellipsis r))))"
  by pat_completeness auto
termination
  by (relation "measure (\<lambda>(_, _, s). length s)") (auto dest: takeWhile_shortens simp: less_imp_diff_less)

declare groups6.simps [simp del]

definition expand6 :: "byte list \<Rightarrow> nat option \<Rightarrow> byte list option" where
  "expand6 bs ellipsis =
     (case ellipsis of
        None \<Rightarrow> if length bs = 16 then Some bs else None
      | Some e \<Rightarrow> if length bs = 16 then None else Some (take e bs @ replicate (16 - length bs) 0 @ drop e bs))"

definition parseIPv6 :: "string \<Rightarrow> byte list option" where
  "parseIPv6 s =
     (if has_prefix s ''::'' then
        (let s = drop 2 s
         in if s = [] then Some (replicate 16 0)
            else case groups6 [] (Some 0) s of None \<Rightarrow> None | Some (bs, e) \<Rightarrow> expand6 bs e)
      else case groups6 [] None s of None \<Rightarrow> None | Some (bs, e) \<Rightarrow> expand6 bs e)"

definition v4InV6Prefix :: "byte list" where
  "v4InV6Prefix = replicate 10 0 @ [0xff, 0xff]"

text \<open>An address with a zone (a percent sign) is refused by \<open>net.ParseIP\<close>.\<close>

definition ParseIP :: "string \<Rightarrow> ip option" where
  "ParseIP s =
     (case find_first (\<lambda>c. c = CHR ''.'' \<or> c = CHR '':'' \<or> c = CHR ''%'') s of
        None \<Rightarrow> None
      | Some c \<Rightarrow>
          if c = CHR ''.'' then map_option (\<lambda>b. v4InV6Prefix @ b) (parseIPv4 s)
          else if c = CHR '':'' then (if CHR ''%'' \<in> set s then None else parseIPv6 s)
          else None)"

section \<open>Classes\<close>

definition To4 :: "ip \<Rightarrow> byte list option" where
  "To4 ip =
     (if length ip = 4 then Some ip
      else if length ip = 16 \<and> take 12 ip = v4InV6Prefix then Some (drop 12 ip)
      else None)"

definition ip_equal :: "ip \<Rightarrow> ip \<Rightarrow> bool" where
  "ip_equal a b =
     (if length a = length b then a = b
      else if length a = 4 \<and> length b = 16 then take 12 b = v4InV6Prefix \<and> a = drop 12 b
      else if length a = 16 \<and> length b = 4 then take 12 a = v4InV6Prefix \<and> drop 12 a = b
      else False)"

definition IPv4bcast :: ip where "IPv4bcast = v4InV6Prefix @ [255, 255, 255, 255]"
definition IPv4zero :: ip where "IPv4zero = v4InV6Prefix @ [0, 0, 0, 0]"
definition IPv6unspecified :: ip where "IPv6unspecified = replicate 16 0"
definition IPv6loopback :: ip where "IPv6loopback = replicate 15 0 @ [1]"

definition IsUnspecified :: "ip \<Rightarrow> bool" where
  "IsUnspecified ip = (ip_equal ip IPv4zero \<or> ip_equal ip IPv6unspecified)"

definition IsLoopback :: "ip \<Rightarrow> bool" where
  "IsLoopback ip = (case To4 ip of Some ip4 \<Rightarrow> ip4 ! 0 = 127 | None \<Rightarrow> ip_equal ip IPv6loopback)"

definition IsPrivate :: "ip \<Rightarrow> bool" where
  "IsPrivate ip =
     (case To4 ip of
        Some ip4 \<Rightarrow> ip4 ! 0 = 10 \<or> (ip4 ! 0 = 172 \<and> ip4 ! 1 AND 0xf0 = 16) \<or> (ip4 ! 0 = 192 \<and> ip4 ! 1 = 168)
      | None \<Rightarrow> length ip = 16 \<and> ip ! 0 AND 0xfe = 0xfc)"

definition IsMulticast :: "ip \<Rightarrow> bool" where
  "IsMulticast ip = (case To4 ip of Some ip4 \<Rightarrow> ip4 ! 0 AND 0xf0 = 0xe0 | None \<Rightarrow> length ip = 16 \<and> ip ! 0 = 0xff)"

definition IsLinkLocalUnicast :: "ip \<Rightarrow> bool" where
  "IsLinkLocalUnicast ip =
     (case To4 ip of
        Some ip4 \<Rightarrow> ip4 ! 0 = 169 \<and> ip4 ! 1 = 254
      | None \<Rightarrow> length ip = 16 \<and> ip ! 0 = 0xfe \<and> ip ! 1 AND 0xc0 = 0x80)"

definition IsLinkLocalMulticast :: "ip \<Rightarrow> bool" where
  "IsLinkLocalMulticast ip =
     (case To4 ip of
        Some ip4 \<Rightarrow> ip4 ! 0 = 224 \<and> ip4 ! 1 = 0 \<and> ip4 ! 2 = 0
      | None \<Rightarrow> length ip = 16 \<and> ip ! 0 = 0xff \<and> ip ! 1 AND 0x0f = 0x02)"

text \<open>\<open>netip.AddrFromSlice\<close> followed by \<open>Unmap\<close>.\<close>

definition unmapped :: "ip \<Rightarrow> ip option" where
  "unmapped ip =
     (if length ip \<noteq> 4 \<and> length ip \<noteq> 16 then None else Some (case To4 ip of Some ip4 \<Rightarrow> ip4 | None \<Rightarrow> ip))"

definition IsGlobalUnicast :: "ip \<Rightarrow> bool" where
  "IsGlobalUnicast a =
     (if a = [0, 0, 0, 0] \<or> a = [255, 255, 255, 255] then False
      else a \<noteq> IPv6unspecified \<and> \<not> IsLoopback a \<and> \<not> IsMulticast a \<and> \<not> IsLinkLocalUnicast a)"

section \<open>Prefixes\<close>

definition bytes_value :: "byte list \<Rightarrow> int" where
  "bytes_value bs = foldl (\<lambda>acc b. 256 * acc + uint b) 0 bs"

definition prefix_contains :: "byte list \<times> nat \<Rightarrow> ip \<Rightarrow> bool" where
  "prefix_contains = (\<lambda>(p, n) a.
     length a = length p \<and>
     bytes_value a div 2 ^ (8 * length p - n) = bytes_value p div 2 ^ (8 * length p - n))"

definition groups16 :: "int list \<Rightarrow> byte list" where
  "groups16 gs = concat (map (\<lambda>g. [of_int (g div 256), of_int (g mod 256)]) gs)"

section \<open>Textual form\<close>

definition hex_char :: "int \<Rightarrow> char" where
  "hex_char d = (if d < 10 then char_of (48 + d) else char_of (87 + d))"

function hex_string :: "int \<Rightarrow> string" where
  "hex_string n = (if n < 16 then [hex_char n] else hex_string (n div 16) @ [hex_char (n mod 16)])"
  by pat_completeness auto
termination by (relation "measure nat") auto

declare hex_string.simps [simp del]

definition string4 :: "byte list \<Rightarrow> string" where
  "string4 bs =
     itoa (unat (bs ! 0)) @ ''.'' @ itoa (unat (bs ! 1)) @ ''.'' @ itoa (unat (bs ! 2)) @ ''.'' @ itoa (unat (bs ! 3))"

definition group16 :: "byte list \<Rightarrow> nat \<Rightarrow> int" where
  "group16 bs i = 256 * uint (bs ! (2 * i)) + uint (bs ! (2 * i + 1))"

text \<open>The longest run of at least two zero groups, the first one of several.\<close>

definition zero_run :: "byte list \<Rightarrow> nat \<times> nat" where
  "zero_run bs =
     foldl (\<lambda>(zs, ze) i.
         let j = i + length (takeWhile (\<lambda>k. group16 bs k = 0) [i..<8])
         in if 2 \<le> j - i \<and> ze - zs < j - i then (i, j) else (zs, ze)) (255, 255) [0..<8]"

function string6_from :: "byte list \<Rightarrow> nat \<times> nat \<Rightarrow> nat \<Rightarrow> string" where
  "string6_from bs z i =
     (if 8 \<le> i then []
      else if i = fst z then
        ''::'' @ (if 8 \<le> snd z then [] else hex_string (group16 bs (snd z)) @ string6_from bs z (Suc (max i (snd z))))
      else (if 0 < i then '':'' else []) @ hex_string (group16 bs i) @ string6_from bs z (Suc i))"
  by pat_completeness auto
termination by (relation "measure (\<lambda>(_, _, i). 8 - i)") auto

declare string6_from.simps [simp del]

definition ip_string :: "ip \<Rightarrow> string" where
  "ip_string ip =
     (if ip = [] then ''<nil>''
      else if length ip \<noteq> 4 \<and> length ip \<noteq> 16 then ''?'' @ concat (map (\<lambda>b. hex_string (uint b div 16) @ hex_string (uint b mod 16)) ip)
      else case To4 ip of Some ip4 \<Rightarrow> string4 ip4 | None \<Rightarrow> string6_from ip (zero_run ip) 0)"

lemma parse_examples:
  "ParseIP ''127.0.0.1'' = Some (v4InV6Prefix @ [127, 0, 0, 1])"
  "ParseIP ''010.0.0.1'' = None"
  "ParseIP ''1.2.3'' = None"
  "ParseIP ''::1'' = Some IPv6loopback"
  "ParseIP ''::ffff:10.0.0.1'' = Some (v4InV6Prefix @ [10, 0, 0, 1])"
  "ParseIP ''fe80::1%eth0'' = None"
  "ParseIP ''2001:DB8::8:800:200c:417a'' = Some (groups16 [0x2001, 0xdb8, 0, 0, 8, 0x800, 0x200c, 0x417a])"
  "ParseIP ''1:2:3:4:5:6:7::8'' = None"
  by code_simp+

lemma string_examples:
  "ip_string (groups16 [0x2001, 0xdb8, 0, 0, 8, 0, 0, 0]) = ''2001:db8:0:0:8::''"
  "ip_string (v4InV6Prefix @ [192, 168, 0, 1]) = ''192.168.0.1''"
  "ip_string IPv6loopback = ''::1''"
  by code_simp+

end
