(* ===== verification/Outbound_Policy.thy ===== *)
theory Outbound_Policy
  imports Net_Address
begin

text \<open>
  The policy for outgoing connections (\<open>outbound.go\<close>, \<open>outbound_hosts.go\<close>, \<open>outbound_http.go\<close>, \<open>outbound_tcp.go\<close>,
  \<open>outbound_redirect.go\<close> and the environment helpers of \<open>command.go\<close> in \<open>internal/securityruntime\<close>, and
  \<open>internal/protocols/host_validation.go\<close>): which hosts may be named and which addresses may be dialled.

  The environment is a function from names to values. \<open>url.Parse\<close> is an argument that returns the parts the
  code reads. Every DNS query has an argument of its own, so two queries for one name may be answered
  differently; an answer is a list of addresses, \<open>None\<close> is an error and the empty address is \<open>nil\<close>. A
  dial returns the addresses it tried, in order, and the one it got a connection to; \<open>reaches\<close> says which
  addresses answer.
\<close>

section \<open>Settings\<close>

type_synonym env = "string \<Rightarrow> string option"

definition SetRuntimeEnvOverrides :: "(string \<times> string) list \<Rightarrow> (string \<times> string) list option" where
  "SetRuntimeEnvOverrides values =
     (let cloned = foldl (\<lambda>m (k, v). if trim_space k = [] then m else AList.update (trim_space k) (trim_space v) m) [] values
      in if cloned = [] then None else Some cloned)"

definition lookupEnv :: "(string \<times> string) list option \<Rightarrow> env \<Rightarrow> env" where
  "lookupEnv overrides os key =
     (case overrides of
        None \<Rightarrow> os key
      | Some values \<Rightarrow> (case map_of values key of Some v \<Rightarrow> Some v | None \<Rightarrow> os key))"

definition ParseBool :: "string \<Rightarrow> bool option" where
  "ParseBool s =
     (if s \<in> set [''1'', ''t'', ''T'', ''TRUE'', ''true'', ''True''] then Some True
      else if s \<in> set [''0'', ''f'', ''F'', ''FALSE'', ''false'', ''False''] then Some False
      else None)"

definition env_text :: "env \<Rightarrow> string \<Rightarrow> string" where
  "env_text env key = trim_space (case env key of None \<Rightarrow> [] | Some v \<Rightarrow> v)"

definition parseBoolEnv :: "env \<Rightarrow> string \<Rightarrow> bool \<Rightarrow> bool" where
  "parseBoolEnv env key fallback =
     (let raw = env_text env key
      in if raw = [] then fallback else case ParseBool raw of None \<Rightarrow> fallback | Some v \<Rightarrow> v)"

definition parseBoolEnvWithPresence :: "env \<Rightarrow> string \<Rightarrow> bool \<Rightarrow> bool \<times> bool" where
  "parseBoolEnvWithPresence env key fallback =
     (let raw = env_text env key
      in if raw = [] then (fallback, False)
         else case ParseBool raw of None \<Rightarrow> (fallback, env key \<noteq> None) | Some v \<Rightarrow> (v, env key \<noteq> None))"

definition parseCSVEnv :: "env \<Rightarrow> string \<Rightarrow> string list \<Rightarrow> string list" where
  "parseCSVEnv env key fallback =
     (let raw = env_text env key
      in if raw = [] then fallback
         else let out = filter (\<lambda>p. p \<noteq> []) (map trim_space (split_on (CHR '','') raw))
              in if out = [] then fallback else out)"

definition envOutboundAllowlistMode :: string where "envOutboundAllowlistMode = ''LABTETHER_OUTBOUND_ALLOWLIST_MODE''"
definition envOutboundAllowedHosts :: string where "envOutboundAllowedHosts = ''LABTETHER_OUTBOUND_ALLOWED_HOSTS''"
definition envOutboundAllowPrivate :: string where "envOutboundAllowPrivate = ''LABTETHER_OUTBOUND_ALLOW_PRIVATE''"
definition envOutboundAllowLoopback :: string where "envOutboundAllowLoopback = ''LABTETHER_OUTBOUND_ALLOW_LOOPBACK''"
definition envOutboundAllowLinkLocal :: string where "envOutboundAllowLinkLocal = ''LABTETHER_OUTBOUND_ALLOW_LINK_LOCAL''"
definition envOutboundAllowedSchemes :: string where "envOutboundAllowedSchemes = ''LABTETHER_OUTBOUND_ALLOWED_SCHEMES''"
definition envAllowInsecureTransport :: string where "envAllowInsecureTransport = ''LABTETHER_ALLOW_INSECURE_TRANSPORT''"

definition InsecureTransportAllowed :: "env \<Rightarrow> bool" where
  "InsecureTransportAllowed env = parseBoolEnv env envAllowInsecureTransport False"

definition containsStringFold :: "string list \<Rightarrow> string \<Rightarrow> bool" where
  "containsStringFold values candidate = list_ex (\<lambda>v. equal_fold (trim_space v) candidate) values"

definition defaultAllowedOutboundSchemes :: "string list" where
  "defaultAllowedOutboundSchemes = [''https'', ''wss'']"

definition effectiveAllowedOutboundSchemes :: "env \<Rightarrow> string list" where
  "effectiveAllowedOutboundSchemes env =
     (let schemes = parseCSVEnv env envOutboundAllowedSchemes defaultAllowedOutboundSchemes
      in if parseBoolEnv env envAllowInsecureTransport False then
           (let schemes = (if \<not> containsStringFold schemes ''http'' then schemes @ [''http''] else schemes)
            in if \<not> containsStringFold schemes ''ws'' then schemes @ [''ws''] else schemes)
         else schemes)"

definition defaultAllowPrivateForScheme :: "string \<Rightarrow> bool" where
  "defaultAllowPrivateForScheme scheme = (equal_fold (trim_space scheme) ''https'' \<or> equal_fold (trim_space scheme) ''wss'')"

definition resolvedOutboundAllowPrivate :: "env \<Rightarrow> string \<Rightarrow> bool" where
  "resolvedOutboundAllowPrivate env scheme =
     (case parseBoolEnvWithPresence env envOutboundAllowPrivate False of
        (v, present) \<Rightarrow> if present then v else defaultAllowPrivateForScheme scheme)"

definition resolvedOutboundAllowPrivateTCP :: "env \<Rightarrow> bool" where
  "resolvedOutboundAllowPrivateTCP env = parseBoolEnv env envOutboundAllowPrivate False"

definition resolvedOutboundAllowPrivateWSS :: "env \<Rightarrow> bool" where
  "resolvedOutboundAllowPrivateWSS env = (resolvedOutboundAllowPrivate env ''wss'' \<and> resolvedOutboundAllowPrivateTCP env)"

section \<open>Hosts\<close>

record url =
  u_scheme :: string
  u_host :: string
  u_port :: string
  u_user :: bool

definition normalizeHostname :: "string \<Rightarrow> string" where
  "normalizeHostname v = trim_suffix (trim_suffix (trim_prefix (trim_space (to_lower v)) ''['') '']'') ''.''"

definition SplitHostPort :: "string \<Rightarrow> (string \<times> string) option" where
  "SplitHostPort s =
     (if CHR '':'' \<notin> set s then None
      else
        (let port = after_last (\<lambda>c. c = CHR '':'') s; i = length s - length port - 1
         in if hd s = CHR ''['' then
              (case index_of (CHR '']'') s of
                 None \<Rightarrow> None
               | Some e \<Rightarrow>
                   if e + 1 \<noteq> i then None
                   else if CHR ''['' \<in> set (drop 1 s) \<or> CHR '']'' \<in> set (drop (e + 1) s) then None
                   else Some (take (e - 1) (drop 1 s), port))
            else
              (let host = take i s
               in if CHR '':'' \<in> set host \<or> CHR ''['' \<in> set s \<or> CHR '']'' \<in> set s then None else Some (host, port))))"

definition ParseCIDR :: "string \<Rightarrow> (ip \<times> nat) option" where
  "ParseCIDR s =
     (case index_of (CHR ''/'') s of
        None \<Rightarrow> None
      | Some i \<Rightarrow>
          (let addr = take i s; mask = drop (i + 1) s; bits = (if CHR '':'' \<in> set addr then 128 else 32)
           in case ParseIP addr of
                None \<Rightarrow> None
              | Some ip \<Rightarrow>
                  if mask = [] \<or> \<not> list_all is_digit mask \<or> bits < dec_value mask then None
                  else Some (ip, dec_value mask + (128 - bits))))"

text \<open>\<open>IPNet.Contains\<close>, on sixteen bytes and the length of the prefix in them. A network inside the
  mapped range holds four-byte addresses only.\<close>

definition cidr_contains :: "ip \<times> nat \<Rightarrow> ip \<Rightarrow> bool" where
  "cidr_contains = (\<lambda>(base, n) ip.
     if take 12 base = v4InV6Prefix \<and> 96 \<le> n
     then (case To4 ip of None \<Rightarrow> False | Some ip4 \<Rightarrow> prefix_contains (drop 12 base, n - 96) ip4)
     else To4 ip = None \<and> prefix_contains (base, n) ip)"

definition parseHostPattern :: "(string \<Rightarrow> url option) \<Rightarrow> string \<Rightarrow> string" where
  "parseHostPattern parse_url v =
     (let trimmed = trim_space (to_lower v)
      in if trimmed = [] then []
         else
           (let trimmed = (if contains trimmed ''://'' then
                             (case parse_url trimmed of None \<Rightarrow> trimmed | Some u \<Rightarrow> u_host u) else trimmed);
                trimmed = (case SplitHostPort trimmed of None \<Rightarrow> trimmed | Some (host, _) \<Rightarrow> host)
            in if contains trimmed ''/'' \<and> ParseCIDR trimmed \<noteq> None then trimmed else normalizeHostname trimmed))"

definition parseAllowedHostPatterns :: "(string \<Rightarrow> url option) \<Rightarrow> env \<Rightarrow> string list" where
  "parseAllowedHostPatterns parse_url env =
     filter (\<lambda>p. p \<noteq> []) (map (parseHostPattern parse_url) (parseCSVEnv env envOutboundAllowedHosts []))"

definition hostMatchesPattern :: "string \<Rightarrow> string \<Rightarrow> bool" where
  "hostMatchesPattern host pattern =
     (let host = normalizeHostname host
      in if host = [] \<or> pattern = [] then False
         else if contains pattern ''/'' then
           (case ParseIP host of
              None \<Rightarrow> False
            | Some ip \<Rightarrow> (case ParseCIDR pattern of None \<Rightarrow> False | Some cidr \<Rightarrow> cidr_contains cidr ip))
         else if has_prefix pattern ''*.'' then
           (let suffix = trim_prefix pattern ''*.'' in if suffix = [] then False else has_suffix host (''.'' @ suffix))
         else equal_fold host pattern)"

definition privateHostnameSuffixes :: "string list" where
  "privateHostnameSuffixes = [''.local'', ''.lan'', ''.home'', ''.internal'', ''.home.arpa'']"

definition isLikelyPrivateHostname :: "string \<Rightarrow> bool" where
  "isLikelyPrivateHostname host =
     (if host = [] then False
      else if \<not> contains host ''.'' then True
      else list_ex (has_suffix host) privateHostnameSuffixes)"

section \<open>Addresses\<close>

definition isPrivateIPAddress :: "ip \<Rightarrow> bool" where
  "isPrivateIPAddress ip = (if ip = [] then False else IsPrivate ip)"

definition sharedAddressSpacePrefix :: "byte list \<times> nat" where
  "sharedAddressSpacePrefix = ([100, 64, 0, 0], 10)"

definition nonPublicSpecialPrefixes :: "(byte list \<times> nat) list" where
  "nonPublicSpecialPrefixes =
     [([0, 0, 0, 0], 8), sharedAddressSpacePrefix, ([192, 0, 0, 0], 24), ([192, 0, 2, 0], 24), ([192, 88, 99, 0], 24),
      ([198, 18, 0, 0], 15), ([198, 51, 100, 0], 24), ([203, 0, 113, 0], 24), ([240, 0, 0, 0], 4),
      (groups16 [0x64, 0xff9b, 0, 0, 0, 0, 0, 0], 96), (groups16 [0x64, 0xff9b, 1, 0, 0, 0, 0, 0], 48),
      (groups16 [0x100, 0, 0, 0, 0, 0, 0, 0], 64), (groups16 [0x2001, 0, 0, 0, 0, 0, 0, 0], 23),
      (groups16 [0x2001, 0xdb8, 0, 0, 0, 0, 0, 0], 32), (groups16 [0x2002, 0, 0, 0, 0, 0, 0, 0], 16),
      (groups16 [0x3fff, 0, 0, 0, 0, 0, 0, 0], 20), (groups16 [0x5f00, 0, 0, 0, 0, 0, 0, 0], 16),
      (groups16 [0xfec0, 0, 0, 0, 0, 0, 0, 0], 10)]"

definition isPublicInternetIPAddress :: "ip \<Rightarrow> bool" where
  "isPublicInternetIPAddress ip =
     (case unmapped ip of
        None \<Rightarrow> False
      | Some addr \<Rightarrow>
          if \<not> IsGlobalUnicast addr \<or> IsPrivate addr then False
          else \<not> list_ex (\<lambda>p. prefix_contains p addr) nonPublicSpecialPrefixes)"

definition isPermittedPrivateIPAddress :: "ip \<Rightarrow> bool" where
  "isPermittedPrivateIPAddress ip =
     (case unmapped ip of None \<Rightarrow> False | Some addr \<Rightarrow> IsPrivate addr \<or> prefix_contains sharedAddressSpacePrefix addr)"

datatype out_error =
  HostRequired | NotAllowlisted | LoopbackHost | LinkLocalHost | PrivateHost | InvalidAddress | UnspecifiedAddress
| MulticastAddress | LoopbackAddress | LinkLocalAddress | PrivateAddress | NonPublicAddress | LookupFailed | NoAddress
| InvalidPort | InvalidHost string | DialFailed | BadAddress | NetworkNotAllowed
| UrlRequired | InvalidUrl | UrlNotAbsolute | UrlHostRequired | UrlCredentials | InsecureScheme | SchemeNotAllowed
| OriginRequired | SchemesDiffer | NoDefaultPort | OriginNotAllowed | CrossOriginRedirect | RedirectBody

definition validateResolvedOutboundIP :: "ip \<Rightarrow> bool \<Rightarrow> bool \<Rightarrow> bool \<Rightarrow> out_error option" where
  "validateResolvedOutboundIP ip allowLoopback allowPrivate allowLinkLocal =
     (if ip = [] then Some InvalidAddress
      else if IsUnspecified ip then Some UnspecifiedAddress
      else if IsMulticast ip \<or> ip_equal ip IPv4bcast then Some MulticastAddress
      else if IsLoopback ip \<and> \<not> allowLoopback then Some LoopbackAddress
      else if IsLinkLocalUnicast ip \<and> \<not> allowLinkLocal then Some LinkLocalAddress
      else if isPrivateIPAddress ip \<and> \<not> allowPrivate then Some PrivateAddress
      else None)"

definition validateRestrictedResolvedIP :: "ip \<Rightarrow> bool \<Rightarrow> bool \<Rightarrow> bool \<Rightarrow> bool \<Rightarrow> out_error option" where
  "validateRestrictedResolvedIP ip allowLoopback allowPrivate allowLinkLocal requirePublic =
     (case validateResolvedOutboundIP ip allowLoopback allowPrivate allowLinkLocal of
        Some e \<Rightarrow> Some e
      | None \<Rightarrow>
          if \<not> requirePublic \<or> isPublicInternetIPAddress ip \<or> (IsLoopback ip \<and> allowLoopback) \<or>
             (IsLinkLocalUnicast ip \<and> allowLinkLocal) then None
          else if allowPrivate \<and> isPermittedPrivateIPAddress ip then None
          else Some NonPublicAddress)"

fun first_error :: "('a \<Rightarrow> out_error option) \<Rightarrow> 'a list \<Rightarrow> out_error option" where
  "first_error f [] = None"
| "first_error f (x # xs) = (case f x of Some e \<Rightarrow> Some e | None \<Rightarrow> first_error f xs)"

section \<open>Validation by name\<close>

type_synonym dns = "string \<Rightarrow> ip list option"

definition resolvedHostRisk :: "dns \<Rightarrow> string \<Rightarrow> (bool \<times> bool \<times> bool) option" where
  "resolvedHostRisk lookupIPAddrs host =
     (let host = normalizeHostname host
      in if host = [] then None
         else case lookupIPAddrs host of
                None \<Rightarrow> None
              | Some [] \<Rightarrow> None
              | Some addrs \<Rightarrow>
                  Some (foldl (\<lambda>(lo, pr, ll) ip.
                          if ip = [] then (lo, pr, ll)
                          else if IsLoopback ip then (True, pr, ll)
                          else if IsLinkLocalUnicast ip then (lo, pr, True)
                          else if isPrivateIPAddress ip then (lo, True, ll)
                          else (lo, pr, ll)) (False, False, False) addrs))"

definition hostRiskProfile :: "dns \<Rightarrow> string \<Rightarrow> bool \<times> bool \<times> bool" where
  "hostRiskProfile lookupIPAddrs host =
     (case ParseIP host of
        Some ip \<Rightarrow>
          if IsLoopback ip then (True, False, False)
          else if IsLinkLocalUnicast ip then (False, False, True)
          else (False, isPrivateIPAddress ip, False)
      | None \<Rightarrow>
          if equal_fold host ''localhost'' then (True, False, False)
          else case resolvedHostRisk lookupIPAddrs host of
                 Some risk \<Rightarrow> risk
               | None \<Rightarrow> (False, isLikelyPrivateHostname host, False))"

definition validateResolvedOutboundHost :: "dns \<Rightarrow> string \<Rightarrow> bool \<Rightarrow> bool \<Rightarrow> bool \<Rightarrow> out_error option" where
  "validateResolvedOutboundHost lookupIP host allowLoopback allowPrivate allowLinkLocal =
     (case ParseIP host of
        Some ip \<Rightarrow> validateResolvedOutboundIP ip allowLoopback allowPrivate allowLinkLocal
      | None \<Rightarrow>
          (case lookupIP host of
             None \<Rightarrow> Some LookupFailed
           | Some ips \<Rightarrow>
               if length ips = 0 then Some NoAddress
               else first_error (\<lambda>ip. validateResolvedOutboundIP ip allowLoopback allowPrivate allowLinkLocal) ips))"

definition allowlisted :: "(string \<Rightarrow> url option) \<Rightarrow> env \<Rightarrow> string \<Rightarrow> bool" where
  "allowlisted parse_url env host = list_ex (hostMatchesPattern host) (parseAllowedHostPatterns parse_url env)"

definition validateOutboundHostWithPolicy ::
    "(string \<Rightarrow> url option) \<Rightarrow> env \<Rightarrow> dns \<Rightarrow> dns \<Rightarrow> string \<Rightarrow> bool \<Rightarrow> bool \<Rightarrow> bool \<Rightarrow> bool \<Rightarrow> out_error option" where
  "validateOutboundHostWithPolicy parse_url env lookupIPAddrs lookupIP host enforceAllowlist allowPrivate allowLoopback allowLinkLocal =
     (let normalized = normalizeHostname host
      in if normalized = [] then Some HostRequired
         else if enforceAllowlist \<and> \<not> allowlisted parse_url env normalized then Some NotAllowlisted
         else case hostRiskProfile lookupIPAddrs normalized of
                (isLoopbackHost, isPrivateHost, isLinkLocalHost) \<Rightarrow>
                  if isLoopbackHost then (if \<not> allowLoopback then Some LoopbackHost else None)
                  else if isLinkLocalHost then (if \<not> allowLinkLocal then Some LinkLocalHost else None)
                  else if isPrivateHost then (if \<not> allowPrivate then Some PrivateHost else None)
                  else validateResolvedOutboundHost lookupIP normalized allowLoopback allowPrivate allowLinkLocal)"

definition validateOutboundHost :: "(string \<Rightarrow> url option) \<Rightarrow> env \<Rightarrow> dns \<Rightarrow> dns \<Rightarrow> string \<Rightarrow> out_error option" where
  "validateOutboundHost parse_url env lookupIPAddrs lookupIP host =
     validateOutboundHostWithPolicy parse_url env lookupIPAddrs lookupIP host
       (parseBoolEnv env envOutboundAllowlistMode False) (resolvedOutboundAllowPrivateTCP env)
       (parseBoolEnv env envOutboundAllowLoopback False) (parseBoolEnv env envOutboundAllowLinkLocal False)"

definition ValidateOutboundURL ::
    "(string \<Rightarrow> url option) \<Rightarrow> env \<Rightarrow> dns \<Rightarrow> dns \<Rightarrow> string \<Rightarrow> (out_error, url) res" where
  "ValidateOutboundURL parse_url env lookupIPAddrs lookupIP rawURL =
     (let trimmed = trim_space rawURL
      in if trimmed = [] then Inl UrlRequired
         else case parse_url trimmed of
                None \<Rightarrow> Inl InvalidUrl
              | Some parsed \<Rightarrow>
                  if u_scheme parsed = [] then Inl UrlNotAbsolute
                  else if trim_space (u_host parsed) = [] then Inl UrlHostRequired
                  else if u_user parsed then Inl UrlCredentials
                  else
                    (let scheme = to_lower (trim_space (u_scheme parsed))
                     in if (scheme = ''http'' \<or> scheme = ''ws'') \<and> \<not> parseBoolEnv env envAllowInsecureTransport False
                        then Inl InsecureScheme
                        else if scheme = [] \<or> scheme \<notin> set (map to_lower (effectiveAllowedOutboundSchemes env))
                        then Inl SchemeNotAllowed
                        else case validateOutboundHostWithPolicy parse_url env lookupIPAddrs lookupIP (u_host parsed)
                                    (parseBoolEnv env envOutboundAllowlistMode False) (resolvedOutboundAllowPrivate env scheme)
                                    (parseBoolEnv env envOutboundAllowLoopback False) (parseBoolEnv env envOutboundAllowLinkLocal False) of
                               Some e \<Rightarrow> Inl e
                             | None \<Rightarrow> Inr parsed))"

definition valid_port :: "int \<Rightarrow> bool" where
  "valid_port port = (\<not> (port \<le> 0 \<or> 65535 < port))"

definition ValidateOutboundDialTarget :: "(string \<Rightarrow> url option) \<Rightarrow> env \<Rightarrow> dns \<Rightarrow> dns \<Rightarrow> string \<Rightarrow> int \<Rightarrow> out_error option" where
  "ValidateOutboundDialTarget parse_url env lookupIPAddrs lookupIP host port =
     (if trim_space host = [] then Some HostRequired
      else if \<not> valid_port port then Some InvalidPort
      else validateOutboundHost parse_url env lookupIPAddrs lookupIP host)"

definition label_error :: "string \<Rightarrow> out_error option" where
  "label_error label =
     (if label = [] \<or> 63 < length label \<or> hd label = CHR ''-'' \<or> last label = CHR ''-''
      then Some (InvalidHost ''invalid hostname label'')
      else if list_ex (\<lambda>c. (byte_of c < 97 \<or> 122 < byte_of c) \<and> (byte_of c < 48 \<or> 57 < byte_of c) \<and> c \<noteq> CHR ''-'') label
      then Some (InvalidHost ''invalid hostname character'')
      else None)"

definition CanonicalizeOutboundHost :: "string \<Rightarrow> (out_error, string) res" where
  "CanonicalizeOutboundHost raw =
     (let host = trim_space raw
      in if host = [] then Inl HostRequired
         else if 253 < length host then Inl (InvalidHost ''host too long (max 253 characters)'')
         else if list_ex (\<lambda>c. byte_of c \<le> 32 \<or> byte_of c = 127 \<or> 127 < byte_of c) host
         then Inl (InvalidHost ''host contains unsupported characters'')
         else if contains host ''://'' \<or> list_ex (\<lambda>c. c \<in> set [CHR ''/'', char_of (92 :: nat), CHR ''@'', CHR ''?'', CHR ''#'']) host
         then Inl (InvalidHost ''host must not contain a URL, userinfo, path, query, or fragment'')
         else if has_prefix host ''['' \<or> has_suffix host '']'' then
           (if \<not> has_prefix host ''['' \<or> \<not> has_suffix host '']'' \<or> length host < 3 then Inl (InvalidHost ''invalid bracketed host'')
            else case ParseIP (butlast (tl host)) of
                   None \<Rightarrow> Inl (InvalidHost ''brackets are only valid around an IPv6 literal'')
                 | Some ip \<Rightarrow>
                     if To4 ip \<noteq> None then Inl (InvalidHost ''brackets are only valid around an IPv6 literal'')
                     else Inr (to_lower (ip_string ip)))
         else if CHR ''['' \<in> set host \<or> CHR '']'' \<in> set host then Inl (InvalidHost ''invalid bracketed host'')
         else
           (let host = trim_suffix (to_lower host) ''.''
            in if host = [] then Inl HostRequired
               else case ParseIP host of
                      Some ip \<Rightarrow> Inr (to_lower (ip_string ip))
                    | None \<Rightarrow>
                        if CHR '':'' \<in> set host then Inl (InvalidHost ''host must not include a port or malformed IPv6 literal'')
                        else case first_error label_error (split_on (CHR ''.'') host) of Some e \<Rightarrow> Inl e | None \<Rightarrow> Inr host))"

definition ValidateOutboundEndpoint ::
    "(string \<Rightarrow> url option) \<Rightarrow> env \<Rightarrow> dns \<Rightarrow> dns \<Rightarrow> string \<Rightarrow> int \<Rightarrow> (out_error, string \<times> int) res" where
  "ValidateOutboundEndpoint parse_url env lookupIPAddrs lookupIP rawHost port =
     (case CanonicalizeOutboundHost rawHost of
        Inl e \<Rightarrow> Inl e
      | Inr host \<Rightarrow>
          (case ValidateOutboundDialTarget parse_url env lookupIPAddrs lookupIP host port of
             Some e \<Rightarrow> Inl e
           | None \<Rightarrow> Inr (host, port)))"

definition validateRestrictedOutboundHost :: "dns \<Rightarrow> string \<Rightarrow> bool \<Rightarrow> bool \<Rightarrow> bool \<Rightarrow> out_error option" where
  "validateRestrictedOutboundHost lookupIP host allowLoopback allowPrivate allowLinkLocal =
     (let normalized = normalizeHostname host
      in if normalized = [] then Some HostRequired
         else case ParseIP normalized of
                Some ip \<Rightarrow> validateRestrictedResolvedIP ip allowLoopback allowPrivate allowLinkLocal True
              | None \<Rightarrow>
                  (case lookupIP normalized of
                     None \<Rightarrow> Some LookupFailed
                   | Some ips \<Rightarrow>
                       if length ips = 0 then Some NoAddress
                       else first_error (\<lambda>ip. validateRestrictedResolvedIP ip allowLoopback allowPrivate allowLinkLocal True) ips))"

section \<open>Dialling\<close>

fun try_dial :: "(ip \<Rightarrow> bool) \<Rightarrow> ip list \<Rightarrow> ip list \<times> ip option" where
  "try_dial reaches [] = ([], None)"
| "try_dial reaches (a # as) =
     (if reaches a then ([a], Some a) else case try_dial reaches as of (tried, r) \<Rightarrow> (a # tried, r))"

definition dialed :: "ip list \<times> ip option \<Rightarrow> ip list \<times> (out_error, ip) res" where
  "dialed = (\<lambda>(tried, r). (tried, case r of None \<Rightarrow> Inl DialFailed | Some a \<Rightarrow> Inr a))"

definition dialOutboundValidated ::
    "(ip \<Rightarrow> bool) \<Rightarrow> dns \<Rightarrow> string \<Rightarrow> bool \<Rightarrow> bool \<Rightarrow> bool \<Rightarrow> bool \<Rightarrow> ip list \<times> (out_error, ip) res" where
  "dialOutboundValidated reaches lookup address allowLoopback allowPrivate allowLinkLocal requirePublic =
     (case SplitHostPort address of
        None \<Rightarrow> ([], Inl BadAddress)
      | Some (host, port) \<Rightarrow>
          (let host = normalizeHostname host;
               check = (\<lambda>ip. validateRestrictedResolvedIP ip allowLoopback allowPrivate allowLinkLocal requirePublic)
           in if host = [] then ([], Inl HostRequired)
              else case ParseIP host of
                     Some ip \<Rightarrow> (case check ip of Some e \<Rightarrow> ([], Inl e) | None \<Rightarrow> dialed (try_dial reaches [ip]))
                   | None \<Rightarrow>
                       (case lookup host of
                          None \<Rightarrow> ([], Inl LookupFailed)
                        | Some addrs \<Rightarrow>
                            if length addrs = 0 then ([], Inl NoAddress)
                            else case first_error check addrs of
                                   Some e \<Rightarrow> ([], Inl e)
                                 | None \<Rightarrow> dialed (try_dial reaches addrs))))"

record address_policy =
  ap_private :: bool
  ap_loopback :: bool
  ap_link_local :: bool

text \<open>The \<open>DialContext\<close> of \<open>newSecureOutboundTransport\<close>.\<close>

definition transport_dial ::
    "env \<Rightarrow> (ip \<Rightarrow> bool) \<Rightarrow> dns \<Rightarrow> string \<Rightarrow> address_policy option \<Rightarrow> string \<Rightarrow> ip list \<times> (out_error, ip) res" where
  "transport_dial env reaches lookup scheme policy address =
     (let allowPrivate = resolvedOutboundAllowPrivate env scheme;
          allowLoopback = parseBoolEnv env envOutboundAllowLoopback False;
          allowLinkLocal = parseBoolEnv env envOutboundAllowLinkLocal False
      in case policy of
           None \<Rightarrow> dialOutboundValidated reaches lookup address allowLoopback allowPrivate allowLinkLocal False
         | Some p \<Rightarrow>
             dialOutboundValidated reaches lookup address (allowLoopback \<and> ap_loopback p) (allowPrivate \<and> ap_private p)
               (allowLinkLocal \<and> ap_link_local p) True)"

text \<open>The checks that \<open>DialOutboundTCPContext\<close> and \<open>ResolveOutboundTCPHost\<close> share.\<close>

definition tcp_name_check :: "(string \<Rightarrow> url option) \<Rightarrow> env \<Rightarrow> string \<Rightarrow> out_error option" where
  "tcp_name_check parse_url env host =
     (if parseBoolEnv env envOutboundAllowlistMode False \<and> \<not> allowlisted parse_url env host then Some NotAllowlisted
      else if equal_fold host ''localhost'' \<and> \<not> parseBoolEnv env envOutboundAllowLoopback False then Some LoopbackHost
      else if isLikelyPrivateHostname host \<and> ParseIP host = None \<and> \<not> parseBoolEnv env envOutboundAllowPrivate False
      then Some PrivateHost
      else None)"

definition tcp_address_check :: "env \<Rightarrow> ip \<Rightarrow> out_error option" where
  "tcp_address_check env ip =
     validateResolvedOutboundIP ip (parseBoolEnv env envOutboundAllowLoopback False)
       (parseBoolEnv env envOutboundAllowPrivate False) (parseBoolEnv env envOutboundAllowLinkLocal False)"

definition DialOutboundTCPContext ::
    "(string \<Rightarrow> url option) \<Rightarrow> env \<Rightarrow> (ip \<Rightarrow> bool) \<Rightarrow> dns \<Rightarrow> string \<Rightarrow> int \<Rightarrow> ip list \<times> (out_error, ip) res" where
  "DialOutboundTCPContext parse_url env reaches lookupIPAddrs host port =
     (let host = normalizeHostname host
      in if host = [] then ([], Inl HostRequired)
         else if \<not> valid_port port then ([], Inl InvalidPort)
         else case tcp_name_check parse_url env host of
                Some e \<Rightarrow> ([], Inl e)
              | None \<Rightarrow>
                  (case ParseIP host of
                     Some ip \<Rightarrow> (case tcp_address_check env ip of Some e \<Rightarrow> ([], Inl e) | None \<Rightarrow> dialed (try_dial reaches [ip]))
                   | None \<Rightarrow>
                       (case lookupIPAddrs host of
                          None \<Rightarrow> ([], Inl LookupFailed)
                        | Some addrs \<Rightarrow>
                            if length addrs = 0 then ([], Inl NoAddress)
                            else case first_error (tcp_address_check env) addrs of
                                   Some e \<Rightarrow> ([], Inl e)
                                 | None \<Rightarrow> dialed (try_dial reaches (filter (\<lambda>a. a \<noteq> []) addrs)))))"

definition ResolveOutboundTCPHost ::
    "(string \<Rightarrow> url option) \<Rightarrow> env \<Rightarrow> dns \<Rightarrow> string \<Rightarrow> int \<Rightarrow> (out_error, string) res" where
  "ResolveOutboundTCPHost parse_url env lookupIPAddrs rawHost port =
     (case CanonicalizeOutboundHost rawHost of
        Inl e \<Rightarrow> Inl e
      | Inr host \<Rightarrow>
          if \<not> valid_port port then Inl InvalidPort
          else case tcp_name_check parse_url env host of
                 Some e \<Rightarrow> Inl e
               | None \<Rightarrow>
                   (case ParseIP host of
                      Some ip \<Rightarrow> (case tcp_address_check env ip of Some e \<Rightarrow> Inl e | None \<Rightarrow> Inr (ip_string ip))
                    | None \<Rightarrow>
                        (case lookupIPAddrs host of
                           None \<Rightarrow> Inl LookupFailed
                         | Some addrs \<Rightarrow>
                             if length addrs = 0 then Inl NoAddress
                             else case first_error (tcp_address_check env) addrs of
                                    Some e \<Rightarrow> Inl e
                                  | None \<Rightarrow>
                                      (case find_first (\<lambda>a. a \<noteq> []) addrs of None \<Rightarrow> Inl NoAddress | Some a \<Rightarrow> Inr (ip_string a)))))"

section \<open>Manual devices\<close>

definition validateManualDeviceIP :: "ip \<Rightarrow> out_error option" where
  "validateManualDeviceIP ip =
     (if ip = [] then Some InvalidAddress
      else if IsLoopback ip then Some LoopbackAddress
      else if IsUnspecified ip then Some UnspecifiedAddress
      else if ip_equal ip IPv4bcast then Some MulticastAddress
      else if IsMulticast ip then Some MulticastAddress
      else if IsLinkLocalUnicast ip \<or> IsLinkLocalMulticast ip then Some LinkLocalAddress
      else None)"

definition ValidateManualDeviceHost :: "string \<Rightarrow> out_error option" where
  "ValidateManualDeviceHost host =
     (let host = trim_space host
      in if host = [] then Some HostRequired
         else if 253 < length host then Some (InvalidHost ''host too long (max 253 characters)'')
         else if list_ex (\<lambda>c. byte_of c \<in> {32, 9, 10, 13}) host then Some (InvalidHost ''host contains whitespace'')
         else if equal_fold host ''localhost'' then Some LoopbackHost
         else case ParseIP host of None \<Rightarrow> None | Some ip \<Rightarrow> validateManualDeviceIP ip)"

fun try_manual :: "(ip \<Rightarrow> bool) \<Rightarrow> ip list \<Rightarrow> ip list \<times> (out_error, ip) res" where
  "try_manual reaches [] = ([], Inl DialFailed)"
| "try_manual reaches (a # as) =
     (case validateManualDeviceIP a of
        Some e \<Rightarrow> ([], Inl e)
      | None \<Rightarrow> if reaches a then ([a], Inr a) else case try_manual reaches as of (tried, r) \<Rightarrow> (a # tried, r))"

definition DialManualDeviceTCPTimeout ::
    "(ip \<Rightarrow> bool) \<Rightarrow> dns \<Rightarrow> string \<Rightarrow> int \<Rightarrow> ip list \<times> (out_error, ip) res" where
  "DialManualDeviceTCPTimeout reaches lookup host port =
     (let host = trim_space host
      in case ValidateManualDeviceHost host of
           Some e \<Rightarrow> ([], Inl e)
         | None \<Rightarrow>
             if \<not> valid_port port then ([], Inl InvalidPort)
             else case ParseIP host of
                    Some ip \<Rightarrow> dialed (try_dial reaches [ip])
                  | None \<Rightarrow>
                      (case lookup host of
                         None \<Rightarrow> ([], Inl LookupFailed)
                       | Some addrs \<Rightarrow> if length addrs = 0 then ([], Inl NoAddress) else try_manual reaches addrs))"

section \<open>HTTP clients\<close>

definition atoi :: "string \<Rightarrow> int option" where
  "atoi s =
     (let digits = (if s \<noteq> [] \<and> (hd s = CHR ''+'' \<or> hd s = CHR ''-'') then tl s else s);
          v = foldl (\<lambda>acc c. 10 * acc + (of_char c - 48)) (0 :: int) digits;
          v = (if s \<noteq> [] \<and> hd s = CHR ''-'' then - v else v)
      in if digits = [] \<or> \<not> list_all is_digit digits \<or> v < - (2 ^ 63) \<or> 2 ^ 63 \<le> v then None else Some v)"

definition JoinHostPort :: "string \<Rightarrow> string \<Rightarrow> string" where
  "JoinHostPort host port = (if CHR '':'' \<in> set host then ''['' @ host @ '']:'' @ port else host @ '':'' @ port)"

definition default_port :: "string \<Rightarrow> string option" where
  "default_port scheme =
     (if scheme = ''https'' \<or> scheme = ''wss'' then Some ''443''
      else if scheme = ''http'' \<or> scheme = ''ws'' then Some ''80'' else None)"

definition canonicalOutboundOrigin :: "url \<Rightarrow> (out_error, string) res" where
  "canonicalOutboundOrigin parsed =
     (if u_user parsed then Inl UrlCredentials
      else
        (let scheme = to_lower (trim_space (u_scheme parsed)); host = normalizeHostname (u_host parsed)
         in if scheme = [] \<or> host = [] then Inl UrlHostRequired
            else case (if u_port parsed = [] then default_port scheme else Some (u_port parsed)) of
                   None \<Rightarrow> Inl NoDefaultPort
                 | Some port \<Rightarrow>
                     (case atoi port of
                        None \<Rightarrow> Inl InvalidPort
                      | Some p \<Rightarrow> if p \<le> 0 \<or> 65535 < p then Inl InvalidPort else Inr (scheme @ ''://'' @ JoinHostPort host port))))"

definition validateOutboundURLWithAddressPolicy ::
    "(string \<Rightarrow> url option) \<Rightarrow> env \<Rightarrow> (nat \<Rightarrow> dns) \<Rightarrow> address_policy \<Rightarrow> string \<Rightarrow> (out_error, url) res" where
  "validateOutboundURLWithAddressPolicy parse_url env answers policy rawURL =
     (case ValidateOutboundURL parse_url env (answers 0) (answers 1) rawURL of
        Inl e \<Rightarrow> Inl e
      | Inr parsed \<Rightarrow>
          (case validateRestrictedOutboundHost (answers 2) (u_host parsed)
                  (parseBoolEnv env envOutboundAllowLoopback False \<and> ap_loopback policy)
                  (resolvedOutboundAllowPrivate env (to_lower (trim_space (u_scheme parsed))) \<and> ap_private policy)
                  (parseBoolEnv env envOutboundAllowLinkLocal False \<and> ap_link_local policy) of
             Some e \<Rightarrow> Inl e
           | None \<Rightarrow> Inr parsed))"

text \<open>The loop over the allowed URLs; query \<open>i\<close> of the \<open>n\<close>th URL is answered by \<open>answers n i\<close>.\<close>

fun origins_loop ::
    "(string \<Rightarrow> url option) \<Rightarrow> env \<Rightarrow> (nat \<Rightarrow> nat \<Rightarrow> dns) \<Rightarrow> address_policy \<Rightarrow> nat \<Rightarrow> string list \<Rightarrow> string list \<Rightarrow> string \<Rightarrow>
     (out_error, string list \<times> string) res" where
  "origins_loop parse_url env answers policy n [] origins required = Inr (origins, required)"
| "origins_loop parse_url env answers policy n (rawURL # urls) origins required =
     (case validateOutboundURLWithAddressPolicy parse_url env (answers n) policy rawURL of
        Inl e \<Rightarrow> Inl e
      | Inr parsed \<Rightarrow>
          (case canonicalOutboundOrigin parsed of
             Inl e \<Rightarrow> Inl e
           | Inr origin \<Rightarrow>
               (let scheme = to_lower (trim_space (u_scheme parsed))
                in if required \<noteq> [] \<and> scheme \<noteq> required then Inl SchemesDiffer
                   else origins_loop parse_url env answers policy (Suc n) urls (origins @ [origin]) scheme)))"

definition validatedOutboundOrigins ::
    "(string \<Rightarrow> url option) \<Rightarrow> env \<Rightarrow> (nat \<Rightarrow> nat \<Rightarrow> dns) \<Rightarrow> address_policy \<Rightarrow> string list \<Rightarrow> (out_error, string list \<times> string) res" where
  "validatedOutboundOrigins parse_url env answers policy allowedURLs =
     (if allowedURLs = [] then Inl OriginRequired else origins_loop parse_url env answers policy 0 allowedURLs [] [])"

definition validateOutboundURLAgainstOrigins ::
    "(string \<Rightarrow> url option) \<Rightarrow> env \<Rightarrow> (nat \<Rightarrow> dns) \<Rightarrow> string \<Rightarrow> string list \<Rightarrow> address_policy \<Rightarrow> out_error option" where
  "validateOutboundURLAgainstOrigins parse_url env answers rawURL origins policy =
     (case validateOutboundURLWithAddressPolicy parse_url env answers policy rawURL of
        Inl e \<Rightarrow> Some e
      | Inr parsed \<Rightarrow>
          (case canonicalOutboundOrigin parsed of
             Inl e \<Rightarrow> Some e
           | Inr origin \<Rightarrow> if origin \<notin> set origins then Some OriginNotAllowed else None))"

text \<open>The address that \<open>http.Transport\<close> dials for a URL.\<close>

definition canonicalAddr :: "url \<Rightarrow> string" where
  "canonicalAddr u =
     JoinHostPort (u_host u)
       (if u_port u = [] then (case default_port (u_scheme u) of None \<Rightarrow> [] | Some p \<Rightarrow> p) else u_port u)"

text \<open>\<open>outboundValidatingRoundTripper.RoundTrip\<close> over the secure transport, for a request that needs a new
  connection, and \<open>originRestrictedRoundTripper.RoundTrip\<close> over that.\<close>

definition validating_round_trip ::
    "(string \<Rightarrow> url option) \<Rightarrow> env \<Rightarrow> (ip \<Rightarrow> bool) \<Rightarrow> (nat \<Rightarrow> dns) \<Rightarrow> string \<Rightarrow> address_policy option \<Rightarrow> string \<Rightarrow>
     ip list \<times> (out_error, ip) res" where
  "validating_round_trip parse_url env reaches answers scheme policy rawURL =
     (case ValidateOutboundURL parse_url env (answers 0) (answers 1) rawURL of
        Inl e \<Rightarrow> ([], Inl e)
      | Inr u \<Rightarrow> transport_dial env reaches (answers 2) scheme policy (canonicalAddr u))"

definition restricted_round_trip ::
    "(string \<Rightarrow> url option) \<Rightarrow> env \<Rightarrow> (ip \<Rightarrow> bool) \<Rightarrow> (nat \<Rightarrow> dns) \<Rightarrow> (nat \<Rightarrow> dns) \<Rightarrow> string \<Rightarrow> string list \<Rightarrow> address_policy \<Rightarrow>
     string \<Rightarrow> ip list \<times> (out_error, ip) res" where
  "restricted_round_trip parse_url env reaches answers answers' scheme origins policy rawURL =
     (case validateOutboundURLAgainstOrigins parse_url env answers rawURL origins policy of
        Some e \<Rightarrow> ([], Inl e)
      | None \<Rightarrow> validating_round_trip parse_url env reaches answers' scheme (Some policy) rawURL)"

section \<open>Redirects\<close>

definition token_char :: "char \<Rightarrow> bool" where
  "token_char c =
     (is_digit c \<or> (97 \<le> byte_of c \<and> byte_of c \<le> 122) \<or> (65 \<le> byte_of c \<and> byte_of c \<le> 90) \<or>
      c \<in> set ''!#$%&*+-.^_`|~'' \<or> byte_of c = 39)"

definition upper_char :: "char \<Rightarrow> char" where
  "upper_char c = (if 97 \<le> byte_of c \<and> byte_of c \<le> 122 then char_of (byte_of c - 32) else c)"

fun canonical_from :: "bool \<Rightarrow> string \<Rightarrow> string" where
  "canonical_from upper [] = []"
| "canonical_from upper (c # cs) = (if upper then upper_char c else lower_char c) # canonical_from (c = CHR ''-'') cs"

definition CanonicalHeaderKey :: "string \<Rightarrow> string" where
  "CanonicalHeaderKey s = (if list_all token_char s then canonical_from True s else s)"

definition crossHostRedirectHeaders :: "string list" where
  "crossHostRedirectHeaders = [''Accept'', ''Accept-Language'', ''Content-Type'', ''User-Agent'']"

type_synonym headers = "(string \<times> string list) list"

text \<open>\<open>via\<close> is the URL of the first request, when there is one. The loop deletes under the canonical name.\<close>

definition limitCrossHostRedirect :: "url \<Rightarrow> headers \<Rightarrow> bool \<Rightarrow> url option \<Rightarrow> (out_error, headers) res" where
  "limitCrossHostRedirect target hs has_body via =
     (case via of
        None \<Rightarrow> Inr hs
      | Some origin \<Rightarrow>
          (let sameHost = equal_fold (u_host origin) (u_host target);
               downgrade = (equal_fold (u_scheme origin) ''https'' \<and> \<not> equal_fold (u_scheme target) ''https'')
           in if sameHost \<and> \<not> downgrade then Inr hs
              else if has_body then Inl RedirectBody
              else Inr (foldl (\<lambda>h name. if CanonicalHeaderKey name \<in> set crossHostRedirectHeaders then h
                                        else AList.delete (CanonicalHeaderKey name) h) hs (map fst hs))))"

text \<open>What a \<open>CheckRedirect\<close> function answers: \<open>http.ErrUseLastResponse\<close> stops without an error. The
  function of the caller's client is the argument \<open>prior\<close>; \<open>via\<close> lists the URLs of the earlier requests.\<close>

datatype redirect = Follow headers | Refuse out_error | UseLastResponse

definition secure_check_redirect ::
    "(string \<Rightarrow> url option) \<Rightarrow> env \<Rightarrow> (nat \<Rightarrow> dns) \<Rightarrow> (url \<Rightarrow> headers \<Rightarrow> url list \<Rightarrow> redirect) option \<Rightarrow>
     string \<Rightarrow> url \<Rightarrow> headers \<Rightarrow> bool \<Rightarrow> url list \<Rightarrow> redirect" where
  "secure_check_redirect parse_url env answers prior rawURL target hs has_body via =
     (case ValidateOutboundURL parse_url env (answers 0) (answers 1) rawURL of
        Inl e \<Rightarrow> Refuse e
      | Inr _ \<Rightarrow>
          (case limitCrossHostRedirect target hs has_body (if via = [] then None else Some (hd via)) of
             Inl e \<Rightarrow> Refuse e
           | Inr hs \<Rightarrow>
               (case prior of
                  Some f \<Rightarrow> f target hs via
                | None \<Rightarrow> if 10 \<le> length via then UseLastResponse else Follow hs)))"

definition restricted_check_redirect ::
    "(string \<Rightarrow> url option) \<Rightarrow> env \<Rightarrow> (nat \<Rightarrow> dns) \<Rightarrow> (nat \<Rightarrow> dns) \<Rightarrow> (url \<Rightarrow> headers \<Rightarrow> url list \<Rightarrow> redirect) option \<Rightarrow>
     string list \<Rightarrow> address_policy \<Rightarrow> string \<Rightarrow> url \<Rightarrow> headers \<Rightarrow> bool \<Rightarrow> url list \<Rightarrow> redirect" where
  "restricted_check_redirect parse_url env answers answers' prior origins policy rawURL target hs has_body via =
     (case validateOutboundURLAgainstOrigins parse_url env answers rawURL origins policy of
        Some e \<Rightarrow> Refuse e
      | None \<Rightarrow>
          (case (if via = [] then None
                 else case canonicalOutboundOrigin (hd via) of
                        Inl e \<Rightarrow> Some e
                      | Inr fromOrigin \<Rightarrow>
                          (case canonicalOutboundOrigin target of
                             Inl e \<Rightarrow> Some e
                           | Inr toOrigin \<Rightarrow> if fromOrigin \<noteq> toOrigin then Some CrossOriginRedirect else None)) of
             Some e \<Rightarrow> Refuse e
           | None \<Rightarrow> secure_check_redirect parse_url env answers' prior rawURL target hs has_body via))"

section \<open>Other entry points\<close>

definition format_bool :: "bool \<Rightarrow> string" where
  "format_bool b = (if b then ''true'' else ''false'')"

definition OutboundPolicySummary :: "(string \<Rightarrow> url option) \<Rightarrow> env \<Rightarrow> (string \<times> string) list" where
  "OutboundPolicySummary parse_url env =
     [(''allowlist_mode'', format_bool (parseBoolEnv env envOutboundAllowlistMode False)),
      (''allow_private'', format_bool (resolvedOutboundAllowPrivate env ''https'')),
      (''allow_private_https'', format_bool (resolvedOutboundAllowPrivate env ''https'')),
      (''allow_private_wss'', format_bool (resolvedOutboundAllowPrivateWSS env)),
      (''allow_private_tcp'', format_bool (resolvedOutboundAllowPrivateTCP env)),
      (''allow_loopback'', format_bool (parseBoolEnv env envOutboundAllowLoopback False)),
      (''allow_link_local'', format_bool (parseBoolEnv env envOutboundAllowLinkLocal False)),
      (''allow_insecure_transport'', format_bool (parseBoolEnv env envAllowInsecureTransport False)),
      (''allowed_hosts'', join_with '','' (parseAllowedHostPatterns parse_url env)),
      (''schemes'', join_with '','' (effectiveAllowedOutboundSchemes env))]"

definition ValidateOutboundHostPort ::
    "(string \<Rightarrow> url option) \<Rightarrow> env \<Rightarrow> dns \<Rightarrow> dns \<Rightarrow> string \<Rightarrow> string \<Rightarrow> int \<Rightarrow> (out_error, string \<times> int) res" where
  "ValidateOutboundHostPort parse_url env lookupIPAddrs lookupIP host portRaw fallbackPort =
     (let normalizedHost = trim_space host; trimmedPort = trim_space portRaw
      in if normalizedHost = [] then Inl HostRequired
         else case (if trimmedPort = [] then Some fallbackPort else atoi trimmedPort) of
                None \<Rightarrow> Inl InvalidPort
              | Some port \<Rightarrow>
                  (case ValidateOutboundDialTarget parse_url env lookupIPAddrs lookupIP normalizedHost port of
                     Some e \<Rightarrow> Inl e
                   | None \<Rightarrow> Inr (normalizedHost, port)))"

definition OutboundTCPDialContext ::
    "(string \<Rightarrow> url option) \<Rightarrow> env \<Rightarrow> (ip \<Rightarrow> bool) \<Rightarrow> dns \<Rightarrow> string \<Rightarrow> string \<Rightarrow> ip list \<times> (out_error, ip) res" where
  "OutboundTCPDialContext parse_url env reaches lookupIPAddrs network address =
     (if to_lower (trim_space network) \<notin> set [''tcp'', ''tcp4'', ''tcp6''] then ([], Inl NetworkNotAllowed)
      else case SplitHostPort address of
             None \<Rightarrow> ([], Inl BadAddress)
           | Some (host, portRaw) \<Rightarrow>
               (case atoi portRaw of
                  None \<Rightarrow> ([], Inl InvalidPort)
                | Some port \<Rightarrow> DialOutboundTCPContext parse_url env reaches lookupIPAddrs host port))"

text \<open>The cache of transports. Transport number \<open>t\<close> was built by \<open>newSecureOutboundTransport\<close> from the key
  \<open>tc_built ! t\<close>, whose scheme and policy its dialler reads; \<open>pick\<close> stands for the order in which the map is
  iterated.\<close>

record transport_key =
  tk_base :: "nat option"
  tk_scheme :: string
  tk_policy :: "address_policy option"

record transport_cache =
  tc_entries :: "(transport_key \<times> nat) list"
  tc_built :: "transport_key list"

definition maxCachedOutboundTransports :: nat where
  "maxCachedOutboundTransports = 256"

definition cachedSecureOutboundTransport :: "nat \<Rightarrow> transport_key \<Rightarrow> transport_cache \<Rightarrow> nat \<times> transport_cache" where
  "cachedSecureOutboundTransport pick key c =
     (case map_of (tc_entries c) key of
        Some transport \<Rightarrow> (transport, c)
      | None \<Rightarrow>
          (let entries = tc_entries c;
               entries = (if maxCachedOutboundTransports \<le> length entries
                          then AList.delete (fst (entries ! (pick mod length entries))) entries else entries);
               transport = length (tc_built c)
           in (transport, \<lparr>tc_entries = AList.update key transport entries, tc_built = tc_built c @ [key]\<rparr>)))"

end
