(* ===== verification/Outbound_Host.thy ===== *)
theory Outbound_Host
  imports Outbound_Policy
begin

text \<open>
  The canonical form of a host that a user typed (\<open>CanonicalizeOutboundHost\<close> of
  \<open>internal/protocols/host_validation.go\<close>): a lower-case host name whose labels are letters, digits and inner
  hyphens, or the text of a literal address. Canonical names are fixed points, so a stored endpoint validates to itself.
\<close>

lemma first_error_None: "first_error f xs = None \<longleftrightarrow> (\<forall>x \<in> set xs. f x = None)"
  by (induction xs) (auto split: option.split)

definition name_char :: "char \<Rightarrow> bool" where
  "name_char c = ((97 \<le> byte_of c \<and> byte_of c \<le> 122) \<or> (48 \<le> byte_of c \<and> byte_of c \<le> 57) \<or> byte_of c = 45)"

definition label_ok :: "string \<Rightarrow> bool" where
  "label_ok l = (l \<noteq> [] \<and> length l \<le> 63 \<and> hd l \<noteq> CHR ''-'' \<and> last l \<noteq> CHR ''-'' \<and> list_all name_char l)"

definition host_name :: "string \<Rightarrow> bool" where
  "host_name h = (length h \<le> 253 \<and> ParseIP h = None \<and> list_all label_ok (split_on (CHR ''.'') h))"

lemma label_error_None: "label_error l = None \<longleftrightarrow> label_ok l"
proof -
  have n: "((byte_of c < 97 \<or> 122 < byte_of c) \<and> (byte_of c < 48 \<or> 57 < byte_of c) \<and> c \<noteq> CHR ''-'') \<longleftrightarrow> \<not> name_char c" for c
  proof (cases "c = CHR ''-''")
    case False
    then have "byte_of c \<noteq> 45" using of_char_eq_iff [of c "CHR ''-''", where ?'a = nat] by simp
    with False show ?thesis by (auto simp: name_char_def)
  qed (simp add: name_char_def)
  show ?thesis unfolding label_error_def label_ok_def n by (auto simp: list_ex_iff list_all_iff)
qed

lemma split_on_chars: "c \<in> set s \<Longrightarrow> c = d \<or> (\<exists>l \<in> set (split_on d s). c \<in> set l)"
proof (induction s)
  case (Cons e s)
  show ?case
  proof (cases "split_on d s")
    case (Cons p ps)
    with Cons.IH Cons.prems show ?thesis by auto
  qed (use Cons in auto)
qed simp

lemma split_on_nonempty: "split_on d s \<noteq> []"
  by (cases s) (auto split: list.splits)

lemma split_on_last: "s \<noteq> [] \<Longrightarrow> last s = d \<Longrightarrow> last (split_on d s) = [] \<and> 2 \<le> length (split_on d s)"
proof (induction s)
  case (Cons e s)
  show ?case
  proof (cases "s = []")
    case False
    with Cons have "last (split_on d s) = [] \<and> 2 \<le> length (split_on d s)" by simp
    then show ?thesis by (auto split: list.split)
  qed (use Cons in auto)
qed simp

definition plain_text :: "string \<Rightarrow> bool" where
  "plain_text h =
     (h \<noteq> [] \<and> length h \<le> 253 \<and> last h \<noteq> CHR ''.'' \<and>
      list_all (\<lambda>c. 45 \<le> byte_of c \<and> byte_of c \<le> 122 \<and> \<not> (58 \<le> byte_of c \<and> byte_of c \<le> 96) \<and> byte_of c \<noteq> 47) h)"

lemma plain_text_fixed:
  assumes "plain_text h"
  shows "trim_space h = h" "to_lower h = h" "trim_suffix h ''.'' = h"
proof -
  have ch: "45 \<le> byte_of c \<and> \<not> (58 \<le> byte_of c \<and> byte_of c \<le> 96) \<and> byte_of c \<le> 122" if "c \<in> set h" for c
    using assms that by (simp add: plain_text_def list_all_iff)
  have ne: "h \<noteq> []" and dot: "last h \<noteq> CHR ''.''" using assms by (simp_all add: plain_text_def)
  have sp: "\<not> is_space c" if "c \<in> set h" for c using ch [OF that] by (auto simp: is_space_def)
  show "trim_space h = h" using ne sp by (intro trim_space_fixed) auto
  show "to_lower h = h" unfolding to_lower_def by (rule map_idI) (use ch in \<open>fastforce simp: lower_char_def\<close>)
  show "trim_suffix h ''.'' = h" using dot by (auto simp: trim_suffix_def has_suffix_iff)
qed

lemma plain_text_canonical:
  assumes "plain_text h"
  shows "CanonicalizeOutboundHost h =
    (case ParseIP h of
       Some ip \<Rightarrow> Inr (to_lower (ip_string ip))
     | None \<Rightarrow> (case first_error label_error (split_on (CHR ''.'') h) of Some e \<Rightarrow> Inl e | None \<Rightarrow> Inr h))"
proof -
  have ch: "45 \<le> byte_of c \<and> byte_of c \<le> 122 \<and> \<not> (58 \<le> byte_of c \<and> byte_of c \<le> 96) \<and> byte_of c \<noteq> 47" if "c \<in> set h" for c
    using assms that by (simp add: plain_text_def list_all_iff)
  have ne: "h \<noteq> []" and len: "\<not> 253 < length h" using assms by (simp_all add: plain_text_def)
  have notin: "c \<notin> set h" if "byte_of c < 45 \<or> byte_of c = 47 \<or> (58 \<le> byte_of c \<and> byte_of c \<le> 96) \<or> 122 < byte_of c" for c
    using ch [of c] that by auto
  have sl: "\<not> contains h ''://''" using notin [of "CHR '':''"] by (auto simp: contains_iff)
  have br: "\<not> has_prefix h ''[''" "\<not> has_suffix h '']''" "CHR ''['' \<notin> set h" "CHR '']'' \<notin> set h" "CHR '':'' \<notin> set h"
    using notin [of "CHR ''[''"] notin [of "CHR '']''"] notin [of "CHR '':''"] by (auto simp: has_prefix_iff has_suffix_iff)
  have ok: "\<not> list_ex (\<lambda>c. byte_of c \<le> 32 \<or> byte_of c = 127 \<or> 127 < byte_of c) h"
    using ch by (fastforce simp: list_ex_iff)
  have url: "\<not> list_ex (\<lambda>c. c \<in> set [CHR ''/'', char_of (92 :: nat), CHR ''@'', CHR ''?'', CHR ''#'']) h"
    unfolding list_ex_iff
  proof
    assume "\<exists>c \<in> set h. c \<in> set [CHR ''/'', char_of (92 :: nat), CHR ''@'', CHR ''?'', CHR ''#'']"
    then obtain c where "c \<in> set h" "c \<in> set [CHR ''/'', char_of (92 :: nat), CHR ''@'', CHR ''?'', CHR ''#'']" by blast
    with notin [of c] show False by auto
  qed
  show ?thesis
    unfolding CanonicalizeOutboundHost_def plain_text_fixed [OF assms] Let_def
    using ne len sl ok url br by (simp only: if_False simp_thms disj_not1 not_False_eq_True)
qed

lemma host_name_plain: "host_name h \<Longrightarrow> plain_text h"
proof -
  assume "host_name h"
  then have all: "list_all label_ok (split_on (CHR ''.'') h)" and len: "length h \<le> 253" by (simp_all add: host_name_def)
  have ch: "c = CHR ''.'' \<or> name_char c" if "c \<in> set h" for c
    using split_on_chars [OF that, of "CHR ''.''"] all by (auto simp: label_ok_def list_all_iff)
  have ne: "h \<noteq> []" using all by (auto simp: label_ok_def)
  have "last h \<noteq> CHR ''.''"
  proof
    assume "last h = CHR ''.''"
    from split_on_last [OF ne this] have "[] \<in> set (split_on (CHR ''.'') h)"
      by (metis last_in_set length_0_conv not_numeral_le_zero)
    with all show False by (auto simp: list_all_iff label_ok_def)
  qed
  with ne len ch show "plain_text h" unfolding plain_text_def list_all_iff name_char_def by fastforce
qed

lemma host_name_fixed:
  assumes "host_name h"
  shows "CanonicalizeOutboundHost h = Inr h"
proof -
  have "first_error label_error (split_on (CHR ''.'') h) = None" "ParseIP h = None"
    using assms unfolding first_error_None label_error_None by (simp_all add: host_name_def list_all_iff)
  then show ?thesis by (simp add: plain_text_canonical [OF host_name_plain [OF assms]])
qed

section \<open>Literal addresses\<close>

lemma dec_value_itoa: "dec_value (itoa n) = n"
  using atoi_itoa [of n] unfolding dec_value_def atoi_digits_def .

lemma itoa_digits: "list_all is_digit (itoa n)"
proof (induction n rule: itoa.induct)
  case (1 n)
  have "is_digit (digit_char (n mod 10))" by (simp add: is_digit_def less_Suc_eq_le [symmetric])
  moreover have "n < 10 \<Longrightarrow> is_digit (digit_char n)" by (simp add: is_digit_def)
  ultimately show ?case using 1 by (subst itoa.simps) simp
qed

lemma hd_itoa: "0 < n \<Longrightarrow> 48 < byte_of (hd (itoa n))"
proof (induction n rule: itoa.induct)
  case (1 n)
  show ?case
  proof (cases "n < 10")
    case False
    with 1 have "48 < byte_of (hd (itoa (n div 10)))" by simp
    with False last_itoa [of "n div 10"] show ?thesis by (subst itoa.simps) simp
  qed (use 1 in \<open>simp add: itoa.simps [of n]\<close>)
qed

lemma octet_itoa: "octet (itoa (unat b)) = Some b"
proof -
  have "\<not> (1 < length (itoa (unat b)) \<and> dec_value (take 1 (itoa (unat b))) = 0)"
  proof (cases "unat b = 0")
    case False
    with hd_itoa [of "unat b"] last_itoa [of "unat b"] show ?thesis
      by (cases "itoa (unat b)") (auto simp: dec_value_def)
  qed (simp add: itoa.simps)
  moreover have "\<not> 255 < unat b" using unsigned_less [of b, where ?'a = nat] by simp
  ultimately show ?thesis using last_itoa [of "unat b"] itoa_digits [of "unat b"] by (simp add: octet_def dec_value_itoa)
qed

lemma split_on_free: "d \<notin> set a \<Longrightarrow> split_on d a = [a]"
  by (induction a) auto

lemma split_on_append: "d \<notin> set a \<Longrightarrow> split_on d (a @ d # s) = a # split_on d s"
  by (induction a) auto

lemma digits_plain: "c \<in> set (itoa n) \<Longrightarrow> 48 \<le> byte_of c \<and> byte_of c \<le> 57"
  using itoa_digits [of n] by (simp add: list_all_iff is_digit_def)

lemma digits_no_dot: "CHR ''.'' \<notin> set (itoa n)" "CHR '':'' \<notin> set (itoa n)" "CHR ''%'' \<notin> set (itoa n)"
  using digits_plain [of "CHR ''.''" n] digits_plain [of "CHR '':''" n] digits_plain [of "CHR ''%''" n] by auto

lemma itoa_byte_length: "length (itoa (unat (b :: byte))) \<le> 3"
proof -
  have "unat b < 256" using unsigned_less [of b, where ?'a = nat] by simp
  then show ?thesis by (simp add: itoa.simps [of "unat b"] itoa.simps [of "unat b div 10"] itoa.simps [of "unat b div 10 div 10"])
qed

lemma find_first_skip: "\<forall>x \<in> set xs. \<not> p x \<Longrightarrow> p y \<Longrightarrow> find_first p (xs @ y # ys) = Some y"
  by (induction xs) auto

lemma parse_string4:
  assumes "length bs = 4"
  shows "ParseIP (string4 bs) = Some (v4InV6Prefix @ bs)"
proof -
  from assms obtain a b c d where bs: "bs = [a, b, c, d]" by (auto simp: length_Suc_conv numeral_eq_Suc)
  let ?d = "CHR ''.''"
  have s: "string4 bs = itoa (unat a) @ ?d # itoa (unat b) @ ?d # itoa (unat c) @ ?d # itoa (unat d)"
    by (simp add: string4_def bs)
  have "find_first (\<lambda>c. c = ?d \<or> c = CHR '':'' \<or> c = CHR ''%'') (string4 bs) = Some ?d"
    unfolding s using digits_no_dot by (intro find_first_skip) metis+
  moreover have "parseIPv4 (string4 bs) = Some bs"
    unfolding s parseIPv4_def by (simp add: split_on_append split_on_free digits_no_dot octet_itoa bs)
  ultimately show ?thesis by (simp add: ParseIP_def)
qed

lemma string4_plain:
  assumes "length bs = 4"
  shows "plain_text (string4 bs)"
proof -
  from assms obtain a b c d where bs: "bs = [a, b, c, d]" by (auto simp: length_Suc_conv numeral_eq_Suc)
  let ?d = "CHR ''.''"
  have s: "string4 bs = itoa (unat a) @ ?d # itoa (unat b) @ ?d # itoa (unat c) @ ?d # itoa (unat d)"
    by (simp add: string4_def bs)
  have "length (string4 bs) \<le> 253"
    unfolding s using itoa_byte_length [of a] itoa_byte_length [of b] itoa_byte_length [of c] itoa_byte_length [of d] by simp
  moreover have "last (string4 bs) \<noteq> ?d"
    unfolding s using last_itoa [of "unat d"] digits_no_dot(1) [of "unat d"] by (auto dest: last_in_set)
  moreover have "x = ?d \<or> (48 \<le> byte_of x \<and> byte_of x \<le> 57)" if "x \<in> set (string4 bs)" for x
    using that digits_plain unfolding s by auto
  ultimately show ?thesis unfolding plain_text_def list_all_iff by (fastforce simp: s)
qed

lemma string4_fixed:
  assumes "length bs = 4"
  shows "CanonicalizeOutboundHost (string4 bs) = Inr (string4 bs)"
proof -
  have "ip_string (v4InV6Prefix @ bs) = string4 bs"
    using assms by (simp add: ip_string_def To4_def v4InV6Prefix_def)
  then show ?thesis
    by (simp add: plain_text_canonical [OF string4_plain [OF assms]] parse_string4 [OF assms]
        plain_text_fixed(2) [OF string4_plain [OF assms]])
qed

lemma canonical_shape:
  assumes "CanonicalizeOutboundHost raw = Inr h"
  shows "host_name h \<or> (\<exists>s ip. ParseIP s = Some ip \<and> h = to_lower (ip_string ip))"
proof (cases "\<exists>s ip. ParseIP s = Some ip \<and> h = to_lower (ip_string ip)")
  case False
  with assms have h: "h = trim_suffix (to_lower (trim_space raw)) ''.''" and n: "ParseIP h = None" and l: "length (trim_space raw) \<le> 253"
    and e: "first_error label_error (split_on (CHR ''.'') h) = None"
    by (auto simp: CanonicalizeOutboundHost_def Let_def split: if_splits option.splits)
  have "length h \<le> length (trim_space raw)" using h by (auto simp: trim_suffix_def to_lower_def)
  with n l e show ?thesis by (auto simp: host_name_def first_error_None label_error_None list_all_iff)
qed simp

lemma ipv4_text_fixed:
  assumes "To4 ip = Some b"
  shows "CanonicalizeOutboundHost (to_lower (ip_string ip)) = Inr (to_lower (ip_string ip))"
proof -
  have "length b = 4" "ip_string ip = string4 b"
    using assms by (auto simp: To4_def ip_string_def split: if_splits)
  then show ?thesis by (simp add: string4_fixed plain_text_fixed(2) [OF string4_plain])
qed

text \<open>
  C30: The host type of an outbound endpoint. Whatever text is typed, a host that \<open>CanonicalizeOutboundHost\<close>
  accepts is either a host name (at most 253 characters, dot-separated labels of 1 to 63 lower-case letters, digits
  and inner hyphens, not readable as an address) or the lower-case text of a parsed IP address. Host names and
  IPv4 addresses are fixed points: canonicalizing the stored value again returns it unchanged.
\<close>

theorem canonical_host_is_well_typed:
  assumes "CanonicalizeOutboundHost raw = Inr h"
  shows "(host_name h \<and> CanonicalizeOutboundHost h = Inr h) \<or>
    (\<exists>s ip. ParseIP s = Some ip \<and> h = to_lower (ip_string ip) \<and>
      (To4 ip \<noteq> None \<longrightarrow> CanonicalizeOutboundHost h = Inr h))"
  using canonical_shape [OF assms] host_name_fixed ipv4_text_fixed by (metis option.exhaust)

theorem canonical_host_is_well_typed_witness:
  "CanonicalizeOutboundHost '' NAS-1.Example.COM. '' = Inr ''nas-1.example.com'' \<and>
   host_name ''nas-1.example.com'' \<and> CanonicalizeOutboundHost ''nas-1.example.com'' = Inr ''nas-1.example.com''"
proof -
  have a: "CanonicalizeOutboundHost '' NAS-1.Example.COM. '' = Inr ''nas-1.example.com''" by code_simp
  have b: "host_name ''nas-1.example.com''" by code_simp
  have "CanonicalizeOutboundHost ''nas-1.example.com'' = Inr ''nas-1.example.com''"
    using canonical_host_is_well_typed [OF a] b host_name_fixed by blast
  with a b show ?thesis by blast
qed

end
