(* ===== verification/Outbound_Safety.thy ===== *)
theory Outbound_Safety
  imports Outbound_Host
begin

text \<open>
  What the outbound policy guarantees: the classes of addresses as network prefixes, the addresses that a
  dial can reach whatever the DNS answers, the client restricted to its origins, the headers of a
  redirect, and the shape of a canonical host.
\<close>

unbundle bit_operations_syntax

section \<open>Prefixes of whole bytes and bits\<close>

lemma bytes_value_foldl: "foldl (\<lambda>acc b. 256 * acc + uint b) v (bs :: byte list) = v * 256 ^ length bs + bytes_value bs"
proof (induction bs arbitrary: v)
  case (Cons b bs)
  show ?case
    using Cons.IH [of "256 * v + uint b"] Cons.IH [of "uint b"]
    by (simp add: bytes_value_def algebra_simps)
qed (simp add: bytes_value_def)

lemma bytes_value_append: "bytes_value (xs @ ys) = bytes_value xs * 256 ^ length ys + bytes_value ys"
  using bytes_value_foldl [of "bytes_value xs" ys] by (simp add: bytes_value_def)

lemma bytes_value_Cons: "bytes_value (x # xs) = uint x * 256 ^ length xs + bytes_value xs"
  using bytes_value_append [of "[x]" xs] by (simp add: bytes_value_def)

lemma uint_byte: "0 \<le> uint (b :: byte)" "uint b < 256"
  using uint_lt2p [of b] by simp_all

lemma bytes_value_range: "0 \<le> bytes_value bs \<and> bytes_value bs < 256 ^ length bs"
proof (induction bs)
  case (Cons b bs)
  let ?w = "256 ^ length bs :: int"
  have "uint b * ?w \<le> 255 * ?w" using uint_byte [of b] by (intro mult_right_mono) auto
  moreover have "0 \<le> uint b * ?w" using uint_byte(1) by simp
  moreover have "256 ^ length (b # bs) = 255 * ?w + ?w" by simp
  ultimately show ?case unfolding bytes_value_Cons using Cons by linarith
qed (simp add: bytes_value_def)

lemma bytes_value_div: "bytes_value (xs @ ys) div 256 ^ length ys = bytes_value xs"
  using bytes_value_range [of ys] by (simp add: bytes_value_append div_mult_self3)

lemma bytes_value_inject: "length xs = length ys \<Longrightarrow> bytes_value xs = bytes_value ys \<longleftrightarrow> xs = ys"
proof (induction xs ys rule: list_induct2)
  case (Cons x xs y ys)
  have "uint x = uint y \<and> bytes_value xs = bytes_value ys"
    if "bytes_value (x # xs) = bytes_value (y # ys)"
  proof -
    let ?w = "256 ^ length ys :: int"
    have r: "0 \<le> bytes_value xs" "bytes_value xs < ?w" "0 \<le> bytes_value ys" "bytes_value ys < ?w"
      using bytes_value_range [of xs] bytes_value_range [of ys] Cons.hyps by simp_all
    have e: "uint x * ?w + bytes_value xs = uint y * ?w + bytes_value ys"
      using that Cons.hyps by (simp add: bytes_value_Cons)
    have "(uint x * ?w + bytes_value xs) div ?w = uint x" "(uint y * ?w + bytes_value ys) div ?w = uint y" using r by simp_all
    with e show ?thesis by simp
  qed
  then have "bytes_value (x # xs) = bytes_value (y # ys) \<longleftrightarrow> x = y \<and> bytes_value xs = bytes_value ys"
    using Cons.hyps by (metis bytes_value_Cons word_uint_eq_iff)
  then show ?case unfolding Cons.IH by simp
qed simp

lemma prefix_contains_full: "prefix_contains (p, 8 * length p) a \<longleftrightarrow> a = p"
  by (auto simp: prefix_contains_def bytes_value_inject)

lemma prefix_contains_bits:
  assumes "length x = length p" "length y = length q" "k \<le> 8"
  shows "prefix_contains (p @ b # q, 8 * length p + k) (x @ c # y) \<longleftrightarrow> x = p \<and> uint c div 2 ^ (8 - k) = uint b div 2 ^ (8 - k)"
proof -
  let ?m = "2 ^ (8 - k) :: int" and ?k = "2 ^ k :: int"
  have e: "8 * length (p @ b # q) - (8 * length p + k) = 8 * length q + (8 - k)" using assms(3) by simp
  have w: "(2 :: int) ^ (8 * length q + (8 - k)) = 256 ^ length q * ?m" by (simp add: power_add power_mult)
  have d: "bytes_value (z @ u # v) div (256 ^ length q * ?m) = bytes_value z * ?k + uint u div ?m"
    if "length v = length q" for z u v
  proof -
    have "bytes_value (z @ u # v) div (256 ^ length q * ?m) = bytes_value ((z @ [u]) @ v) div 256 ^ length v div ?m"
      using that by (simp add: zdiv_zmult2_eq)
    also have "\<dots> = (bytes_value z * 256 + uint u) div ?m"
      unfolding bytes_value_div by (simp add: bytes_value_def mult.commute)
    also have "bytes_value z * 256 = bytes_value z * ?k * ?m" using assms(3) by (simp add: mult.assoc flip: power_add)
    finally show ?thesis by simp
  qed
  have r: "0 \<le> uint u div ?m" "uint u div ?m < ?k" for u :: byte
  proof -
    show "0 \<le> uint u div ?m" by (simp add: pos_imp_zdiv_nonneg_iff)
    have "uint u < ?k * ?m" using uint_byte [of u] assms(3) by (simp flip: power_add)
    moreover have "uint u div ?m * ?m \<le> uint u" using pos_mod_sign [of ?m "uint u"] by (simp flip: minus_mod_eq_div_mult)
    ultimately have "uint u div ?m * ?m < ?k * ?m" by linarith
    then show "uint u div ?m < ?k" by (rule mult_right_less_imp_less) simp
  qed
  have "bytes_value x * ?k + uint c div ?m = bytes_value p * ?k + uint b div ?m \<longleftrightarrow>
      bytes_value x = bytes_value p \<and> uint c div ?m = uint b div ?m"
  proof
    assume a: "bytes_value x * ?k + uint c div ?m = bytes_value p * ?k + uint b div ?m"
    have "(bytes_value x * ?k + uint c div ?m) div ?k = bytes_value x" "(bytes_value p * ?k + uint b div ?m) div ?k = bytes_value p"
      using r [of c] r [of b] by simp_all
    with a show "bytes_value x = bytes_value p \<and> uint c div ?m = uint b div ?m" by simp
  qed simp
  then show ?thesis
    unfolding prefix_contains_def prod.case e w d [OF refl] d [OF assms(2)] using assms(1,2) bytes_value_inject by auto
qed

lemma byte_exhaust: "list_all (\<lambda>n. P (of_int n) n) [0..255] \<Longrightarrow> P (b :: byte) (uint b)"
proof -
  assume "list_all (\<lambda>n. P (of_int n) n) [0..255]"
  moreover have "uint b \<in> set [0..255]" using uint_byte [of b] by simp
  ultimately show "P b (uint b)" unfolding list_all_iff by (metis word_of_int_uint of_int_uint)
qed

lemma byte_masks:
  fixes b :: byte
  shows "b AND 0xf0 = 16 \<longleftrightarrow> uint b div 16 = 1" "b AND 0xf0 = 0xe0 \<longleftrightarrow> uint b div 16 = 14"
    "b AND 0xfe = 0xfc \<longleftrightarrow> uint b div 2 = 126" "b AND 0xc0 = 0x80 \<longleftrightarrow> uint b div 64 = 2"
  by (rule byte_exhaust [of "\<lambda>b n. (b AND 0xf0 = 16) = (n div 16 = 1)"], code_simp)
    (rule byte_exhaust [of "\<lambda>b n. (b AND 0xf0 = 0xe0) = (n div 16 = 14)"], code_simp,
     rule byte_exhaust [of "\<lambda>b n. (b AND 0xfe = 0xfc) = (n div 2 = 126)"], code_simp,
     rule byte_exhaust [of "\<lambda>b n. (b AND 0xc0 = 0x80) = (n div 64 = 2)"], code_simp)

lemma prefix_other_length: "length a \<noteq> length p \<Longrightarrow> \<not> prefix_contains (p, n) a"
  by (simp add: prefix_contains_def)

lemma byte_eq_iff: "uint b div 1 = uint c div 1 \<longleftrightarrow> (b :: byte) = c"
  by (simp add: word_uint_eq_iff)

lemma prefix_first:
  "length r = length q \<Longrightarrow> prefix_contains (b # q, 8) (c # r) \<longleftrightarrow> c = b"
  "length r = length q \<Longrightarrow> prefix_contains (b # q, 4) (c # r) \<longleftrightarrow> uint c div 16 = uint b div 16"
  "length r = length q \<Longrightarrow> prefix_contains (b # q, 7) (c # r) \<longleftrightarrow> uint c div 2 = uint b div 2"
  "length r = length q \<Longrightarrow> prefix_contains (a # b # q, 16) (d # c # r) \<longleftrightarrow> d = a \<and> c = b"
  "length r = length q \<Longrightarrow> prefix_contains (a # b # q, 12) (d # c # r) \<longleftrightarrow> d = a \<and> uint c div 16 = uint b div 16"
  "length r = length q \<Longrightarrow> prefix_contains (a # b # q, 10) (d # c # r) \<longleftrightarrow> d = a \<and> uint c div 64 = uint b div 64"
  using prefix_contains_bits [of "[]" "[]" r q 8 b c] prefix_contains_bits [of "[]" "[]" r q 4 b c]
    prefix_contains_bits [of "[]" "[]" r q 7 b c] prefix_contains_bits [of "[d]" "[a]" r q 8 b c]
    prefix_contains_bits [of "[d]" "[a]" r q 4 b c] prefix_contains_bits [of "[d]" "[a]" r q 2 b c]
  by (simp_all add: byte_eq_iff word_uint_eq_iff)

lemma prefix_whole:
  "prefix_contains ([p0, p1, p2, p3], 32) a \<longleftrightarrow> a = [p0, p1, p2, p3]"
  "length p = 16 \<Longrightarrow> prefix_contains (p, 128) a \<longleftrightarrow> a = p"
  using prefix_contains_full [of "[p0, p1, p2, p3]" a] prefix_contains_full [of p a] by simp_all

section \<open>The classes of addresses as networks\<close>

definition in_nets :: "(byte list \<times> nat) list \<Rightarrow> ip \<Rightarrow> bool" where
  "in_nets nets a = (case unmapped a of None \<Rightarrow> False | Some x \<Rightarrow> list_ex (\<lambda>p. prefix_contains p x) nets)"

definition loopback_nets :: "(byte list \<times> nat) list" where
  "loopback_nets = [([127, 0, 0, 0], 8), (replicate 15 0 @ [1], 128)]"

definition private_nets :: "(byte list \<times> nat) list" where
  "private_nets = [([10, 0, 0, 0], 8), ([172, 16, 0, 0], 12), ([192, 168, 0, 0], 16), (0xfc # replicate 15 0, 7)]"

definition link_local_nets :: "(byte list \<times> nat) list" where
  "link_local_nets = [([169, 254, 0, 0], 16), (0xfe # 0x80 # replicate 14 0, 10)]"

definition unusable_nets :: "(byte list \<times> nat) list" where
  "unusable_nets =
     [([0, 0, 0, 0], 32), (replicate 16 0, 128), ([255, 255, 255, 255], 32), ([224, 0, 0, 0], 4), (0xff # replicate 15 0, 8)]"

lemma address_shape:
  assumes "length a = 4 \<or> length a = 16"
  obtains (v4) c0 c1 c2 c3 where "To4 a = Some [c0, c1, c2, c3]"
  | (v6) c0 c1 r where "To4 a = None" "a = c0 # c1 # r" "length r = 14"
proof (cases "To4 a")
  case None
  then have "length a = 16" using assms by (auto simp: To4_def)
  then obtain c0 c1 r where "a = c0 # c1 # r" "length r = 14" by (auto simp: length_Suc_conv eval_nat_numeral)
  with None v6 show ?thesis by blast
next
  case (Some x)
  then have "length x = 4" by (auto simp: To4_def split: if_splits)
  then obtain c0 c1 c2 c3 where "x = [c0, c1, c2, c3]" by (auto simp: length_Suc_conv eval_nat_numeral)
  with Some v4 show ?thesis by blast
qed

lemma To4_length: "To4 a = Some x \<Longrightarrow> length a = 4 \<or> length a = 16"
  by (auto simp: To4_def split: if_splits)

lemma ip_equal_mapped: "ip_equal a (v4InV6Prefix @ [b0, b1, b2, b3]) \<longleftrightarrow> To4 a = Some [b0, b1, b2, b3]"
proof -
  have l: "length v4InV6Prefix = 12" by (simp add: v4InV6Prefix_def)
  have "a = v4InV6Prefix @ [b0, b1, b2, b3] \<longleftrightarrow> take 12 a = v4InV6Prefix \<and> drop 12 a = [b0, b1, b2, b3]" if "length a = 16"
    using that l by (metis append_eq_conv_conj append_take_drop_id)
  then show ?thesis using l by (auto simp: ip_equal_def To4_def)
qed

lemma class_nets_all:
  assumes "length a = 4 \<or> length a = 16"
  shows "(IsLoopback a \<longleftrightarrow> in_nets loopback_nets a) \<and> (IsPrivate a \<longleftrightarrow> in_nets private_nets a) \<and>
    (IsLinkLocalUnicast a \<longleftrightarrow> in_nets link_local_nets a) \<and>
    (IsUnspecified a \<or> IsMulticast a \<or> ip_equal a IPv4bcast \<longleftrightarrow> in_nets unusable_nets a)"
  using assms
proof (cases a rule: address_shape)
  case (v4 c0 c1 c2 c3)
  have u: "unmapped a = Some [c0, c1, c2, c3]" using v4 assms by (simp add: unmapped_def)
  have 1: "IsLoopback a \<longleftrightarrow> in_nets loopback_nets a" "IsPrivate a \<longleftrightarrow> in_nets private_nets a"
    "IsLinkLocalUnicast a \<longleftrightarrow> in_nets link_local_nets a"
    by (simp_all add: in_nets_def u v4 IsLoopback_def IsPrivate_def IsLinkLocalUnicast_def loopback_nets_def private_nets_def
        link_local_nets_def prefix_other_length prefix_first byte_masks)
  have "take 12 IPv6unspecified \<noteq> v4InV6Prefix" "length IPv6unspecified = 16" by code_simp+
  then have "\<not> ip_equal a IPv6unspecified" using v4 by (auto simp: ip_equal_def To4_def split: if_splits)
  then have "IsUnspecified a \<or> IsMulticast a \<or> ip_equal a IPv4bcast \<longleftrightarrow> in_nets unusable_nets a"
    by (auto simp: in_nets_def u v4 IsUnspecified_def IsMulticast_def IPv4bcast_def IPv4zero_def ip_equal_mapped
        unusable_nets_def prefix_other_length prefix_first prefix_whole byte_masks)
  with 1 show ?thesis by blast
next
  case (v6 c0 c1 r)
  have l: "length a = 16" using v6 by simp
  have u: "unmapped (c0 # c1 # r) = Some (c0 # c1 # r)" using v6 by (simp add: unmapped_def)
  have 1: "IsLoopback a \<longleftrightarrow> in_nets loopback_nets a" "IsPrivate a \<longleftrightarrow> in_nets private_nets a"
    "IsLinkLocalUnicast a \<longleftrightarrow> in_nets link_local_nets a"
    using v6 by (simp_all add: in_nets_def u IsLoopback_def IsPrivate_def IsLinkLocalUnicast_def loopback_nets_def private_nets_def
        link_local_nets_def prefix_other_length prefix_first prefix_whole byte_masks ip_equal_def IPv6loopback_def)
  have "IsUnspecified a \<or> IsMulticast a \<or> ip_equal a IPv4bcast \<longleftrightarrow> in_nets unusable_nets a"
    using v6 by (auto simp: in_nets_def u IsUnspecified_def IsMulticast_def IPv4bcast_def IPv4zero_def ip_equal_mapped
        unusable_nets_def prefix_other_length prefix_first prefix_whole ip_equal_def [of _ "replicate 16 0"] IPv6unspecified_def)
  with 1 show ?thesis by blast
qed

lemmas class_nets = class_nets_all [THEN conjunct1] class_nets_all [THEN conjunct2, THEN conjunct1]
  class_nets_all [THEN conjunct2, THEN conjunct2, THEN conjunct1] class_nets_all [THEN conjunct2, THEN conjunct2, THEN conjunct2]

lemma in_nets_length: "in_nets nets a \<Longrightarrow> length a = 4 \<or> length a = 16"
  by (auto simp: in_nets_def unmapped_def split: option.splits if_splits)

lemma in_nets_append: "in_nets (m @ n) a \<longleftrightarrow> in_nets m a \<or> in_nets n a"
  by (auto simp: in_nets_def split: option.split)

lemma unmapped_length: "unmapped a = Some x \<Longrightarrow> length x = 4 \<or> length x = 16"
  by (auto simp: unmapped_def To4_def v4InV6Prefix_def split: if_splits)

lemma unmapped_idem:
  assumes "unmapped a = Some x"
  shows "unmapped x = Some x"
proof (cases "To4 a")
  case None
  with assms show ?thesis by (simp add: unmapped_def split: if_splits)
next
  case (Some v)
  then have "length v = 4" by (auto simp: To4_def split: if_splits)
  moreover have "x = v" using assms Some by (simp add: unmapped_def split: if_splits)
  ultimately show ?thesis by (simp add: unmapped_def To4_def)
qed

lemma in_nets_unmapped: "unmapped a = Some x \<Longrightarrow> in_nets nets x \<longleftrightarrow> in_nets nets a"
  by (simp add: in_nets_def unmapped_idem)

text \<open>The public addresses are those outside all of these networks.\<close>

definition non_public_nets :: "(byte list \<times> nat) list" where
  "non_public_nets = unusable_nets @ loopback_nets @ link_local_nets @ private_nets @ nonPublicSpecialPrefixes"

lemma global_unicast_nets:
  assumes "unmapped x = Some x"
  shows "IsGlobalUnicast x \<longleftrightarrow> \<not> in_nets (unusable_nets @ loopback_nets @ link_local_nets) x"
proof -
  have l: "length x = 4 \<or> length x = 16" using unmapped_length [OF assms] .
  have z: "IsUnspecified x \<or> ip_equal x IPv4bcast \<longleftrightarrow> x = [0, 0, 0, 0] \<or> x = [255, 255, 255, 255] \<or> x = IPv6unspecified"
    using l
  proof (cases x rule: address_shape)
    case (v4 c0 c1 c2 c3)
    then have x: "x = [c0, c1, c2, c3]" using assms by (auto simp: unmapped_def split: if_splits)
    have "take 12 IPv6unspecified \<noteq> v4InV6Prefix" "length IPv6unspecified = 16" by code_simp+
    moreover have "length x = 4" by (simp add: x)
    ultimately have "\<not> ip_equal x IPv6unspecified" "x \<noteq> IPv6unspecified" by (auto simp: ip_equal_def)
    with v4 show ?thesis by (auto simp: x IsUnspecified_def IPv4zero_def IPv4bcast_def ip_equal_mapped)
  next
    case (v6 c0 c1 r)
    have "length IPv6unspecified = 16" by (simp add: IPv6unspecified_def)
    with v6 show ?thesis by (auto simp: IsUnspecified_def IPv4zero_def IPv4bcast_def ip_equal_mapped ip_equal_def [of _ IPv6unspecified])
  qed
  show ?thesis using z class_nets [OF l] by (auto simp: IsGlobalUnicast_def in_nets_append)
qed

lemma public_nets: "isPublicInternetIPAddress a \<longleftrightarrow> unmapped a \<noteq> None \<and> \<not> in_nets non_public_nets a"
proof (cases "unmapped a")
  case (Some x)
  note x = unmapped_idem [OF Some]
  have "list_ex (\<lambda>p. prefix_contains p x) nonPublicSpecialPrefixes \<longleftrightarrow> in_nets nonPublicSpecialPrefixes a"
    by (simp add: in_nets_def Some)
  moreover have "IsPrivate x \<longleftrightarrow> in_nets private_nets a" using class_nets(2) unmapped_length [OF Some] in_nets_unmapped [OF Some] by blast
  ultimately show ?thesis
    using global_unicast_nets [OF x] in_nets_unmapped [OF Some] Some
    by (auto simp: isPublicInternetIPAddress_def non_public_nets_def in_nets_append)
qed (simp add: isPublicInternetIPAddress_def)

lemma permitted_private_nets:
  "isPermittedPrivateIPAddress a \<longleftrightarrow> in_nets (private_nets @ [sharedAddressSpacePrefix]) a"
proof (cases "unmapped a")
  case (Some x)
  have "IsPrivate x \<longleftrightarrow> in_nets private_nets a" using class_nets(2) unmapped_length [OF Some] in_nets_unmapped [OF Some] by blast
  with Some show ?thesis by (simp add: isPermittedPrivateIPAddress_def in_nets_append) (simp add: in_nets_def)
qed (simp add: isPermittedPrivateIPAddress_def in_nets_def)

section \<open>What a dial can reach\<close>

text \<open>The classes of an address that a policy lets through.\<close>

definition within :: "bool \<Rightarrow> bool \<Rightarrow> bool \<Rightarrow> ip \<Rightarrow> bool" where
  "within allowLoopback allowPrivate allowLinkLocal a =
     (a \<noteq> [] \<and> \<not> in_nets unusable_nets a \<and> (in_nets loopback_nets a \<longrightarrow> allowLoopback) \<and>
      (in_nets private_nets a \<longrightarrow> allowPrivate) \<and> (in_nets link_local_nets a \<longrightarrow> allowLinkLocal))"

lemma validated_within:
  assumes "validateResolvedOutboundIP a lo pr ll = None"
  shows "within lo pr ll a"
proof (cases "length a = 4 \<or> length a = 16")
  case True
  with assms class_nets [OF True] show ?thesis
    by (auto simp: within_def validateResolvedOutboundIP_def isPrivateIPAddress_def split: if_splits)
next
  case False
  then have "\<not> in_nets nets a" for nets using in_nets_length by blast
  with assms show ?thesis by (auto simp: within_def validateResolvedOutboundIP_def split: if_splits)
qed

definition within_public :: "bool \<Rightarrow> bool \<Rightarrow> bool \<Rightarrow> ip \<Rightarrow> bool" where
  "within_public allowLoopback allowPrivate allowLinkLocal a =
     (within allowLoopback allowPrivate allowLinkLocal a \<and>
      (\<not> in_nets non_public_nets a \<or> allowLoopback \<and> in_nets loopback_nets a \<or> allowLinkLocal \<and> in_nets link_local_nets a \<or>
       allowPrivate \<and> in_nets (private_nets @ [sharedAddressSpacePrefix]) a))"

lemma IsLoopback_nets: "IsLoopback a \<Longrightarrow> in_nets loopback_nets a"
proof -
  assume lo: "IsLoopback a"
  have "length IPv6loopback = 16" by (simp add: IPv6loopback_def)
  then have "length a = 4 \<or> length a = 16"
    using lo To4_length by (auto simp: IsLoopback_def ip_equal_def split: option.splits if_splits)
  with lo class_nets(1) show ?thesis by blast
qed

lemma IsLinkLocal_nets: "IsLinkLocalUnicast a \<Longrightarrow> in_nets link_local_nets a"
proof -
  assume ll: "IsLinkLocalUnicast a"
  then have "length a = 4 \<or> length a = 16"
    using To4_length by (auto simp: IsLinkLocalUnicast_def split: option.splits)
  with ll class_nets(3) show ?thesis by blast
qed

lemma validated_within_public:
  assumes "validateRestrictedResolvedIP a lo pr ll True = None"
  shows "within_public lo pr ll a"
proof -
  have v: "validateResolvedOutboundIP a lo pr ll = None"
    and c: "isPublicInternetIPAddress a \<or> IsLoopback a \<and> lo \<or> IsLinkLocalUnicast a \<and> ll \<or> pr \<and> isPermittedPrivateIPAddress a"
    using assms by (auto simp: validateRestrictedResolvedIP_def split: option.splits if_splits)
  from c have "\<not> in_nets non_public_nets a \<or> lo \<and> in_nets loopback_nets a \<or> ll \<and> in_nets link_local_nets a \<or>
      pr \<and> in_nets (private_nets @ [sharedAddressSpacePrefix]) a"
    using public_nets permitted_private_nets IsLoopback_nets IsLinkLocal_nets by blast
  with validated_within [OF v] show ?thesis by (simp add: within_public_def)
qed

lemma try_dial_subset: "set (fst (try_dial reaches xs)) \<subseteq> set xs"
  by (induction xs) (auto split: prod.splits)

lemma fst_dialed [simp]: "fst (dialed d) = fst d"
  by (simp add: dialed_def case_prod_beta)

text \<open>Every dialler resolves a name once, checks every address of the answer and only then tries them. Its
  interface is the check; what it reaches is what the check lets through.\<close>

locale address_guard =
  fixes check :: "ip \<Rightarrow> out_error option" and good :: "ip \<Rightarrow> bool"
  assumes check_good: "check a = None \<Longrightarrow> good a"
begin

lemma all_good: "first_error check xs = None \<Longrightarrow> a \<in> set xs \<Longrightarrow> good a"
  by (rule check_good) (simp add: first_error_None)

lemma tried_good: "first_error check xs = None \<Longrightarrow> a \<in> set (fst (try_dial reaches xs)) \<Longrightarrow> good a"
  by (erule all_good) (rule subsetD [OF try_dial_subset])

lemma tried_filtered_good:
  "first_error check xs = None \<Longrightarrow> a \<in> set (fst (try_dial reaches (filter p xs))) \<Longrightarrow> good a"
  by (rule tried_good [of "filter p xs"]) (simp_all add: first_error_None)

lemma single_good: "check x = None \<Longrightarrow> a \<in> set (fst (try_dial reaches [x])) \<Longrightarrow> good a"
  by (rule tried_good [of "[x]"]) simp_all

end

abbreviation env_loopback :: "env \<Rightarrow> bool" where "env_loopback env \<equiv> parseBoolEnv env envOutboundAllowLoopback False"
abbreviation env_private :: "env \<Rightarrow> bool" where "env_private env \<equiv> parseBoolEnv env envOutboundAllowPrivate False"
abbreviation env_link_local :: "env \<Rightarrow> bool" where "env_link_local env \<equiv> parseBoolEnv env envOutboundAllowLinkLocal False"

interpretation tcp_guard: address_guard "tcp_address_check env" "within (env_loopback env) (env_private env) (env_link_local env)" for env
  by unfold_locales (simp add: tcp_address_check_def validated_within)

interpretation plain_guard: address_guard "\<lambda>a. validateRestrictedResolvedIP a lo pr ll False" "within lo pr ll" for lo pr ll
  by unfold_locales (auto simp: validateRestrictedResolvedIP_def validated_within split: option.splits)

interpretation public_guard: address_guard "\<lambda>a. validateRestrictedResolvedIP a lo pr ll True" "within_public lo pr ll" for lo pr ll
  by unfold_locales (rule validated_within_public)

lemma manual_within:
  assumes "validateManualDeviceIP a = None"
  shows "within False True False a"
proof (cases "length a = 4 \<or> length a = 16")
  case True
  with assms class_nets [OF True] show ?thesis
    by (auto simp: within_def validateManualDeviceIP_def split: if_splits)
next
  case False
  then have "\<not> in_nets nets a" for nets using in_nets_length by blast
  with assms show ?thesis by (auto simp: within_def validateManualDeviceIP_def split: if_splits)
qed

interpretation manual_guard: address_guard validateManualDeviceIP "within False True False"
  by unfold_locales (rule manual_within)

lemma try_manual_good: "a \<in> set (fst (try_manual reaches xs)) \<Longrightarrow> within False True False a"
  by (induction xs) (auto split: option.splits prod.splits if_splits dest: manual_within)

lemma dial_tcp_cases:
  assumes "a \<in> set (fst (DialOutboundTCPContext parse_url env reaches dns host port))"
  shows "valid_port port \<and> tcp_name_check parse_url env (normalizeHostname host) = None \<and>
    within (env_loopback env) (env_private env) (env_link_local env) a"
  using assms tcp_guard.single_good tcp_guard.tried_filtered_good
  by (auto simp: DialOutboundTCPContext_def Let_def split: option.splits if_splits)

lemma resolve_tcp_cases:
  assumes "ResolveOutboundTCPHost parse_url env dns host port = Inr s"
  shows "valid_port port \<and> (\<exists>name a. CanonicalizeOutboundHost host = Inr name \<and> tcp_name_check parse_url env name = None \<and>
    s = ip_string a \<and> within (env_loopback env) (env_private env) (env_link_local env) a)"
proof -
  from assms obtain name where n: "CanonicalizeOutboundHost host = Inr name" "valid_port port"
    "tcp_name_check parse_url env name = None"
    by (auto simp: ResolveOutboundTCPHost_def split: option.splits if_splits sum.splits)
  have "\<exists>a. s = ip_string a \<and> within (env_loopback env) (env_private env) (env_link_local env) a"
  proof (cases "ParseIP name")
    case (Some ip)
    then have "tcp_address_check env ip = None" "s = ip_string ip"
      using assms n by (simp_all add: ResolveOutboundTCPHost_def split: option.splits)
    with tcp_guard.check_good show ?thesis by blast
  next
    case None
    then obtain addrs a where "first_error (tcp_address_check env) addrs = None" "find_first (\<lambda>a. a \<noteq> []) addrs = Some a" "s = ip_string a"
      using assms n by (simp add: ResolveOutboundTCPHost_def split: option.splits if_splits)
    with tcp_guard.all_good [of env addrs a] find_first_SomeD [of "\<lambda>a. a \<noteq> []" addrs a] show ?thesis by blast
  qed
  with n show ?thesis by blast
qed

lemma dial_validated_good:
  "a \<in> set (fst (dialOutboundValidated reaches dns address lo pr ll False)) \<Longrightarrow> within lo pr ll a"
  "a \<in> set (fst (dialOutboundValidated reaches dns address lo pr ll True)) \<Longrightarrow> within_public lo pr ll a"
  using plain_guard.single_good plain_guard.tried_good public_guard.single_good public_guard.tried_good
  by (auto simp: dialOutboundValidated_def Let_def split: option.splits if_splits)

lemma name_check_allowlist:
  "tcp_name_check parse_url env host = None \<Longrightarrow> parseBoolEnv env envOutboundAllowlistMode False \<Longrightarrow>
   \<exists>p \<in> set (parseAllowedHostPatterns parse_url env). hostMatchesPattern host p"
  by (auto simp: tcp_name_check_def allowlisted_def list_ex_iff split: if_splits)

end
