(* ===== verification/Outbound_Clients.thy ===== *)
theory Outbound_Clients
  imports Outbound_Safety
begin

text \<open>
  The outbound clients as their callers see them: raw TCP connections (\<open>DialOutboundTCPContext\<close>), connections to
  manually added devices (\<open>DialManualDeviceTCPTimeout\<close>), the origin-restricted HTTP client and the header filter
  for redirects. DNS answers, the reachability of an address and \<open>url.Parse\<close> are arguments, and two queries for
  one name may be answered differently.
\<close>

section \<open>Raw connections\<close>

text \<open>
  C27: Server-side request forgery. Whatever the DNS answers and whichever peers are up, every address that
  \<open>DialOutboundTCPContext\<close> tries is a usable unicast address whose class the operator allowed: never an unspecified,
  multicast or broadcast address, a loopback, private or link-local one only under its own switch. The port is valid,
  and in allowlist mode the name matches a pattern of the operator.
\<close>

theorem tcp_dial_stays_in_policy:
  assumes "a \<in> set (fst (DialOutboundTCPContext parse_url env reaches dns host port))"
  shows "within (env_loopback env) (env_private env) (env_link_local env) a \<and> valid_port port \<and>
    (parseBoolEnv env envOutboundAllowlistMode False \<longrightarrow>
      (\<exists>p \<in> set (parseAllowedHostPatterns parse_url env). hostMatchesPattern (normalizeHostname host) p))"
  using dial_tcp_cases [OF assms] name_check_allowlist by blast

theorem tcp_dial_stays_in_policy_witness:
  "within False False False [93, 184, 216, 34] \<and>
   [93, 184, 216, 34] \<in> set (fst (DialOutboundTCPContext (\<lambda>_. None) (\<lambda>_. None) (\<lambda>_. True)
     (\<lambda>h. if h = ''example.org'' then Some [[93, 184, 216, 34]] else None) ''Example.org.'' 22)) \<and>
   DialOutboundTCPContext (\<lambda>_. None) (\<lambda>_. None) (\<lambda>_. True)
     (\<lambda>h. if h = ''example.org'' then Some [[93, 184, 216, 34], [127, 0, 0, 1]] else None) ''Example.org.'' 22 = ([], Inl LoopbackAddress)"
proof -
  have a: "[93, 184, 216, 34] \<in> set (fst (DialOutboundTCPContext (\<lambda>_. None) (\<lambda>_. None) (\<lambda>_. True)
     (\<lambda>h. if h = ''example.org'' then Some [[93, 184, 216, 34]] else None) ''Example.org.'' 22))" by code_simp
  have p: "\<not> env_loopback (\<lambda>_. None)" "\<not> env_private (\<lambda>_. None)" "\<not> env_link_local (\<lambda>_. None)" by code_simp+
  have b: "DialOutboundTCPContext (\<lambda>_. None) (\<lambda>_. None) (\<lambda>_. True)
     (\<lambda>h. if h = ''example.org'' then Some [[93, 184, 216, 34], [127, 0, 0, 1]] else None) ''Example.org.'' 22 = ([], Inl LoopbackAddress)"
    by code_simp
  from tcp_dial_stays_in_policy [OF a] p a b show ?thesis by simp
qed

lemma manual_dial_good:
  assumes "a \<in> set (fst (DialManualDeviceTCPTimeout reaches dns host port))"
  shows "within False True False a \<and> valid_port port"
proof -
  define h where "h = trim_space host"
  note d = assms [unfolded DialManualDeviceTCPTimeout_def Let_def h_def [symmetric]]
  have v: "ValidateManualDeviceHost h = None" and p: "valid_port port"
    using d by (simp_all split: option.splits if_splits)
  have t: "trim_space h = h" by (simp add: h_def)
  have "within False True False a"
  proof (cases "ParseIP h")
    case (Some ip)
    then have "validateManualDeviceIP ip = None"
      using v by (simp add: ValidateManualDeviceHost_def t split: if_splits)
    moreover have "a = ip"
      using d v p Some by (auto split: if_splits)
    ultimately show ?thesis by (simp add: manual_within)
  next
    case None
    then obtain addrs where "a \<in> set (fst (try_manual reaches addrs))"
      using d v p by (auto split: option.splits if_splits)
    then show ?thesis by (rule try_manual_good)
  qed
  with p show ?thesis by blast
qed

section \<open>The origin-restricted client\<close>

lemma policy_url_parsed:
  "validateOutboundURLWithAddressPolicy parse_url env answers policy raw = Inr u \<Longrightarrow> parse_url (trim_space raw) = Some u"
  by (auto simp: validateOutboundURLWithAddressPolicy_def ValidateOutboundURL_def Let_def split: sum.splits option.splits if_splits)

lemma origins_loop_sound:
  assumes "origins_loop parse_url env answers policy n urls origins required = Inr (origins', scheme)" "x \<in> set origins'"
  shows "x \<in> set origins \<or> (\<exists>raw \<in> set urls. \<exists>u. parse_url (trim_space raw) = Some u \<and> canonicalOutboundOrigin u = Inr x)"
  using assms
proof (induction urls arbitrary: n origins required)
  case (Cons raw urls)
  from Cons.prems(1) obtain u y where u: "validateOutboundURLWithAddressPolicy parse_url env (answers n) policy raw = Inr u"
    and y: "canonicalOutboundOrigin u = Inr y"
    and r: "origins_loop parse_url env answers policy (Suc n) urls (origins @ [y]) (to_lower (trim_space (u_scheme u))) = Inr (origins', scheme)"
    by (auto simp: Let_def split: sum.splits if_splits)
  from Cons.IH [OF r Cons.prems(2)] policy_url_parsed [OF u] y show ?case by auto
qed simp

lemma round_trip_good:
  "a \<in> set (fst (validating_round_trip parse_url env reaches answers scheme (Some p) rawURL)) \<Longrightarrow>
   within_public (env_loopback env \<and> ap_loopback p) (resolvedOutboundAllowPrivate env scheme \<and> ap_private p)
     (env_link_local env \<and> ap_link_local p) a"
  using dial_validated_good(2)
  by (auto simp: validating_round_trip_def transport_dial_def Let_def split: sum.splits)

text \<open>
  C28: The origin-restricted HTTP client. Once the client is built for a list of allowed URLs, a request dials only
  when its own URL has the canonical origin (scheme, host and effective port) of one of them, and every address it
  tries is public or of a class that the operator's switches and the caller's policy both allow, even when the DNS
  answers of the check and of the connection differ.
\<close>

theorem restricted_client_stays_on_origins:
  assumes "validatedOutboundOrigins parse_url env answers0 policy urls = Inr (origins, scheme)"
    and "a \<in> set (fst (restricted_round_trip parse_url env reaches answers answers' scheme origins policy rawURL))"
  shows "within_public (env_loopback env \<and> ap_loopback policy) (resolvedOutboundAllowPrivate env scheme \<and> ap_private policy)
      (env_link_local env \<and> ap_link_local policy) a \<and>
    (\<exists>raw \<in> set urls. \<exists>u v origin. parse_url (trim_space raw) = Some u \<and> parse_url (trim_space rawURL) = Some v \<and>
      canonicalOutboundOrigin u = Inr origin \<and> canonicalOutboundOrigin v = Inr origin)"
proof -
  from assms(2) have g: "a \<in> set (fst (validating_round_trip parse_url env reaches answers' scheme (Some policy) rawURL))"
    and c: "validateOutboundURLAgainstOrigins parse_url env answers rawURL origins policy = None"
    by (auto simp: restricted_round_trip_def split: option.splits)
  from c obtain v x where v: "validateOutboundURLWithAddressPolicy parse_url env answers policy rawURL = Inr v"
    and x: "canonicalOutboundOrigin v = Inr x" "x \<in> set origins"
    by (auto simp: validateOutboundURLAgainstOrigins_def split: sum.splits if_splits)
  have l: "origins_loop parse_url env answers0 policy 0 urls [] [] = Inr (origins, scheme)"
    using assms(1) by (simp add: validatedOutboundOrigins_def split: if_splits)
  from origins_loop_sound [OF l x(2)] policy_url_parsed [OF v] x(1) round_trip_good [OF g] show ?thesis by auto
qed

definition hub_url :: "string \<Rightarrow> url option" where
  "hub_url s =
     (if s = ''https://hub.example/api'' \<or> s = ''https://hub.example:443/other''
      then Some \<lparr>u_scheme = ''https'', u_host = ''hub.example'', u_port = (if s = ''https://hub.example/api'' then [] else ''443''), u_user = False\<rparr>
      else None)"

theorem restricted_client_stays_on_origins_witness:
  "validatedOutboundOrigins hub_url (\<lambda>_. None) (\<lambda>_ _ _. Some [[93, 184, 216, 34]]) \<lparr>ap_private = False, ap_loopback = False, ap_link_local = False\<rparr>
     [''https://hub.example/api''] = Inr ([''https://hub.example:443''], ''https'') \<and>
   within_public False False False [93, 184, 216, 34]"
proof -
  have o: "validatedOutboundOrigins hub_url (\<lambda>_. None) (\<lambda>_ _ _. Some [[93, 184, 216, 34]])
      \<lparr>ap_private = False, ap_loopback = False, ap_link_local = False\<rparr> [''https://hub.example/api''] =
    Inr ([''https://hub.example:443''], ''https'')" by code_simp
  have a: "[93, 184, 216, 34] \<in> set (fst (restricted_round_trip hub_url (\<lambda>_. None) (\<lambda>_. True)
      (\<lambda>_ _. Some [[93, 184, 216, 34]]) (\<lambda>_ _. Some [[93, 184, 216, 34]]) ''https'' [''https://hub.example:443'']
      \<lparr>ap_private = False, ap_loopback = False, ap_link_local = False\<rparr> ''https://hub.example:443/other''))" by code_simp
  from restricted_client_stays_on_origins [OF o a] o show ?thesis by simp
qed

section \<open>Redirects\<close>

text \<open>Header maps that were filled through \<open>Header.Set\<close> and \<open>Header.Add\<close> have canonical names.\<close>

lemma fold_delete_keys:
  "map_of (foldl (\<lambda>h name. if keep name then h else AList.delete (canon name) h) hs names) k = Some v \<Longrightarrow>
   map_of hs k = Some v \<and> (\<forall>name \<in> set names. keep name \<or> canon name \<noteq> k)"
proof (induction names arbitrary: hs)
  case (Cons n names)
  show ?case
  proof (cases "keep n")
    case True
    with Cons.IH [of hs] Cons.prems show ?thesis by simp
  next
    case False
    with Cons.IH [of "AList.delete (canon n) hs"] Cons.prems show ?thesis by (simp add: delete_conv' split: if_splits)
  qed
qed simp

lemma redirect_headers:
  assumes "limitCrossHostRedirect target hs body (Some origin) = Inr hs'"
    and "\<not> equal_fold (u_host origin) (u_host target) \<or>
      equal_fold (u_scheme origin) ''https'' \<and> \<not> equal_fold (u_scheme target) ''https''"
    and "\<forall>k \<in> set (map fst hs). CanonicalHeaderKey k = k"
  shows "\<not> body \<and> (\<forall>k v. map_of hs' k = Some v \<longrightarrow> k \<in> set crossHostRedirectHeaders \<and> map_of hs k = Some v)"
proof -
  have b: "\<not> body" and h: "hs' = foldl (\<lambda>h name. if CanonicalHeaderKey name \<in> set crossHostRedirectHeaders then h
      else AList.delete (CanonicalHeaderKey name) h) hs (map fst hs)"
    using assms(1,2) by (auto simp: limitCrossHostRedirect_def Let_def split: if_splits)
  have "k \<in> set crossHostRedirectHeaders \<and> map_of hs k = Some v" if "map_of hs' k = Some v" for k v
  proof -
    from fold_delete_keys [OF that [unfolded h]] have o: "map_of hs k = Some v"
      and d: "\<forall>n \<in> set (map fst hs). CanonicalHeaderKey n \<in> set crossHostRedirectHeaders \<or> CanonicalHeaderKey n \<noteq> k" by auto
    from o have "k \<in> set (map fst hs)" using map_of_SomeD [OF o] by (metis fst_conv image_eqI set_map)
    with d assms(3) have "k \<in> set crossHostRedirectHeaders" by metis
    with o show ?thesis by blast
  qed
  with b show ?thesis by blast
qed



lemma restricted_redirect_same_origin:
  assumes "restricted_check_redirect parse_url env answers answers' prior origins policy rawURL target hs body (origin # via) = Follow hs'"
  shows "\<exists>x v y. canonicalOutboundOrigin origin = Inr x \<and> canonicalOutboundOrigin target = Inr x \<and>
    parse_url (trim_space rawURL) = Some v \<and> canonicalOutboundOrigin v = Inr y \<and> y \<in> set origins"
proof -
  have o: "validateOutboundURLAgainstOrigins parse_url env answers rawURL origins policy = None"
    and x: "\<exists>x. canonicalOutboundOrigin origin = Inr x \<and> canonicalOutboundOrigin target = Inr x"
    using assms by (auto simp: restricted_check_redirect_def split: option.splits sum.splits if_splits)
  from o obtain v y where "validateOutboundURLWithAddressPolicy parse_url env answers policy rawURL = Inr v"
    "canonicalOutboundOrigin v = Inr y" "y \<in> set origins"
    by (auto simp: validateOutboundURLAgainstOrigins_def split: sum.splits if_splits)
  with x policy_url_parsed show ?thesis by blast
qed

lemma tcp_dial_context_good:
  assumes "a \<in> set (fst (OutboundTCPDialContext parse_url env reaches dns network address))"
  shows "within (env_loopback env) (env_private env) (env_link_local env) a"
proof -
  from assms obtain host port where "a \<in> set (fst (DialOutboundTCPContext parse_url env reaches dns host port))"
    by (auto simp: OutboundTCPDialContext_def split: if_splits option.splits)
  from dial_tcp_cases [OF this] show ?thesis by blast
qed

section \<open>The transport cache\<close>

definition cache_ok :: "transport_cache \<Rightarrow> bool" where
  "cache_ok c =
     (distinct (map fst (tc_entries c)) \<and> length (tc_entries c) \<le> maxCachedOutboundTransports \<and>
      list_all (\<lambda>(k, t). t < length (tc_built c) \<and> tc_built c ! t = k) (tc_entries c))"

lemma delete_shorter: "k \<in> fst ` set xs \<Longrightarrow> length (AList.delete k xs) < length xs"
proof -
  assume "k \<in> fst ` set xs"
  then obtain x where "x \<in> set xs" "fst x = k" by blast
  then show ?thesis unfolding AList.delete_eq by (intro length_filter_less [of x]) auto
qed

lemma update_fresh: "k \<notin> fst ` set xs \<Longrightarrow> AList.update k v xs = xs @ [(k, v)]"
  by (induction xs) auto

lemma transport_matches_key:
  assumes "cache_ok c" "cachedSecureOutboundTransport pick key c = (t, c')"
  shows "cache_ok c' \<and> t < length (tc_built c') \<and> tc_built c' ! t = key \<and> map_of (tc_entries c') key = Some t"
proof (cases "map_of (tc_entries c) key")
  case (Some u)
  then have "(key, u) \<in> set (tc_entries c)" by (rule map_of_SomeD)
  with assms Some show ?thesis by (auto simp: cachedSecureOutboundTransport_def cache_ok_def list_all_iff)
next
  case None
  define es where "es = (if maxCachedOutboundTransports \<le> length (tc_entries c)
    then AList.delete (fst (tc_entries c ! (pick mod length (tc_entries c)))) (tc_entries c) else tc_entries c)"
  have c': "t = length (tc_built c)" "c' = \<lparr>tc_entries = AList.update key t es, tc_built = tc_built c @ [key]\<rparr>"
    using assms(2) [unfolded cachedSecureOutboundTransport_def Let_def es_def [symmetric]] None by auto
  have sub: "set es \<subseteq> set (tc_entries c)" by (auto simp: es_def AList.delete_eq)
  have len: "length es < maxCachedOutboundTransports"
  proof (cases "maxCachedOutboundTransports \<le> length (tc_entries c)")
    case True
    then have "tc_entries c \<noteq> []" by (auto simp: maxCachedOutboundTransports_def)
    then have "fst (tc_entries c ! (pick mod length (tc_entries c))) \<in> fst ` set (tc_entries c)" by simp
    from delete_shorter [OF this] True assms(1) show ?thesis by (simp add: es_def cache_ok_def)
  qed (simp add: es_def)
  have dist: "distinct (map fst es)" using assms(1) by (simp add: es_def cache_ok_def distinct_delete)
  have new: "key \<notin> fst ` set es" using None sub by (auto simp: map_of_eq_None_iff)
  have "list_all (\<lambda>(k, u). u < length (tc_built c') \<and> tc_built c' ! u = k) es"
    using assms(1) sub by (auto simp: cache_ok_def list_all_iff c' nth_append)
  with len dist new show ?thesis
    by (simp add: cache_ok_def c' update_fresh map_add_def nth_append map_of_eq_None_iff [THEN iffD2])
qed

end
