(* ===== verification/Exec_Policy.thy ===== *)
theory Exec_Policy
  imports Outbound_Policy Command_Policy
begin

text \<open>
  The runtime policy for programs and structured commands (\<open>internal/securityruntime/command.go\<close>): which binaries
  the hub starts itself, and which command lines its executors accept. The lists and switches come from the
  environment as in \<open>Outbound_Policy\<close>; parsing, rules and quoting are those of \<open>Command_Policy\<close>.
\<close>

section \<open>Definitions\<close>

definition envExecAllowlistMode :: string where "envExecAllowlistMode = ''LABTETHER_EXEC_ALLOWLIST_MODE''"
definition envExecAllowedBinaries :: string where "envExecAllowedBinaries = ''LABTETHER_EXEC_ALLOWED_BINARIES''"
definition envExecBlockedBinaries :: string where "envExecBlockedBinaries = ''LABTETHER_EXEC_BLOCKED_BINARIES''"
definition envShellAllowlistMode :: string where "envShellAllowlistMode = ''LABTETHER_SHELL_COMMAND_ALLOWLIST_MODE''"
definition envShellAllowlistPrefixes :: string where "envShellAllowlistPrefixes = ''LABTETHER_SHELL_COMMAND_ALLOWLIST_PREFIXES''"
definition envShellBlockedSubstrings :: string where "envShellBlockedSubstrings = ''LABTETHER_SHELL_COMMAND_BLOCKED_SUBSTRINGS''"

definition defaultAllowedExecBinaries :: "string list" where
  "defaultAllowedExecBinaries =
     [''apk'', ''apt'', ''apt-get'', ''ash'', ''bash'', ''brew'', ''cat'', ''cmd'', ''dash'', ''defaults'', ''df'', ''dnf'',
      ''docker'', ''docker-compose'', ''dpkg-query'', ''dscl'', ''du'', ''ffmpeg'', ''free'', ''grep'', ''gst-inspect-1.0'',
      ''gst-launch-1.0'', ''head'', ''ifconfig'', ''ip'', ''istats'', ''journalctl'', ''launchctl'', ''loginctl'', ''log'',
      ''ls'', ''lscpu'', ''netplan'', ''netstat'', ''networksetup'', ''needs-restarting'', ''nmcli'', ''osascript'',
      ''osx-cpu-temp'', ''pacman'', ''pbcopy'', ''pbpaste'', ''ping'', ''plutil'', ''powershell'', ''ps'', ''pwsh'', ''route'',
      ''rpm'', ''sensors'', ''sh'', ''sysctl'', ''system_profiler'', ''systemctl'', ''tailscale'', ''tail'', ''tmux'', ''top'',
      ''uname'', ''uptime'', ''vncserver'', ''tvnserver'', ''winvnc4'', ''who'', ''xvfb'', ''x11vnc'', ''xsetroot'', ''xterm'',
      ''yum'', ''xclip'', ''xdotool'', ''ydotool'', ''xrandr'', ''xsel'', ''xset'', ''zsh'', ''zypper'']"

definition defaultShellAllowlistPrefixes :: "string list" where
  "defaultShellAllowlistPrefixes =
     [''uptime'', ''uname'', ''df'', ''du'', ''free'', ''ps'', ''top'', ''journalctl'', ''systemctl status'', ''docker ps'',
      ''docker images'', ''ls'', ''cat'', ''grep'', ''tail'', ''head'']"

definition defaultShellBlockedSubstrings :: "string list" where
  "defaultShellBlockedSubstrings =
     [''rm -rf /'', '':(){ :|:& };:'', ''mkfs'', ''systemctl poweroff'', ''systemctl reboot'', ''systemctl halt'']"

definition defaultShellBlockedTokens :: "string list" where
  "defaultShellBlockedTokens = [''shutdown'', ''reboot'', ''halt'', ''poweroff'', ''init'']"

text \<open>\<open>filepath.Base\<close> on a system with slashes.\<close>

definition path_base :: "string \<Rightarrow> string" where
  "path_base path =
     (if path = [] then ''.''
      else let path = trim_right_by (\<lambda>c. c = CHR ''/'') path; last = after_last (\<lambda>c. c = CHR ''/'') path
           in if last = [] then ''/'' else last)"

definition normalizeExecutableName :: "string \<Rightarrow> string" where
  "normalizeExecutableName name =
     (let trimmed = trim_space name
      in if trimmed = [] then []
         else let trimmed = map (\<lambda>c. if c = chr_backslash then CHR ''/'' else c) trimmed;
                  trimmed = trim_space (path_base trimmed)
              in if trimmed = [] then [] else to_lower trimmed)"

definition normalizeShellCommand :: "string \<Rightarrow> string" where
  "normalizeShellCommand raw =
     (let parts = fields (to_lower (trim_space raw)) in if length parts = 0 then [] else join_with '' '' parts)"

definition toSet :: "string list \<Rightarrow> (string \<Rightarrow> string) \<Rightarrow> string set" where
  "toSet values key = set (filter (\<lambda>k. k \<noteq> []) (map key values))"

datatype exec_error =
  ExecRequired | ExecBlocked string | ExecNotAllowlisted string
| ShellRequired | ShellParse parse_error | ShellBlocked | ShellNotAllowlisted | ShellInterpreter

definition ValidateExecBinary :: "env \<Rightarrow> string \<Rightarrow> exec_error option" where
  "ValidateExecBinary env name =
     (let normalized = normalizeExecutableName name
      in if normalized = [] then Some ExecRequired
         else if normalized \<in> toSet (parseCSVEnv env envExecBlockedBinaries []) normalizeExecutableName
         then Some (ExecBlocked normalized)
         else if \<not> parseBoolEnv env envExecAllowlistMode True then None
         else if normalized \<in> toSet (parseCSVEnv env envExecAllowedBinaries defaultAllowedExecBinaries) normalizeExecutableName
         then None
         else Some (ExecNotAllowlisted normalized))"

definition containsCommandToken :: "string \<Rightarrow> string \<Rightarrow> bool" where
  "containsCommandToken normalizedCmd token = list_ex (\<lambda>word. word = token) (fields normalizedCmd)"

definition blocked_substring :: "env \<Rightarrow> string \<Rightarrow> bool" where
  "blocked_substring env normalized =
     list_ex (\<lambda>blocked. let token = normalizeShellCommand blocked in token \<noteq> [] \<and> contains normalized token)
       (parseCSVEnv env envShellBlockedSubstrings defaultShellBlockedSubstrings)"

definition blocked_token :: "string \<Rightarrow> bool" where
  "blocked_token normalized =
     list_ex (\<lambda>tok. let normTok = to_lower (trim_space tok) in normTok \<noteq> [] \<and> containsCommandToken normalized normTok)
       defaultShellBlockedTokens"

definition ValidateShellCommand :: "env \<Rightarrow> string \<Rightarrow> exec_error option" where
  "ValidateShellCommand env command =
     (let normalized = normalizeShellCommand command
      in if normalized = [] then Some ShellRequired
         else case ParseArgv command of
                Inl e \<Rightarrow> Some (ShellParse e)
              | Inr argv \<Rightarrow>
                  if blocked_substring env normalized then Some ShellBlocked
                  else if blocked_token normalized then Some ShellBlocked
                  else if \<not> parseBoolEnv env envShellAllowlistMode True then None
                  else if list_ex (MatchesRule argv) (parseCSVEnv env envShellAllowlistPrefixes defaultShellAllowlistPrefixes) then None
                  else Some ShellNotAllowlisted)"

definition interpreter_names :: "string list" where
  "interpreter_names = [''sh'', ''bash'', ''zsh'', ''dash'', ''ash'', ''cmd'', ''powershell'', ''pwsh'', ''osascript'']"

definition ParseValidatedShellCommand :: "env \<Rightarrow> string \<Rightarrow> (exec_error, string list) res" where
  "ParseValidatedShellCommand env command =
     (case ValidateShellCommand env command of
        Some e \<Rightarrow> Inl e
      | None \<Rightarrow>
          (case ParseArgv command of
             Inl e \<Rightarrow> Inl (ShellParse e)
           | Inr argv \<Rightarrow>
               if normalizeExecutableName (hd argv) \<in> set interpreter_names then Inl ShellInterpreter else Inr argv))"

definition QuoteCommandArgv :: "string list \<Rightarrow> string" where
  "QuoteCommandArgv argv = QuoteArgv argv"

text \<open>The command value that \<open>exec.Cmd\<close> stands for: the program and its arguments.\<close>

definition NewCommandContext :: "env \<Rightarrow> string \<Rightarrow> string list \<Rightarrow> (exec_error, string \<times> string list) res" where
  "NewCommandContext env name args =
     (case ValidateExecBinary env name of Some e \<Rightarrow> Inl e | None \<Rightarrow> Inr (name, args))"

section \<open>Words of a command\<close>

lemma fields_from_lower: "fields_from (to_lower cur) (to_lower s) = map to_lower (fields_from cur s)"
proof (induction cur s rule: fields_from.induct)
  case (2 cur c cs)
  then show ?case by (simp add: to_lower_def)
qed (simp add: to_lower_def)

lemma fields_lower: "fields (to_lower s) = map to_lower (fields s)"
  using fields_from_lower [of "[]" s] by (simp add: fields_def to_lower_def)

lemma fields_from_spaces: "\<forall>c \<in> set s. is_space c \<Longrightarrow> fields_from cur (s @ t) = (if s = [] then fields_from cur t else (if cur = [] then [] else [cur]) @ fields_from [] t)"
  by (induction s arbitrary: cur) auto

lemma fields_from_append_space: "\<forall>c \<in> set t. is_space c \<Longrightarrow> fields_from cur (s @ t) = fields_from cur s"
proof (induction cur s rule: fields_from.induct)
  case (1 cur)
  then show ?case using fields_from_spaces [of t cur "[]"] by auto
qed auto

lemma fields_trim: "fields (trim_space s) = fields s"
proof -
  define l where "l = takeWhile is_space s"
  define r where "r = dropWhile is_space s"
  have s: "s = l @ r" by (simp add: l_def r_def)
  have "\<forall>c \<in> set l. is_space c" by (auto simp: l_def dest: set_takeWhileD)
  then have "fields_from [] (l @ r) = fields_from [] r" using fields_from_spaces [of l "[]" r] by simp
  then have "fields s = fields r" by (simp add: fields_def flip: s)
  moreover have "r = trim_space s @ rev (takeWhile is_space (rev r))"
    by (simp add: trim_space_def trim_left_by_def trim_right_by_def r_def flip: rev_append)
  moreover have "\<forall>c \<in> set (rev (takeWhile is_space (rev r))). is_space c" by (auto dest: set_takeWhileD)
  ultimately show ?thesis unfolding fields_def by (metis fields_from_append_space)
qed

definition word :: "string \<Rightarrow> bool" where
  "word w = (w \<noteq> [] \<and> list_all (\<lambda>c. \<not> is_space c) w)"

lemma fields_from_words: "list_all (\<lambda>c. \<not> is_space c) cur \<Longrightarrow> list_all word (fields_from cur s)"
proof (induction cur s rule: fields_from.induct)
  case (2 cur c cs)
  then show ?case by (auto simp: word_def)
qed (simp add: word_def)

lemma fields_words: "list_all word (fields s)"
  unfolding fields_def by (rule fields_from_words) simp

lemma word_lower: "word (to_lower w) = word w"
  by (simp add: word_def to_lower_def list_all_iff)

lemma fields_from_word: "list_all (\<lambda>c. \<not> is_space c) w \<Longrightarrow> fields_from cur (w @ s) = fields_from (cur @ w) s"
  by (induction w arbitrary: cur) auto

lemma fields_join: "list_all word ws \<Longrightarrow> fields (join_with '' '' ws) = ws"
proof (induction ws rule: induct_list012)
  case (2 w)
  then show ?case using fields_from_word [of w "[]" "[]"] by (simp add: fields_def word_def)
next
  case (3 w v ws)
  then have "fields_from [] (join_with '' '' (v # ws)) = v # ws" by (simp add: fields_def)
  with 3 show ?case
    using fields_from_word [of w "[]" "'' '' @ join_with '' '' (v # ws)"]
    by (simp add: fields_def word_def is_space_def)
qed (simp add: fields_def)

lemma normalized_command: "normalizeShellCommand s = join_with '' '' (map to_lower (fields s))"
proof -
  have "fields (to_lower (trim_space s)) = map to_lower (fields s)" by (simp add: fields_lower fields_trim)
  then show ?thesis by (simp add: normalizeShellCommand_def)
qed

lemma normalized_words: "fields (normalizeShellCommand s) = map to_lower (fields s)"
  unfolding normalized_command
  by (rule fields_join) (use fields_words [of s] in \<open>simp add: list_all_iff word_lower\<close>)

lemma blocked_token_iff: "blocked_token (normalizeShellCommand s) \<longleftrightarrow> (\<exists>w \<in> set (fields s). to_lower w \<in> set defaultShellBlockedTokens)"
proof -
  have "list_all (\<lambda>tok. to_lower (trim_space tok) = tok \<and> tok \<noteq> []) defaultShellBlockedTokens" by code_simp
  then have "blocked_token n \<longleftrightarrow> (\<exists>tok \<in> set defaultShellBlockedTokens. tok \<in> set (fields n))" for n
    unfolding blocked_token_def containsCommandToken_def list_ex_iff list_all_iff Let_def by metis
  then show ?thesis by (auto simp: normalized_words)
qed

lemma unquoted_argv:
  assumes "\<forall>c \<in> set raw. \<not> quoting_char c" "ParseArgv raw = Inr argv"
  shows "argv = fields raw"
proof -
  have p: "plain_parser parser_init" "p_argv parser_init = []" "p_current parser_init = []"
    by (simp_all add: plain_parser_def parser_init_def)
  from assms(2) obtain st where st: "parse_loop parser_init raw = Inr st" "parse_finish st = Inr argv"
    by (auto simp: ParseArgv_def split: sum.splits)
  from parse_loop_plain [OF p(1) assms(1)] st(1) have "p_argv (flush_token st) = fields raw"
    by (simp add: p fields_def split: option.splits)
  with st(2) show ?thesis by (simp add: parse_finish_Inr)
qed

section \<open>Properties\<close>

text \<open>
  C31: A structured command that the runtime policy accepts is exactly the argument vector of its text. Its program
  is no command interpreter by base name, in allowlist mode it matches a rule of the list, and a command written
  without quotes and backslashes has no blocked word, in any case, and contains no blocked phrase.
\<close>

theorem structured_command_obeys_policy:
  assumes "ParseValidatedShellCommand env command = Inr argv"
  shows "ParseArgv command = Inr argv \<and> normalizeExecutableName (hd argv) \<notin> set interpreter_names \<and>
    (parseBoolEnv env envShellAllowlistMode True \<longrightarrow>
      list_ex (MatchesRule argv) (parseCSVEnv env envShellAllowlistPrefixes defaultShellAllowlistPrefixes)) \<and>
    ((\<forall>c \<in> set command. \<not> quoting_char c) \<longrightarrow>
      list_all (\<lambda>a. to_lower a \<notin> set defaultShellBlockedTokens) argv \<and> \<not> blocked_substring env (join_with '' '' (map to_lower argv)))"
proof -
  have v: "ValidateShellCommand env command = None" and a: "ParseArgv command = Inr argv"
    and i: "normalizeExecutableName (hd argv) \<notin> set interpreter_names"
    using assms by (auto simp: ParseValidatedShellCommand_def split: option.splits sum.splits if_splits)
  from v a have b: "\<not> blocked_substring env (normalizeShellCommand command)" "\<not> blocked_token (normalizeShellCommand command)"
    and l: "parseBoolEnv env envShellAllowlistMode True \<longrightarrow>
      list_ex (MatchesRule argv) (parseCSVEnv env envShellAllowlistPrefixes defaultShellAllowlistPrefixes)"
    by (auto simp: ValidateShellCommand_def Let_def split: if_splits)
  from b have "list_all (\<lambda>a. to_lower a \<notin> set defaultShellBlockedTokens) argv \<and> \<not> blocked_substring env (join_with '' '' (map to_lower argv))"
    if "\<forall>c \<in> set command. \<not> quoting_char c"
    using unquoted_argv [OF that a] b(1) [unfolded normalized_command] b(2) [unfolded blocked_token_iff] by (simp add: list_all_iff)
  with a i l show ?thesis by blast
qed

theorem structured_command_obeys_policy_witness:
  "ParseValidatedShellCommand (\<lambda>_. None) ''docker ps -a'' = Inr [''docker'', ''ps'', ''-a''] \<and>
   list_all (\<lambda>a. to_lower a \<notin> set defaultShellBlockedTokens) [''docker'', ''ps'', ''-a''] \<and>
   ParseValidatedShellCommand (\<lambda>_. None) ''cat shutdown'' = Inl ShellBlocked"
proof -
  have a: "ParseValidatedShellCommand (\<lambda>_. None) ''docker ps -a'' = Inr [''docker'', ''ps'', ''-a'']" by code_simp
  have q: "\<forall>c \<in> set ''docker ps -a''. \<not> quoting_char c" by (simp add: quoting_char_def)
  have b: "ParseValidatedShellCommand (\<lambda>_. None) ''cat shutdown'' = Inl ShellBlocked" by code_simp
  from structured_command_obeys_policy [OF a] q a b show ?thesis by blast
qed

text \<open>The blocked words are compared with the words of the text, so quotes hide them; and the interpreters are
  compared with their .exe suffix, unlike in \<open>isCommandInterpreter\<close>. Both matter when the allowlist mode is off.\<close>

lemma quoted_word_is_not_blocked:
  "ParseValidatedShellCommand [envShellAllowlistMode \<mapsto> ''false''] (chr_dquote # ''shutdown'' @ chr_dquote # '' now'') = Inr [''shutdown'', ''now'']"
  "ParseValidatedShellCommand [envShellAllowlistMode \<mapsto> ''false''] ''shutdown now'' = Inl ShellBlocked"
  by code_simp+

lemma interpreter_suffix_is_not_stripped:
  "ParseValidatedShellCommand [envShellAllowlistMode \<mapsto> ''false''] ''cmd.exe /c dir'' = Inr [''cmd.exe'', ''/c'', ''dir'']"
  "isCommandInterpreter ''cmd.exe''"
  by code_simp+

end
