(* ===== verification/Command_Executor.thy ===== *)
theory Command_Executor
  imports Outbound_Clients Exec_Policy
begin

text \<open>
  The executor of terminal commands in the worker (\<open>internal/hubapi/operations/worker_command_executor.go\<close>, with the
  environment helpers and the host-key policy of \<open>internal/hubapi/shared\<close> and \<open>DialOutboundSSHContext\<close>): a
  job runs simulated, as a local process or over SSH, and its output is kept up to a bound.

  What happens outside the hub is an argument: the DNS and the peers as in \<open>Outbound_Policy\<close>, the parsers of URLs,
  keys and durations, the handshake, and a \<open>process\<close> with the chunks it wrote, its error and the state of the
  context when it ended. The text of an error is an argument too. An execution returns what it did (the
  addresses tried and the command it started) beside its result.
\<close>

section \<open>Bounded output\<close>

definition defaultMaxOutputBytes :: int where "defaultMaxOutputBytes = 64 * 1024"
definition absoluteMaxOutputBytes :: int where "absoluteMaxOutputBytes = 10 * 1024 * 1024"

record capped_output =
  co_data :: string
  co_total :: int
  co_limit :: int

definition newCappedOutputWriter :: "int \<Rightarrow> capped_output" where
  "newCappedOutputWriter limit =
     (let limit = (if limit \<le> 0 then 8 * 1024 else limit);
          limit = (if absoluteMaxOutputBytes < limit then absoluteMaxOutputBytes else limit)
      in \<lparr>co_data = [], co_total = 0, co_limit = limit\<rparr>)"

definition capped_write :: "capped_output \<Rightarrow> string \<Rightarrow> capped_output" where
  "capped_write w payload =
     (let w = w\<lparr>co_total := co_total w + int (length payload)\<rparr>;
          remaining = co_limit w - int (length (co_data w))
      in if 0 < remaining
         then let retain = min remaining (int (length payload))
              in w\<lparr>co_data := co_data w @ take (nat retain) payload\<rparr>
         else w)"

definition truncated_text :: "string \<Rightarrow> int \<Rightarrow> string" where
  "truncated_text prefix n =
     prefix @ [chr_lf] @ ''...output truncated ('' @ itoa (nat n) @ '' bytes total)''"

definition capped_string :: "capped_output \<Rightarrow> string" where
  "capped_string w =
     (let prefix = trim_space (co_data w)
      in if co_total w \<le> int (length (co_data w)) then prefix else truncated_text prefix (co_total w))"

definition TruncateOutput :: "string \<Rightarrow> int \<Rightarrow> string" where
  "TruncateOutput payload maxBytes =
     (let maxBytes = (if maxBytes \<le> 0 then 8 * 1024 else maxBytes)
      in if int (length payload) \<le> maxBytes then trim_space payload
         else truncated_text (trim_space (take (nat maxBytes) payload)) (int (length payload)))"

definition OutputForError :: "string \<Rightarrow> string option \<Rightarrow> string" where
  "OutputForError output err =
     (let trimmedOutput = trim_space output
      in case err of
           None \<Rightarrow> trimmedOutput
         | Some e \<Rightarrow> if trimmedOutput = [] then e else trimmedOutput @ [chr_lf] @ ''error: '' @ e)"

section \<open>Configuration\<close>

definition EnvOrDefault :: "env \<Rightarrow> string \<Rightarrow> string \<Rightarrow> string" where
  "EnvOrDefault os key fallback = (case os key of None \<Rightarrow> fallback | Some v \<Rightarrow> if v \<noteq> [] then v else fallback)"

definition EnvOrDefaultInt :: "env \<Rightarrow> string \<Rightarrow> int \<Rightarrow> int" where
  "EnvOrDefaultInt os key fallback =
     (let raw = env_text os key
      in if raw = [] then fallback
         else case atoi raw of None \<Rightarrow> fallback | Some parsed \<Rightarrow> if parsed \<le> 0 then fallback else parsed)"

definition EnvOrDefaultBool :: "env \<Rightarrow> string \<Rightarrow> bool \<Rightarrow> bool" where
  "EnvOrDefaultBool os key fallback =
     (let raw = env_text os key
      in if raw = [] then fallback else case ParseBool raw of None \<Rightarrow> fallback | Some parsed \<Rightarrow> parsed)"

definition EnvOrDefaultDuration :: "(string \<Rightarrow> int option) \<Rightarrow> env \<Rightarrow> string \<Rightarrow> int \<Rightarrow> int" where
  "EnvOrDefaultDuration parse_duration os key fallback =
     (let raw = env_text os key
      in if raw = [] then fallback
         else case parse_duration raw of None \<Rightarrow> fallback | Some parsed \<Rightarrow> if parsed \<le> 0 then fallback else parsed)"

datatype executor_mode = ExecutorModeDisabled | ExecutorModeSimulated | ExecutorModeSSH | ExecutorModeLocal

record executor_config =
  ec_mode :: executor_mode
  ec_timeout :: int
  ec_max_output :: int

definition LoadCommandExecutorConfig :: "(string \<Rightarrow> int option) \<Rightarrow> env \<Rightarrow> executor_config" where
  "LoadCommandExecutorConfig parse_duration os =
     (let mode = to_lower (trim_space (EnvOrDefault os ''TERMINAL_EXECUTOR_MODE'' ''disabled''))
      in \<lparr>ec_mode = (if mode = ''simulated'' then ExecutorModeSimulated else if mode = ''ssh'' then ExecutorModeSSH
                     else if mode = ''local'' then ExecutorModeLocal else ExecutorModeDisabled),
          ec_timeout = EnvOrDefaultDuration parse_duration os ''TERMINAL_COMMAND_TIMEOUT'' (30 * 1000000000),
          ec_max_output = min (EnvOrDefaultInt os ''TERMINAL_MAX_OUTPUT_BYTES'' defaultMaxOutputBytes) absoluteMaxOutputBytes\<rparr>)"

record ssh_config =
  sc_host :: string
  sc_port :: int
  sc_user :: string
  sc_password :: string
  sc_private_key :: string
  sc_passphrase :: string
  sc_strict_host_key :: bool
  sc_host_key :: string

record command_job =
  cj_target :: string
  cj_command :: string
  cj_ssh :: "ssh_config option"

record ssh_target =
  st_user :: string
  st_host :: string
  st_port :: int

section \<open>SSH targets\<close>

text \<open>\<open>ssh_url\<close> is \<open>url.Parse\<close> with the host name, the port and the user name it returns.\<close>

definition last_at :: "string \<Rightarrow> nat option" where
  "last_at s = (if CHR ''@'' \<in> set s then Some (length s - Suc (length (after_last (\<lambda>c. c = CHR ''@'') s))) else None)"

definition parse_plain_target :: "string \<Rightarrow> ssh_target \<Rightarrow> (string, ssh_target) res" where
  "parse_plain_target target ov =
     (let (ov, hostPart) =
            (case last_at target of
               Some at \<Rightarrow> if 0 < at then (ov\<lparr>st_user := trim_space (take at target)\<rparr>, drop (at + 1) target) else (ov, target)
             | None \<Rightarrow> (ov, target))
      in if trim_space hostPart = [] then Inl ''invalid ssh target host''
         else case SplitHostPort hostPart of
                Some (host, port) \<Rightarrow>
                  (case atoi (trim_space port) of
                     None \<Rightarrow> Inl ''invalid ssh target port''
                   | Some portInt \<Rightarrow>
                       if portInt \<le> 0 then Inl ''invalid ssh target port''
                       else Inr (ov\<lparr>st_host := trim_space host, st_port := portInt\<rparr>))
              | None \<Rightarrow> Inr (ov\<lparr>st_host := trim_space hostPart\<rparr>))"

definition parse_url_target ::
    "(string \<Rightarrow> (string \<times> string \<times> string option) option) \<Rightarrow> string \<Rightarrow> ssh_target \<Rightarrow> (string, ssh_target) res" where
  "parse_url_target ssh_url target ov =
     (case ssh_url target of
        None \<Rightarrow> Inl ''invalid ssh target''
      | Some (host, port, user) \<Rightarrow>
          (let ov = ov\<lparr>st_host := trim_space host\<rparr>;
               finish = (\<lambda>ov. Inr (case user of None \<Rightarrow> ov | Some u \<Rightarrow> ov\<lparr>st_user := trim_space u\<rparr>))
           in if port = [] then finish ov
              else case atoi port of
                     None \<Rightarrow> Inl ''invalid ssh target port''
                   | Some p \<Rightarrow> if p \<le> 0 then Inl ''invalid ssh target port'' else finish (ov\<lparr>st_port := p\<rparr>)))"

definition ParseSSHTarget ::
    "(string \<Rightarrow> (string \<times> string \<times> string option) option) \<Rightarrow> string \<Rightarrow> string \<Rightarrow> int \<Rightarrow> (string, ssh_target) res" where
  "ParseSSHTarget ssh_url raw defaultUser defaultPort =
     (let target = trim_space raw
      in if target = [] then Inl ''target is required''
         else
           (let defaultPort = (if defaultPort \<le> 0 then 22 else defaultPort);
                ov = \<lparr>st_user = trim_space defaultUser, st_host = [], st_port = defaultPort\<rparr>
            in case (if has_prefix (to_lower target) ''ssh://'' then parse_url_target ssh_url target ov else parse_plain_target target ov) of
                 Inl e \<Rightarrow> Inl e
               | Inr ov \<Rightarrow>
                   if st_host ov = [] then Inl ''ssh host is required''
                   else if st_user ov = [] then Inl ''ssh user is required''
                   else Inr (if st_port ov \<le> 0 then ov\<lparr>st_port := 22\<rparr> else ov)))"

definition trimmed_ssh_config :: "ssh_config \<Rightarrow> ssh_config" where
  "trimmed_ssh_config c =
     c\<lparr>sc_host := trim_space (sc_host c), sc_user := trim_space (sc_user c), sc_password := trim_space (sc_password c),
       sc_private_key := trim_space (sc_private_key c), sc_passphrase := trim_space (sc_passphrase c),
       sc_host_key := trim_space (sc_host_key c)\<rparr>"

definition ResolveJobSSHConfig ::
    "(string \<Rightarrow> (string \<times> string \<times> string option) option) \<Rightarrow> env \<Rightarrow> command_job \<Rightarrow> (string, ssh_config) res" where
  "ResolveJobSSHConfig ssh_url os job =
     (let defaultUser = trim_space (EnvOrDefault os ''SSH_USERNAME'' []);
          defaultPort = EnvOrDefaultInt os ''SSH_PORT'' 22;
          defaultPort = (if defaultPort \<le> 0 then 22 else defaultPort);
          from_target =
            (case ParseSSHTarget ssh_url (cj_target job) defaultUser defaultPort of
               Inl e \<Rightarrow> Inl e
             | Inr t \<Rightarrow> Inr \<lparr>sc_host = st_host t, sc_port = st_port t, sc_user = st_user t, sc_password = [], sc_private_key = [],
                            sc_passphrase = [], sc_strict_host_key = False, sc_host_key = []\<rparr>)
      in case cj_ssh job of
           None \<Rightarrow> from_target
         | Some c \<Rightarrow>
             if trim_space (sc_host c) = [] then from_target
             else
               (let resolved = trimmed_ssh_config c;
                    resolved = (if sc_port resolved \<le> 0 then resolved\<lparr>sc_port := defaultPort\<rparr> else resolved);
                    resolved = (if sc_user resolved = [] then resolved\<lparr>sc_user := defaultUser\<rparr> else resolved)
                in if sc_user resolved = [] then Inl ''ssh user is required'' else Inr resolved))"

section \<open>Host keys and credentials\<close>

datatype host_key_check = IgnoreHostKey | KnownHosts | FixedHostKey string | KeyOrFingerprint string

definition EnvAllowInsecureSSHHostKeys :: string where
  "EnvAllowInsecureSSHHostKeys = ''LABTETHER_ALLOW_INSECURE_SSH_HOST_KEYS''"

definition InsecureSSHHostKeysAllowed :: "env \<Rightarrow> bool" where
  "InsecureSSHHostKeysAllowed os = EnvOrDefaultBool os EnvAllowInsecureSSHHostKeys False"

text \<open>\<open>known_hosts\<close> says whether known-hosts files are found and load, \<open>authorized_key\<close> whether a text is an
  OpenSSH key.\<close>

definition shared_host_key_callback :: "bool \<Rightarrow> (string \<Rightarrow> bool) \<Rightarrow> env \<Rightarrow> bool \<Rightarrow> string \<Rightarrow> host_key_check option" where
  "shared_host_key_callback known_hosts authorized_key os strict expected =
     (let expected = trim_space expected
      in if \<not> strict \<and> InsecureSSHHostKeysAllowed os then Some IgnoreHostKey
         else if expected = [] then (if known_hosts then Some KnownHosts else None)
         else if authorized_key expected then Some (FixedHostKey expected)
         else Some (KeyOrFingerprint expected))"

text \<open>Whether the callback accepts the key of the server, given its fingerprint, its encoding and its OpenSSH text.\<close>

record server_key =
  sk_fingerprint :: string
  sk_encoded :: string
  sk_authorized :: string
  sk_known :: bool

fun host_key_accepted :: "host_key_check \<Rightarrow> server_key \<Rightarrow> bool" where
  "host_key_accepted IgnoreHostKey key = True"
| "host_key_accepted KnownHosts key = sk_known key"
| "host_key_accepted (FixedHostKey k) key = (sk_authorized key = k)"
| "host_key_accepted (KeyOrFingerprint e) key = (trim_space (sk_fingerprint key) = e \<or> sk_encoded key = e)"

definition executor_host_key_callback ::
    "bool \<Rightarrow> (string \<Rightarrow> bool) \<Rightarrow> env \<Rightarrow> ssh_config \<Rightarrow> (string, host_key_check) res" where
  "executor_host_key_callback known_hosts authorized_key os cfg =
     (let strict = EnvOrDefaultBool os ''SSH_STRICT_HOST_KEY'' True;
          expected = trim_space (EnvOrDefault os ''SSH_HOST_KEY'' []);
          (strict, expected) =
            (if sc_strict_host_key cfg then (True, trim_space (sc_host_key cfg))
             else if trim_space (sc_host_key cfg) \<noteq> [] then (strict, trim_space (sc_host_key cfg))
             else (strict, expected))
      in case shared_host_key_callback known_hosts authorized_key os strict expected of
           None \<Rightarrow> Inl ''strict host key enabled but no SSH_HOST_KEY provided and no known_hosts file is available''
         | Some callback \<Rightarrow> Inr callback)"

fun replace_escapes :: "string \<Rightarrow> string" where
  "replace_escapes (c # d # s) =
     (if c = chr_backslash \<and> d = CHR ''n'' then chr_lf # replace_escapes s else c # replace_escapes (d # s))"
| "replace_escapes s = s"

definition NormalizePrivateKey :: "string \<Rightarrow> string" where
  "NormalizePrivateKey raw = (let trimmed = trim_space raw in if trimmed = [] then [] else replace_escapes trimmed)"

datatype auth_method = Password string | PublicKey string string

text \<open>The sources of a method in their order: the method, none, or an error. \<open>usable\<close> says whether a key parses
  under a passphrase, \<open>decode\<close> is base64 and \<open>read_file\<close> the file system.\<close>

definition parseSigner :: "(string \<Rightarrow> string \<Rightarrow> bool) \<Rightarrow> string \<Rightarrow> string \<Rightarrow> (string, auth_method list) res" where
  "parseSigner usable keyRaw passphrase =
     (let keyRaw = NormalizePrivateKey keyRaw
      in if trim_space keyRaw = [] then Inr []
         else let passphrase = (if trim_space passphrase \<noteq> [] then passphrase else [])
              in if usable keyRaw passphrase then Inr [PublicKey keyRaw passphrase] else Inl ''invalid ssh private key'')"

definition password_method :: "string \<Rightarrow> (string, auth_method list) res" where
  "password_method raw = (let password = trim_space raw in Inr (if password \<noteq> [] then [Password password] else []))"

definition with_source :: "string option \<Rightarrow> string \<Rightarrow> (string \<Rightarrow> (string, auth_method list) res) \<Rightarrow> (string, auth_method list) res" where
  "with_source content err f = (case content of None \<Rightarrow> Inl err | Some v \<Rightarrow> f v)"

fun collect_methods :: "(string, auth_method list) res list \<Rightarrow> (string, auth_method list) res" where
  "collect_methods [] = Inr []"
| "collect_methods (r # rs) =
     (case r of
        Inl e \<Rightarrow> Inl e
      | Inr ms \<Rightarrow> (case collect_methods rs of Inl e \<Rightarrow> Inl e | Inr ms' \<Rightarrow> Inr (ms @ ms')))"

definition ResolveSSHAuthMethods ::
    "(string \<Rightarrow> string \<Rightarrow> bool) \<Rightarrow> (string \<Rightarrow> string option) \<Rightarrow> (string \<Rightarrow> string option) \<Rightarrow> env \<Rightarrow> ssh_config \<Rightarrow>
     (string, auth_method list) res" where
  "ResolveSSHAuthMethods usable decode read_file os cfg =
     (let setting = (\<lambda>key. trim_space (EnvOrDefault os key [])); passphrase = setting ''SSH_PRIVATE_KEY_PASSPHRASE''
      in case collect_methods
           [password_method (sc_password cfg),
            if trim_space (sc_private_key cfg) \<noteq> [] then parseSigner usable (sc_private_key cfg) (sc_passphrase cfg) else Inr [],
            password_method (setting ''SSH_PASSWORD''),
            if setting ''SSH_PRIVATE_KEY_B64'' \<noteq> []
            then with_source (decode (setting ''SSH_PRIVATE_KEY_B64'')) ''invalid SSH_PRIVATE_KEY_B64'' (\<lambda>k. parseSigner usable k passphrase)
            else Inr [],
            if setting ''SSH_PRIVATE_KEY'' \<noteq> [] then parseSigner usable (setting ''SSH_PRIVATE_KEY'') passphrase else Inr [],
            if setting ''SSH_PRIVATE_KEY_PATH'' \<noteq> []
            then with_source (read_file (setting ''SSH_PRIVATE_KEY_PATH'')) ''unable to read SSH_PRIVATE_KEY_PATH'' (\<lambda>k. parseSigner usable k passphrase)
            else Inr []] of
           Inl e \<Rightarrow> Inl e
         | Inr methods \<Rightarrow> if length methods = 0 then Inl ''no ssh auth method configured'' else Inr methods)"

section \<open>Execution\<close>

text \<open>The state of the command's context: live, ended by its own deadline, or ended by the caller with an error.\<close>

datatype context_state = ContextLive | OwnDeadline | CallerEnded string

datatype command_error = PolicyError exec_error | ConfigError string | DialError out_error | ContextError context_state
  | SessionError string | ProcessError string | StoppedError string string

definition stoppedCommandError :: "string \<Rightarrow> context_state \<Rightarrow> string \<Rightarrow> command_error" where
  "stoppedCommandError kind ctx timeout =
     StoppedError kind (case ctx of
        CallerEnded e \<Rightarrow> kind @ '' interrupted; outcome unknown: '' @ e
      | _ \<Rightarrow> kind @ '' timed out after '' @ timeout @ ''; outcome unknown'')"

record process =
  pr_chunks :: "string list"
  pr_error :: "string option"
  pr_context :: context_state

definition process_output :: "int \<Rightarrow> process \<Rightarrow> string" where
  "process_output limit p = capped_string (foldl capped_write (newCappedOutputWriter limit) (pr_chunks p))"

definition run_result :: "string \<Rightarrow> string \<Rightarrow> int \<Rightarrow> process \<Rightarrow> string \<times> command_error option" where
  "run_result kind timeout limit p =
     (process_output limit p,
      if pr_context p \<noteq> ContextLive then Some (stoppedCommandError kind (pr_context p) timeout)
      else map_option ProcessError (pr_error p))"

text \<open>What an execution did: the addresses it tried, the program it started or the text it sent to a remote shell.\<close>

datatype effect = Tried "ip list" | Started string "string list" | Sent ssh_config host_key_check string

definition ExecuteLocalCommandContext ::
    "env \<Rightarrow> string \<Rightarrow> (string \<Rightarrow> string list \<Rightarrow> process) \<Rightarrow> command_job \<Rightarrow> executor_config \<Rightarrow>
     effect list \<times> string \<times> command_error option" where
  "ExecuteLocalCommandContext env timeout spawn job cfg =
     (case ParseValidatedShellCommand env (cj_command job) of
        Inl e \<Rightarrow> ([], [], Some (PolicyError e))
      | Inr argv \<Rightarrow>
          (case NewCommandContext env (hd argv) (tl argv) of
             Inl e \<Rightarrow> ([], [], Some (PolicyError e))
           | Inr (name, args) \<Rightarrow> ([Started name args], run_result ''command'' timeout (ec_max_output cfg) (spawn name args))))"

text \<open>The surroundings of an SSH execution. The checks of the context happen at the start, after the session is
  open, and when the command ended.\<close>

record ssh_world =
  sw_url :: "string \<Rightarrow> url option"
  sw_ssh_url :: "string \<Rightarrow> (string \<times> string \<times> string option) option"
  sw_usable :: "string \<Rightarrow> string \<Rightarrow> bool"
  sw_decode :: "string \<Rightarrow> string option"
  sw_read_file :: "string \<Rightarrow> string option"
  sw_known_hosts :: bool
  sw_authorized_key :: "string \<Rightarrow> bool"
  sw_reaches :: "ip \<Rightarrow> bool"
  sw_dns :: dns
  sw_handshake :: "ip \<Rightarrow> host_key_check \<Rightarrow> auth_method list \<Rightarrow> string option"
  sw_session_error :: "string option"
  sw_context_start :: context_state
  sw_context_session :: context_state
  sw_run :: "string \<Rightarrow> process"

definition DialOutboundSSHContext ::
    "env \<Rightarrow> ssh_world \<Rightarrow> ssh_config \<Rightarrow> host_key_check \<Rightarrow> auth_method list \<Rightarrow> ip list \<times> command_error option" where
  "DialOutboundSSHContext env w cfg check auth =
     (case DialOutboundTCPContext (sw_url w) env (sw_reaches w) (sw_dns w) (sc_host cfg) (sc_port cfg) of
        (tried, Inl e) \<Rightarrow> (tried, Some (DialError e))
      | (tried, Inr a) \<Rightarrow> (tried, map_option SessionError (sw_handshake w a check auth)))"

definition ssh_session ::
    "string \<Rightarrow> ssh_world \<Rightarrow> int \<Rightarrow> ssh_config \<Rightarrow> host_key_check \<Rightarrow> string \<Rightarrow> effect list \<times> string \<times> command_error option" where
  "ssh_session timeout w limit cfg check remoteCommand =
     (case sw_session_error w of
        Some e \<Rightarrow> ([], [], Some (SessionError e))
      | None \<Rightarrow>
          if sw_context_session w \<noteq> ContextLive then ([], [], Some (ContextError (sw_context_session w)))
          else ([Sent cfg check remoteCommand], run_result ''ssh command'' timeout limit (sw_run w remoteCommand)))"

definition ExecuteSSHCommandContext ::
    "env \<Rightarrow> env \<Rightarrow> string \<Rightarrow> ssh_world \<Rightarrow> command_job \<Rightarrow> executor_config \<Rightarrow> effect list \<times> string \<times> command_error option" where
  "ExecuteSSHCommandContext env os timeout w job ec =
     (if sw_context_start w \<noteq> ContextLive then ([], [], Some (ContextError (sw_context_start w)))
      else case ParseValidatedShellCommand env (cj_command job) of
        Inl e \<Rightarrow> ([], [], Some (PolicyError e))
      | Inr argv \<Rightarrow>
          (let remoteCommand = QuoteCommandArgv argv
           in case ResolveJobSSHConfig (sw_ssh_url w) os job of
                Inl e \<Rightarrow> ([], [], Some (ConfigError e))
              | Inr cfg \<Rightarrow>
                  (case ResolveSSHAuthMethods (sw_usable w) (sw_decode w) (sw_read_file w) os cfg of
                     Inl e \<Rightarrow> ([], [], Some (ConfigError e))
                   | Inr auth \<Rightarrow>
                       (case executor_host_key_callback (sw_known_hosts w) (sw_authorized_key w) os cfg of
                          Inl e \<Rightarrow> ([], [], Some (ConfigError e))
                        | Inr check \<Rightarrow>
                            (case DialOutboundSSHContext env w cfg check auth of
                               (tried, Some e) \<Rightarrow> ([Tried tried], [], Some e)
                             | (tried, None) \<Rightarrow>
                                 (case ssh_session timeout w (ec_max_output ec) cfg check remoteCommand of
                                    (effects, result) \<Rightarrow> (Tried tried # effects, result)))))))"

definition ExecuteSimulatedCommand :: "command_job \<Rightarrow> string \<times> string" where
  "ExecuteSimulatedCommand job =
     (if contains (to_lower (cj_command job)) ''fail'' then (''failed'', ''simulated command failure'')
      else (''succeeded'', ''simulated execution on '' @ cj_target job @ '': '' @ cj_command job))"

definition command_status :: "(command_error \<Rightarrow> string) \<Rightarrow> effect list \<times> string \<times> command_error option \<Rightarrow> effect list \<times> string \<times> string" where
  "command_status err_text r =
     (case r of
        (effects, out, Some e) \<Rightarrow> (effects, ''failed'', OutputForError out (Some (err_text e)))
      | (effects, out, None) \<Rightarrow> (effects, ''succeeded'', out))"

definition ExecuteConfiguredCommandContext ::
    "(command_error \<Rightarrow> string) \<Rightarrow> bool \<Rightarrow> env \<Rightarrow> env \<Rightarrow> string \<Rightarrow> (string \<Rightarrow> string list \<Rightarrow> process) \<Rightarrow> ssh_world \<Rightarrow>
     command_job \<Rightarrow> executor_config \<Rightarrow> effect list \<times> string \<times> string" where
  "ExecuteConfiguredCommandContext err_text canceled env os timeout spawn w job cfg =
     (if canceled then ([], ''failed'', ''command canceled before dispatch; no changes applied'')
      else case ec_mode cfg of
        ExecutorModeSimulated \<Rightarrow> ([], ExecuteSimulatedCommand job)
      | ExecutorModeSSH \<Rightarrow> command_status err_text (ExecuteSSHCommandContext env os timeout w job cfg)
      | ExecutorModeLocal \<Rightarrow> command_status err_text (ExecuteLocalCommandContext env timeout spawn job cfg)
      | ExecutorModeDisabled \<Rightarrow>
          ([], ''failed'', ''command executor unavailable: target agent is disconnected and no fallback executor is configured''))"

section \<open>The bounded writer\<close>

definition effective_limit :: "int \<Rightarrow> int" where
  "effective_limit limit = min (if limit \<le> 0 then 8 * 1024 else limit) absoluteMaxOutputBytes"

lemma effective_limit_pos: "0 < effective_limit limit"
  by (auto simp: effective_limit_def absoluteMaxOutputBytes_def)

lemma capped_write_data:
  assumes "int (length (co_data w)) \<le> co_limit w"
  shows "co_data (capped_write w c) = co_data w @ take (nat (co_limit w) - length (co_data w)) c"
    "co_limit (capped_write w c) = co_limit w" "co_total (capped_write w c) = co_total w + int (length c)"
  using assms by (auto simp: capped_write_def Let_def min_def nat_diff_distrib)

lemma capped_writes:
  "int (length (co_data w)) \<le> co_limit w \<Longrightarrow>
   co_data (foldl capped_write w chunks) = co_data w @ take (nat (co_limit w) - length (co_data w)) (concat chunks) \<and>
   co_total (foldl capped_write w chunks) = co_total w + int (length (concat chunks))"
proof (induction chunks arbitrary: w)
  case (Cons c cs)
  note d = capped_write_data [OF Cons.prems, of c]
  have "int (length (co_data (capped_write w c))) \<le> co_limit (capped_write w c)" using Cons.prems by (simp add: d)
  moreover have "nat (co_limit w) - (length (co_data w) + min (length c) (nat (co_limit w) - length (co_data w))) =
    nat (co_limit w) - (length (co_data w) + length c)" by (simp add: min_def)
  ultimately show ?case using Cons.IH [of "capped_write w c"] by (simp add: d)
qed simp

lemma process_output_truncates:
  "process_output limit p = TruncateOutput (concat (pr_chunks p)) (effective_limit limit)"
proof -
  define w where "w = newCappedOutputWriter limit"
  let ?s = "concat (pr_chunks p)"
  have w: "co_limit w = effective_limit limit" "co_data w = []" "co_total w = 0"
    by (auto simp: w_def newCappedOutputWriter_def effective_limit_def absoluteMaxOutputBytes_def Let_def)
  have f: "co_data (foldl capped_write w (pr_chunks p)) = take (nat (effective_limit limit)) ?s"
    "co_total (foldl capped_write w (pr_chunks p)) = int (length ?s)"
    using capped_writes [of w "pr_chunks p"] effective_limit_pos [of limit] by (simp_all add: w)
  show ?thesis
    using effective_limit_pos [of limit]
    by (auto simp: process_output_def w_def [symmetric] f capped_string_def TruncateOutput_def Let_def min_def)
qed

text \<open>
  C33: Streamed output equals truncated output. Whatever chunks a process writes on its two pipes, in any split, the
  text the executor reports is what \<open>TruncateOutput\<close> makes of the whole output at once, under the configured bound
  or the absolute one.
\<close>

theorem streamed_output_is_truncation:
  "capped_string (foldl capped_write (newCappedOutputWriter limit) chunks) =
   TruncateOutput (concat chunks) (min (if limit \<le> 0 then 8192 else limit) 10485760)"
  using process_output_truncates [of limit "\<lparr>pr_chunks = chunks, pr_error = None, pr_context = ContextLive\<rparr>"]
  by (simp add: process_output_def effective_limit_def absoluteMaxOutputBytes_def)

section \<open>What is executed\<close>

lemma validated_roundtrip:
  assumes "ParseValidatedShellCommand env command = Inr argv"
  shows "ParseArgv (QuoteCommandArgv argv) = Inr argv"
proof -
  have "ParseArgv command = Inr argv"
    using assms by (auto simp: ParseValidatedShellCommand_def split: option.splits sum.splits if_splits)
  then show ?thesis unfolding QuoteCommandArgv_def by (intro ParseArgv_QuoteArgv ParseArgv_clean)
qed

lemma ignored_host_key:
  assumes "executor_host_key_callback known key os cfg = Inr IgnoreHostKey"
  shows "InsecureSSHHostKeysAllowed os \<and> \<not> EnvOrDefaultBool os ''SSH_STRICT_HOST_KEY'' True \<and> \<not> sc_strict_host_key cfg"
  using assms by (auto simp: executor_host_key_callback_def shared_host_key_callback_def Let_def split: option.splits if_splits)

lemma ssh_session_effects:
  "x \<in> set (fst (ssh_session timeout w limit cfg check remote)) \<Longrightarrow> x = Sent cfg check remote"
  by (auto simp: ssh_session_def split: option.splits if_splits)

lemma ssh_dial_within:
  "a \<in> set (fst (DialOutboundSSHContext env w cfg check auth)) \<Longrightarrow> within (env_loopback env) (env_private env) (env_link_local env) a"
  using dial_tcp_cases [of a "sw_url w" env "sw_reaches w" "sw_dns w" "sc_host cfg" "sc_port cfg"]
  by (auto simp: DialOutboundSSHContext_def split: prod.splits sum.splits)

lemma ssh_effects:
  assumes "x \<in> set (fst (ExecuteSSHCommandContext env os timeout w job ec))"
  shows "\<exists>argv cfg check auth. ParseValidatedShellCommand env (cj_command job) = Inr argv \<and>
    executor_host_key_callback (sw_known_hosts w) (sw_authorized_key w) os cfg = Inr check \<and>
    (x = Tried (fst (DialOutboundSSHContext env w cfg check auth)) \<or> x = Sent cfg check (QuoteCommandArgv argv))"
proof -
  from assms obtain argv cfg auth check where p: "ParseValidatedShellCommand env (cj_command job) = Inr argv"
    and c: "executor_host_key_callback (sw_known_hosts w) (sw_authorized_key w) os cfg = Inr check"
    and x: "x \<in> set (fst (case DialOutboundSSHContext env w cfg check auth of
        (tried, Some e) \<Rightarrow> ([Tried tried], [], Some e)
      | (tried, None) \<Rightarrow> (case ssh_session timeout w (ec_max_output ec) cfg check (QuoteCommandArgv argv) of
          (effects, result) \<Rightarrow> (Tried tried # effects, result))))"
    unfolding ExecuteSSHCommandContext_def Let_def by (auto split: if_splits sum.splits)
  have "x = Tried (fst (DialOutboundSSHContext env w cfg check auth)) \<or> x = Sent cfg check (QuoteCommandArgv argv)"
    using x ssh_session_effects [of x timeout w "ec_max_output ec" cfg check "QuoteCommandArgv argv"]
    by (auto split: prod.splits option.splits)
  with p c show ?thesis by blast
qed

lemma local_effects:
  assumes "x \<in> set (fst (ExecuteLocalCommandContext env timeout spawn job cfg))"
  shows "\<exists>name args. x = Started name args \<and> ParseValidatedShellCommand env (cj_command job) = Inr (name # args) \<and> ValidateExecBinary env name = None"
proof -
  from assms obtain argv where p: "ParseValidatedShellCommand env (cj_command job) = Inr argv"
    and x: "x = Started (hd argv) (tl argv)" and v: "ValidateExecBinary env (hd argv) = None"
    by (auto simp: ExecuteLocalCommandContext_def NewCommandContext_def split: sum.splits option.splits)
  have "ParseArgv (QuoteCommandArgv argv) = Inr argv" using p by (rule validated_roundtrip)
  then have "argv \<noteq> []" by (rule ParseArgv_clean(1))
  with p x v show ?thesis by (intro exI [of _ "hd argv"] exI [of _ "tl argv"]) simp
qed

lemma command_status_effects: "fst (command_status err_text r) = fst r"
  by (simp add: command_status_def split: prod.splits option.splits)

text \<open>
  C32: The executor of terminal commands, end to end. It starts a local program only for a command that the runtime
  policy accepted and whose binary is allowed. What it sends to a remote shell splits back into the accepted
  argument vector; the server's key goes unchecked only when the process-wide acknowledgement is set, strict
  checking is off and the job does not ask for it; and every address it tries is within the outbound policy. A cancelled
  job, and the disabled and simulated modes, do nothing.
\<close>

theorem executor_runs_validated_commands:
  assumes "ExecuteConfiguredCommandContext err_text canceled env os timeout spawn w job cfg = (effects, status, out)" "x \<in> set effects"
  shows "\<not> canceled \<and> ec_mode cfg \<in> {ExecutorModeSSH, ExecutorModeLocal} \<and>
    (case x of
       Started name args \<Rightarrow> ParseValidatedShellCommand env (cj_command job) = Inr (name # args) \<and> ValidateExecBinary env name = None
     | Tried tried \<Rightarrow> list_all (within (env_loopback env) (env_private env) (env_link_local env)) tried
     | Sent c check remote \<Rightarrow>
         ParseArgv remote = ParseArgv (cj_command job) \<and> (\<exists>argv. ParseValidatedShellCommand env (cj_command job) = Inr argv \<and> ParseArgv remote = Inr argv) \<and>
         (check = IgnoreHostKey \<longrightarrow>
           InsecureSSHHostKeysAllowed os \<and> \<not> EnvOrDefaultBool os ''SSH_STRICT_HOST_KEY'' True \<and> \<not> sc_strict_host_key c))"
proof (cases "ec_mode cfg = ExecutorModeSSH")
  case True
  then have n: "\<not> canceled" and "x \<in> set (fst (ExecuteSSHCommandContext env os timeout w job cfg))"
    using assms command_status_effects [of err_text "ExecuteSSHCommandContext env os timeout w job cfg"]
    by (auto simp: ExecuteConfiguredCommandContext_def split: if_splits)
  from ssh_effects [OF this(2)] obtain argv c check auth where p: "ParseValidatedShellCommand env (cj_command job) = Inr argv"
    and k: "executor_host_key_callback (sw_known_hosts w) (sw_authorized_key w) os c = Inr check"
    and x: "x = Tried (fst (DialOutboundSSHContext env w c check auth)) \<or> x = Sent c check (QuoteCommandArgv argv)" by blast
  have "ParseArgv (cj_command job) = Inr argv"
    using p by (auto simp: ParseValidatedShellCommand_def split: option.splits sum.splits if_splits)
  with x n True p validated_roundtrip [OF p] ignored_host_key k ssh_dial_within [of _ env w c check auth] show ?thesis
    by (auto simp: list_all_iff)
next
  case False
  then have "\<not> canceled" "ec_mode cfg = ExecutorModeLocal" "x \<in> set (fst (ExecuteLocalCommandContext env timeout spawn job cfg))"
    using assms command_status_effects [of err_text "ExecuteLocalCommandContext env timeout spawn job cfg"]
    by (auto simp: ExecuteConfiguredCommandContext_def split: if_splits executor_mode.splits)
  with local_effects [OF this(3)] show ?thesis by auto
qed

definition sample_world :: ssh_world where
  "sample_world =
     \<lparr>sw_url = \<lambda>_. None, sw_ssh_url = \<lambda>_. None, sw_usable = \<lambda>_ _. False, sw_decode = \<lambda>_. None, sw_read_file = \<lambda>_. None,
      sw_known_hosts = True, sw_authorized_key = \<lambda>_. False, sw_reaches = \<lambda>_. True,
      sw_dns = \<lambda>_. Some [[93, 184, 216, 34]], sw_handshake = \<lambda>_ _ _. None, sw_session_error = None,
      sw_context_start = ContextLive, sw_context_session = ContextLive,
      sw_run = \<lambda>_. \<lparr>pr_chunks = [''total 0''], pr_error = None, pr_context = ContextLive\<rparr>\<rparr>"

definition sample_job :: command_job where
  "sample_job = \<lparr>cj_target = ''root@example.org:2222'', cj_command = ''ls -l'', cj_ssh = None\<rparr>"

definition sample_target :: ssh_config where
  "sample_target =
     \<lparr>sc_host = ''example.org'', sc_port = 2222, sc_user = ''root'', sc_password = [], sc_private_key = [], sc_passphrase = [],
      sc_strict_host_key = False, sc_host_key = []\<rparr>"

theorem executor_runs_validated_commands_witness:
  "ExecuteConfiguredCommandContext (\<lambda>_. []) False (\<lambda>_. None) [''SSH_PASSWORD'' \<mapsto> ''secret''] ''30s''
     (\<lambda>_ _. \<lparr>pr_chunks = [], pr_error = None, pr_context = ContextLive\<rparr>) sample_world sample_job
     \<lparr>ec_mode = ExecutorModeSSH, ec_timeout = 30, ec_max_output = 100\<rparr> =
   ([Tried [[93, 184, 216, 34]], Sent sample_target KnownHosts (QuoteArgv [''ls'', ''-l''])], ''succeeded'', ''total 0'') \<and>
   ParseArgv (QuoteArgv [''ls'', ''-l'']) = ParseArgv ''ls -l''"
proof -
  have r: "ExecuteConfiguredCommandContext (\<lambda>_. []) False (\<lambda>_. None) [''SSH_PASSWORD'' \<mapsto> ''secret''] ''30s''
     (\<lambda>_ _. \<lparr>pr_chunks = [], pr_error = None, pr_context = ContextLive\<rparr>) sample_world sample_job
     \<lparr>ec_mode = ExecutorModeSSH, ec_timeout = 30, ec_max_output = 100\<rparr> =
   ([Tried [[93, 184, 216, 34]], Sent sample_target KnownHosts (QuoteArgv [''ls'', ''-l''])], ''succeeded'', ''total 0'')"
    by code_simp
  have c: "cj_command sample_job = ''ls -l''" by (simp add: sample_job_def)
  from executor_runs_validated_commands [OF r, of "Sent sample_target KnownHosts (QuoteArgv [''ls'', ''-l''])"] r c
  show ?thesis by simp
qed

end
