(* ===== verification/Alert_Instances.thy ===== *)
theory Alert_Instances
  imports LT_Prelude "HOL-Library.List_Lexorder" "HOL-Library.Char_ord" "HOL-Library.Word"
begin

text \<open>
  Alert instances and silences (\<open>internal/alerts\<close>, \<open>internal/persistence/memory_alert_instance_store.go\<close>,
  \<open>memory_alert_instance_firing.go\<close>, \<open>memory_alert_instance_snapshot.go\<close> and the fingerprint part of
  \<open>memory_alert_rule_timing.go\<close>). An instance is pending, then firing, perhaps acknowledged, and at last resolved.

  Every operation of the store that takes a context has an argument \<open>ended\<close>: the checks of the context all come
  before the effect, so a context that ends makes the operation fail without one. The digest of a fingerprint is an
  argument. Statuses are a datatype, since every stored status went through \<open>NormalizeInstanceStatus\<close>.
\<close>

section \<open>Types\<close>

definition one_of :: "string list \<Rightarrow> string \<Rightarrow> string" where
  "one_of known value = (let v = to_lower (trim_space value) in if v \<in> set known then v else [])"

definition NormalizeSeverity :: "string \<Rightarrow> string" where
  "NormalizeSeverity = one_of [''critical'', ''high'', ''medium'', ''low'']"

definition NormalizeRuleStatus :: "string \<Rightarrow> string" where
  "NormalizeRuleStatus = one_of [''active'', ''paused'']"

definition NormalizeRuleKind :: "string \<Rightarrow> string" where
  "NormalizeRuleKind =
     one_of [''metric_threshold'', ''metric_deadman'', ''heartbeat_stale'', ''log_pattern'', ''composite'', ''synthetic_check'']"

definition NormalizeTargetScope :: "string \<Rightarrow> string" where
  "NormalizeTargetScope = one_of [''asset'', ''group'', ''global'']"

definition NormalizeEvaluationStatus :: "string \<Rightarrow> string" where
  "NormalizeEvaluationStatus = one_of [''ok'', ''triggered'', ''suppressed'', ''error'']"

definition MaxDurationSeconds :: int where
  "MaxDurationSeconds = 2 ^ 31 - 1"

definition ValidateDurationSeconds :: "int \<Rightarrow> bool" where
  "ValidateDurationSeconds value = (\<not> (value < 0 \<or> MaxDurationSeconds < value))"

text \<open>The product is taken in 64 bits.\<close>

definition DurationFromSeconds :: "int \<Rightarrow> duration \<Rightarrow> duration" where
  "DurationFromSeconds value fallback =
     (if value \<le> 0 \<or> MaxDurationSeconds < value then fallback else wrap64 (value * second))"

record rule_durations =
  rd_cooldown :: int
  rd_reopen :: int
  rd_interval :: int
  rd_window :: int

definition resolve_duration :: "int \<Rightarrow> bool \<Rightarrow> int option \<Rightarrow> int option" where
  "resolve_duration fallback zeroDefault input =
     (case input of
        None \<Rightarrow> Some fallback
      | Some v \<Rightarrow>
          if v < 0 \<or> MaxDurationSeconds < v then None
          else Some (if v = 0 \<and> zeroDefault then fallback else v))"

definition ResolveCreateRuleDurations :: "int option \<Rightarrow> int option \<Rightarrow> int option \<Rightarrow> int option \<Rightarrow> rule_durations option" where
  "ResolveCreateRuleDurations cooldown reopen interval window =
     (case resolve_duration 300 False cooldown of None \<Rightarrow> None | Some c \<Rightarrow>
      case resolve_duration 60 False reopen of None \<Rightarrow> None | Some r \<Rightarrow>
      case resolve_duration 30 True interval of None \<Rightarrow> None | Some i \<Rightarrow>
      case resolve_duration 300 True window of None \<Rightarrow> None | Some w \<Rightarrow>
        Some \<lparr>rd_cooldown = c, rd_reopen = r, rd_interval = i, rd_window = w\<rparr>)"

datatype instance_status = Pending | Firing | Acknowledged | Resolved

definition NormalizeInstanceStatus :: "string \<Rightarrow> instance_status option" where
  "NormalizeInstanceStatus value =
     (let v = to_lower (trim_space value)
      in if v = ''pending'' then Some Pending else if v = ''firing'' then Some Firing
         else if v = ''acknowledged'' then Some Acknowledged else if v = ''resolved'' then Some Resolved
         else None)"

fun CanTransitionInstanceStatus :: "instance_status \<Rightarrow> instance_status \<Rightarrow> bool" where
  "CanTransitionInstanceStatus from to =
     (if from = to then True
      else case from of
             Pending \<Rightarrow> to = Firing \<or> to = Resolved
           | Firing \<Rightarrow> to = Acknowledged \<or> to = Resolved
           | Acknowledged \<Rightarrow> to = Firing \<or> to = Resolved
           | Resolved \<Rightarrow> False)"

record firing_scope =
  fs_version :: int
  fs_asset_ids :: "string list"
  fs_group_ids :: "string list"
  fs_check_ids :: "string list"

fun scope_ids :: "string list \<Rightarrow> string list \<Rightarrow> string list option" where
  "scope_ids seen [] = Some []"
| "scope_ids seen (i # ids) =
     (if i = [] \<or> trim_space i \<noteq> i then None
      else if i \<in> set seen then scope_ids seen ids
      else map_option ((#) i) (scope_ids (i # seen) ids))"

definition NormalizeFiringScope :: "firing_scope \<Rightarrow> firing_scope option" where
  "NormalizeFiringScope input =
     (if fs_version input \<noteq> 1 then None
      else case scope_ids [] (fs_asset_ids input) of None \<Rightarrow> None | Some as \<Rightarrow>
           case scope_ids [] (fs_group_ids input) of None \<Rightarrow> None | Some gs \<Rightarrow>
           case scope_ids [] (fs_check_ids input) of None \<Rightarrow> None | Some cs \<Rightarrow>
             Some \<lparr>fs_version = 1, fs_asset_ids = sort as, fs_group_ids = sort gs, fs_check_ids = sort cs\<rparr>)"

type_synonym labels = "(string \<times> string) list"

definition nul :: char where "nul = char_of (0 :: nat)"

text \<open>The bytes that are hashed, and the 64 hexadecimal digits of the digest.\<close>

definition fingerprint_input :: "string \<Rightarrow> labels \<Rightarrow> string" where
  "fingerprint_input ruleID ls =
     ruleID @ [nul] @
     concat (map (\<lambda>k. k @ [nul] @ (case map_of ls k of None \<Rightarrow> [] | Some v \<Rightarrow> v) @ [nul]) (sort (map fst ls)))"

definition hex_digit_char :: "int \<Rightarrow> char" where
  "hex_digit_char d = (if d < 10 then char_of (48 + d) else char_of (87 + d))"

definition hex_digest :: "256 word \<Rightarrow> string" where
  "hex_digest w = map (\<lambda>i. hex_digit_char (uint w div 16 ^ i mod 16)) (rev [0..<64])"

definition GenerateFingerprint :: "(string \<Rightarrow> 256 word) \<Rightarrow> string \<Rightarrow> labels \<Rightarrow> string" where
  "GenerateFingerprint sha ruleID ls = hex_digest (sha (fingerprint_input ruleID ls))"

record alert_instance =
  in_id :: string
  in_rule_id :: string
  in_fingerprint :: string
  in_status :: instance_status
  in_severity :: string
  in_labels :: labels
  in_annotations :: labels
  in_started_at :: gtime
  in_firing_scope :: "firing_scope option"
  in_first_fired_at :: "gtime option"
  in_resolved_at :: "gtime option"
  in_last_fired_at :: gtime
  in_created_at :: gtime
  in_updated_at :: gtime

record instance_request =
  ir_rule_id :: string
  ir_fingerprint :: string
  ir_severity :: string
  ir_labels :: labels
  ir_annotations :: labels

record alert_silence =
  si_id :: string
  si_matchers :: labels
  si_reason :: string
  si_created_by :: string
  si_starts_at :: gtime
  si_ends_at :: gtime
  si_created_at :: gtime

record silence_request =
  sr_matchers :: labels
  sr_reason :: string
  sr_created_by :: string
  sr_starts_at :: gtime
  sr_ends_at :: gtime

section \<open>The store\<close>

record alert_store =
  sto_instances :: "(string \<times> alert_instance) list"
  sto_silences :: "(string \<times> alert_silence) list"

datatype alert_error = ContextEnded | InvalidStatus | InstanceNotFound | CannotTransition instance_status instance_status
  | NotFreshPending | InvalidScope | SilenceNotFound | InventoryIncomplete

definition NewMemoryAlertInstanceStore :: alert_store where
  "NewMemoryAlertInstanceStore = \<lparr>sto_instances = [], sto_silences = []\<rparr>"

definition new_instance :: "(string \<Rightarrow> 256 word) \<Rightarrow> string \<Rightarrow> gtime \<Rightarrow> instance_request \<Rightarrow> alert_instance" where
  "new_instance sha new_id now req =
     (let severity = NormalizeSeverity (ir_severity req);
          severity = (if severity = [] then ''medium'' else severity);
          fingerprint = trim_space (ir_fingerprint req);
          fingerprint = (if fingerprint = [] then GenerateFingerprint sha (ir_rule_id req) (ir_labels req) else fingerprint)
      in \<lparr>in_id = new_id, in_rule_id = trim_space (ir_rule_id req), in_fingerprint = fingerprint, in_status = Pending,
          in_severity = severity, in_labels = ir_labels req, in_annotations = ir_annotations req, in_started_at = now,
          in_firing_scope = None, in_first_fired_at = None, in_resolved_at = None, in_last_fired_at = now,
          in_created_at = now, in_updated_at = now\<rparr>)"

definition put_instance :: "alert_store \<Rightarrow> string \<Rightarrow> alert_instance \<Rightarrow> alert_store" where
  "put_instance s i inst = s\<lparr>sto_instances := AList.update i inst (sto_instances s)\<rparr>"

definition CreateAlertInstance ::
    "(string \<Rightarrow> 256 word) \<Rightarrow> bool \<Rightarrow> string \<Rightarrow> gtime \<Rightarrow> instance_request \<Rightarrow> alert_store \<Rightarrow> alert_store \<times> (alert_error, alert_instance) res" where
  "CreateAlertInstance sha ended new_id now req s =
     (if ended then (s, Inl ContextEnded)
      else let inst = new_instance sha new_id now req in (put_instance s new_id inst, Inr inst))"

definition GetAlertInstance :: "string \<Rightarrow> alert_store \<Rightarrow> alert_instance option" where
  "GetAlertInstance i s = map_of (sto_instances s) (trim_space i)"

definition active :: "alert_instance \<Rightarrow> bool" where
  "active inst = (in_status inst = Pending \<or> in_status inst = Firing \<or> in_status inst = Acknowledged)"

definition GetActiveInstanceByFingerprint ::
    "bool \<Rightarrow> string \<Rightarrow> string \<Rightarrow> alert_store \<Rightarrow> (alert_error, alert_instance option) res" where
  "GetActiveInstanceByFingerprint ended ruleID fingerprint s =
     (if ended then Inl ContextEnded
      else Inr (find_first (\<lambda>inst. in_rule_id inst = trim_space ruleID \<and> in_fingerprint inst = trim_space fingerprint \<and> active inst)
                  (map snd (sto_instances s))))"

record instance_filter =
  if_limit :: int
  if_offset :: int
  if_rule_id :: string
  if_status :: string
  if_severity :: string

definition ListAlertInstances :: "bool \<Rightarrow> instance_filter \<Rightarrow> alert_store \<Rightarrow> (alert_error, alert_instance list) res" where
  "ListAlertInstances ended f s =
     (if ended then Inl ContextEnded
      else
        (let limit = (if if_limit f \<le> 0 then 50 else if_limit f);
             limit = (if 500 < limit then 500 else limit);
             status = NormalizeInstanceStatus (if_status f);
             severity = NormalizeSeverity (if_severity f);
             ruleID = trim_space (if_rule_id f);
             out = filter (\<lambda>inst. (ruleID = [] \<or> in_rule_id inst = ruleID) \<and> (status = None \<or> status = Some (in_status inst)) \<and>
                             (severity = [] \<or> in_severity inst = severity)) (map snd (sto_instances s));
             out = sort_key (\<lambda>inst. - in_updated_at inst) (rev (sort_key in_id out));
             out = (if 0 < if_offset f then drop (nat (if_offset f)) out else out)
         in Inr (take (nat limit) out)))"

definition with_status :: "gtime \<Rightarrow> instance_status \<Rightarrow> alert_instance \<Rightarrow> alert_instance" where
  "with_status now status inst =
     (let inst' = (if in_status inst = Pending \<and> status = Firing \<and> in_first_fired_at inst = None
                   then inst\<lparr>in_first_fired_at := Some now, in_last_fired_at := now\<rparr> else inst);
          inst' = inst'\<lparr>in_status := status, in_updated_at := now\<rparr>
      in if status = Resolved \<and> in_resolved_at inst' = None then inst'\<lparr>in_resolved_at := Some now\<rparr> else inst')"

definition UpdateAlertInstanceStatus ::
    "bool \<Rightarrow> gtime \<Rightarrow> string \<Rightarrow> string \<Rightarrow> alert_store \<Rightarrow> alert_store \<times> (alert_error, alert_instance) res" where
  "UpdateAlertInstanceStatus ended now i status s =
     (if ended then (s, Inl ContextEnded)
      else case NormalizeInstanceStatus status of
             None \<Rightarrow> (s, Inl InvalidStatus)
           | Some status \<Rightarrow>
               (case map_of (sto_instances s) (trim_space i) of
                  None \<Rightarrow> (s, Inl InstanceNotFound)
                | Some inst \<Rightarrow>
                    if \<not> CanTransitionInstanceStatus (in_status inst) status then (s, Inl (CannotTransition (in_status inst) status))
                    else if in_status inst = status then (s, Inr inst)
                    else let inst' = with_status now status inst in (put_instance s (trim_space i) inst', Inr inst')))"

definition UpdateAlertInstanceLastFired ::
    "bool \<Rightarrow> gtime \<Rightarrow> string \<Rightarrow> alert_store \<Rightarrow> alert_store \<times> alert_error option" where
  "UpdateAlertInstanceLastFired ended now i s =
     (if ended then (s, Some ContextEnded)
      else case map_of (sto_instances s) (trim_space i) of
             None \<Rightarrow> (s, Some InstanceNotFound)
           | Some inst \<Rightarrow> (put_instance s (trim_space i) (inst\<lparr>in_last_fired_at := now, in_updated_at := now\<rparr>), None))"

definition DeleteAlertInstance :: "string \<Rightarrow> alert_store \<Rightarrow> alert_store \<times> alert_error option" where
  "DeleteAlertInstance i s =
     (if map_of (sto_instances s) (trim_space i) = None then (s, Some InstanceNotFound)
      else (s\<lparr>sto_instances := AList.delete (trim_space i) (sto_instances s)\<rparr>, None))"

definition FireAlertInstance ::
    "bool \<Rightarrow> gtime \<Rightarrow> string \<Rightarrow> firing_scope \<Rightarrow> alert_store \<Rightarrow> alert_store \<times> (alert_error, alert_instance) res" where
  "FireAlertInstance ended now i scope s =
     (case NormalizeFiringScope scope of
        None \<Rightarrow> (s, Inl InvalidScope)
      | Some normalized \<Rightarrow>
          if ended then (s, Inl ContextEnded)
          else case map_of (sto_instances s) (trim_space i) of
                 None \<Rightarrow> (s, Inl InstanceNotFound)
               | Some inst \<Rightarrow>
                   if in_status inst = Firing \<or> in_status inst = Acknowledged then (s, Inr inst)
                   else if in_status inst \<noteq> Pending \<or> in_first_fired_at inst \<noteq> None \<or> in_firing_scope inst \<noteq> None
                   then (s, Inl NotFreshPending)
                   else let inst' = inst\<lparr>in_status := Firing, in_first_fired_at := Some now, in_last_fired_at := now,
                                        in_updated_at := now, in_firing_scope := Some normalized\<rparr>
                        in (put_instance s (in_id inst') inst', Inr inst'))"

definition ReadFiringAlertInstances :: "bool \<Rightarrow> string list option \<Rightarrow> alert_store \<Rightarrow> (alert_error, alert_instance list) res" where
  "ReadFiringAlertInstances ended ruleIDs s =
     (if ended then Inl ContextEnded
      else Inr (map snd (sort_key fst (filter (\<lambda>(i, row). in_status row = Firing \<and>
             (case ruleIDs of None \<Rightarrow> True | Some ids \<Rightarrow> in_rule_id row \<in> set ids)) (sto_instances s)))))"

definition CreateAlertSilence :: "string \<Rightarrow> gtime \<Rightarrow> silence_request \<Rightarrow> alert_store \<Rightarrow> alert_store \<times> alert_silence" where
  "CreateAlertSilence new_id now req s =
     (let createdBy = trim_space (sr_created_by req);
          silence = \<lparr>si_id = new_id, si_matchers = sr_matchers req, si_reason = trim_space (sr_reason req),
                     si_created_by = (if createdBy = [] then ''owner'' else createdBy), si_starts_at = sr_starts_at req,
                     si_ends_at = sr_ends_at req, si_created_at = now\<rparr>
      in (s\<lparr>sto_silences := AList.update new_id silence (sto_silences s)\<rparr>, silence))"

definition ListAlertSilences :: "bool \<Rightarrow> gtime \<Rightarrow> int \<Rightarrow> bool \<Rightarrow> alert_store \<Rightarrow> (alert_error, alert_silence list) res" where
  "ListAlertSilences ended now limit activeOnly s =
     (if ended then Inl ContextEnded
      else
        (let limit = (if limit \<le> 0 then 50 else limit);
             limit = (if 500 < limit then 500 else limit);
             out = filter (\<lambda>si. \<not> (activeOnly \<and> (now < si_starts_at si \<or> si_ends_at si < now))) (map snd (sto_silences s))
         in Inr (take (nat limit) (sort_key (\<lambda>si. - si_created_at si) out))))"

definition GetAlertSilence :: "string \<Rightarrow> alert_store \<Rightarrow> alert_silence option" where
  "GetAlertSilence i s = map_of (sto_silences s) (trim_space i)"

definition DeleteAlertSilence :: "string \<Rightarrow> alert_store \<Rightarrow> alert_store \<times> alert_error option" where
  "DeleteAlertSilence i s =
     (if map_of (sto_silences s) (trim_space i) = None then (s, Some SilenceNotFound)
      else (s\<lparr>sto_silences := AList.delete (trim_space i) (sto_silences s)\<rparr>, None))"

text \<open>The latest first firing and the latest resolution of the fired instances of a fingerprint.\<close>

record fingerprint_timing =
  ft_last_first_fired :: "gtime option"
  ft_last_resolved :: "gtime option"

definition later :: "gtime option \<Rightarrow> gtime option \<Rightarrow> gtime option" where
  "later acc t = (case t of None \<Rightarrow> acc | Some v \<Rightarrow> (case acc of None \<Rightarrow> Some v | Some a \<Rightarrow> if a < v then Some v else acc))"

definition AlertFingerprintTiming :: "bool \<Rightarrow> string \<Rightarrow> string \<Rightarrow> alert_store \<Rightarrow> (alert_error, fingerprint_timing) res" where
  "AlertFingerprintTiming ended ruleID fingerprint s =
     (if ended then Inl ContextEnded
      else Inr (foldl (\<lambda>out inst.
          if in_rule_id inst \<noteq> trim_space ruleID \<or> in_fingerprint inst \<noteq> trim_space fingerprint \<or> in_first_fired_at inst = None then out
          else \<lparr>ft_last_first_fired = later (ft_last_first_fired out) (in_first_fired_at inst),
                ft_last_resolved = later (ft_last_resolved out) (in_resolved_at inst)\<rparr>)
        \<lparr>ft_last_first_fired = None, ft_last_resolved = None\<rparr> (map snd (sto_instances s))))"

end
