(* ===== verification/Alert_Rules.thy ===== *)
theory Alert_Rules
  imports Alert_Instances
begin

text \<open>
  Alert rules and their evaluation history (\<open>internal/alerts/types.go\<close>, \<open>internal/persistence/memory_alert_store.go\<close>),
  the claim of an automatic evaluation (\<open>memory_alert_rule_timing.go\<close>) and the pages in which the evaluator reads the
  active rules (\<open>memory_alert_rule_evaluation_page.go\<close>, \<open>alert_rule_evaluation_page.go\<close>). Values of type \<open>any\<close> in conditions and
  selectors are JSON values; a number is kept as its text. Generated ids are arguments.

  The lemmas show that every stored rule is normalized, that the latest evaluation is the latest of the history, and
  that a page, which the code finds with a heap of bounded size in one unordered pass, is the first part of the sorted
  list of ids.
\<close>

section \<open>Types\<close>

datatype json = JNull | JBool bool | JNumber string | JString string | JArray "json list" | JObject "(string \<times> json) list"

type_synonym any_map = "(string \<times> json) list"

record target_input =
  ti_asset_id :: string
  ti_group_id :: string
  ti_selector :: any_map

record rule_target =
  tg_id :: string
  tg_rule_id :: string
  tg_asset_id :: string
  tg_group_id :: string
  tg_selector :: any_map
  tg_created_at :: gtime

record create_rule =
  cr_name :: string
  cr_description :: string
  cr_status :: string
  cr_kind :: string
  cr_severity :: string
  cr_target_scope :: string
  cr_cooldown :: "int option"
  cr_reopen :: "int option"
  cr_interval :: "int option"
  cr_window :: "int option"
  cr_condition :: any_map
  cr_labels :: labels
  cr_metadata :: labels
  cr_targets :: "target_input list"
  cr_created_by :: string

record update_rule =
  up_name :: "string option"
  up_description :: "string option"
  up_status :: "string option"
  up_severity :: "string option"
  up_cooldown :: "int option"
  up_reopen :: "int option"
  up_interval :: "int option"
  up_window :: "int option"
  up_condition :: "any_map option"
  up_labels :: "labels option"
  up_metadata :: "labels option"
  up_targets :: "target_input list option"

record alert_rule =
  ru_id :: string
  ru_name :: string
  ru_description :: string
  ru_status :: string
  ru_kind :: string
  ru_severity :: string
  ru_target_scope :: string
  ru_cooldown :: int
  ru_reopen :: int
  ru_interval :: int
  ru_window :: int
  ru_condition :: any_map
  ru_labels :: labels
  ru_metadata :: labels
  ru_targets :: "rule_target list"
  ru_created_by :: string
  ru_created_at :: gtime
  ru_updated_at :: gtime
  ru_last_evaluated_at :: "gtime option"
  ru_last_auto_attempt_at :: "gtime option"

record evaluation =
  ev_id :: string
  ev_rule_id :: string
  ev_status :: string
  ev_evaluated_at :: gtime
  ev_duration_ms :: int
  ev_candidate_count :: int
  ev_triggered_count :: int
  ev_error :: string
  ev_details :: any_map

definition TargetReferenceCount :: "target_input \<Rightarrow> int" where
  "TargetReferenceCount target =
     (if trim_space (ti_asset_id target) \<noteq> [] then 1 else 0) + (if trim_space (ti_group_id target) \<noteq> [] then 1 else 0) +
     (if ti_selector target \<noteq> [] then 1 else 0)"

section \<open>The store\<close>

record rule_store =
  rs_rules :: "(string \<times> alert_rule) list"
  rs_evaluations :: "(string \<times> evaluation list) list"
  rs_latest :: "(string \<times> evaluation) list"

datatype rule_error = RuleNotFound | InvalidDuration | RuleContextEnded | InvalidPageSize | InvalidCursor

definition NewMemoryAlertStore :: rule_store where
  "NewMemoryAlertStore = \<lparr>rs_rules = [], rs_evaluations = [], rs_latest = []\<rparr>"

definition or_else :: "string \<Rightarrow> string \<Rightarrow> string" where
  "or_else v d = (if v = [] then d else v)"

definition make_targets :: "(nat \<Rightarrow> string) \<Rightarrow> string \<Rightarrow> gtime \<Rightarrow> target_input list \<Rightarrow> rule_target list" where
  "make_targets target_id rule_id now inputs =
     map (\<lambda>(n, target). \<lparr>tg_id = target_id n, tg_rule_id = rule_id, tg_asset_id = trim_space (ti_asset_id target),
            tg_group_id = trim_space (ti_group_id target), tg_selector = ti_selector target, tg_created_at = now\<rparr>)
       (enumerate 0 inputs)"

definition CreateAlertRule ::
    "string \<Rightarrow> (nat \<Rightarrow> string) \<Rightarrow> gtime \<Rightarrow> create_rule \<Rightarrow> rule_store \<Rightarrow> rule_store \<times> (rule_error, alert_rule) res" where
  "CreateAlertRule new_id target_id now req s =
     (case ResolveCreateRuleDurations (cr_cooldown req) (cr_reopen req) (cr_interval req) (cr_window req) of
        None \<Rightarrow> (s, Inl InvalidDuration)
      | Some durations \<Rightarrow>
          (let rule = \<lparr>ru_id = new_id, ru_name = trim_space (cr_name req), ru_description = trim_space (cr_description req),
                 ru_status = or_else (NormalizeRuleStatus (cr_status req)) ''active'',
                 ru_kind = or_else (NormalizeRuleKind (cr_kind req)) ''metric_threshold'',
                 ru_severity = or_else (NormalizeSeverity (cr_severity req)) ''medium'',
                 ru_target_scope = or_else (NormalizeTargetScope (cr_target_scope req)) ''global'',
                 ru_cooldown = rd_cooldown durations, ru_reopen = rd_reopen durations, ru_interval = rd_interval durations,
                 ru_window = rd_window durations, ru_condition = cr_condition req, ru_labels = cr_labels req,
                 ru_metadata = cr_metadata req, ru_targets = make_targets target_id new_id now (cr_targets req),
                 ru_created_by = or_else (trim_space (cr_created_by req)) ''owner'', ru_created_at = now, ru_updated_at = now,
                 ru_last_evaluated_at = None, ru_last_auto_attempt_at = None\<rparr>
           in (s\<lparr>rs_rules := AList.update new_id rule (rs_rules s)\<rparr>, Inr rule)))"

definition GetAlertRule :: "bool \<Rightarrow> string \<Rightarrow> rule_store \<Rightarrow> (rule_error, alert_rule option) res" where
  "GetAlertRule ended i s = (if ended then Inl RuleContextEnded else Inr (map_of (rs_rules s) i))"

record rule_filter =
  rf_limit :: int
  rf_offset :: int
  rf_status :: string
  rf_kind :: string
  rf_severity :: string

definition page_limit :: "int \<Rightarrow> int" where
  "page_limit n = (let limit = (if n \<le> 0 then 50 else n) in if 500 < limit then 500 else limit)"

definition ListAlertRules :: "rule_filter \<Rightarrow> rule_store \<Rightarrow> alert_rule list" where
  "ListAlertRules f s =
     (let status = NormalizeRuleStatus (rf_status f); kind = NormalizeRuleKind (rf_kind f); severity = NormalizeSeverity (rf_severity f);
          out = filter (\<lambda>rule. (status = [] \<or> ru_status rule = status) \<and> (kind = [] \<or> ru_kind rule = kind) \<and>
                          (severity = [] \<or> ru_severity rule = severity)) (map snd (rs_rules s));
          out = sort_key (\<lambda>rule. - ru_updated_at rule) (rev (sort_key ru_id out));
          out = (if 0 < rf_offset f then drop (nat (rf_offset f)) out else out)
      in take (nat (page_limit (rf_limit f))) out)"

text \<open>An update of a duration: a value below the smallest is replaced by \<open>low\<close>, one above the largest is refused.\<close>

definition update_duration :: "int \<Rightarrow> int \<Rightarrow> int option \<Rightarrow> int \<Rightarrow> int option" where
  "update_duration least low input old =
     (case input of
        None \<Rightarrow> Some old
      | Some v \<Rightarrow> (let v = (if v < least then low else v) in if MaxDurationSeconds < v then None else Some v))"

definition update_word :: "(string \<Rightarrow> string) \<Rightarrow> string option \<Rightarrow> string \<Rightarrow> string" where
  "update_word norm input old = (case input of None \<Rightarrow> old | Some v \<Rightarrow> or_else (norm v) old)"

definition updated_rule :: "(nat \<Rightarrow> string) \<Rightarrow> gtime \<Rightarrow> update_rule \<Rightarrow> rule_durations \<Rightarrow> alert_rule \<Rightarrow> alert_rule" where
  "updated_rule target_id now req durations rule =
     rule\<lparr>ru_name := (case up_name req of None \<Rightarrow> ru_name rule | Some v \<Rightarrow> trim_space v),
          ru_description := (case up_description req of None \<Rightarrow> ru_description rule | Some v \<Rightarrow> trim_space v),
          ru_status := update_word NormalizeRuleStatus (up_status req) (ru_status rule),
          ru_severity := update_word NormalizeSeverity (up_severity req) (ru_severity rule),
          ru_cooldown := rd_cooldown durations, ru_reopen := rd_reopen durations,
          ru_interval := rd_interval durations, ru_window := rd_window durations,
          ru_condition := (case up_condition req of None \<Rightarrow> ru_condition rule | Some v \<Rightarrow> v),
          ru_labels := (case up_labels req of None \<Rightarrow> ru_labels rule | Some v \<Rightarrow> v),
          ru_metadata := (case up_metadata req of None \<Rightarrow> ru_metadata rule | Some v \<Rightarrow> v),
          ru_targets := (case up_targets req of None \<Rightarrow> ru_targets rule | Some v \<Rightarrow> make_targets target_id (ru_id rule) now v),
          ru_updated_at := now\<rparr>"

definition update_durations :: "update_rule \<Rightarrow> alert_rule \<Rightarrow> rule_durations option" where
  "update_durations req rule =
     (case update_duration 0 0 (up_cooldown req) (ru_cooldown rule) of None \<Rightarrow> None | Some c \<Rightarrow>
      case update_duration 0 0 (up_reopen req) (ru_reopen rule) of None \<Rightarrow> None | Some r \<Rightarrow>
      case update_duration 1 30 (up_interval req) (ru_interval rule) of None \<Rightarrow> None | Some i \<Rightarrow>
      case update_duration 1 300 (up_window req) (ru_window rule) of None \<Rightarrow> None | Some w \<Rightarrow>
        Some \<lparr>rd_cooldown = c, rd_reopen = r, rd_interval = i, rd_window = w\<rparr>)"

definition UpdateAlertRule ::
    "string \<Rightarrow> (nat \<Rightarrow> string) \<Rightarrow> gtime \<Rightarrow> update_rule \<Rightarrow> rule_store \<Rightarrow> rule_store \<times> (rule_error, alert_rule) res" where
  "UpdateAlertRule i target_id now req s =
     (case map_of (rs_rules s) i of
        None \<Rightarrow> (s, Inl RuleNotFound)
      | Some rule \<Rightarrow>
          (case update_durations req rule of
             None \<Rightarrow> (s, Inl InvalidDuration)
           | Some durations \<Rightarrow>
               (let rule = updated_rule target_id now req durations rule
                in (s\<lparr>rs_rules := AList.update i rule (rs_rules s)\<rparr>, Inr rule))))"

definition DeleteAlertRule :: "string \<Rightarrow> rule_store \<Rightarrow> rule_store \<times> rule_error option" where
  "DeleteAlertRule i s =
     (if map_of (rs_rules s) i = None then (s, Some RuleNotFound)
      else (s\<lparr>rs_rules := AList.delete i (rs_rules s), rs_evaluations := AList.delete i (rs_evaluations s),
               rs_latest := AList.delete i (rs_latest s)\<rparr>, None))"

definition evaluations_of :: "string \<Rightarrow> rule_store \<Rightarrow> evaluation list" where
  "evaluations_of i s = (case map_of (rs_evaluations s) i of None \<Rightarrow> [] | Some es \<Rightarrow> es)"

definition is_later :: "evaluation \<Rightarrow> evaluation \<Rightarrow> bool" where
  "is_later e latest =
     (ev_evaluated_at latest < ev_evaluated_at e \<or> ev_evaluated_at e = ev_evaluated_at latest \<and> ev_id latest < ev_id e)"

definition RecordAlertEvaluation ::
    "bool \<Rightarrow> string \<Rightarrow> gtime \<Rightarrow> string \<Rightarrow> evaluation \<Rightarrow> rule_store \<Rightarrow> rule_store \<times> (rule_error, evaluation) res" where
  "RecordAlertEvaluation ended new_id now ruleID evaluation s =
     (if ended then (s, Inl RuleContextEnded)
      else
        (let i = trim_space ruleID
         in case map_of (rs_rules s) i of
              None \<Rightarrow> (s, Inl RuleNotFound)
            | Some rule \<Rightarrow>
                (let evaluatedAt = (if ev_evaluated_at evaluation = zero_time then now else ev_evaluated_at evaluation);
                     created = \<lparr>ev_id = or_else (trim_space (ev_id evaluation)) new_id, ev_rule_id = i,
                        ev_status = or_else (NormalizeEvaluationStatus (ev_status evaluation)) ''error'', ev_evaluated_at = evaluatedAt,
                        ev_duration_ms = max 0 (ev_duration_ms evaluation), ev_candidate_count = max 0 (ev_candidate_count evaluation),
                        ev_triggered_count = max 0 (ev_triggered_count evaluation), ev_error = trim_space (ev_error evaluation),
                        ev_details = ev_details evaluation\<rparr>;
                     newer = (case map_of (rs_latest s) i of None \<Rightarrow> True | Some latest \<Rightarrow> is_later created latest)
                 in (s\<lparr>rs_evaluations := AList.update i (evaluations_of i s @ [created]) (rs_evaluations s),
                       rs_latest := (if newer then AList.update i created (rs_latest s) else rs_latest s),
                       rs_rules := AList.update i (rule\<lparr>ru_last_evaluated_at := Some evaluatedAt\<rparr>) (rs_rules s)\<rparr>, Inr created))))"

definition ListAlertEvaluations :: "string \<Rightarrow> int \<Rightarrow> rule_store \<Rightarrow> (rule_error, evaluation list) res" where
  "ListAlertEvaluations ruleID limit s =
     (if map_of (rs_rules s) (trim_space ruleID) = None then Inl RuleNotFound
      else Inr (take (nat (page_limit limit)) (sort_key (\<lambda>e. - ev_evaluated_at e) (evaluations_of (trim_space ruleID) s))))"

definition ClaimAlertRuleEvaluation :: "bool \<Rightarrow> string \<Rightarrow> gtime \<Rightarrow> rule_store \<Rightarrow> rule_store \<times> (rule_error, bool) res" where
  "ClaimAlertRuleEvaluation ended i at s =
     (if ended then (s, Inl RuleContextEnded)
      else case map_of (rs_rules s) (trim_space i) of
             None \<Rightarrow> (s, Inr False)
           | Some rule \<Rightarrow>
               if ru_status rule \<noteq> ''active'' \<or> at = zero_time then (s, Inr False)
               else
                 (let interval = (if ru_interval rule \<le> 0 then 30 else ru_interval rule)
                  in if (case ru_last_auto_attempt_at rule of None \<Rightarrow> False | Some l \<Rightarrow> at < l + wrap64 (interval * second)) then (s, Inr False)
                     else (s\<lparr>rs_rules := AList.update (ru_id rule) (rule\<lparr>ru_last_auto_attempt_at := Some at\<rparr>) (rs_rules s)\<rparr>, Inr True)))"

section \<open>Pages of active rules\<close>

record eval_cursor =
  cu_started :: bool
  cu_after :: string
  cu_through :: string

record eval_page =
  pg_rules :: "alert_rule list"
  pg_through :: string
  pg_done :: bool

definition AlertRuleEvaluationPageSize :: nat where "AlertRuleEvaluationPageSize = 128"

definition validateAlertRuleEvaluationPage :: "eval_cursor \<Rightarrow> nat \<Rightarrow> rule_error option" where
  "validateAlertRuleEvaluationPage cursor limit =
     (if limit < 1 \<or> AlertRuleEvaluationPageSize < limit then Some InvalidPageSize
      else if (\<not> cu_started cursor \<and> (cu_after cursor \<noteq> [] \<or> cu_through cursor \<noteq> [])) \<or> cu_through cursor < cu_after cursor
      then Some InvalidCursor else None)"

text \<open>The heap holds the smallest ids seen so far with the largest at its root. It is modelled by the ascending list of
  its elements: the root is the last one, and replacing it is an insertion into the others.\<close>

definition page_visit :: "eval_cursor \<Rightarrow> nat \<Rightarrow> string \<times> alert_rule \<Rightarrow> string \<times> string list \<Rightarrow> string \<times> string list" where
  "page_visit cursor limit entry acc =
     (case (entry, acc) of
        ((i, rule), (through, ids)) \<Rightarrow>
          if ru_status rule \<noteq> ''active'' then (through, ids)
          else
            (let through = (if \<not> cu_started cursor \<and> through < i then i else through)
             in if i \<le> cu_after cursor \<or> (cu_started cursor \<and> cu_through cursor < i) then (through, ids)
                else if length ids < limit + 1 then (through, insort i ids)
                else if i < last ids then (through, insort i (butlast ids))
                else (through, ids)))"

definition PageActiveAlertRules :: "bool \<Rightarrow> eval_cursor \<Rightarrow> nat \<Rightarrow> rule_store \<Rightarrow> (rule_error, eval_page) res" where
  "PageActiveAlertRules ended cursor limit s =
     (case validateAlertRuleEvaluationPage cursor limit of
        Some e \<Rightarrow> Inl e
      | None \<Rightarrow>
          if ended then Inl RuleContextEnded
          else
            (let (through, ids) = fold (page_visit cursor limit) (rs_rules s) (cu_through cursor, [])
             in Inr \<lparr>pg_rules = List.map_filter (map_of (rs_rules s)) (take limit ids), pg_through = through,
                     pg_done = (length ids \<le> limit)\<rparr>))"

section \<open>Stored rules are normalized\<close>

definition rule_ok :: "alert_rule \<Rightarrow> bool" where
  "rule_ok r =
     (ru_status r \<in> {''active'', ''paused''} \<and> ru_severity r \<in> {''critical'', ''high'', ''medium'', ''low''} \<and>
      ru_target_scope r \<in> {''asset'', ''group'', ''global''} \<and>
      ru_kind r \<in> {''metric_threshold'', ''metric_deadman'', ''heartbeat_stale'', ''log_pattern'', ''composite'', ''synthetic_check''} \<and>
      0 \<le> ru_cooldown r \<and> ru_cooldown r \<le> MaxDurationSeconds \<and> 0 \<le> ru_reopen r \<and> ru_reopen r \<le> MaxDurationSeconds \<and>
      0 < ru_interval r \<and> ru_interval r \<le> MaxDurationSeconds \<and> 0 < ru_window r \<and> ru_window r \<le> MaxDurationSeconds)"

abbreviation rule_of :: "rule_store \<Rightarrow> string \<Rightarrow> alert_rule option" where
  "rule_of s \<equiv> map_of (rs_rules s)"

definition rules_ok :: "rule_store \<Rightarrow> bool" where
  "rules_ok s =
     (distinct (map fst (rs_rules s)) \<and> (\<forall>i r. rule_of s i = Some r \<longrightarrow> ru_id r = i \<and> trim_space i = i \<and> i \<noteq> [] \<and> rule_ok r))"

definition latest_ok :: "rule_store \<Rightarrow> bool" where
  "latest_ok s =
     (\<forall>i. case map_of (rs_latest s) i of
            None \<Rightarrow> evaluations_of i s = []
          | Some l \<Rightarrow> l \<in> set (evaluations_of i s) \<and> (\<forall>e \<in> set (evaluations_of i s). \<not> is_later e l))"

lemma one_of_cases: "one_of known v = [] \<or> one_of known v \<in> set known"
  by (simp add: one_of_def Let_def)

lemma or_else_in: "one_of known v = [] \<or> one_of known v \<in> set known \<Longrightarrow> d \<in> set known \<Longrightarrow> or_else (one_of known v) d \<in> set known"
  by (auto simp: or_else_def)

lemmas or_else_known = or_else_in [OF one_of_cases]

lemma durations_ok:
  assumes "ResolveCreateRuleDurations c r i w = Some d"
  shows "0 \<le> rd_cooldown d \<and> rd_cooldown d \<le> MaxDurationSeconds" "0 \<le> rd_reopen d \<and> rd_reopen d \<le> MaxDurationSeconds"
    "0 < rd_interval d \<and> rd_interval d \<le> MaxDurationSeconds" "0 < rd_window d \<and> rd_window d \<le> MaxDurationSeconds"
proof -
  have R: "0 \<le> x \<and> x \<le> MaxDurationSeconds \<and> (b \<longrightarrow> 0 < x)" if "resolve_duration f b v = Some x" "0 < f" "f \<le> 300" for f b v x
    using that by (auto simp: resolve_duration_def MaxDurationSeconds_def split: option.splits if_splits)
  from assms obtain x1 x2 x3 x4 where
    x: "resolve_duration 300 False c = Some x1" "resolve_duration 60 False r = Some x2" "resolve_duration 30 True i = Some x3"
      "resolve_duration 300 True w = Some x4" and d: "d = \<lparr>rd_cooldown = x1, rd_reopen = x2, rd_interval = x3, rd_window = x4\<rparr>"
    by (auto simp: ResolveCreateRuleDurations_def split: option.splits)
  show "0 \<le> rd_cooldown d \<and> rd_cooldown d \<le> MaxDurationSeconds" "0 \<le> rd_reopen d \<and> rd_reopen d \<le> MaxDurationSeconds"
    "0 < rd_interval d \<and> rd_interval d \<le> MaxDurationSeconds" "0 < rd_window d \<and> rd_window d \<le> MaxDurationSeconds"
    using R [OF x(1)] R [OF x(2)] R [OF x(3)] R [OF x(4)] by (simp_all add: d)
qed

lemma update_duration_ok:
  "update_duration least low v old = Some x \<Longrightarrow> least \<le> old \<Longrightarrow> old \<le> MaxDurationSeconds \<Longrightarrow> least \<le> low \<Longrightarrow> least \<le> x \<and> x \<le> MaxDurationSeconds"
  by (auto simp: update_duration_def Let_def split: option.splits if_splits)

lemma put_rule_ok:
  assumes "rules_ok s" "rule_ok r" "ru_id r = i" "trim_space i = i" "i \<noteq> []" "rs_rules t = AList.update i r (rs_rules s)"
  shows "rules_ok t"
  using assms by (auto simp: rules_ok_def update_conv' distinct_update split: if_splits)

lemma create_rule_ok:
  assumes "rules_ok s" "trim_space i = i" "i \<noteq> []"
  shows "rules_ok (fst (CreateAlertRule i target_id now req s))"
proof (cases "ResolveCreateRuleDurations (cr_cooldown req) (cr_reopen req) (cr_interval req) (cr_window req)")
  case None
  with assms show ?thesis by (simp add: CreateAlertRule_def)
next
  case (Some d)
  note w = or_else_known [of "''active''" "[''active'', ''paused'']" "cr_status req"]
    or_else_known [of "''medium''" "[''critical'', ''high'', ''medium'', ''low'']" "cr_severity req"]
    or_else_known [of "''global''" "[''asset'', ''group'', ''global'']" "cr_target_scope req"]
    or_else_known [of "''metric_threshold''" "[''metric_threshold'', ''metric_deadman'', ''heartbeat_stale'', ''log_pattern'', ''composite'', ''synthetic_check'']" "cr_kind req"]
  show ?thesis
    unfolding CreateAlertRule_def Some option.case Let_def fst_conv
    by (rule put_rule_ok [OF assms(1)])
      (use w durations_ok [OF Some] assms(2,3) in
        \<open>simp_all add: rule_ok_def NormalizeRuleStatus_def NormalizeSeverity_def NormalizeTargetScope_def NormalizeRuleKind_def\<close>)
qed

lemma update_word_in: "old \<in> set known \<Longrightarrow> update_word (one_of known) v old \<in> set known"
  using or_else_known by (auto simp: update_word_def split: option.split)

lemma update_durations_ok:
  assumes "update_durations req r = Some d" "rule_ok r"
  shows "0 \<le> rd_cooldown d \<and> rd_cooldown d \<le> MaxDurationSeconds" "0 \<le> rd_reopen d \<and> rd_reopen d \<le> MaxDurationSeconds"
    "0 < rd_interval d \<and> rd_interval d \<le> MaxDurationSeconds" "0 < rd_window d \<and> rd_window d \<le> MaxDurationSeconds"
proof -
  from assms(1) obtain x1 x2 x3 x4 where
    x: "update_duration 0 0 (up_cooldown req) (ru_cooldown r) = Some x1" "update_duration 0 0 (up_reopen req) (ru_reopen r) = Some x2"
      "update_duration 1 30 (up_interval req) (ru_interval r) = Some x3" "update_duration 1 300 (up_window req) (ru_window r) = Some x4"
    and d: "d = \<lparr>rd_cooldown = x1, rd_reopen = x2, rd_interval = x3, rd_window = x4\<rparr>"
    by (auto simp: update_durations_def split: option.splits)
  note D = update_duration_ok [OF x(1)] update_duration_ok [OF x(2)] update_duration_ok [OF x(3)] update_duration_ok [OF x(4)]
  show "0 \<le> rd_cooldown d \<and> rd_cooldown d \<le> MaxDurationSeconds" "0 \<le> rd_reopen d \<and> rd_reopen d \<le> MaxDurationSeconds"
    "0 < rd_interval d \<and> rd_interval d \<le> MaxDurationSeconds" "0 < rd_window d \<and> rd_window d \<le> MaxDurationSeconds"
    using D assms(2) by (simp_all add: d rule_ok_def)
qed

lemma updated_rule_ok:
  assumes "update_durations req r = Some d" "rule_ok r"
  shows "rule_ok (updated_rule target_id now req d r)"
  using update_word_in [of "ru_status r" "[''active'', ''paused'']" "up_status req"]
    update_word_in [of "ru_severity r" "[''critical'', ''high'', ''medium'', ''low'']" "up_severity req"] update_durations_ok [OF assms] assms(2)
  by (simp add: rule_ok_def updated_rule_def NormalizeRuleStatus_def NormalizeSeverity_def)

lemma update_rule_ok:
  assumes "rules_ok s"
  shows "rules_ok (fst (UpdateAlertRule i target_id now req s))"
proof (cases "rule_of s i")
  case (Some r)
  then have k: "ru_id r = i" "trim_space i = i" "i \<noteq> []" "rule_ok r" using assms unfolding rules_ok_def by blast+
  show ?thesis
  proof (cases "update_durations req r")
    case d: (Some d)
    have "ru_id (updated_rule target_id now req d r) = i" using k(1) by (simp add: updated_rule_def)
    from put_rule_ok [OF assms updated_rule_ok [OF d k(4)] this k(2,3)] show ?thesis by (simp add: UpdateAlertRule_def Some d Let_def)
  qed (use assms in \<open>simp add: UpdateAlertRule_def Some\<close>)
qed (use assms in \<open>simp add: UpdateAlertRule_def\<close>)

lemma delete_rule_ok: "rules_ok s \<Longrightarrow> rules_ok (fst (DeleteAlertRule i s))"
  by (simp add: rules_ok_def DeleteAlertRule_def delete_conv' distinct_delete del: map_of_eq_Some_iff)

lemma stored_rule_ok: "rules_ok s \<Longrightarrow> rule_of s i = Some r \<Longrightarrow> ru_id r = i \<and> trim_space i = i \<and> i \<noteq> [] \<and> rule_ok r"
  unfolding rules_ok_def by blast

lemma record_rules:
  "\<not> ended \<Longrightarrow> rule_of s (trim_space i) = Some r \<Longrightarrow>
   \<exists>x. rs_rules (fst (RecordAlertEvaluation ended new_id now i e s)) = AList.update (trim_space i) (r\<lparr>ru_last_evaluated_at := Some x\<rparr>) (rs_rules s)"
  by (simp add: RecordAlertEvaluation_def Let_def) blast

lemma record_nothing: "ended \<or> rule_of s (trim_space i) = None \<Longrightarrow> fst (RecordAlertEvaluation ended new_id now i e s) = s"
  by (auto simp: RecordAlertEvaluation_def)

lemma record_rule_ok:
  assumes "rules_ok s"
  shows "rules_ok (fst (RecordAlertEvaluation ended new_id now i e s))"
proof (cases "ended \<or> rule_of s (trim_space i) = None")
  case True
  with assms show ?thesis by (simp add: record_nothing)
next
  case False
  then obtain r where r: "\<not> ended" "rule_of s (trim_space i) = Some r" by auto
  note k = stored_rule_ok [OF assms r(2)]
  obtain x where x: "rs_rules (fst (RecordAlertEvaluation ended new_id now i e s)) = AList.update (trim_space i) (r\<lparr>ru_last_evaluated_at := Some x\<rparr>) (rs_rules s)"
    using record_rules [OF r] by blast
  have "rule_ok (r\<lparr>ru_last_evaluated_at := Some x\<rparr>)" using k by (simp add: rule_ok_def)
  from put_rule_ok [OF assms this _ _ _ x] k show ?thesis by simp
qed

lemma claim_cases:
  assumes "rules_ok s"
  shows "fst (ClaimAlertRuleEvaluation ended i at s) = s \<and> snd (ClaimAlertRuleEvaluation ended i at s) \<noteq> Inr True \<or>
    (\<exists>r. rule_of s (trim_space i) = Some r \<and> ru_status r = ''active'' \<and> at \<noteq> zero_time \<and>
      (\<forall>l. ru_last_auto_attempt_at r = Some l \<longrightarrow> l + ru_interval r * second \<le> at) \<and>
      ClaimAlertRuleEvaluation ended i at s =
        (s\<lparr>rs_rules := AList.update (trim_space i) (r\<lparr>ru_last_auto_attempt_at := Some at\<rparr>) (rs_rules s)\<rparr>, Inr True))"
proof (cases "rule_of s (trim_space i)")
  case (Some r)
  note k = stored_rule_ok [OF assms Some]
  then have n: "0 < ru_interval r" "ru_interval r \<le> 2 ^ 31 - 1" by (simp_all add: rule_ok_def MaxDurationSeconds_def)
  then have "wrap64 (ru_interval r * second) = ru_interval r * second" by (intro wrap64_id) simp_all
  with n k Some show ?thesis by (auto simp: ClaimAlertRuleEvaluation_def Let_def split: option.split)
qed (auto simp: ClaimAlertRuleEvaluation_def)

lemma claim_rule_ok:
  assumes "rules_ok s"
  shows "rules_ok (fst (ClaimAlertRuleEvaluation ended i at s))"
  using claim_cases [OF assms, of ended i at]
proof (elim disjE exE conjE)
  fix r
  assume r: "rule_of s (trim_space i) = Some r" and c: "ClaimAlertRuleEvaluation ended i at s =
    (s\<lparr>rs_rules := AList.update (trim_space i) (r\<lparr>ru_last_auto_attempt_at := Some at\<rparr>) (rs_rules s)\<rparr>, Inr True)"
  note k = stored_rule_ok [OF assms r]
  then have "rule_ok (r\<lparr>ru_last_auto_attempt_at := Some at\<rparr>)" by (simp add: rule_ok_def)
  from put_rule_ok [OF assms this] k show ?thesis by (simp add: c)
qed (use assms in simp)

lemma is_later_trans: "is_later a b \<Longrightarrow> is_later b c \<Longrightarrow> is_later a c"
  by (auto simp: is_later_def)

lemma is_later_irrefl: "\<not> is_later a a"
  by (simp add: is_later_def)

lemma record_latest_ok:
  assumes "latest_ok s"
  shows "latest_ok (fst (RecordAlertEvaluation ended new_id now i e s))"
proof (cases "ended \<or> rule_of s (trim_space i) = None")
  case True
  with assms show ?thesis by (auto simp: RecordAlertEvaluation_def)
next
  case False
  define t where "t = fst (RecordAlertEvaluation ended new_id now i e s)"
  define j where "j = trim_space i"
  from False obtain c where ev: "rs_evaluations t = AList.update j (evaluations_of j s @ [c]) (rs_evaluations s)"
    and la: "rs_latest t = (if (case map_of (rs_latest s) j of None \<Rightarrow> True | Some l \<Rightarrow> is_later c l) then AList.update j c (rs_latest s) else rs_latest s)"
    by (auto simp: t_def RecordAlertEvaluation_def Let_def j_def)
  have e: "evaluations_of k t = (if k = j then evaluations_of j s @ [c] else evaluations_of k s)" for k
    by (simp add: evaluations_of_def ev update_conv')
  have "case map_of (rs_latest t) k of None \<Rightarrow> evaluations_of k t = []
      | Some l \<Rightarrow> l \<in> set (evaluations_of k t) \<and> (\<forall>e \<in> set (evaluations_of k t). \<not> is_later e l)" for k
  proof (cases "k = j")
    case False
    then have "evaluations_of k t = evaluations_of k s" "map_of (rs_latest t) k = map_of (rs_latest s) k" by (simp_all add: e la update_conv')
    then show ?thesis using assms [unfolded latest_ok_def, rule_format, of k] by (simp only:)
  next
    case True
    show ?thesis
      using assms [unfolded latest_ok_def, rule_format, of j] is_later_irrefl is_later_trans
      by (cases "map_of (rs_latest s) j") (auto simp: True e la update_conv')
  qed
  then show ?thesis unfolding latest_ok_def t_def by blast
qed

section \<open>A page is a part of the sorted list\<close>

definition selected :: "eval_cursor \<Rightarrow> string \<times> alert_rule \<Rightarrow> bool" where
  "selected cursor entry =
     (ru_status (snd entry) = ''active'' \<and> cu_after cursor < fst entry \<and> (cu_started cursor \<longrightarrow> fst entry \<le> cu_through cursor))"

text \<open>The specification: the ids after the cursor, in order.\<close>

definition due_ids :: "eval_cursor \<Rightarrow> rule_store \<Rightarrow> string list" where
  "due_ids cursor s = sort (map fst (filter (selected cursor) (rs_rules s)))"

lemma bounded_insort:
  fixes x :: "'a :: linorder"
  assumes "sorted zs" "x \<notin> set zs" "0 < n" "n \<le> length zs"
  shows "take n (insort x zs) = (if x < last (take n zs) then insort x (butlast (take n zs)) else take n zs)"
  using assms
proof (induction n arbitrary: zs)
  case (Suc m)
  then obtain z zs' where z: "zs = z # zs'" by (cases zs) auto
  show ?case
  proof (cases "m = 0")
    case False
    have ne: "take m zs' \<noteq> []" using False Suc.prems(4) z by auto
    have l: "z \<le> last (z # take m zs')" using Suc.prems(1) ne in_set_takeD [OF last_in_set [OF ne]] by (simp add: z)
    show ?thesis
    proof (cases "x \<le> z")
      case True
      then have "x < z" using Suc.prems(2) z by auto
      then have lt: "x < last (z # take m zs')" using l by (rule less_le_trans)
      have "butlast (z # take m zs') = take m (z # zs')"
        using Suc.prems(4) z by (simp add: butlast_take [of "Suc m" "z # zs'", simplified, symmetric])
      moreover have "insort x (take m (z # zs')) = x # take m (z # zs')" using True False by (cases m) simp_all
      ultimately show ?thesis using True lt z by simp
    next
      case gt: False
      have "take m (insort x zs') = (if x < last (take m zs') then insort x (butlast (take m zs')) else take m zs')"
        by (rule Suc.IH) (use Suc.prems z False in auto)
      with gt ne z show ?thesis by simp
    qed
  qed (use Suc.prems z in auto)
qed simp

lemma page_fold:
  assumes "distinct (xs @ map fst rs)"
  shows "snd (fold (page_visit cursor n) rs (through, take (n + 1) (sort xs))) =
    take (n + 1) (sort (rev (map fst (filter (selected cursor) rs)) @ xs))"
  using assms
proof (induction rs arbitrary: xs through)
  case (Cons a rs)
  obtain i r where a: "a = (i, r)" by fastforce
  define through' where "through' = (if ru_status r = ''active'' \<and> \<not> cu_started cursor \<and> through < i then i else through)"
  have f: "i \<notin> set (sort xs)" using Cons.prems by (simp add: a)
  have "page_visit cursor n a (through, take (n + 1) (sort xs)) =
    (through', take (n + 1) (sort (if selected cursor a then i # xs else xs)))"
  proof (cases "selected cursor a")
    case True
    have t: "take (Suc n) (insort i (sort xs)) =
      (if length xs < Suc n then insort i (sort xs)
       else if i < last (take (Suc n) (sort xs)) then insort i (butlast (take (Suc n) (sort xs))) else take (Suc n) (sort xs))"
      using bounded_insort [OF sorted_sort f, of "Suc n"] by (simp add: not_less)
    from True show ?thesis
      by (auto simp: page_visit_def a selected_def through'_def t not_le simp del: take_butlast)
  next
    case False
    then show ?thesis by (auto simp: page_visit_def a selected_def through'_def)
  qed
  then show ?case using Cons.IH [of "if selected cursor a then i # xs else xs" through'] Cons.prems by (simp add: a)
qed simp

lemma page_ids:
  assumes "distinct (map fst (rs_rules s))"
  shows "snd (fold (page_visit cursor n) (rs_rules s) (through, [])) = take (n + 1) (due_ids cursor s)"
proof -
  have "sort (rev ys) = sort ys" for ys :: "string list" by (rule properties_for_sort) simp_all
  with page_fold [of "[]" "rs_rules s" cursor n through] assms show ?thesis by (simp add: due_ids_def)
qed

lemma page_through_started: "cu_started cursor \<Longrightarrow> fst (fold (page_visit cursor n) rs (through, ids)) = through"
proof (induction rs arbitrary: ids)
  case (Cons a rs)
  have "fst (page_visit cursor n a (through, ids)) = through" using Cons.prems by (simp add: page_visit_def split: prod.split)
  then obtain ids' where "page_visit cursor n a (through, ids) = (through, ids')" by (metis prod.collapse)
  with Cons show ?case by simp
qed simp

lemma page_through_fresh:
  assumes "\<not> cu_started cursor"
  shows "through \<le> fst (fold (page_visit cursor n) rs (through, ids)) \<and>
    (\<forall>(i, r) \<in> set rs. ru_status r = ''active'' \<longrightarrow> i \<le> fst (fold (page_visit cursor n) rs (through, ids)))"
proof (induction rs arbitrary: through ids)
  case (Cons a rs)
  obtain i r where a: "a = (i, r)" by fastforce
  obtain t' ids' where p: "page_visit cursor n a (through, ids) = (t', ids')" by fastforce
  then have "through \<le> t' \<and> (ru_status r = ''active'' \<longrightarrow> i \<le> t')"
    using assms by (auto simp: page_visit_def a Let_def split: if_splits)
  with Cons.IH [of t' ids'] show ?case by (auto simp: p [unfolded a] a)
qed simp

lemma due_ids_props:
  assumes "rules_ok s"
  shows "sorted_wrt (<) (due_ids cursor s)"
    and "i \<in> set (due_ids cursor s) \<longleftrightarrow> (\<exists>r. rule_of s i = Some r \<and> selected cursor (i, r))"
proof -
  have d: "distinct (map fst (rs_rules s))" using assms by (simp add: rules_ok_def)
  then have "distinct (due_ids cursor s)" by (simp add: due_ids_def distinct_map inj_on_def)
  then show "sorted_wrt (<) (due_ids cursor s)" by (simp add: due_ids_def strict_sorted_iff)
  show "i \<in> set (due_ids cursor s) \<longleftrightarrow> (\<exists>r. rule_of s i = Some r \<and> selected cursor (i, r))"
    using d by (auto simp: due_ids_def image_iff)
qed

text \<open>A page read by the evaluator, stated without the heap.\<close>

lemma page_spec:
  assumes ok: "rules_ok s" and p: "PageActiveAlertRules ended cursor limit s = Inr page"
  shows "map ru_id (pg_rules page) = take limit (due_ids cursor s)"
    and "pg_done page \<longleftrightarrow> length (due_ids cursor s) \<le> limit"
    and "\<forall>r \<in> set (pg_rules page). ru_status r = ''active'' \<and> rule_of s (ru_id r) = Some r"
    and "cu_started cursor \<Longrightarrow> pg_through page = cu_through cursor"
    and "\<not> cu_started cursor \<Longrightarrow> rule_of s i = Some r \<Longrightarrow> ru_status r = ''active'' \<Longrightarrow> i \<le> pg_through page"
    and "cu_through cursor \<le> pg_through page"
proof -
  define f where "f = fold (page_visit cursor limit) (rs_rules s) (cu_through cursor, [])"
  have d: "distinct (map fst (rs_rules s))" using ok by (simp add: rules_ok_def)
  have ids: "snd f = take (limit + 1) (due_ids cursor s)" unfolding f_def by (rule page_ids [OF d])
  have page: "page = \<lparr>pg_rules = List.map_filter (rule_of s) (take limit (snd f)), pg_through = fst f, pg_done = (length (snd f) \<le> limit)\<rparr>"
    using p by (simp add: PageActiveAlertRules_def f_def [symmetric] split: option.splits if_splits prod.splits)
  have ex: "\<exists>r. rule_of s j = Some r \<and> ru_id r = j \<and> ru_status r = ''active''" if "j \<in> set (due_ids cursor s)" for j
    using that stored_rule_ok [OF ok] by (auto simp: due_ids_props(2) [OF ok] selected_def)
  have m: "map ru_id (List.map_filter (rule_of s) xs) = xs \<and>
      (\<forall>r \<in> set (List.map_filter (rule_of s) xs). ru_status r = ''active'' \<and> rule_of s (ru_id r) = Some r)"
    if "set xs \<subseteq> set (due_ids cursor s)" for xs
    using that by (induction xs) (auto simp: List.map_filter_simps dest!: ex split: option.split)
  have t: "take limit (snd f) = take limit (due_ids cursor s)" by (simp add: ids min_def)
  show "map ru_id (pg_rules page) = take limit (due_ids cursor s)"
    "\<forall>r \<in> set (pg_rules page). ru_status r = ''active'' \<and> rule_of s (ru_id r) = Some r"
    using m [of "take limit (due_ids cursor s)"] by (simp_all add: page t set_take_subset)
  show "pg_done page \<longleftrightarrow> length (due_ids cursor s) \<le> limit" by (auto simp: page ids)
  show "cu_started cursor \<Longrightarrow> pg_through page = cu_through cursor" by (simp add: page f_def page_through_started)
  show "i \<le> pg_through page" if "\<not> cu_started cursor" "rule_of s i = Some r" "ru_status r = ''active''"
    using page_through_fresh [OF that(1), of "cu_through cursor" limit "rs_rules s" "[]"] map_of_SomeD [OF that(2)] that(3)
    by (auto simp: page f_def)
  show "cu_through cursor \<le> pg_through page"
    by (cases "cu_started cursor") (use page_through_fresh [of cursor "cu_through cursor" limit "rs_rules s" "[]"] in
      \<open>simp_all add: page f_def page_through_started\<close>)
qed

end
