(* ===== verification/Alert_Evaluator.thy ===== *)
theory Alert_Evaluator
  imports Alert_Rules
begin

text \<open>
  The alert evaluator (\<open>internal/hubapi/alerting/alert_evaluator_instances.go\<close>, \<open>alert_evaluation_timing.go\<close>,
  \<open>maintenance_suppression.go\<close>) and the handlers for instances (\<open>alert_instances_handlers.go\<close>) on the store of
  \<open>Alert_Instances\<close>.

  The evaluator calls the store several times, and between two calls the handlers may run. Its definitions take a
  \<open>world\<close>: what the handlers do before the \<open>n\<close>th call (\<open>ew_interfere\<close>), whether the context has ended at the
  \<open>n\<close>th check, the clock at the \<open>n\<close>th call and the generated id. The result is the new store and the list of
  notices that went out.
\<close>

section \<open>Suppression and timing\<close>

definition matchesSilence :: "alert_rule \<Rightarrow> alert_silence \<Rightarrow> bool" where
  "matchesSilence rule silence =
     (if length (si_matchers silence) = 0 then False
      else list_all (\<lambda>(key, pattern). map_of (ru_labels rule) key = Some pattern) (si_matchers silence))"

text \<open>\<open>targets\<close> are the groups of the assets the rule resolves to, \<open>None\<close> when that fails; \<open>guard\<close> is the
  maintenance guardrail of a group, \<open>None\<close> when its evaluation fails or the context has ended, and
  \<open>has_ctx_guard\<close>, \<open>has_guard\<close> say which of them are configured.\<close>

definition isAlertMaintenanceSuppressed ::
    "bool \<Rightarrow> bool \<Rightarrow> bool \<Rightarrow> string list option \<Rightarrow> (string \<Rightarrow> bool option) \<Rightarrow> alert_rule \<Rightarrow> bool" where
  "isAlertMaintenanceSuppressed ended has_ctx_guard has_guard targets guard rule =
     (if ended then True
      else if \<not> has_ctx_guard \<and> \<not> has_guard then False
      else case targets of
             None \<Rightarrow> True
           | Some asset_groups \<Rightarrow>
               (let groups = filter (\<lambda>g. g \<noteq> []) (map tg_group_id (ru_targets rule) @ asset_groups)
                in if length groups = 0 then False
                   else if \<not> has_ctx_guard then True
                   else list_ex (\<lambda>g. case guard g of None \<Rightarrow> True | Some suppress \<Rightarrow> suppress) groups))"

definition isAlertSuppressed ::
    "bool \<Rightarrow> bool \<Rightarrow> alert_silence list option \<Rightarrow> (alert_error, alert_silence list) res \<Rightarrow> alert_rule \<Rightarrow> bool" where
  "isAlertSuppressed ended maintenance prefetch loaded rule =
     (if ended then True
      else if maintenance then True
      else case prefetch of
             Some silences \<Rightarrow> list_ex (matchesSilence rule) silences
           | None \<Rightarrow>
               (case loaded of
                  Inl _ \<Rightarrow> True
                | Inr silences \<Rightarrow> if 500 \<le> length silences then True else list_ex (matchesSilence rule) silences))"

definition newAlertSuppressionPrefetch :: "(alert_error, alert_silence list) res \<Rightarrow> (alert_error, alert_silence list) res" where
  "newAlertSuppressionPrefetch loaded =
     (case loaded of Inl e \<Rightarrow> Inl e | Inr silences \<Rightarrow> if 500 \<le> length silences then Inl InventoryIncomplete else Inr silences)"

definition hold_over :: "gtime \<Rightarrow> gtime option \<Rightarrow> int \<Rightarrow> bool" where
  "hold_over at anchor seconds =
     (\<not> (seconds < 0 \<or> MaxDurationSeconds < seconds) \<and>
      (case anchor of None \<Rightarrow> True | Some a \<Rightarrow> \<not> at < a + wrap64 (seconds * second)))"

definition alertFingerprintMayFire :: "bool \<Rightarrow> alert_rule \<Rightarrow> (alert_error, fingerprint_timing) res \<Rightarrow> gtime \<Rightarrow> bool" where
  "alertFingerprintMayFire ended rule history at =
     (case history of
        Inl _ \<Rightarrow> False
      | Inr h \<Rightarrow>
          hold_over at (ft_last_first_fired h) (ru_cooldown rule) \<and> hold_over at (ft_last_resolved h) (ru_reopen rule) \<and>
          \<not> ended \<and> at \<noteq> zero_time)"

section \<open>Firing and resolving\<close>

datatype notice = AlertFired string string | AlertResolved string string | IncidentCheck string

record eval_world =
  ew_ended :: "nat \<Rightarrow> bool"
  ew_now :: "nat \<Rightarrow> gtime"
  ew_id :: string
  ew_interfere :: "nat \<Rightarrow> alert_store \<Rightarrow> alert_store"
  ew_ctx_guard :: bool
  ew_guard :: bool
  ew_targets :: "string list option"
  ew_guardrail :: "string \<Rightarrow> bool option"
  ew_prefetch :: "alert_silence list option"

definition maintenance_now :: "eval_world \<Rightarrow> alert_rule \<Rightarrow> bool" where
  "maintenance_now w rule =
     isAlertMaintenanceSuppressed (ew_ended w 2) (ew_ctx_guard w) (ew_guard w) (ew_targets w) (ew_guardrail w) rule"

definition suppressed_now :: "eval_world \<Rightarrow> alert_rule \<Rightarrow> alert_store \<Rightarrow> bool" where
  "suppressed_now w rule s =
     isAlertSuppressed (ew_ended w 2) (maintenance_now w rule) (ew_prefetch w) (ListAlertSilences (ew_ended w 3) (ew_now w 3) 500 True s) rule"

definition instance_request_of :: "alert_rule \<Rightarrow> string \<Rightarrow> instance_request" where
  "instance_request_of rule fingerprint =
     \<lparr>ir_rule_id = ru_id rule, ir_fingerprint = fingerprint, ir_severity = ru_severity rule, ir_labels = ru_labels rule, ir_annotations = []\<rparr>"

definition createAndDispatchFiringInstance ::
    "(string \<Rightarrow> 256 word) \<Rightarrow> eval_world \<Rightarrow> alert_rule \<Rightarrow> string \<Rightarrow> firing_scope \<Rightarrow> alert_store \<Rightarrow> alert_store \<times> notice list" where
  "createAndDispatchFiringInstance sha w rule fingerprint scope s =
     (case CreateAlertInstance sha (ew_ended w 6) (ew_id w) (ew_now w 6) (instance_request_of rule fingerprint) (ew_interfere w 6 s) of
        (s, Inl _) \<Rightarrow> (s, [])
      | (s, Inr inst) \<Rightarrow>
          (case FireAlertInstance (ew_ended w 7) (ew_now w 7) (in_id inst) scope (ew_interfere w 7 s) of
             (s, Inl _) \<Rightarrow> (s, [])
           | (s, Inr _) \<Rightarrow> (s, if ew_ended w 8 then [] else [AlertFired (ru_id rule) (in_id inst)])))"

definition fire_if_due ::
    "(string \<Rightarrow> 256 word) \<Rightarrow> eval_world \<Rightarrow> alert_rule \<Rightarrow> string \<Rightarrow> firing_scope \<Rightarrow> gtime \<Rightarrow> alert_store \<Rightarrow> alert_store \<times> notice list" where
  "fire_if_due sha w rule fingerprint scope at s =
     (let s = ew_interfere w 4 s
      in if alertFingerprintMayFire (ew_ended w 5) rule (AlertFingerprintTiming (ew_ended w 4) (ru_id rule) fingerprint s) at
         then createAndDispatchFiringInstance sha w rule fingerprint scope s
         else (s, []))"

definition promote_pending ::
    "(string \<Rightarrow> 256 word) \<Rightarrow> eval_world \<Rightarrow> alert_rule \<Rightarrow> string \<Rightarrow> firing_scope \<Rightarrow> gtime \<Rightarrow> alert_instance \<Rightarrow> alert_store \<Rightarrow> alert_store \<times> notice list" where
  "promote_pending sha w rule fingerprint scope at existing s =
     (let s = ew_interfere w 4 s
      in if \<not> alertFingerprintMayFire (ew_ended w 5) rule (AlertFingerprintTiming (ew_ended w 4) (ru_id rule) fingerprint s) at
         then (s, [])
         else case UpdateAlertInstanceStatus (ew_ended w 9) (ew_now w 5) (in_id existing) ''resolved'' (ew_interfere w 5 s) of
                (s, Inl _) \<Rightarrow> (s, [])
              | (s, Inr _) \<Rightarrow> createAndDispatchFiringInstance sha w rule fingerprint scope s)"

definition fireOrRefireAlertWithScopeAt ::
    "(string \<Rightarrow> 256 word) \<Rightarrow> eval_world \<Rightarrow> alert_rule \<Rightarrow> gtime \<Rightarrow> firing_scope \<Rightarrow> alert_store \<Rightarrow> alert_store \<times> notice list" where
  "fireOrRefireAlertWithScopeAt sha w rule at scope s =
     (if ew_ended w 0 then (s, [])
      else
        (let fingerprint = GenerateFingerprint sha (ru_id rule) (ru_labels rule); s = ew_interfere w 0 s
         in case GetActiveInstanceByFingerprint (ew_ended w 1) (ru_id rule) fingerprint s of
              Inl _ \<Rightarrow> (s, [])
            | Inr (Some existing) \<Rightarrow>
                if in_status existing = Pending then
                  (let s = ew_interfere w 3 s
                   in if suppressed_now w rule s
                      then (fst (UpdateAlertInstanceLastFired (ew_ended w 4) (ew_now w 4) (in_id existing) (ew_interfere w 4 s)), [])
                      else promote_pending sha w rule fingerprint scope at existing s)
                else
                  (case UpdateAlertInstanceLastFired (ew_ended w 2) (ew_now w 2) (in_id existing) (ew_interfere w 2 s) of
                     (s, Some _) \<Rightarrow> (s, [])
                   | (s, None) \<Rightarrow> (s, [IncidentCheck (in_id existing)]))
            | Inr None \<Rightarrow>
                (let s = ew_interfere w 3 s
                 in if suppressed_now w rule s
                    then (fst (CreateAlertInstance sha (ew_ended w 6) (ew_id w) (ew_now w 6) (instance_request_of rule fingerprint)
                                 (ew_interfere w 6 s)), [])
                    else fire_if_due sha w rule fingerprint scope at s)))"

text \<open>The loop over one status of \<open>resolveStaleInstancesContext\<close>. The flag says that the context ended.\<close>

fun resolve_loop ::
    "eval_world \<Rightarrow> alert_rule \<Rightarrow> bool \<Rightarrow> nat \<Rightarrow> alert_instance list \<Rightarrow> alert_store \<Rightarrow> alert_store \<times> notice list \<times> int \<times> bool" where
  "resolve_loop w rule suppressed n [] s = (s, [], 0, False)"
| "resolve_loop w rule suppressed n (inst # insts) s =
     (if ew_ended w n then (s, [], 0, True)
      else case UpdateAlertInstanceStatus (ew_ended w (n + 1)) (ew_now w (n + 1)) (in_id inst) ''resolved'' (ew_interfere w (n + 1) s) of
             (s, Inl _) \<Rightarrow> resolve_loop w rule suppressed (n + 3) insts s
           | (s, Inr _) \<Rightarrow>
               if ew_ended w (n + 2) then (s, [], 1, True)
               else
                 (let notices = (if suppressed \<or> in_status inst = Pending then [] else [AlertResolved (ru_id rule) (in_id inst)])
                  in case resolve_loop w rule suppressed (n + 3) insts s of
                       (s, ns, resolved, stop) \<Rightarrow> (s, notices @ ns, resolved + 1, stop)))"

fun resolve_statuses ::
    "eval_world \<Rightarrow> alert_rule \<Rightarrow> bool \<Rightarrow> nat \<Rightarrow> string list \<Rightarrow> alert_store \<Rightarrow> alert_store \<times> notice list \<times> int" where
  "resolve_statuses w rule suppressed n [] s = (s, [], 0)"
| "resolve_statuses w rule suppressed n (status # statuses) s =
     (let s = ew_interfere w n s
      in case ListAlertInstances (ew_ended w n) \<lparr>if_limit = 100, if_offset = 0, if_rule_id = ru_id rule, if_status = status, if_severity = []\<rparr> s of
           Inl _ \<Rightarrow> resolve_statuses w rule suppressed (n + 1000) statuses s
         | Inr instances \<Rightarrow>
             (case resolve_loop w rule suppressed (n + 1) instances s of
                (s, ns, resolved, stop) \<Rightarrow>
                  if stop then (s, ns, resolved)
                  else case resolve_statuses w rule suppressed (n + 1000) statuses s of
                         (s, ns', resolved') \<Rightarrow> (s, ns @ ns', resolved + resolved')))"

definition resolveStaleInstances :: "eval_world \<Rightarrow> alert_rule \<Rightarrow> alert_store \<Rightarrow> alert_store \<times> notice list \<times> int" where
  "resolveStaleInstances w rule s =
     (if ew_ended w 0 then (s, [], 0)
      else
        (let s = ew_interfere w 3 s; suppressed = suppressed_now w rule s
         in resolve_statuses w rule suppressed 10 [''pending'', ''firing'', ''acknowledged''] s))"

section \<open>Handlers\<close>

text \<open>The answers of a handler as status codes. \<open>allowed\<close> is the asset check of a restricted key and \<open>limited\<close> the
  rate limiter.\<close>

definition error_code :: "alert_error \<Rightarrow> int" where
  "error_code e =
     (case e of InstanceNotFound \<Rightarrow> 404 | SilenceNotFound \<Rightarrow> 404 | CannotTransition _ _ \<Rightarrow> 400 | _ \<Rightarrow> 500)"

definition change_status :: "(alert_instance \<Rightarrow> bool) \<Rightarrow> bool \<Rightarrow> gtime \<Rightarrow> string \<Rightarrow> string \<Rightarrow> string \<Rightarrow> alert_store \<Rightarrow> alert_store \<times> int" where
  "change_status allowed limited now method instanceID status s =
     (if method \<noteq> ''POST'' then (s, 405)
      else if limited then (s, 429)
      else case GetAlertInstance instanceID s of
             None \<Rightarrow> (s, 404)
           | Some inst \<Rightarrow>
               if \<not> allowed inst then (s, 403)
               else case UpdateAlertInstanceStatus False now instanceID status s of
                      (s, Inl e) \<Rightarrow> (s, error_code e)
                    | (s, Inr _) \<Rightarrow> (s, 200))"

definition HandleAlertInstanceActions ::
    "(alert_instance \<Rightarrow> bool) \<Rightarrow> bool \<Rightarrow> gtime \<Rightarrow> string \<Rightarrow> string \<Rightarrow> alert_store \<Rightarrow> alert_store \<times> int" where
  "HandleAlertInstanceActions allowed limited now method url_path s =
     (let path = trim_prefix url_path ''/alerts/instances/''; parts = split_on (CHR ''/'') path; instanceID = trim_space (hd parts)
      in if path = url_path \<or> path = [] then (s, 404)
         else if instanceID = [] then (s, 404)
         else if length parts = 1 then
           (if method = ''GET'' \<or> method = ''DELETE'' then
              (case GetAlertInstance instanceID s of
                 None \<Rightarrow> (s, 404)
               | Some inst \<Rightarrow>
                   if \<not> allowed inst then (s, 403)
                   else if method = ''GET'' then (s, 200)
                   else case DeleteAlertInstance instanceID s of (s, Some e) \<Rightarrow> (s, error_code e) | (s, None) \<Rightarrow> (s, 200))
            else (s, 405))
         else if length parts = 2 \<and> parts ! 1 = ''ack'' then change_status allowed limited now method instanceID ''acknowledged'' s
         else if length parts = 2 \<and> parts ! 1 = ''resolve'' then change_status allowed limited now method instanceID ''resolved'' s
         else (s, 404))"

text \<open>The handlers for silences. \<open>restricted\<close> says that the key is limited to some assets, \<open>body\<close> is the decoded
  request and \<open>actor\<close> the authenticated caller. The length of a matcher is counted in code points, as the
  conversion to \<open>[]rune\<close> does: a byte that does not begin a well-formed sequence counts as one.\<close>

definition continuation :: "nat \<Rightarrow> nat \<Rightarrow> nat \<Rightarrow> bool" where
  "continuation lo hi b = (lo \<le> b \<and> b \<le> hi)"

fun rune_width :: "nat list \<Rightarrow> nat" where
  "rune_width (a # b # c # d # bs) =
     (if rune_width [a, b, c] \<noteq> 1 then rune_width [a, b, c]
      else if (a = 240 \<and> continuation 144 191 b \<or> 241 \<le> a \<and> a \<le> 243 \<and> continuation 128 191 b \<or> a = 244 \<and> continuation 128 143 b) \<and>
              continuation 128 191 c \<and> continuation 128 191 d then 4 else 1)"
| "rune_width [a, b, c] =
     (if rune_width [a, b] \<noteq> 1 then rune_width [a, b]
      else if (a = 224 \<and> continuation 160 191 b \<or> a = 237 \<and> continuation 128 159 b \<or>
               225 \<le> a \<and> a \<le> 239 \<and> a \<noteq> 237 \<and> continuation 128 191 b) \<and> continuation 128 191 c then 3 else 1)"
| "rune_width [a, b] = (if 194 \<le> a \<and> a \<le> 223 \<and> continuation 128 191 b then 2 else 1)"
| "rune_width _ = 1"

lemma rune_width_pos: "0 < rune_width bs"
  by (induction bs rule: rune_width.induct) auto

function rune_count :: "nat list \<Rightarrow> nat" where
  "rune_count bs = (if bs = [] then 0 else Suc (rune_count (drop (rune_width bs) bs)))"
  by pat_completeness auto
termination by (relation "measure length") (auto simp: rune_width_pos)

declare rune_count.simps [simp del]

definition runes :: "string \<Rightarrow> nat" where
  "runes v = rune_count (map of_char v)"

definition ValidateSilenceRequest :: "silence_request \<Rightarrow> bool" where
  "ValidateSilenceRequest req =
     (sr_matchers req \<noteq> [] \<and> length (sr_matchers req) \<le> 16 \<and>
      list_all (\<lambda>(key, v). trim_space key \<noteq> [] \<and> runes key \<le> 128 \<and> runes v \<le> 512) (sr_matchers req) \<and>
      sr_starts_at req \<noteq> zero_time \<and> sr_ends_at req \<noteq> zero_time \<and> sr_starts_at req < sr_ends_at req \<and>
      length (sr_reason req) \<le> 2048 \<and> length (sr_created_by req) \<le> 64)"

definition HandleAlertSilences ::
    "bool \<Rightarrow> bool \<Rightarrow> string \<Rightarrow> silence_request option \<Rightarrow> string \<Rightarrow> gtime \<Rightarrow> string \<Rightarrow> string \<Rightarrow> alert_store \<Rightarrow> alert_store \<times> int" where
  "HandleAlertSilences restricted limited actor body new_id now method url_path s =
     (if url_path \<noteq> ''/alerts/silences'' then (s, 404)
      else if restricted then (s, 403)
      else if method = ''GET'' then (s, 200)
      else if method = ''POST'' then
        (if limited then (s, 429)
         else case body of
                None \<Rightarrow> (s, 400)
              | Some req \<Rightarrow>
                  if \<not> ValidateSilenceRequest req then (s, 400)
                  else (fst (CreateAlertSilence new_id now (req\<lparr>sr_created_by := actor\<rparr>) s), 201))
      else (s, 405))"

definition HandleAlertSilenceActions :: "bool \<Rightarrow> string \<Rightarrow> string \<Rightarrow> alert_store \<Rightarrow> alert_store \<times> int" where
  "HandleAlertSilenceActions restricted method url_path s =
     (let path = trim_prefix url_path ''/alerts/silences/''; silenceID = trim_space path
      in if path = url_path \<or> path = [] then (s, 404)
         else if restricted then (s, 403)
         else if method = ''GET'' then (s, if GetAlertSilence silenceID s = None then 404 else 200)
         else if method = ''DELETE'' then
           (case DeleteAlertSilence silenceID s of (s, Some e) \<Rightarrow> (s, error_code e) | (s, None) \<Rightarrow> (s, 200))
         else (s, 405))"

text \<open>What can happen to the store beside the evaluator: requests to the handlers. A request of an instance or a silence
  makes at most one change of the store, so each is one step. A request that pauses a rule resolves the open instances
  of the rule one by one, as the evaluator does; each of these resolutions is a step of its own.\<close>

inductive handler_step :: "alert_store \<Rightarrow> alert_store \<Rightarrow> bool" where
  instance_action: "handler_step s (fst (HandleAlertInstanceActions allowed limited now method path s))"
| silences: "handler_step s (fst (HandleAlertSilences restricted limited actor body new_id now method path s))"
| silence_action: "handler_step s (fst (HandleAlertSilenceActions restricted method path s))"
| pausing: "handler_step s (fst (UpdateAlertInstanceStatus ended now i ''resolved'' s))"

abbreviation handler_steps :: "alert_store \<Rightarrow> alert_store \<Rightarrow> bool" where
  "handler_steps \<equiv> handler_step\<^sup>*\<^sup>*"

definition fair_world :: "eval_world \<Rightarrow> alert_store \<Rightarrow> bool" where
  "fair_world w s = ((\<forall>n t. handler_steps t (ew_interfere w n t)) \<and> ew_id w \<notin> fst ` set (sto_instances s) \<and> trim_space (ew_id w) = ew_id w)"

text \<open>A run of the program: evaluations of rules and steps of the handlers.\<close>

inductive alert_step :: "(string \<Rightarrow> 256 word) \<Rightarrow> alert_store \<Rightarrow> notice list \<Rightarrow> alert_store \<Rightarrow> bool" for sha where
  fires: "fair_world w s \<Longrightarrow> fireOrRefireAlertWithScopeAt sha w rule at scope s = (t, ns) \<Longrightarrow> alert_step sha s ns t"
| resolves: "fair_world w s \<Longrightarrow> resolveStaleInstances w rule s = (t, ns, n) \<Longrightarrow> alert_step sha s ns t"
| handled: "handler_step s t \<Longrightarrow> alert_step sha s [] t"

section \<open>Quiet changes\<close>

text \<open>What every operation but the creation and the firing of an instance does to an instance: its identity, its
  first firing and its scope stay, it moves forward in its life, and only an active instance stays active.\<close>

fun status_rank :: "instance_status \<Rightarrow> nat" where
  "status_rank Pending = 0"
| "status_rank Firing = 1"
| "status_rank Acknowledged = 1"
| "status_rank Resolved = 2"

definition inst_ok :: "alert_instance \<Rightarrow> bool" where
  "inst_ok a =
     ((in_status a = Pending \<longrightarrow> in_first_fired_at a = None) \<and>
      (in_status a \<in> {Firing, Acknowledged} \<longrightarrow> in_first_fired_at a \<noteq> None) \<and>
      (in_status a = Resolved \<longleftrightarrow> in_resolved_at a \<noteq> None) \<and>
      (in_firing_scope a \<noteq> None \<longrightarrow> in_first_fired_at a \<noteq> None))"

definition same_identity :: "alert_instance \<Rightarrow> alert_instance \<Rightarrow> bool" where
  "same_identity a b =
     (in_id b = in_id a \<and> in_rule_id b = in_rule_id a \<and> in_fingerprint b = in_fingerprint a \<and> in_severity b = in_severity a \<and>
      in_labels b = in_labels a \<and> in_started_at b = in_started_at a)"

definition quiet :: "alert_instance \<Rightarrow> alert_instance \<Rightarrow> bool" where
  "quiet a b =
     (same_identity a b \<and> in_first_fired_at b = in_first_fired_at a \<and> in_firing_scope b = in_firing_scope a \<and>
      status_rank (in_status a) \<le> status_rank (in_status b) \<and> (in_status a = Pending \<longrightarrow> in_status b \<in> {Pending, Resolved}) \<and>
      (in_resolved_at a \<noteq> None \<longrightarrow> in_resolved_at b = in_resolved_at a) \<and> (inst_ok a \<longrightarrow> inst_ok b))"

abbreviation inst_of :: "alert_store \<Rightarrow> string \<Rightarrow> alert_instance option" where
  "inst_of s \<equiv> map_of (sto_instances s)"

definition quiet_store :: "alert_store \<Rightarrow> alert_store \<Rightarrow> bool" where
  "quiet_store s t =
     ((distinct (map fst (sto_instances s)) \<longrightarrow> distinct (map fst (sto_instances t))) \<and>
      (\<forall>i b. inst_of t i = Some b \<longrightarrow> (\<exists>a. inst_of s i = Some a \<and> quiet a b)))"

definition open_status :: "string \<Rightarrow> bool" where
  "open_status st = (NormalizeInstanceStatus st \<in> {Some Pending, Some Firing, Some Acknowledged})"

definition gone :: "alert_store \<Rightarrow> string \<Rightarrow> bool" where
  "gone s i = (\<forall>a. inst_of s i = Some a \<longrightarrow> in_status a = Resolved)"

lemma quiet_refl: "quiet a a"
  by (simp add: quiet_def same_identity_def)

lemma quiet_trans: "quiet a b \<Longrightarrow> quiet b c \<Longrightarrow> quiet a c"
  unfolding quiet_def same_identity_def
  by (cases "in_status a"; cases "in_status b"; cases "in_status c"; simp)

lemma quiet_store_refl: "quiet_store s s"
  by (auto simp: quiet_store_def intro: quiet_refl)

lemma quiet_store_trans: "quiet_store s t \<Longrightarrow> quiet_store t u \<Longrightarrow> quiet_store s u"
  unfolding quiet_store_def by (meson quiet_trans)

lemma put_quiet:
  assumes "inst_of s i = Some a" "quiet a b"
  shows "quiet_store s (put_instance s i b)"
  using assms by (auto simp: quiet_store_def put_instance_def update_conv' distinct_update intro: quiet_refl)

lemma with_status_quiet:
  "CanTransitionInstanceStatus (in_status a) st \<Longrightarrow> st \<in> {Acknowledged, Resolved} \<Longrightarrow> in_status a \<noteq> st \<Longrightarrow> quiet a (with_status now st a)"
  by (cases "in_status a") (auto simp: quiet_def same_identity_def with_status_def inst_ok_def Let_def)

lemma update_status_quiet:
  assumes "NormalizeInstanceStatus status = Some st" "st \<in> {Acknowledged, Resolved}"
  shows "quiet_store s (fst (UpdateAlertInstanceStatus ended now i status s))"
proof (cases "inst_of s (trim_space i)")
  case (Some a)
  then show ?thesis
    using assms put_quiet [OF Some with_status_quiet [of a st now]]
    by (auto simp: UpdateAlertInstanceStatus_def Let_def quiet_store_refl simp del: CanTransitionInstanceStatus.simps)
qed (use assms in \<open>auto simp: UpdateAlertInstanceStatus_def quiet_store_refl\<close>)

lemma status_names: "NormalizeInstanceStatus ''acknowledged'' = Some Acknowledged" "NormalizeInstanceStatus ''resolved'' = Some Resolved"
  by code_simp+

lemmas update_quiet = update_status_quiet [OF status_names(1), simplified] update_status_quiet [OF status_names(2), simplified]

lemma last_fired_quiet: "quiet_store s (fst (UpdateAlertInstanceLastFired ended now i s))"
proof (cases "inst_of s (trim_space i)")
  case (Some a)
  have "quiet a (a\<lparr>in_last_fired_at := now, in_updated_at := now\<rparr>)" by (simp add: quiet_def same_identity_def inst_ok_def)
  from put_quiet [OF Some this] Some show ?thesis by (simp add: UpdateAlertInstanceLastFired_def quiet_store_refl)
qed (simp add: UpdateAlertInstanceLastFired_def quiet_store_refl)

lemma delete_quiet: "quiet_store s (fst (DeleteAlertInstance i s))"
  by (auto simp: quiet_store_def DeleteAlertInstance_def delete_conv' distinct_delete intro: quiet_refl split: if_splits)

lemma change_status_quiet:
  "status \<in> {''acknowledged'', ''resolved''} \<Longrightarrow> quiet_store s (fst (change_status allowed limited now method i status s))"
  using update_quiet [of s False now i]
  by (auto simp: change_status_def quiet_store_refl split: option.split prod.split sum.split)

lemma handler_quiet: "handler_step s t \<Longrightarrow> quiet_store s t"
proof (induction rule: handler_step.induct)
  case (instance_action s allowed limited now verb url)
  have d: "quiet_store s (fst (case DeleteAlertInstance i s of (s, Some e) \<Rightarrow> (s, error_code e) | (s, None) \<Rightarrow> (s, 200)))" for i
    using delete_quiet [of s i] by (auto split: prod.split option.split)
  then show ?case
    by (simp add: HandleAlertInstanceActions_def Let_def quiet_store_refl change_status_quiet split: option.split)
next
  case (pausing s ended now i)
  show ?case by (rule update_quiet(2))
qed (auto simp: HandleAlertSilences_def HandleAlertSilenceActions_def CreateAlertSilence_def DeleteAlertSilence_def Let_def quiet_store_def
    intro: quiet_refl split: option.split)

lemma handlers_quiet: "handler_steps s t \<Longrightarrow> quiet_store s t"
  by (induction rule: rtranclp_induct) (auto intro: quiet_store_refl quiet_store_trans handler_quiet)

lemma interfere_quiet: "fair_world w s \<Longrightarrow> quiet_store t (ew_interfere w n t)"
  by (auto simp: fair_world_def intro: handlers_quiet)

section \<open>The invariant\<close>

definition instances_ok :: "alert_store \<Rightarrow> bool" where
  "instances_ok s =
     (distinct (map fst (sto_instances s)) \<and> (\<forall>i a. inst_of s i = Some a \<longrightarrow> in_id a = i \<and> trim_space i = i \<and> inst_ok a))"

definition single_active :: "alert_store \<Rightarrow> bool" where
  "single_active s =
     (\<forall>i j a b. inst_of s i = Some a \<longrightarrow> inst_of s j = Some b \<longrightarrow> active a \<longrightarrow> active b \<longrightarrow>
       in_rule_id a = in_rule_id b \<longrightarrow> in_fingerprint a = in_fingerprint b \<longrightarrow> i = j)"

definition none_active :: "string \<Rightarrow> string \<Rightarrow> alert_store \<Rightarrow> bool" where
  "none_active r f s = (\<forall>i a. inst_of s i = Some a \<longrightarrow> active a \<longrightarrow> in_rule_id a = r \<longrightarrow> in_fingerprint a \<noteq> f)"

lemma active_iff: "active a \<longleftrightarrow> in_status a \<noteq> Resolved"
  by (cases "in_status a") (auto simp: active_def)

lemma quiet_active: "quiet a b \<Longrightarrow> active b \<Longrightarrow> active a"
  by (cases "in_status a"; cases "in_status b") (auto simp: quiet_def active_iff)

lemma quiet_instances_ok:
  assumes "quiet_store s t" "instances_ok s"
  shows "instances_ok t"
  using assms unfolding quiet_store_def instances_ok_def quiet_def same_identity_def by metis

lemma quiet_single_active:
  assumes q: "quiet_store s t" and sa: "single_active s"
  shows "single_active t"
  unfolding single_active_def
proof (intro allI impI)
  fix i j a b
  assume *: "inst_of t i = Some a" "inst_of t j = Some b" "active a" "active b" "in_rule_id a = in_rule_id b" "in_fingerprint a = in_fingerprint b"
  from q * obtain a' b' where o: "inst_of s i = Some a'" "quiet a' a" "inst_of s j = Some b'" "quiet b' b"
    unfolding quiet_store_def by meson
  then have "in_rule_id a' = in_rule_id b'" "in_fingerprint a' = in_fingerprint b'" using * by (simp_all add: quiet_def same_identity_def)
  with o * quiet_active sa show "i = j" unfolding single_active_def by meson
qed

lemma quiet_none_active:
  assumes q: "quiet_store s t" and n: "none_active r f s"
  shows "none_active r f t"
  unfolding none_active_def
proof (intro allI impI)
  fix i a
  assume *: "inst_of t i = Some a" "active a" "in_rule_id a = r"
  with q obtain a' where o: "inst_of s i = Some a'" "quiet a' a" unfolding quiet_store_def by meson
  then have "active a'" using * quiet_active by blast
  moreover have "in_rule_id a' = r" "in_fingerprint a' = in_fingerprint a" using o(2) * by (simp_all add: quiet_def same_identity_def)
  ultimately show "in_fingerprint a \<noteq> f" using n o(1) unfolding none_active_def by metis
qed

lemmas quiet_keeps = quiet_instances_ok quiet_single_active quiet_none_active

lemma quiet_fresh: "quiet_store s t \<Longrightarrow> i \<notin> fst ` set (sto_instances s) \<Longrightarrow> i \<notin> fst ` set (sto_instances t)"
  unfolding quiet_store_def by (metis map_of_eq_None_iff option.exhaust option.discI)

text \<open>Creation and firing.\<close>

definition fp_of :: "(string \<Rightarrow> 256 word) \<Rightarrow> alert_rule \<Rightarrow> string" where
  "fp_of sha rule = GenerateFingerprint sha (ru_id rule) (ru_labels rule)"

lemma hex_digit_not_space: "0 \<le> d \<Longrightarrow> d < 16 \<Longrightarrow> \<not> is_space (hex_digit_char d)"
proof -
  assume "0 \<le> d" "d < 16"
  then have "d \<in> set [0..15]" by simp
  moreover have "list_all (\<lambda>d. \<not> is_space (hex_digit_char d)) [0..15]" by code_simp
  ultimately show "\<not> is_space (hex_digit_char d)" unfolding list_all_iff by blast
qed

lemma fingerprint_trimmed: "trim_space (GenerateFingerprint sha r ls) = GenerateFingerprint sha r ls" "GenerateFingerprint sha r ls \<noteq> []"
proof -
  have ne: "hex_digest w \<noteq> []" for w by (simp add: hex_digest_def)
  have sp: "\<not> is_space c" if "c \<in> set (hex_digest w)" for c w
    using that hex_digit_not_space by (auto simp: hex_digest_def)
  show "trim_space (GenerateFingerprint sha r ls) = GenerateFingerprint sha r ls"
    unfolding GenerateFingerprint_def by (rule trim_space_fixed) (use ne sp in \<open>auto intro: hd_in_set last_in_set\<close>)
  show "GenerateFingerprint sha r ls \<noteq> []" unfolding GenerateFingerprint_def by (rule ne)
qed

definition fresh_instance :: "(string \<Rightarrow> 256 word) \<Rightarrow> eval_world \<Rightarrow> alert_rule \<Rightarrow> alert_instance" where
  "fresh_instance sha w rule = new_instance sha (ew_id w) (ew_now w 6) (instance_request_of rule (fp_of sha rule))"

lemma fresh_instance_sel:
  "in_id (fresh_instance sha w rule) = ew_id w" "in_rule_id (fresh_instance sha w rule) = trim_space (ru_id rule)"
  "in_fingerprint (fresh_instance sha w rule) = fp_of sha rule" "in_status (fresh_instance sha w rule) = Pending"
  "in_first_fired_at (fresh_instance sha w rule) = None" "in_firing_scope (fresh_instance sha w rule) = None"
  "in_resolved_at (fresh_instance sha w rule) = None"
  using fingerprint_trimmed [of sha "ru_id rule" "ru_labels rule"]
  by (simp_all add: fresh_instance_def new_instance_def instance_request_of_def fp_of_def Let_def)

lemma create_ok:
  assumes "instances_ok s" "single_active s" "none_active (trim_space (ru_id rule)) (fp_of sha rule) s"
    "ew_id w \<notin> fst ` set (sto_instances s)" "trim_space (ew_id w) = ew_id w"
  shows "instances_ok (put_instance s (ew_id w) (fresh_instance sha w rule))" (is "instances_ok ?t")
    and "single_active (put_instance s (ew_id w) (fresh_instance sha w rule))"
proof -
  note f = fresh_instance_sel [of sha w rule]
  have m: "inst_of ?t i = (if i = ew_id w then Some (fresh_instance sha w rule) else inst_of s i)" for i
    by (simp add: put_instance_def update_conv')
  have "inst_ok (fresh_instance sha w rule)" by (simp add: inst_ok_def f)
  then show "instances_ok ?t"
    using assms(1,5) by (auto simp: instances_ok_def m f put_instance_def distinct_update split: if_splits)
  have n: False if "inst_of s j = Some b" "active b" "in_rule_id b = in_rule_id (fresh_instance sha w rule)"
    "in_fingerprint b = in_fingerprint (fresh_instance sha w rule)" for j b
    using assms(3) that f(2,3) unfolding none_active_def by simp
  show "single_active ?t"
    unfolding single_active_def m
  proof (intro allI impI)
    fix i j a b
    assume "(if i = ew_id w then Some (fresh_instance sha w rule) else inst_of s i) = Some a"
      "(if j = ew_id w then Some (fresh_instance sha w rule) else inst_of s j) = Some b"
      "active a" "active b" "in_rule_id a = in_rule_id b" "in_fingerprint a = in_fingerprint b"
    with n [of i a] n [of j b] assms(2) show "i = j" unfolding single_active_def by (auto split: if_splits)
  qed
qed

lemma fire_ok:
  assumes "instances_ok s" "single_active s"
  shows "instances_ok (fst (FireAlertInstance ended now i scope s)) \<and> single_active (fst (FireAlertInstance ended now i scope s))"
proof (cases "fst (FireAlertInstance ended now i scope s) = s")
  case False
  then obtain a n where a: "inst_of s (trim_space i) = Some a" "in_status a = Pending" "in_first_fired_at a = None"
    and t: "fst (FireAlertInstance ended now i scope s) = put_instance s (in_id a)
      (a\<lparr>in_status := Firing, in_first_fired_at := Some now, in_last_fired_at := now, in_updated_at := now, in_firing_scope := Some n\<rparr>)"
    by (auto simp: FireAlertInstance_def Let_def split: option.splits if_splits)
  have k: "in_id a = trim_space i" "trim_space (trim_space i) = trim_space i" "inst_ok a"
    using assms(1) a(1) unfolding instances_ok_def by blast+
  define b where "b = a\<lparr>in_status := Firing, in_first_fired_at := Some now, in_last_fired_at := now, in_updated_at := now, in_firing_scope := Some n\<rparr>"
  have b: "inst_ok b" "in_id b = in_id a" "in_rule_id b = in_rule_id a" "in_fingerprint b = in_fingerprint a" "active a"
    using k(3) a(2,3) by (auto simp: b_def inst_ok_def active_def)
  have m: "inst_of (put_instance s (in_id a) b) j = (if j = in_id a then Some b else inst_of s j)" for j
    by (simp add: put_instance_def update_conv')
  have "instances_ok (put_instance s (in_id a) b)"
    using assms(1) b k by (auto simp: instances_ok_def m put_instance_def distinct_update split: if_splits)
  moreover have "single_active (put_instance s (in_id a) b)"
    using assms(2) a(1) b k(1) unfolding single_active_def m by (auto split: if_splits)
  ultimately show ?thesis by (simp add: t b_def)
qed (use assms in simp)

section \<open>The evaluator keeps the invariant\<close>

abbreviation good :: "alert_store \<Rightarrow> bool" where
  "good s \<equiv> instances_ok s \<and> single_active s"

lemma quiet_good: "quiet_store s t \<Longrightarrow> good s \<Longrightarrow> good t"
  using quiet_instances_ok quiet_single_active by blast

lemma create_dispatch_good:
  assumes "fair_world w s0" "good s" "none_active (trim_space (ru_id rule)) (fp_of sha rule) s" "ew_id w \<notin> fst ` set (sto_instances s)"
  shows "good (fst (createAndDispatchFiringInstance sha w rule (fp_of sha rule) scope s))"
proof -
  define s' where "s' = ew_interfere w 6 s"
  have q: "quiet_store s s'" using interfere_quiet [OF assms(1)] by (simp add: s'_def)
  define p where "p = put_instance s' (ew_id w) (fresh_instance sha w rule)"
  have g: "good s'" using quiet_good [OF q assms(2)] .
  moreover have "good p"
    unfolding p_def using create_ok [of s' rule sha w] g quiet_none_active [OF q assms(3)] quiet_fresh [OF q assms(4)] assms(1)
    by (simp add: fair_world_def)
  then have "good (ew_interfere w 7 p)" using quiet_good interfere_quiet [OF assms(1)] by blast
  then have "good (fst (FireAlertInstance (ew_ended w 7) (ew_now w 7) i scope (ew_interfere w 7 p)))" for i
    using fire_ok by blast
  ultimately show ?thesis
    by (simp add: createAndDispatchFiringInstance_def CreateAlertInstance_def s'_def [symmetric] fresh_instance_def [symmetric] Let_def
        p_def [symmetric] split: prod.split sum.split if_split)
      (metis fst_conv)
qed

lemma get_active_Some:
  assumes "instances_ok s" "GetActiveInstanceByFingerprint ended r f s = Inr (Some e)"
  shows "inst_of s (in_id e) = Some e" "active e" "in_rule_id e = trim_space r" "in_fingerprint e = trim_space f" "trim_space (in_id e) = in_id e"
proof -
  from assms(2) have f: "find_first (\<lambda>inst. in_rule_id inst = trim_space r \<and> in_fingerprint inst = trim_space f \<and> active inst)
      (map snd (sto_instances s)) = Some e" by (simp add: GetActiveInstanceByFingerprint_def split: if_splits)
  from find_first_SomeD [OF f] show "active e" "in_rule_id e = trim_space r" "in_fingerprint e = trim_space f" by auto
  from find_first_SomeD [OF f] obtain i where "(i, e) \<in> set (sto_instances s)" by auto
  then have "inst_of s i = Some e" using assms(1) by (simp add: instances_ok_def)
  moreover from this have "in_id e = i" "trim_space i = i" using assms(1) unfolding instances_ok_def by blast+
  ultimately show "inst_of s (in_id e) = Some e" "trim_space (in_id e) = in_id e" by simp_all
qed

lemma get_active_None:
  assumes "GetActiveInstanceByFingerprint ended r f s = Inr None"
  shows "none_active (trim_space r) (trim_space f) s"
proof -
  from assms have "find_first (\<lambda>inst. in_rule_id inst = trim_space r \<and> in_fingerprint inst = trim_space f \<and> active inst)
      (map snd (sto_instances s)) = None" by (simp add: GetActiveInstanceByFingerprint_def split: if_splits)
  then have n: "\<forall>a \<in> set (map snd (sto_instances s)). \<not> (in_rule_id a = trim_space r \<and> in_fingerprint a = trim_space f \<and> active a)"
    by (simp only: find_first_None_iff)
  have "a \<in> set (map snd (sto_instances s))" if "inst_of s i = Some a" for i a
    using map_of_SomeD [OF that] by force
  with n show ?thesis unfolding none_active_def by blast
qed

lemma resolved_result:
  assumes "UpdateAlertInstanceStatus ended now i ''resolved'' s = (t, Inr x)"
  shows "\<exists>a. inst_of t (trim_space i) = Some a \<and> in_status a = Resolved"
proof -
  have "in_status (with_status now Resolved a) = Resolved" for a by (simp add: with_status_def Let_def)
  with assms show ?thesis
    by (auto simp: UpdateAlertInstanceStatus_def status_names put_instance_def update_conv' Let_def split: if_splits option.splits)
qed

lemma placeholder_resolved:
  assumes e: "inst_of s (in_id e) = Some e" "active e" "trim_space (in_id e) = in_id e" and sa: "single_active s" and q: "quiet_store s s'"
    and u: "UpdateAlertInstanceStatus ended now (in_id e) ''resolved'' s' = (t, Inr x)"
  shows "none_active (in_rule_id e) (in_fingerprint e) t"
  unfolding none_active_def
proof (intro allI impI notI)
  fix i a
  assume a: "inst_of t i = Some a" "active a" "in_rule_id a = in_rule_id e" "in_fingerprint a = in_fingerprint e"
  have "quiet_store s' t" using update_quiet(2) [of s' ended now "in_id e"] by (simp add: u)
  with q have "quiet_store s t" by (rule quiet_store_trans)
  with a obtain b where b: "inst_of s i = Some b" "quiet b a" unfolding quiet_store_def by meson
  then have "active b" "in_rule_id b = in_rule_id e" "in_fingerprint b = in_fingerprint e"
    using a quiet_active by (auto simp: quiet_def same_identity_def)
  with sa b(1) e(1,2) have "i = in_id e" unfolding single_active_def by blast
  moreover obtain c where "inst_of t (in_id e) = Some c" "in_status c = Resolved" using resolved_result [OF u] e(3) by auto
  ultimately show False using a(1,2) by (simp add: active_iff)
qed

lemma promote_good:
  assumes w: "fair_world w s0" and g: "good s" and e: "inst_of s (in_id e) = Some e" "active e"
    "in_rule_id e = trim_space (ru_id rule)" "in_fingerprint e = fp_of sha rule" "trim_space (in_id e) = in_id e"
    and fresh: "ew_id w \<notin> fst ` set (sto_instances s)" and qs: "quiet_store s v"
  shows "good (fst (promote_pending sha w rule (fp_of sha rule) scope at e v))"
proof -
  define s1 where "s1 = ew_interfere w 4 v"
  define s2 where "s2 = ew_interfere w 5 s1"
  have q: "quiet_store s s1" "quiet_store s s2"
    unfolding s1_def s2_def using qs interfere_quiet [OF w] by (blast intro: quiet_store_trans)+
  obtain t r where u: "UpdateAlertInstanceStatus (ew_ended w 9) (ew_now w 5) (in_id e) ''resolved'' s2 = (t, r)" by fastforce
  have qt: "quiet_store s t"
    using q(2) update_quiet(2) [of s2 "ew_ended w 9" "ew_now w 5" "in_id e"] quiet_store_trans by (simp add: u)
  have "good (fst (createAndDispatchFiringInstance sha w rule (fp_of sha rule) scope t))" if "r = Inr x" for x
  proof (rule create_dispatch_good [OF w])
    show "none_active (trim_space (ru_id rule)) (fp_of sha rule) t"
      using placeholder_resolved [OF e(1,2,5) _ q(2) u [unfolded that]] g e(3,4) by simp
  qed (use quiet_good [OF qt g] quiet_fresh [OF qt fresh] in auto)
  then show ?thesis
    using quiet_good [OF q(1) g] quiet_good [OF qt g]
    by (auto simp: promote_pending_def Let_def s1_def [symmetric] s2_def [symmetric] u split: sum.split)
qed

lemma fire_if_due_good:
  assumes "fair_world w s0" "good s" "none_active (trim_space (ru_id rule)) (fp_of sha rule) s" "ew_id w \<notin> fst ` set (sto_instances s)"
  shows "good (fst (fire_if_due sha w rule (fp_of sha rule) scope at s))"
proof -
  have q: "quiet_store s (ew_interfere w 4 s)" using interfere_quiet [OF assms(1)] .
  have "good (fst (createAndDispatchFiringInstance sha w rule (fp_of sha rule) scope (ew_interfere w 4 s)))"
    by (rule create_dispatch_good [OF assms(1) quiet_good [OF q assms(2)] quiet_none_active [OF q assms(3)] quiet_fresh [OF q assms(4)]])
  with quiet_good [OF q assms(2)] show ?thesis by (simp add: fire_if_due_def Let_def)
qed

text \<open>The four ways an evaluation of a triggered rule can go.\<close>

lemma fire_cases [consumes 1, case_names quiet promoted placeholder fired]:
  assumes "fair_world w s"
    and quiet: "\<And>t ns. quiet_store s t \<Longrightarrow> fireOrRefireAlertWithScopeAt sha w rule at scope s = (t, ns) \<Longrightarrow>
      \<forall>r i. AlertFired r i \<notin> set ns \<Longrightarrow> P"
    and promoted: "\<And>s1 s2 e. quiet_store s s1 \<Longrightarrow> quiet_store s1 s2 \<Longrightarrow>
      GetActiveInstanceByFingerprint (ew_ended w 1) (ru_id rule) (fp_of sha rule) s1 = Inr (Some e) \<Longrightarrow> in_status e = Pending \<Longrightarrow>
      \<not> suppressed_now w rule s2 \<Longrightarrow>
      fireOrRefireAlertWithScopeAt sha w rule at scope s = promote_pending sha w rule (fp_of sha rule) scope at e s2 \<Longrightarrow> P"
    and placeholder: "\<And>s1 s2. quiet_store s s1 \<Longrightarrow> quiet_store s1 s2 \<Longrightarrow>
      GetActiveInstanceByFingerprint (ew_ended w 1) (ru_id rule) (fp_of sha rule) s1 = Inr None \<Longrightarrow>
      fireOrRefireAlertWithScopeAt sha w rule at scope s =
        (put_instance s2 (ew_id w) (fresh_instance sha w rule), []) \<Longrightarrow> P"
    and fired: "\<And>s1 s2. quiet_store s s1 \<Longrightarrow> quiet_store s1 s2 \<Longrightarrow>
      GetActiveInstanceByFingerprint (ew_ended w 1) (ru_id rule) (fp_of sha rule) s1 = Inr None \<Longrightarrow> \<not> suppressed_now w rule s2 \<Longrightarrow>
      fireOrRefireAlertWithScopeAt sha w rule at scope s = fire_if_due sha w rule (fp_of sha rule) scope at s2 \<Longrightarrow> P"
  shows P
proof (cases "ew_ended w 0")
  case True
  then show ?thesis by (intro quiet [of s "[]"]) (simp_all add: quiet_store_refl fireOrRefireAlertWithScopeAt_def)
next
  case False
  define s1 where "s1 = ew_interfere w 0 s"
  define s2 where "s2 = ew_interfere w 3 s1"
  note i = interfere_quiet [OF assms(1)]
  have q1: "quiet_store s s1" and q2: "quiet_store s1 s2" unfolding s1_def s2_def using i by blast+
  have q: "quiet_store s (ew_interfere w n s2)" "quiet_store s (ew_interfere w n s1)" for n
    using q1 q2 i by (blast intro: quiet_store_trans)+
  let ?r = "fireOrRefireAlertWithScopeAt sha w rule at scope s"
  let ?g = "GetActiveInstanceByFingerprint (ew_ended w 1) (ru_id rule) (fp_of sha rule) s1"
  note u = fireOrRefireAlertWithScopeAt_def [of sha w rule at scope s, unfolded Let_def fp_of_def [symmetric] s1_def [symmetric] s2_def [symmetric]]
  show ?thesis
  proof (cases ?g)
    case (Inl e)
    then have "?r = (s1, [])" using False by (simp only: u) simp
    then show ?thesis using quiet [OF q1] by simp
  next
    case (Inr found)
    show ?thesis
    proof (cases found)
      case None
      show ?thesis
      proof (cases "suppressed_now w rule s2")
        case True
        define s3 where "s3 = ew_interfere w 6 s2"
        have r: "?r = (fst (CreateAlertInstance sha (ew_ended w 6) (ew_id w) (ew_now w 6) (instance_request_of rule (fp_of sha rule)) s3), [])"
          using False Inr None True by (simp only: u s3_def) simp
        show ?thesis
        proof (cases "ew_ended w 6")
          case True
          then show ?thesis using quiet [OF q(1) [of 6]] r by (simp add: CreateAlertInstance_def s3_def)
        next
          case False
          have "?r = (put_instance s3 (ew_id w) (fresh_instance sha w rule), [])"
            unfolding r using False by (simp add: CreateAlertInstance_def fresh_instance_def Let_def)
          moreover have "quiet_store s1 s3" unfolding s3_def using q2 i by (blast intro: quiet_store_trans)
          ultimately show ?thesis using placeholder [OF q1] Inr None by blast
        qed
      next
        case F: False
        then have "?r = fire_if_due sha w rule (fp_of sha rule) scope at s2" using False Inr None by (simp only: u) simp
        then show ?thesis using fired [OF q1 q2] Inr None F by blast
      qed
    next
      case (Some e)
      show ?thesis
      proof (cases "in_status e = Pending \<and> \<not> suppressed_now w rule s2")
        case True
        then have "?r = promote_pending sha w rule (fp_of sha rule) scope at e s2" using False Inr Some by (simp only: u) simp
        then show ?thesis using promoted [OF q1 q2] Inr Some True by blast
      next
        case F: False
        have l: "quiet_store s (fst (UpdateAlertInstanceLastFired ended now j (ew_interfere w n s2)))"
          "quiet_store s (fst (UpdateAlertInstanceLastFired ended now j (ew_interfere w n s1)))" for ended now j n
          using q last_fired_quiet by (blast intro: quiet_store_trans)+
        obtain t ns where r: "?r = (t, ns)" by fastforce
        have "quiet_store s t \<and> (\<forall>r i. AlertFired r i \<notin> set ns)"
          using r False Inr Some F l(1) [of "ew_ended w 4" "ew_now w 4" "in_id e" 4] l(2) [of "ew_ended w 2" "ew_now w 2" "in_id e" 2]
          by (simp only: u) (auto split: if_splits prod.splits option.splits)
        then show ?thesis using quiet r by blast
      qed
    qed
  qed
qed

lemma fire_good:
  assumes "fair_world w s" "good s"
  shows "good (fst (fireOrRefireAlertWithScopeAt sha w rule at scope s))"
proof -
  have fresh: "ew_id w \<notin> fst ` set (sto_instances s)" "trim_space (ew_id w) = ew_id w" using assms(1) by (simp_all add: fair_world_def)
  have fp: "trim_space (fp_of sha rule) = fp_of sha rule" by (simp add: fp_of_def fingerprint_trimmed)
  from assms(1) show ?thesis
  proof (cases rule: fire_cases [of w s sha rule at scope])
    case (quiet t ns)
    with quiet_good assms(2) show ?thesis by simp
  next
    case (promoted s1 s2 e)
    have g1: "good s1" using quiet_good promoted(1) assms(2) by blast
    note e = get_active_Some [OF conjunct1 [OF g1] promoted(3)]
    from promote_good [OF assms(1) g1 e(1,2,3) _ e(5) quiet_fresh [OF promoted(1) fresh(1)] promoted(2)] e(4) fp
    show ?thesis by (simp only: promoted(6))
  next
    case (placeholder s1 s2)
    then have q: "quiet_store s s2" by (blast intro: quiet_store_trans)
    have "none_active (trim_space (ru_id rule)) (fp_of sha rule) s1" using get_active_None [OF placeholder(3)] fp by simp
    from quiet_none_active [OF placeholder(2) this] create_ok [of s2 rule sha w] quiet_good [OF q assms(2)] quiet_fresh [OF q fresh(1)] fresh(2)
      placeholder(4) show ?thesis by simp
  next
    case (fired s1 s2)
    then have q: "quiet_store s s2" by (blast intro: quiet_store_trans)
    have "none_active (trim_space (ru_id rule)) (fp_of sha rule) s1" using get_active_None [OF fired(3)] fp by simp
    from fire_if_due_good [OF assms(1) quiet_good [OF q assms(2)] quiet_none_active [OF fired(2) this] quiet_fresh [OF q fresh(1)]]
    show ?thesis by (simp only: fired(5))
  qed
qed

section \<open>Resolving\<close>

lemma quiet_fired:
  assumes "quiet_store s t" "inst_of t i = Some b" "in_first_fired_at b \<noteq> None"
  shows "\<exists>a. inst_of s i = Some a \<and> in_first_fired_at a \<noteq> None"
  using assms unfolding quiet_store_def quiet_def by metis

lemma quiet_gone:
  assumes "quiet_store s t" "gone s i"
  shows "gone t i"
  unfolding gone_def
proof (intro allI impI)
  fix b
  assume "inst_of t i = Some b"
  with assms(1) obtain a where "inst_of s i = Some a" "quiet a b" unfolding quiet_store_def by meson
  with assms(2) have "2 \<le> status_rank (in_status b)" by (auto simp: gone_def quiet_def)
  then show "in_status b = Resolved" by (cases "in_status b") simp_all
qed

lemma resolve_loop_facts:
  assumes "fair_world w s0" "resolve_loop w rule hush n insts s = (t, ns, k, stop)" "\<forall>a \<in> set insts. trim_space (in_id a) = in_id a"
  shows "quiet_store s t \<and>
    (\<forall>x \<in> set ns. \<not> hush \<and> (\<exists>a \<in> set insts. in_status a \<noteq> Pending \<and> x = AlertResolved (ru_id rule) (in_id a) \<and> gone t (in_id a)))"
  using assms(2,3)
proof (induction insts arbitrary: n s t ns k stop)
  case Nil
  then show ?case by (simp add: quiet_store_refl)
next
  case (Cons a insts)
  show ?case
  proof (cases "ew_ended w n")
    case True
    with Cons.prems(1) show ?thesis by (simp add: quiet_store_refl)
  next
    case False
    obtain s1 r where u: "UpdateAlertInstanceStatus (ew_ended w (n + 1)) (ew_now w (n + 1)) (in_id a) ''resolved'' (ew_interfere w (n + 1) s) = (s1, r)"
      by fastforce
    have q: "quiet_store s s1"
      using interfere_quiet [OF assms(1), of s "n + 1"] update_quiet(2) [of "ew_interfere w (n + 1) s" "ew_ended w (n + 1)" "ew_now w (n + 1)" "in_id a"]
      by (metis u fst_conv quiet_store_trans)
    obtain t' ns' k' stop' where l: "resolve_loop w rule hush (n + 3) insts s1 = (t', ns', k', stop')" by (metis prod_cases4)
    have IH: "quiet_store s1 t' \<and> (\<forall>x \<in> set ns'. \<not> hush \<and>
        (\<exists>a \<in> set insts. in_status a \<noteq> Pending \<and> x = AlertResolved (ru_id rule) (in_id a) \<and> gone t' (in_id a)))"
      using Cons.IH [OF l] Cons.prems(2) by simp
    show ?thesis
    proof (cases r)
      case (Inl e)
      with Cons.prems(1) False u l have "t = t'" "ns = ns'" by simp_all
      with IH q show ?thesis by (auto intro: quiet_store_trans)
    next
      case (Inr x)
      have "gone s1 (in_id a)" using resolved_result [OF u [unfolded Inr]] Cons.prems(2) by (auto simp: gone_def)
      then have "gone t' (in_id a)" using quiet_gone IH by blast
      with Inr Cons.prems(1) False u l IH q show ?thesis
        by (auto simp: Let_def intro: quiet_store_trans split: if_splits)
    qed
  qed
qed

lemma listed_instance:
  assumes "instances_ok s" "ListAlertInstances ended f s = Inr insts" "a \<in> set insts"
  shows "inst_of s (in_id a) = Some a"
proof -
  have "a \<in> set (map snd (sto_instances s))"
    using assms(2,3) by (auto simp: ListAlertInstances_def Let_def dest!: in_set_takeD in_set_dropD split: if_splits)
  then obtain i where "(i, a) \<in> set (sto_instances s)" by auto
  then have "inst_of s i = Some a" using assms(1) by (simp add: instances_ok_def)
  with assms(1) show ?thesis unfolding instances_ok_def by metis
qed

lemma listed_status:
  assumes "ListAlertInstances ended f s = Inr insts" "a \<in> set insts" "NormalizeInstanceStatus (if_status f) = Some st"
  shows "in_status a = st"
  using assms by (auto simp: ListAlertInstances_def Let_def dest!: in_set_takeD in_set_dropD split: if_splits)

lemma resolve_statuses_facts:
  assumes "fair_world w s0" "resolve_statuses w rule hush n sts s = (t, ns, k)" "instances_ok s" "list_all open_status sts"
  shows "quiet_store s t \<and> (\<forall>x \<in> set ns. \<not> hush \<and> (\<exists>i a. inst_of s i = Some a \<and> in_first_fired_at a \<noteq> None \<and> x = AlertResolved (ru_id rule) i \<and> gone t i))"
  using assms(2-4)
proof (induction sts arbitrary: n s t ns k)
  case Nil
  then show ?case by (simp add: quiet_store_refl)
next
  case (Cons st sts)
  define s1 where "s1 = ew_interfere w n s"
  have q: "quiet_store s s1" using interfere_quiet [OF assms(1)] by (simp add: s1_def)
  have ok: "instances_ok s1" using quiet_instances_ok q Cons.prems(2) by blast
  define fired where "fired u x = (\<exists>i b. inst_of s i = Some b \<and> in_first_fired_at b \<noteq> None \<and> x = AlertResolved (ru_id rule) i \<and> gone u i)" for u x
  have before: "fired u x"
    if "quiet_store s v" "\<exists>i a. inst_of v i = Some a \<and> in_first_fired_at a \<noteq> None \<and> x = AlertResolved (ru_id rule) i \<and> gone u i" for u v x
    using that quiet_fired unfolding fired_def by blast
  have rest: "list_all open_status sts" using Cons.prems(3) by simp
  let ?f = "\<lparr>if_limit = 100, if_offset = 0, if_rule_id = ru_id rule, if_status = st, if_severity = []\<rparr>"
  have "quiet_store s t \<and> (\<forall>x \<in> set ns. \<not> hush \<and> fired t x)"
  proof (cases "ListAlertInstances (ew_ended w n) ?f s1")
    case (Inl e)
    with Cons.prems(1) have "resolve_statuses w rule hush (n + 1000) sts s1 = (t, ns, k)" by (simp add: s1_def [symmetric])
    from Cons.IH [OF this ok rest] q before [OF q] show ?thesis by (blast intro: quiet_store_trans)
  next
    case (Inr insts)
    obtain s2 ns1 k1 stop where l: "resolve_loop w rule hush (n + 1) insts s1 = (s2, ns1, k1, stop)" by (metis prod_cases4)
    have "\<forall>a \<in> set insts. trim_space (in_id a) = in_id a"
      using listed_instance [OF ok Inr] ok unfolding instances_ok_def by metis
    note L = resolve_loop_facts [OF assms(1) l this]
    have q2: "quiet_store s s2" using q L by (blast intro: quiet_store_trans)
    have "in_first_fired_at a \<noteq> None" if "a \<in> set insts" "in_status a \<noteq> Pending" for a
      using that listed_instance [OF ok Inr that(1)] listed_status [OF Inr that(1)] ok Cons.prems(3)
      unfolding instances_ok_def inst_ok_def open_status_def by fastforce
    with listed_instance [OF ok Inr] L before [OF q] have n1: "\<forall>x \<in> set ns1. \<not> hush \<and> fired s2 x" by metis
    obtain t' ns' k' where r: "resolve_statuses w rule hush (n + 1000) sts s2 = (t', ns', k')" by (metis prod_cases3)
    note I = Cons.IH [OF r quiet_instances_ok [OF q2 Cons.prems(2)] rest]
    have "fired t' x" if "x \<in> set ns'" for x by (rule before [OF q2]) (use I that in blast)
    with I have R: "quiet_store s2 t' \<and> (\<forall>x \<in> set ns'. \<not> hush \<and> fired t' x)" by blast
    have "fired t' x" if "fired s2 x" for x using that quiet_gone [OF conjunct1 [OF R]] unfolding fired_def by blast
    with n1 have "\<forall>x \<in> set ns1. \<not> hush \<and> fired t' x" by blast
    moreover from Cons.prems(1) Inr l r have "t = s2 \<and> ns = ns1 \<or> t = t' \<and> ns = ns1 @ ns'"
      by (simp add: s1_def [symmetric] split: if_splits)
    moreover have "quiet_store s t'" using q2 R by (blast intro: quiet_store_trans)
    ultimately show ?thesis using q2 n1 R by auto
  qed
  then show ?case by (simp add: fired_def)
qed

lemma resolve_facts:
  assumes "fair_world w s" "resolveStaleInstances w rule s = (t, ns, k)" "instances_ok s"
  shows "quiet_store s t \<and>
    (\<forall>x \<in> set ns. \<exists>i a. inst_of s i = Some a \<and> in_first_fired_at a \<noteq> None \<and> x = AlertResolved (ru_id rule) i \<and> gone t i)"
proof (cases "ew_ended w 0")
  case True
  with assms(2) show ?thesis by (simp add: resolveStaleInstances_def quiet_store_refl)
next
  case False
  define s1 where "s1 = ew_interfere w 3 s"
  have q: "quiet_store s s1" using interfere_quiet [OF assms(1)] by (simp add: s1_def)
  have r: "resolve_statuses w rule (suppressed_now w rule s1) 10 [''pending'', ''firing'', ''acknowledged''] s1 = (t, ns, k)"
    using assms(2) False by (simp only: resolveStaleInstances_def s1_def Let_def if_False)
  have "list_all open_status [''pending'', ''firing'', ''acknowledged'']" by code_simp
  note R = resolve_statuses_facts [OF assms(1) r quiet_instances_ok [OF q assms(3)] this]
  have "quiet_store s t" using q R by (blast intro: quiet_store_trans)
  with R quiet_fired [OF q] show ?thesis by blast
qed

end
