(* ===== verification/Alert_Runs.thy ===== *)
theory Alert_Runs
  imports Alert_Evaluator
begin

text \<open>
  Runs of the alert evaluator and the instance handlers. The first group of lemmas describes a firing (which
  instance it creates, what it does to the others), the second the hold-off times, the third puts them together.
  The properties are over every reachable store: one active instance per fingerprint, the permanence of what an
  instance has recorded, when an alert may fire again, and which alerts are reported as resolved.
\<close>

inductive alert_reach :: "(string \<Rightarrow> 256 word) \<Rightarrow> alert_store \<Rightarrow> bool" for sha where
  start: "alert_reach sha NewMemoryAlertInstanceStore"
| step: "alert_reach sha s \<Longrightarrow> alert_step sha s ns t \<Longrightarrow> alert_reach sha t"

definition others_quiet :: "string \<Rightarrow> alert_store \<Rightarrow> alert_store \<Rightarrow> bool" where
  "others_quiet i s t = (\<forall>j b. j \<noteq> i \<longrightarrow> inst_of t j = Some b \<longrightarrow> (\<exists>a. inst_of s j = Some a \<and> quiet a b))"

definition alert_of :: "(string \<Rightarrow> 256 word) \<Rightarrow> alert_rule \<Rightarrow> alert_instance \<Rightarrow> bool" where
  "alert_of sha rule a = (in_rule_id a = trim_space (ru_id rule) \<and> in_fingerprint a = GenerateFingerprint sha (ru_id rule) (ru_labels rule))"

section \<open>Firing\<close>

lemma alert_of_quiet: "quiet a b \<Longrightarrow> alert_of sha rule b = alert_of sha rule a"
  by (simp add: quiet_def same_identity_def alert_of_def)

lemma quiet_others: "quiet_store s t \<Longrightarrow> others_quiet i s t"
  by (simp add: quiet_store_def others_quiet_def)

lemma others_quiet_trans: "others_quiet i s t \<Longrightarrow> others_quiet i t u \<Longrightarrow> others_quiet i s u"
  unfolding others_quiet_def by (meson quiet_trans)

lemma put_others: "others_quiet i s (put_instance s i b)"
  by (auto simp: others_quiet_def put_instance_def update_conv' intro: quiet_refl)

lemma fire_others:
  assumes "instances_ok s"
  shows "others_quiet (trim_space i) s (fst (FireAlertInstance ended now i scope s))"
proof (cases "inst_of s (trim_space i)")
  case (Some a)
  with assms have "in_id a = trim_space i" unfolding instances_ok_def by blast
  with Some show ?thesis
    using quiet_others [OF quiet_store_refl] put_others by (auto simp: FireAlertInstance_def Let_def split: option.split)
qed (auto simp: FireAlertInstance_def quiet_others [OF quiet_store_refl] split: option.split)

lemma fire_success:
  assumes "instances_ok s" "FireAlertInstance ended now i scope s = (t, Inr x)" "inst_of s (trim_space i) = Some a" "in_status a \<in> {Pending, Resolved}"
  shows "\<exists>n. NormalizeFiringScope scope = Some n \<and> inst_of t (trim_space i) =
    Some (a\<lparr>in_status := Firing, in_first_fired_at := Some now, in_last_fired_at := now, in_updated_at := now, in_firing_scope := Some n\<rparr>)"
proof -
  have "in_id a = trim_space i" using assms(1,3) unfolding instances_ok_def by blast
  with assms(2-4) show ?thesis
    by (auto simp: FireAlertInstance_def Let_def put_instance_def update_conv' split: option.splits if_splits)
qed

definition fired_as :: "(string \<Rightarrow> 256 word) \<Rightarrow> eval_world \<Rightarrow> alert_rule \<Rightarrow> firing_scope \<Rightarrow> alert_instance \<Rightarrow> bool" where
  "fired_as sha w rule scope a =
     (alert_of sha rule a \<and> in_status a = Firing \<and> in_first_fired_at a = Some (ew_now w 7) \<and> in_firing_scope a = NormalizeFiringScope scope)"

lemma create_dispatch_facts:
  assumes w: "fair_world w s0" and g: "good s" and n: "none_active (trim_space (ru_id rule)) (fp_of sha rule) s"
    and f: "ew_id w \<notin> fst ` set (sto_instances s)" and c: "createAndDispatchFiringInstance sha w rule (fp_of sha rule) scope s = (t, ns)"
  shows "others_quiet (ew_id w) s t"
    and "x \<in> set ns \<Longrightarrow> x = AlertFired (ru_id rule) (ew_id w) \<and>
      (\<exists>a. inst_of t (ew_id w) = Some a \<and> fired_as sha w rule scope a)"
proof -
  define s' where "s' = ew_interfere w 6 s"
  define p where "p = put_instance s' (ew_id w) (fresh_instance sha w rule)"
  define p' where "p' = ew_interfere w 7 p"
  have q: "quiet_store s s'" "quiet_store p p'" using interfere_quiet [OF w] by (simp_all add: s'_def p'_def)
  have id: "trim_space (ew_id w) = ew_id w" using w by (simp add: fair_world_def)
  have "instances_ok p"
    unfolding p_def using create_ok [of s' rule sha w] quiet_good [OF q(1) g] quiet_none_active [OF q(1) n] quiet_fresh [OF q(1) f] id by simp
  then have ok: "instances_ok p'" using quiet_instances_ok q(2) by blast
  obtain u r where fi: "FireAlertInstance (ew_ended w 7) (ew_now w 7) (ew_id w) scope p' = (u, r)" by fastforce
  have o1: "others_quiet (ew_id w) s p'"
    using quiet_others [OF q(1)] put_others quiet_others [OF q(2)] unfolding p_def by (blast intro: others_quiet_trans)
  have o2: "others_quiet (ew_id w) s u" using fire_others [OF ok, of "ew_id w" "ew_ended w 7" "ew_now w 7" scope] o1
    by (auto simp: fi id intro: others_quiet_trans)
  note C = c [unfolded createAndDispatchFiringInstance_def CreateAlertInstance_def s'_def [symmetric] fresh_instance_def [symmetric] Let_def
      p_def [symmetric]]
  have C': "t = s' \<and> ns = [] \<or> t = u \<and> (ns = [] \<or> ns = [AlertFired (ru_id rule) (ew_id w)] \<and> (\<exists>y. r = Inr y))"
    using C by (auto simp: fresh_instance_sel p'_def [symmetric] fi split: if_splits sum.splits)
  then show "others_quiet (ew_id w) s t" using o2 quiet_others [OF q(1)] by blast
  assume "x \<in> set ns"
  with C' obtain y where x: "x = AlertFired (ru_id rule) (ew_id w)" "t = u" "r = Inr y" by auto
  have "inst_of p (ew_id w) = Some (fresh_instance sha w rule)" by (simp add: p_def put_instance_def update_conv')
  moreover obtain b where b: "inst_of p' (ew_id w) = Some b"
    using fi [unfolded x(3)] by (auto simp: FireAlertInstance_def id split: option.splits if_splits)
  ultimately have qb: "quiet (fresh_instance sha w rule) b" using q(2) unfolding quiet_store_def by (metis option.inject)
  then have "in_status b \<in> {Pending, Resolved}" by (simp add: quiet_def fresh_instance_sel)
  moreover have "alert_of sha rule b" unfolding alert_of_quiet [OF qb] by (simp add: alert_of_def fresh_instance_sel fp_of_def)
  ultimately show "x = AlertFired (ru_id rule) (ew_id w) \<and> (\<exists>a. inst_of t (ew_id w) = Some a \<and> fired_as sha w rule scope a)"
    using fire_success [OF ok fi [unfolded x(3)]] b id x(1,2) by (auto simp: fired_as_def alert_of_def)
qed

section \<open>Hold-off times\<close>

definition no_later :: "gtime option \<Rightarrow> gtime option \<Rightarrow> bool" where
  "no_later t m = (\<forall>v. t = Some v \<longrightarrow> (\<exists>u. m = Some u \<and> v \<le> u))"

lemma later_no_later: "no_later acc (later acc t)" "no_later t (later acc t)"
  by (auto simp: no_later_def later_def split: option.split)

lemma no_later_refl: "no_later t t"
  by (simp add: no_later_def)

lemma no_later_trans: "no_later a b \<Longrightarrow> no_later b c \<Longrightarrow> no_later a c"
  unfolding no_later_def by (cases a; cases b; cases c) fastforce+

lemma timing_fold:
  fixes r f :: string
  defines "g \<equiv> \<lambda>out inst. if in_rule_id inst \<noteq> r \<or> in_fingerprint inst \<noteq> f \<or> in_first_fired_at inst = None then out
     else \<lparr>ft_last_first_fired = later (ft_last_first_fired out) (in_first_fired_at inst),
           ft_last_resolved = later (ft_last_resolved out) (in_resolved_at inst)\<rparr>"
  shows "no_later (ft_last_first_fired out) (ft_last_first_fired (foldl g out as)) \<and>
    no_later (ft_last_resolved out) (ft_last_resolved (foldl g out as)) \<and>
    (\<forall>a \<in> set as. in_rule_id a = r \<longrightarrow> in_fingerprint a = f \<longrightarrow> in_first_fired_at a \<noteq> None \<longrightarrow>
       no_later (in_first_fired_at a) (ft_last_first_fired (foldl g out as)) \<and> no_later (in_resolved_at a) (ft_last_resolved (foldl g out as)))"
proof (induction as arbitrary: out)
  case Nil
  show ?case by (simp add: no_later_refl)
next
  case (Cons a as)
  note I = Cons.IH [of "g out a"]
  have "no_later (ft_last_first_fired out) (ft_last_first_fired (g out a))" "no_later (ft_last_resolved out) (ft_last_resolved (g out a))"
    by (simp_all add: g_def no_later_refl later_no_later)
  moreover have "no_later (in_first_fired_at a) (ft_last_first_fired (g out a)) \<and> no_later (in_resolved_at a) (ft_last_resolved (g out a))"
    if "in_rule_id a = r" "in_fingerprint a = f" "in_first_fired_at a \<noteq> None"
    using that by (auto simp: g_def later_no_later)
  ultimately show ?case using I by simp (meson no_later_trans)
qed

lemma timing_bound:
  assumes "AlertFingerprintTiming ended r f s = Inr h" "inst_of s i = Some a"
    "in_rule_id a = trim_space r" "in_fingerprint a = trim_space f" "in_first_fired_at a \<noteq> None"
  shows "no_later (in_first_fired_at a) (ft_last_first_fired h)" "no_later (in_resolved_at a) (ft_last_resolved h)"
proof -
  have "a \<in> set (map snd (sto_instances s))" using map_of_SomeD [OF assms(2)] by force
  with timing_fold [of "\<lparr>ft_last_first_fired = None, ft_last_resolved = None\<rparr>" "trim_space r" "trim_space f" "map snd (sto_instances s)"] assms
  show "no_later (in_first_fired_at a) (ft_last_first_fired h)" "no_later (in_resolved_at a) (ft_last_resolved h)"
    by (auto simp: AlertFingerprintTiming_def split: if_splits)
qed

lemma hold_over_bound:
  assumes "hold_over at m k" "no_later t m" "t = Some v"
  shows "v + k * second \<le> at"
proof -
  obtain u where u: "m = Some u" "v \<le> u" using assms(2,3) by (auto simp: no_later_def)
  have "0 \<le> k" "k \<le> 2 ^ 31 - 1" using assms(1) by (auto simp: hold_over_def MaxDurationSeconds_def)
  then have "wrap64 (k * second) = k * second" by (intro wrap64_id) simp_all
  with assms(1) u show ?thesis by (simp add: hold_over_def)
qed

lemma may_fire_bound:
  assumes "alertFingerprintMayFire ended rule (AlertFingerprintTiming ended' (ru_id rule) (fp_of sha rule) s) at"
    "inst_of s i = Some a" "alert_of sha rule a" "in_first_fired_at a \<noteq> None"
  shows "in_first_fired_at a = Some v \<Longrightarrow> v + ru_cooldown rule * second \<le> at" "in_resolved_at a = Some v \<Longrightarrow> v + ru_reopen rule * second \<le> at"
proof -
  obtain h where h: "AlertFingerprintTiming ended' (ru_id rule) (fp_of sha rule) s = Inr h"
    "hold_over at (ft_last_first_fired h) (ru_cooldown rule)" "hold_over at (ft_last_resolved h) (ru_reopen rule)"
    using assms(1) by (auto simp: alertFingerprintMayFire_def split: sum.splits)
  note b = timing_bound [OF h(1) assms(2) _ _ assms(4), unfolded fp_of_def fingerprint_trimmed, OF assms(3) [unfolded alert_of_def, THEN conjunct1]
      assms(3) [unfolded alert_of_def, THEN conjunct2]]
  show "in_first_fired_at a = Some v \<Longrightarrow> v + ru_cooldown rule * second \<le> at" by (rule hold_over_bound [OF h(2) b(1)])
  show "in_resolved_at a = Some v \<Longrightarrow> v + ru_reopen rule * second \<le> at" by (rule hold_over_bound [OF h(3) b(2)])
qed

section \<open>One evaluation\<close>

text \<open>An evaluation either leaves every instance quiet or stores a silenced placeholder, or it reaches the dispatch
  in a store where no other instance of the fingerprint is active and the hold-off times have passed.\<close>

definition due :: "(string \<Rightarrow> 256 word) \<Rightarrow> eval_world \<Rightarrow> alert_rule \<Rightarrow> gtime \<Rightarrow> alert_store \<Rightarrow> bool" where
  "due sha w rule at v =
     (alertFingerprintMayFire (ew_ended w 5) rule (AlertFingerprintTiming (ew_ended w 4) (ru_id rule) (fp_of sha rule) v) at \<and>
      (\<forall>i b. inst_of v i = Some b \<longrightarrow> alert_of sha rule b \<longrightarrow> in_first_fired_at b \<noteq> None \<longrightarrow> in_status b = Resolved))"

lemma promote_cases:
  assumes w: "fair_world w s0" and g: "good s" and e: "GetActiveInstanceByFingerprint ended (ru_id rule) (fp_of sha rule) s = Inr (Some e)"
    "in_status e = Pending" and q: "quiet_store s v" and p: "promote_pending sha w rule (fp_of sha rule) scope at e v = (t, ns)"
  shows "quiet_store s t \<and> ns = [] \<or>
    (\<exists>u u'. quiet_store s u \<and> due sha w rule at u \<and> quiet_store u u' \<and> none_active (trim_space (ru_id rule)) (fp_of sha rule) u' \<and>
      createAndDispatchFiringInstance sha w rule (fp_of sha rule) scope u' = (t, ns))"
proof -
  note E = get_active_Some [OF conjunct1 [OF g] e(1)]
  have fp: "trim_space (fp_of sha rule) = fp_of sha rule" by (simp add: fp_of_def fingerprint_trimmed)
  define s1 where "s1 = ew_interfere w 4 v"
  define s2 where "s2 = ew_interfere w 5 s1"
  have q1: "quiet_store s s1" "quiet_store s1 s2" "quiet_store s s2"
    unfolding s1_def s2_def using q interfere_quiet [OF w] by (blast intro: quiet_store_trans)+
  obtain x r where u: "UpdateAlertInstanceStatus (ew_ended w 9) (ew_now w 5) (in_id e) ''resolved'' s2 = (x, r)" by fastforce
  have "quiet_store s2 x" using update_quiet(2) [of s2 "ew_ended w 9" "ew_now w 5" "in_id e"] by (simp add: u)
  then have qx: "quiet_store s1 x" "quiet_store s x" using q1 by (blast intro: quiet_store_trans)+
  have fired: "in_status b = Resolved" if b: "inst_of s1 i = Some b" "alert_of sha rule b" "in_first_fired_at b \<noteq> None" for i b
  proof (rule ccontr)
    assume nr: "in_status b \<noteq> Resolved"
    from b(1) q1(1) obtain a where a: "inst_of s i = Some a" "quiet a b" unfolding quiet_store_def by meson
    with nr quiet_active have "active a" "alert_of sha rule a" using alert_of_quiet [OF a(2)] b(2) by (auto simp: active_iff)
    with g a(1) E fp have "i = in_id e" unfolding single_active_def alert_of_def fp_of_def by metis
    with a E(1) b(3) have "in_first_fired_at e \<noteq> None" by (auto simp: quiet_def)
    with g E(1) e(2) show False unfolding instances_ok_def inst_ok_def by metis
  qed
  have "none_active (trim_space (ru_id rule)) (fp_of sha rule) x" if "r = Inr y" for y
    using placeholder_resolved [OF E(1,2,5) conjunct2 [OF g] q1(3) u [unfolded that]] E(3,4) fp by simp
  with p q1 qx fired show ?thesis
    unfolding promote_pending_def Let_def s1_def [symmetric] s2_def [symmetric] u due_def
    by (cases r) (auto split: if_splits)
qed

lemma fire_outcomes:
  assumes w: "fair_world w s" and g: "good s" and f: "fireOrRefireAlertWithScopeAt sha w rule at scope s = (t, ns)"
  shows "others_quiet (ew_id w) s t \<and> (\<forall>r i. AlertFired r i \<notin> set ns) \<or>
    (\<exists>u u' v. quiet_store s u \<and> due sha w rule at u \<and> quiet_store u u' \<and> none_active (trim_space (ru_id rule)) (fp_of sha rule) u' \<and>
      createAndDispatchFiringInstance sha w rule (fp_of sha rule) scope u' = (t, ns) \<and> quiet_store s v \<and> \<not> suppressed_now w rule v)"
  using w
proof (cases rule: fire_cases [of w s sha rule at scope])
  case (quiet t' ns')
  then show ?thesis using f quiet_others by auto
next
  case (promoted s1 s2 e)
  have "good s1" using quiet_good promoted(1) g by blast
  from promote_cases [OF w this promoted(3,4,2), of scope at t ns] f promoted(6)
  have "quiet_store s1 t \<and> ns = [] \<or> (\<exists>u u'. quiet_store s1 u \<and> due sha w rule at u \<and> quiet_store u u' \<and>
      none_active (trim_space (ru_id rule)) (fp_of sha rule) u' \<and> createAndDispatchFiringInstance sha w rule (fp_of sha rule) scope u' = (t, ns))"
    by simp
  then show ?thesis
  proof
    assume "quiet_store s1 t \<and> ns = []"
    with promoted(1) have "quiet_store s t \<and> ns = []" by (blast intro: quiet_store_trans)
    then show ?thesis using quiet_others by simp
  qed (use promoted(1,2,5) in \<open>blast intro: quiet_store_trans\<close>)
next
  case (placeholder s1 s2)
  then have "quiet_store s s2" by (blast intro: quiet_store_trans)
  then have "others_quiet (ew_id w) s (put_instance s2 (ew_id w) (fresh_instance sha w rule))"
    using quiet_others put_others by (blast intro: others_quiet_trans)
  with placeholder(4) f show ?thesis by auto
next
  case (fired s1 s2)
  define s3 where "s3 = ew_interfere w 4 s2"
  have q: "quiet_store s1 s3" "quiet_store s s3" "quiet_store s s2"
    using fired(1,2) interfere_quiet [OF w, of s2 4] unfolding s3_def by (blast intro: quiet_store_trans)+
  have "none_active (trim_space (ru_id rule)) (fp_of sha rule) s1"
    using get_active_None [OF fired(3)] by (simp add: fp_of_def fingerprint_trimmed)
  then have n: "none_active (trim_space (ru_id rule)) (fp_of sha rule) s3" using quiet_none_active q(1) by blast
  then have r: "\<forall>i b. inst_of s3 i = Some b \<longrightarrow> alert_of sha rule b \<longrightarrow> in_first_fired_at b \<noteq> None \<longrightarrow> in_status b = Resolved"
    unfolding none_active_def alert_of_def fp_of_def active_iff by blast
  show ?thesis
  proof (cases "alertFingerprintMayFire (ew_ended w 5) rule (AlertFingerprintTiming (ew_ended w 4) (ru_id rule) (fp_of sha rule) s3) at")
    case True
    with fired(5) f have "createAndDispatchFiringInstance sha w rule (fp_of sha rule) scope s3 = (t, ns)"
      by (simp add: fire_if_due_def s3_def [symmetric] Let_def)
    with True r n q fired(4) quiet_store_refl show ?thesis unfolding due_def by blast
  next
    case False
    with fired(5) f have "t = s3" "ns = []" by (simp_all add: fire_if_due_def s3_def [symmetric] Let_def)
    with q(2) quiet_others show ?thesis by simp
  qed
qed

lemma fire_others_quiet:
  assumes "fair_world w s" "good s" "fireOrRefireAlertWithScopeAt sha w rule at scope s = (t, ns)"
  shows "others_quiet (ew_id w) s t"
  using fire_outcomes [OF assms]
proof
  assume "\<exists>u u' v. quiet_store s u \<and> due sha w rule at u \<and> quiet_store u u' \<and> none_active (trim_space (ru_id rule)) (fp_of sha rule) u' \<and>
      createAndDispatchFiringInstance sha w rule (fp_of sha rule) scope u' = (t, ns) \<and> quiet_store s v \<and> \<not> suppressed_now w rule v"
  then obtain u' where u: "quiet_store s u'" "none_active (trim_space (ru_id rule)) (fp_of sha rule) u'"
    "createAndDispatchFiringInstance sha w rule (fp_of sha rule) scope u' = (t, ns)" by (blast intro: quiet_store_trans)
  have "others_quiet (ew_id w) u' t"
    using create_dispatch_facts(1) [OF assms(1) quiet_good [OF u(1) assms(2)] u(2) quiet_fresh [OF u(1)] u(3)] assms(1) by (simp add: fair_world_def)
  with quiet_others [OF u(1)] show ?thesis by (rule others_quiet_trans)
qed simp

lemma step_good:
  assumes "alert_step sha s ns t" "good s"
  shows "good t"
  using assms
proof (induction rule: alert_step.induct)
  case (fires w s rule at scope t ns)
  then show ?case using fire_good [of w s sha rule at scope] by simp
next
  case (resolves w s rule t ns n)
  then show ?case using resolve_facts quiet_good by blast
next
  case (handled s t)
  then show ?case using handler_quiet quiet_good by blast
qed

lemma reach_good: "alert_reach sha s \<Longrightarrow> good s"
proof (induction rule: alert_reach.induct)
  case start
  show ?case by (simp add: NewMemoryAlertInstanceStore_def instances_ok_def single_active_def)
next
  case (step s ns t)
  then show ?case using step_good by blast
qed

section \<open>A run\<close>

text \<open>A rule fires, its alert is resolved by an operator, and the rule fires again.\<close>

definition demo_sha :: "string \<Rightarrow> 256 word" where "demo_sha = (\<lambda>_. 0)"

definition demo_world :: "string \<Rightarrow> gtime \<Rightarrow> eval_world" where
  "demo_world i now = \<lparr>ew_ended = (\<lambda>_. False), ew_now = (\<lambda>_. now), ew_id = i, ew_interfere = (\<lambda>_ s. s), ew_ctx_guard = False, ew_guard = False,
     ew_targets = Some [], ew_guardrail = (\<lambda>_. Some False),
     ew_prefetch = Some []\<rparr>"

definition demo_rule :: alert_rule where
  "demo_rule = \<lparr>ru_id = ''r'', ru_name = ''disk'', ru_description = [], ru_status = ''active'', ru_kind = ''heartbeat_stale'',
     ru_severity = ''high'', ru_target_scope = ''global'', ru_cooldown = 300, ru_reopen = 60, ru_interval = 30, ru_window = 300,
     ru_condition = [], ru_labels = [(''k'', ''v'')], ru_metadata = [], ru_targets = [], ru_created_by = ''owner'',
     ru_created_at = 0, ru_updated_at = 0, ru_last_evaluated_at = None, ru_last_auto_attempt_at = None\<rparr>"

definition demo_scope :: firing_scope where
  "demo_scope = \<lparr>fs_version = 1, fs_asset_ids = [''b'', ''a''], fs_group_ids = [], fs_check_ids = []\<rparr>"

definition demo_fire :: "string \<Rightarrow> gtime \<Rightarrow> alert_store \<Rightarrow> alert_store \<times> notice list" where
  "demo_fire i now = fireOrRefireAlertWithScopeAt demo_sha (demo_world i now) demo_rule now demo_scope"

definition demo1 :: alert_store where "demo1 = fst (demo_fire ''a1'' (1000 * second) NewMemoryAlertInstanceStore)"

definition demo2 :: alert_store where
  "demo2 = fst (HandleAlertInstanceActions (\<lambda>_. True) False (1100 * second) ''POST'' ''/alerts/instances/a1/resolve'' demo1)"

definition demo3 :: alert_store where "demo3 = fst (demo_fire ''a2'' (1300 * second) demo2)"

lemma demo_fair: "i \<notin> fst ` set (sto_instances s) \<Longrightarrow> trim_space i = i \<Longrightarrow> fair_world (demo_world i now) s"
  by (simp add: fair_world_def demo_world_def)

lemma demo_ids: "map fst (sto_instances demo1) = [''a1'']" "map fst (sto_instances demo2) = [''a1'']"
  "map fst (sto_instances demo3) = [''a1'', ''a2'']" "trim_space ''a1'' = ''a1''" "trim_space ''a2'' = ''a2''"
  by code_simp+

lemma demo_notice: "snd (demo_fire ''a2'' (1300 * second) demo2) = [AlertFired ''r'' ''a2'']"
  "snd (demo_fire ''a2'' (1299 * second) demo2) = []"
  by code_simp+

lemma demo_fires: "fireOrRefireAlertWithScopeAt demo_sha (demo_world ''a2'' (1300 * second)) demo_rule (1300 * second) demo_scope demo2 =
    (demo3, [AlertFired ''r'' ''a2''])"
  using demo_notice(1) by (simp add: demo3_def demo_fire_def prod_eq_iff)

lemma demo_fair2: "fair_world (demo_world ''a2'' now) demo2"
proof (rule demo_fair)
  have "''a2'' \<notin> set (map fst (sto_instances demo2))" unfolding demo_ids by simp
  then show "''a2'' \<notin> fst ` set (sto_instances demo2)" by simp
qed (rule demo_ids)

lemma demo_steps: "alert_reach demo_sha demo1" "alert_reach demo_sha demo2" "alert_step demo_sha demo2 [AlertFired ''r'' ''a2''] demo3"
proof -
  have "fair_world (demo_world ''a1'' (1000 * second)) NewMemoryAlertInstanceStore"
    by (rule demo_fair) (simp_all add: NewMemoryAlertInstanceStore_def demo_ids)
  from alert_step.fires [OF this, of demo_sha demo_rule "1000 * second" demo_scope demo1
      "snd (demo_fire ''a1'' (1000 * second) NewMemoryAlertInstanceStore)"]
  have "\<exists>ns. alert_step demo_sha NewMemoryAlertInstanceStore ns demo1" by (auto simp: demo1_def demo_fire_def)
  then show 1: "alert_reach demo_sha demo1" by (blast intro: alert_reach.intros)
  have "alert_step demo_sha demo1 [] demo2" unfolding demo2_def by (intro alert_step.handled handler_step.instance_action)
  with 1 show "alert_reach demo_sha demo2" by (blast intro: alert_reach.intros)
  show "alert_step demo_sha demo2 [AlertFired ''r'' ''a2''] demo3" by (rule alert_step.fires [OF demo_fair2 demo_fires])
qed

section \<open>Properties\<close>

text \<open>C34: In every store a run of evaluations and handler requests reaches, whatever the handlers do between the store
  calls of an evaluation, a rule has at most one pending, firing or acknowledged instance per fingerprint, every
  instance is kept under its own id, and its status agrees with what it records: pending means never fired,
  firing and acknowledged mean fired, resolved means it has a time of resolution.\<close>

theorem one_active_alert_per_fingerprint:
  assumes "alert_reach sha s"
  shows "single_active s \<and> instances_ok s"
  using reach_good [OF assms] by simp

theorem one_active_alert_per_fingerprint_witness: "single_active demo2 \<and> instances_ok demo2"
  by (rule one_active_alert_per_fingerprint [OF demo_steps(2)])

text \<open>C36: What an alert has recorded is permanent. In every step of a reachable store, an instance that is there before
  and after keeps its identity, its first firing and its firing scope, never moves back in its life, and keeps the
  time of its first resolution; a pending instance never becomes an alert that fired.\<close>

theorem alert_record_is_permanent:
  assumes "alert_reach sha s" "alert_step sha s ns t" "inst_of s i = Some a" "inst_of t i = Some b"
  shows "same_identity a b \<and> in_first_fired_at b = in_first_fired_at a \<and> in_firing_scope b = in_firing_scope a \<and>
    status_rank (in_status a) \<le> status_rank (in_status b) \<and> (in_status a = Pending \<longrightarrow> in_status b \<in> {Pending, Resolved}) \<and>
    (in_resolved_at a \<noteq> None \<longrightarrow> in_resolved_at b = in_resolved_at a)"
proof -
  note g = reach_good [OF assms(1)]
  from assms(2) have "\<exists>j. inst_of s j = None \<and> others_quiet j s t \<or> quiet_store s t"
  proof cases
    case (fires w rule at scope)
    then have "inst_of s (ew_id w) = None" by (simp add: fair_world_def map_of_eq_None_iff)
    with fire_others_quiet [OF fires(1) g fires(2)] show ?thesis by blast
  next
    case (resolves w rule n)
    then show ?thesis using resolve_facts g by blast
  next
    case handled
    then show ?thesis using handler_quiet by blast
  qed
  with assms(3,4) have "quiet a b" unfolding others_quiet_def quiet_store_def by (metis option.distinct(1) option.inject)
  then show ?thesis by (simp add: quiet_def)
qed

theorem alert_record_is_permanent_witness:
  "map_option in_first_fired_at (inst_of demo2 ''a1'') = Some (Some (1000 * second)) \<and>
   map_option in_first_fired_at (inst_of demo3 ''a1'') = Some (Some (1000 * second))"
proof -
  have "map_option in_first_fired_at (inst_of demo2 ''a1'') = Some (Some (1000 * second))" by code_simp
  then obtain a where a: "inst_of demo2 ''a1'' = Some a" "in_first_fired_at a = Some (1000 * second)" by auto
  have "''a1'' \<in> set (map fst (sto_instances demo3))" unfolding demo_ids by simp
  then obtain b where "inst_of demo3 ''a1'' = Some b" by (metis list.set_map map_of_eq_None_iff not_None_eq)
  with alert_record_is_permanent [OF demo_steps(2,3) a(1) this] a show ?thesis by simp
qed

text \<open>C35: When an alert may fire. If an evaluation sends the notice of a fired alert, then the rule is not under
  maintenance and no prefetched silence matches it; the alert is a new instance, stored as firing with the normalized
  scope of the evaluation; and every other instance of the rule with the same fingerprint that ever fired and is still
  stored is resolved, fired at least the cooldown before the time of the evaluation, and was resolved at least the
  reopen window before it.\<close>

theorem alert_fires_after_hold_off:
  assumes "alert_reach sha s" "fair_world w s" "fireOrRefireAlertWithScopeAt sha w rule at scope s = (t, ns)" "AlertFired r i \<in> set ns"
  shows "\<not> maintenance_now w rule \<and> (\<forall>silences. ew_prefetch w = Some silences \<longrightarrow> \<not> list_ex (matchesSilence rule) silences) \<and>
    r = ru_id rule \<and> inst_of s i = None \<and> (\<exists>a. inst_of t i = Some a \<and> fired_as sha w rule scope a) \<and>
    (\<forall>j b v. j \<noteq> i \<longrightarrow> inst_of t j = Some b \<longrightarrow> alert_of sha rule b \<longrightarrow> in_first_fired_at b = Some v \<longrightarrow>
      v + ru_cooldown rule * second \<le> at \<and> (\<exists>z. in_resolved_at b = Some z \<and> z + ru_reopen rule * second \<le> at))"
proof -
  note g = reach_good [OF assms(1)]
  have fresh: "ew_id w \<notin> fst ` set (sto_instances s)" using assms(2) by (simp add: fair_world_def)
  from fire_outcomes [OF assms(2) g assms(3)] assms(4) obtain u u' v where
    u: "quiet_store s u" "due sha w rule at u" "quiet_store u u'" "none_active (trim_space (ru_id rule)) (fp_of sha rule) u'"
    "createAndDispatchFiringInstance sha w rule (fp_of sha rule) scope u' = (t, ns)" and v: "\<not> suppressed_now w rule v" by blast
  have q: "quiet_store s u'" using u(1,3) by (rule quiet_store_trans)
  note C = create_dispatch_facts [OF assms(2) quiet_good [OF q g] u(4) quiet_fresh [OF q fresh] u(5)]
  from C(2) [OF assms(4)] have n: "r = ru_id rule" "i = ew_id w" "\<exists>a. inst_of t i = Some a \<and> fired_as sha w rule scope a" by auto
  have hold: "k + ru_cooldown rule * second \<le> at \<and> (\<exists>z. in_resolved_at b = Some z \<and> z + ru_reopen rule * second \<le> at)"
    if b: "j \<noteq> i" "inst_of t j = Some b" "alert_of sha rule b" "in_first_fired_at b = Some k" for j b k
  proof -
    from C(1) b n(2) obtain a where "inst_of u' j = Some a" "quiet a b" unfolding others_quiet_def by meson
    with u(3) obtain a where a: "inst_of u j = Some a" "quiet a b" unfolding quiet_store_def by (meson quiet_trans)
    with b have f: "alert_of sha rule a" "in_first_fired_at a = Some k" using alert_of_quiet by (auto simp: quiet_def)
    with u(2) a(1) have d: "in_status a = Resolved" unfolding due_def by blast
    have "instances_ok u" using quiet_instances_ok [OF u(1)] g by blast
    with d a(1) obtain z where z: "in_resolved_at a = Some z" unfolding instances_ok_def inst_ok_def by blast
    then have "in_resolved_at b = Some z" using a(2) by (simp add: quiet_def)
    with may_fire_bound [OF u(2) [unfolded due_def, THEN conjunct1] a(1) f(1)] f(2) z show ?thesis by simp
  qed
  have "inst_of s i = None" using fresh by (simp add: n(2) map_of_eq_None_iff)
  with n hold v show ?thesis by (auto simp: suppressed_now_def isAlertSuppressed_def split: if_splits)
qed

theorem alert_fires_after_hold_off_witness:
  "(\<exists>a. inst_of demo3 ''a2'' = Some a \<and> fired_as demo_sha (demo_world ''a2'' (1300 * second)) demo_rule demo_scope a) \<and>
   (\<exists>b. inst_of demo3 ''a1'' = Some b \<and> alert_of demo_sha demo_rule b \<and> in_first_fired_at b = Some (1000 * second)) \<and>
   1000 * second + ru_cooldown demo_rule * second \<le> 1300 * second"
proof -
  have "map_option (\<lambda>b. (alert_of demo_sha demo_rule b, in_first_fired_at b)) (inst_of demo3 ''a1'') = Some (True, Some (1000 * second))"
    by code_simp
  then obtain b where b: "inst_of demo3 ''a1'' = Some b" "alert_of demo_sha demo_rule b" "in_first_fired_at b = Some (1000 * second)" by auto
  have i: "''a1'' \<noteq> ''a2''" by simp
  note T = alert_fires_after_hold_off [OF demo_steps(2) demo_fair2 demo_fires, of "''r''" "''a2''"]
  have "AlertFired ''r'' ''a2'' \<in> set [AlertFired ''r'' ''a2'']" by simp
  note T = T [OF this]
  have "\<exists>a. inst_of demo3 ''a2'' = Some a \<and> fired_as demo_sha (demo_world ''a2'' (1300 * second)) demo_rule demo_scope a"
    using T [THEN conjunct2, THEN conjunct2, THEN conjunct2, THEN conjunct2, THEN conjunct1] .
  moreover note hold = T [THEN conjunct2, THEN conjunct2, THEN conjunct2, THEN conjunct2, THEN conjunct2, rule_format, OF i b]
  ultimately show ?thesis using b conjunct1 [OF hold] by blast
qed

text \<open>Which alerts are reported as resolved. When a pass over a rule that no longer triggers sends the notice of a
  resolved alert, that instance was stored and had fired, and it is resolved, or deleted by a request, when the pass
  ends; silenced placeholders are resolved without a notice, and the pass changes nothing else of an instance.\<close>

lemma resolved_notice_for_fired_alert:
  assumes "alert_reach sha s" "fair_world w s" "resolveStaleInstances w rule s = (t, ns, n)"
  shows "quiet_store s t \<and>
    (\<forall>x \<in> set ns. \<exists>i a. x = AlertResolved (ru_id rule) i \<and> inst_of s i = Some a \<and> in_first_fired_at a \<noteq> None \<and> gone t i)"
  using resolve_facts [OF assms(2,3) conjunct1 [OF reach_good [OF assms(1)]]] by metis

end
