(* ===== verification/Alert_Sweep.thy ===== *)
theory Alert_Sweep
  imports Alert_Runs
begin

text \<open>
  The background evaluator (\<open>internal/hubapi/alerting/alert_evaluator.go\<close>, \<open>alert_rule_evaluation_cursor.go\<close>,
  \<open>alert_evaluation_timing.go\<close>), outcomes of conditions (\<open>alert_condition_outcome.go\<close>) and the conditions that need no
  floating-point numbers: composite rules (\<open>alert_condition_composite.go\<close>), stale heartbeats and silent metrics
  (\<open>alert_evaluator_checks.go\<close>).

  A tick of the evaluator reads pages of active rules, claims each rule, evaluates its condition and fires or resolves
  its alerts. A page world holds what happens beside it: requests that change rules and instances between two store
  calls, the checks of the context, the clock, and what the condition of a rule reads. The list of page worlds ends when
  the context does. A tick also returns a trace: the pages read, the rules considered and claimed, and the ends of
  sweeps.
\<close>

section \<open>Outcomes of conditions\<close>

record condition_outcome =
  oc_triggered :: bool
  oc_scope :: firing_scope

definition newAlertConditionOutcome :: condition_outcome where
  "newAlertConditionOutcome =
     \<lparr>oc_triggered = False, oc_scope = \<lparr>fs_version = 1, fs_asset_ids = [], fs_group_ids = [], fs_check_ids = []\<rparr>\<rparr>"

record target_asset =
  ta_id :: string
  ta_group_id :: string
  ta_last_seen_at :: gtime

definition witnessAsset :: "target_asset \<Rightarrow> condition_outcome \<Rightarrow> condition_outcome" where
  "witnessAsset asset oc =
     (let scope = oc_scope oc;
          scope = (if ta_id asset \<noteq> [] then scope\<lparr>fs_asset_ids := fs_asset_ids scope @ [ta_id asset]\<rparr> else scope);
          scope = (if ta_group_id asset \<noteq> [] then scope\<lparr>fs_group_ids := fs_group_ids scope @ [ta_group_id asset]\<rparr> else scope)
      in \<lparr>oc_triggered = True, oc_scope = scope\<rparr>)"

definition includeScope :: "firing_scope option \<Rightarrow> condition_outcome \<Rightarrow> condition_outcome" where
  "includeScope scope oc =
     (case scope of
        None \<Rightarrow> oc
      | Some v \<Rightarrow>
          (case NormalizeFiringScope v of
             None \<Rightarrow> oc
           | Some normalized \<Rightarrow>
               oc\<lparr>oc_scope := (oc_scope oc)\<lparr>fs_asset_ids := fs_asset_ids (oc_scope oc) @ fs_asset_ids normalized,
                    fs_group_ids := fs_group_ids (oc_scope oc) @ fs_group_ids normalized,
                    fs_check_ids := fs_check_ids (oc_scope oc) @ fs_check_ids normalized\<rparr>\<rparr>))"

datatype condition_error = ConditionContextEnded | InvalidFiringScope | ConditionUnreadable

definition outcome_result :: "condition_outcome \<Rightarrow> (condition_error, condition_outcome) res" where
  "outcome_result oc =
     (case NormalizeFiringScope (oc_scope oc) of None \<Rightarrow> Inl InvalidFiringScope | Some normalized \<Rightarrow> Inr (oc\<lparr>oc_scope := normalized\<rparr>))"

section \<open>Conditions\<close>

text \<open>The loop over the targets of a rule, with the test that makes a target a witness. \<open>ended\<close> tells whether the
  context has ended before the \<open>n\<close>th target.\<close>

fun witness_loop :: "(nat \<Rightarrow> bool) \<Rightarrow> (target_asset \<Rightarrow> bool) \<Rightarrow> nat \<Rightarrow> target_asset list \<Rightarrow> condition_outcome \<Rightarrow> (condition_error, condition_outcome) res" where
  "witness_loop ended test n [] oc = outcome_result oc"
| "witness_loop ended test n (target # targets) oc =
     (if ended n then Inl ConditionContextEnded
      else witness_loop ended test (Suc n) targets (if test target then witnessAsset target oc else oc))"

text \<open>\<open>gap\<close> is the parsed condition and \<open>targets\<close> the resolved targets; either may fail.\<close>

definition evaluateHeartbeatStaleOutcome ::
    "(nat \<Rightarrow> bool) \<Rightarrow> duration option \<Rightarrow> gtime \<Rightarrow> target_asset list option \<Rightarrow> (condition_error, condition_outcome) res" where
  "evaluateHeartbeatStaleOutcome ended gap now targets =
     (case gap of
        None \<Rightarrow> Inl ConditionUnreadable
      | Some gap \<Rightarrow>
          (case targets of
             None \<Rightarrow> Inl ConditionUnreadable
           | Some targets \<Rightarrow> witness_loop ended (\<lambda>target. ta_last_seen_at target < now - gap) 0 targets newAlertConditionOutcome))"

text \<open>\<open>present\<close> is what the telemetry store answers for the assets, \<open>None\<close> when the query fails.\<close>

definition evaluateMetricDeadmanOutcome ::
    "(nat \<Rightarrow> bool) \<Rightarrow> duration option \<Rightarrow> bool \<Rightarrow> target_asset list option \<Rightarrow> (string \<Rightarrow> bool) option \<Rightarrow> (condition_error, condition_outcome) res" where
  "evaluateMetricDeadmanOutcome ended gap has_store targets present =
     (case gap of
        None \<Rightarrow> Inl ConditionUnreadable
      | Some _ \<Rightarrow>
          if \<not> has_store then outcome_result newAlertConditionOutcome
          else case targets of
                 None \<Rightarrow> Inl ConditionUnreadable
               | Some targets \<Rightarrow>
                   (case present of
                      None \<Rightarrow> Inl ConditionUnreadable
                    | Some present \<Rightarrow> witness_loop ended (\<lambda>target. \<not> present (ta_id target)) 0 targets newAlertConditionOutcome))"

definition composite_ids :: "alert_rule \<Rightarrow> string list" where
  "composite_ids rule =
     (case map_of (ru_condition rule) ''rule_ids'' of
        Some (JArray raw) \<Rightarrow> remdups (List.map_filter (\<lambda>v. case v of JString i \<Rightarrow> if i \<noteq> [] then Some i else None | _ \<Rightarrow> None) raw)
      | _ \<Rightarrow> [])"

fun composite_visit :: "(nat \<Rightarrow> bool) \<Rightarrow> string list \<Rightarrow> nat \<Rightarrow> alert_instance list \<Rightarrow> string list \<times> condition_outcome \<Rightarrow>
    (condition_error, string list \<times> condition_outcome) res" where
  "composite_visit ended ids n [] acc = Inr acc"
| "composite_visit ended ids n (inst # insts) acc =
     (if ended n then Inl ConditionContextEnded
      else composite_visit ended ids (Suc n) insts
             (if in_rule_id inst \<in> set ids \<and> in_status inst = Firing
              then (in_rule_id inst # fst acc,
                    if in_first_fired_at inst \<noteq> None then includeScope (in_firing_scope inst) (snd acc) else snd acc)
              else acc))"

definition evaluateCompositeOutcome ::
    "(nat \<Rightarrow> bool) \<Rightarrow> bool \<Rightarrow> alert_rule \<Rightarrow> alert_instance list option \<Rightarrow> alert_store \<Rightarrow> (condition_error, condition_outcome) res" where
  "evaluateCompositeOutcome ended finally_ended rule prefetched s =
     (let ids = composite_ids rule; oc = newAlertConditionOutcome
      in if ids = [] then Inr oc
         else case (case prefetched of
                      Some insts \<Rightarrow> composite_visit ended ids 0 insts ([], oc)
                    | None \<Rightarrow>
                        (case ReadFiringAlertInstances (ended 0) (Some (sort ids)) s of
                           Inl _ \<Rightarrow> Inl ConditionUnreadable
                         | Inr insts \<Rightarrow> composite_visit ended ids 0 insts ([], oc))) of
                Inl e \<Rightarrow> Inl e
              | Inr (matched, oc) \<Rightarrow>
                  if finally_ended then Inl ConditionContextEnded
                  else
                    (let count = length (filter (\<lambda>i. i \<in> set matched) ids);
                         is_or = (map_of (ru_condition rule) ''operator'' = Some (JString ''or''));
                         triggered = (is_or \<and> 0 < count \<or> \<not> is_or \<and> count = length ids)
                     in if \<not> triggered then Inr newAlertConditionOutcome
                        else outcome_result (oc\<lparr>oc_triggered := True\<rparr>)))"

section \<open>One rule\<close>

record hub =
  hb_rules :: rule_store
  hb_instances :: alert_store
  hb_cursor :: eval_cursor

text \<open>What happens around the consideration of one rule: the checks of the context, the clock, the outcome of the
  condition, requests that change rules (before the claim and before the record) and instances, and the world of the
  firing or resolution, which may depend on the store it starts from.\<close>

record consider_world =
  cw_ended :: "nat \<Rightarrow> bool"
  cw_at :: gtime
  cw_outcome :: "alert_rule \<Rightarrow> hub \<Rightarrow> (condition_error, condition_outcome) res"
  cw_rules :: "nat \<Rightarrow> rule_store \<Rightarrow> rule_store"
  cw_instances :: "alert_store \<Rightarrow> alert_store"
  cw_eval :: "alert_store \<Rightarrow> eval_world"
  cw_error_text :: "condition_error \<Rightarrow> string"
  cw_record_id :: string
  cw_record_at :: gtime
  cw_duration :: int

datatype sweep_event = PageRead rule_store | Considered string | Claimed string gtime int | SweepEnd

definition evaluation_of :: "consider_world \<Rightarrow> alert_rule \<Rightarrow> (condition_error, condition_outcome) res \<Rightarrow> evaluation" where
  "evaluation_of cw rule outcome =
     \<lparr>ev_id = [], ev_rule_id = [],
      ev_status = (case outcome of Inl _ \<Rightarrow> ''error'' | Inr oc \<Rightarrow> if oc_triggered oc then ''triggered'' else ''ok''),
      ev_evaluated_at = cw_record_at cw, ev_duration_ms = cw_duration cw, ev_candidate_count = int (length (ru_targets rule)),
      ev_triggered_count = (case outcome of Inl _ \<Rightarrow> 0 | Inr oc \<Rightarrow> if oc_triggered oc then 1 else 0),
      ev_error = (case outcome of Inl e \<Rightarrow> cw_error_text cw e | Inr _ \<Rightarrow> []), ev_details = []\<rparr>"

definition act_on_outcome ::
    "(string \<Rightarrow> 256 word) \<Rightarrow> consider_world \<Rightarrow> alert_silence list \<Rightarrow> alert_rule \<Rightarrow> (condition_error, condition_outcome) res \<Rightarrow> alert_store \<Rightarrow> alert_store" where
  "act_on_outcome sha cw silences rule outcome s =
     (let w = (cw_eval cw s)\<lparr>ew_prefetch := Some silences\<rparr>
      in case outcome of
           Inl _ \<Rightarrow> s
         | Inr oc \<Rightarrow> if oc_triggered oc then fst (fireOrRefireAlertWithScopeAt sha w rule (cw_at cw) (oc_scope oc) s)
                     else fst (resolveStaleInstances w rule s))"

definition evaluateSingleRuleAt :: "(string \<Rightarrow> 256 word) \<Rightarrow> consider_world \<Rightarrow> alert_silence list \<Rightarrow> alert_rule \<Rightarrow> hub \<Rightarrow> hub" where
  "evaluateSingleRuleAt sha cw silences rule h =
     (let outcome = cw_outcome cw rule h
      in if cw_ended cw 3 then h
         else
           (let h = h\<lparr>hb_instances := act_on_outcome sha cw silences rule outcome (cw_instances cw (hb_instances h))\<rparr>
            in h\<lparr>hb_rules := fst (RecordAlertEvaluation (cw_ended cw 4) (cw_record_id cw) (cw_record_at cw) (ru_id rule)
                                  (evaluation_of cw rule outcome) (cw_rules cw 1 (hb_rules h)))\<rparr>))"

definition claimAutomaticAlertAttempt :: "bool \<Rightarrow> string \<Rightarrow> gtime \<Rightarrow> rule_store \<Rightarrow> rule_store \<times> bool" where
  "claimAutomaticAlertAttempt ended ruleID at s =
     (case ClaimAlertRuleEvaluation ended ruleID at s of (s, Inl _) \<Rightarrow> (s, False) | (s, Inr claimed) \<Rightarrow> (s, claimed))"

definition interval_of :: "rule_store \<Rightarrow> string \<Rightarrow> int" where
  "interval_of s i = (case map_of (rs_rules s) i of None \<Rightarrow> 0 | Some rule \<Rightarrow> ru_interval rule)"

definition consider_rule ::
    "(string \<Rightarrow> 256 word) \<Rightarrow> consider_world \<Rightarrow> alert_silence list \<Rightarrow> alert_rule \<Rightarrow> hub \<Rightarrow> hub \<times> sweep_event list" where
  "consider_rule sha cw silences rule h =
     (let before = cw_rules cw 0 (hb_rules h);
          (rules, claimed) = claimAutomaticAlertAttempt (cw_ended cw 2) (ru_id rule) (cw_at cw) before;
          h = h\<lparr>hb_rules := rules\<rparr>;
          h = (if claimed then evaluateSingleRuleAt sha cw silences rule h else h)
      in (h\<lparr>hb_cursor := (hb_cursor h)\<lparr>cu_after := ru_id rule\<rparr>\<rparr>,
          (if claimed then [Claimed (ru_id rule) (cw_at cw) (interval_of before (ru_id rule))] else []) @ [Considered (ru_id rule)]))"

text \<open>The loop over a page. The flag says that the context ended. A page world that has no more consider worlds stands for
  a context that has ended.\<close>

fun consider_rules ::
    "(string \<Rightarrow> 256 word) \<Rightarrow> consider_world list \<Rightarrow> alert_silence list \<Rightarrow> alert_rule list \<Rightarrow> hub \<Rightarrow> hub \<times> sweep_event list \<times> bool" where
  "consider_rules sha cws silences [] h = (h, [], False)"
| "consider_rules sha [] silences (rule # rules) h = (h, [], True)"
| "consider_rules sha (cw # cws) silences (rule # rules) h =
     (if cw_ended cw 0 \<or> cw_ended cw 1 then (h, [], True)
      else case consider_rule sha cw silences rule h of
             (h, es) \<Rightarrow> (case consider_rules sha cws silences rules h of (h, es', stop) \<Rightarrow> (h, es @ es', stop)))"

section \<open>A tick\<close>

record page_world =
  pw_ended :: bool
  pw_rules :: "rule_store \<Rightarrow> rule_store"
  pw_considers :: "consider_world list"

fun ascending_from :: "string \<Rightarrow> string \<Rightarrow> alert_rule list \<Rightarrow> bool" where
  "ascending_from previous through [] = True"
| "ascending_from previous through (rule # rules) =
     (\<not> (ru_id rule \<le> previous \<or> through < ru_id rule \<or> ru_status rule \<noteq> ''active'') \<and> ascending_from (ru_id rule) through rules)"

definition validAlertRuleEvaluationPage :: "eval_cursor \<Rightarrow> eval_page \<Rightarrow> bool" where
  "validAlertRuleEvaluationPage cursor page =
     (\<not> (AlertRuleEvaluationPageSize < length (pg_rules page) \<or> (\<not> pg_done page \<and> length (pg_rules page) = 0) \<or>
         (cu_started cursor \<and> pg_through page \<noteq> cu_through cursor) \<or> pg_through page < cu_after cursor) \<and>
      ascending_from (cu_after cursor) (pg_through page) (pg_rules page))"

definition fresh_cursor :: eval_cursor where
  "fresh_cursor = \<lparr>cu_started = False, cu_after = [], cu_through = []\<rparr>"

fun slice_loop :: "(string \<Rightarrow> 256 word) \<Rightarrow> alert_silence list \<Rightarrow> page_world list \<Rightarrow> hub \<Rightarrow> hub \<times> sweep_event list" where
  "slice_loop sha silences [] h = (h, [])"
| "slice_loop sha silences (pw # pws) h =
     (let h = h\<lparr>hb_rules := pw_rules pw (hb_rules h)\<rparr>; cursor = hb_cursor h
      in case PageActiveAlertRules (pw_ended pw) cursor AlertRuleEvaluationPageSize (hb_rules h) of
           Inl _ \<Rightarrow> (h, [])
         | Inr page \<Rightarrow>
             if \<not> validAlertRuleEvaluationPage cursor page then (h, [])
             else
               (let read = PageRead (hb_rules h);
                    h = h\<lparr>hb_cursor := cursor\<lparr>cu_started := True, cu_through := pg_through page\<rparr>\<rparr>
                in case consider_rules sha (pw_considers pw) silences (pg_rules page) h of
                     (h, es, stop) \<Rightarrow>
                       if stop then (h, read # es)
                       else if pg_done page then (h\<lparr>hb_cursor := fresh_cursor\<rparr>, read # es @ [SweepEnd])
                       else case slice_loop sha silences pws h of (h, es') \<Rightarrow> (h, read # es @ es')))"

text \<open>\<open>ended\<close> at 0 is the check of the context at the start, at 1 that of the read of the silences and at 2 the one after
  it.\<close>

definition evaluateAlertRuleSlice ::
    "(string \<Rightarrow> 256 word) \<Rightarrow> (nat \<Rightarrow> bool) \<Rightarrow> gtime \<Rightarrow> page_world list \<Rightarrow> hub \<Rightarrow> hub \<times> sweep_event list" where
  "evaluateAlertRuleSlice sha ended now pws h =
     (if ended 0 then (h, [])
      else case newAlertSuppressionPrefetch (ListAlertSilences (ended 1) now 500 True (hb_instances h)) of
             Inl _ \<Rightarrow> (h, [])
           | Inr silences \<Rightarrow> if ended 2 then (h, []) else slice_loop sha silences pws h)"

section \<open>Runs\<close>

text \<open>The requests that change rules. The ids in \<open>used\<close> are never given to a new rule.\<close>

inductive rules_step :: "string set \<Rightarrow> rule_store \<Rightarrow> rule_store \<Rightarrow> bool" for used where
  created: "i \<notin> used \<Longrightarrow> rule_of s i = None \<Longrightarrow> trim_space i = i \<Longrightarrow> i \<noteq> [] \<Longrightarrow> rules_step used s (fst (CreateAlertRule i target_id now req s))"
| updated: "rules_step used s (fst (UpdateAlertRule i target_id now req s))"
| deleted: "rules_step used s (fst (DeleteAlertRule i s))"
| tested: "rules_step used s (fst (RecordAlertEvaluation ended new_id now i e s))"

abbreviation rules_steps :: "string set \<Rightarrow> rule_store \<Rightarrow> rule_store \<Rightarrow> bool" where
  "rules_steps used \<equiv> (rules_step used)\<^sup>*\<^sup>*"

definition fair_consider :: "string set \<Rightarrow> consider_world \<Rightarrow> bool" where
  "fair_consider used cw =
     ((\<forall>n s. rules_steps used s (cw_rules cw n s)) \<and> (\<forall>s. handler_steps s (cw_instances cw s)) \<and> (\<forall>s. fair_world (cw_eval cw s) s))"

definition fair_page :: "string set \<Rightarrow> page_world \<Rightarrow> bool" where
  "fair_page used pw = ((\<forall>s. rules_steps used s (pw_rules pw s)) \<and> (\<forall>cw \<in> set (pw_considers pw). fair_consider used cw))"

definition new_hub :: hub where
  "new_hub = \<lparr>hb_rules = NewMemoryAlertStore, hb_instances = NewMemoryAlertInstanceStore, hb_cursor = fresh_cursor\<rparr>"

inductive hub_run :: "(string \<Rightarrow> 256 word) \<Rightarrow> string set \<Rightarrow> hub \<Rightarrow> sweep_event list \<Rightarrow> hub \<Rightarrow> bool" for sha used h0 where
  idle: "hub_run sha used h0 [] h0"
| tick: "hub_run sha used h0 es h \<Longrightarrow> \<forall>pw \<in> set pws. fair_page used pw \<Longrightarrow> evaluateAlertRuleSlice sha ended now pws h = (h', es') \<Longrightarrow>
    hub_run sha used h0 (es @ es') h'"
| rules: "hub_run sha used h0 es h \<Longrightarrow> rules_step used (hb_rules h) rs \<Longrightarrow> hub_run sha used h0 es (h\<lparr>hb_rules := rs\<rparr>)"
| instances: "hub_run sha used h0 es h \<Longrightarrow> handler_step (hb_instances h) s \<Longrightarrow> hub_run sha used h0 es (h\<lparr>hb_instances := s\<rparr>)"

section \<open>Rules stay well-formed\<close>

lemma rules_step_ok: "rules_step used s t \<Longrightarrow> rules_ok s \<Longrightarrow> rules_ok t"
  by (induction rule: rules_step.induct) (auto intro: create_rule_ok update_rule_ok delete_rule_ok record_rule_ok)

lemma rules_steps_ok: "rules_steps used s t \<Longrightarrow> rules_ok s \<Longrightarrow> rules_ok t"
  by (induction rule: rtranclp_induct) (auto intro: rules_step_ok)

lemma claim_attempt_fst: "fst (claimAutomaticAlertAttempt ended i at s) = fst (ClaimAlertRuleEvaluation ended i at s)"
  by (simp add: claimAutomaticAlertAttempt_def split: prod.split sum.split)

lemma claim_attempt_True: "snd (claimAutomaticAlertAttempt ended i at s) \<longleftrightarrow> snd (ClaimAlertRuleEvaluation ended i at s) = Inr True"
  by (simp add: claimAutomaticAlertAttempt_def split: prod.split sum.split)

text \<open>The consideration of a rule as a sequence of changes of the two stores.\<close>

lemma consider_rule_parts:
  assumes "consider_rule sha cw silences rule h = (h', es)"
  obtains (unclaimed) b where "b = cw_rules cw 0 (hb_rules h)" "hb_cursor h' = (hb_cursor h)\<lparr>cu_after := ru_id rule\<rparr>"
      "es = [Considered (ru_id rule)]" "hb_instances h' = hb_instances h"
      "snd (ClaimAlertRuleEvaluation (cw_ended cw 2) (ru_id rule) (cw_at cw) b) \<noteq> Inr True"
      "hb_rules h' = fst (ClaimAlertRuleEvaluation (cw_ended cw 2) (ru_id rule) (cw_at cw) b)"
  | (claimed) b outcome where "b = cw_rules cw 0 (hb_rules h)" "hb_cursor h' = (hb_cursor h)\<lparr>cu_after := ru_id rule\<rparr>"
      "es = [Claimed (ru_id rule) (cw_at cw) (interval_of b (ru_id rule)), Considered (ru_id rule)]"
      "snd (ClaimAlertRuleEvaluation (cw_ended cw 2) (ru_id rule) (cw_at cw) b) = Inr True"
      "hb_rules h' = fst (ClaimAlertRuleEvaluation (cw_ended cw 2) (ru_id rule) (cw_at cw) b) \<and> hb_instances h' = hb_instances h \<or>
       hb_rules h' = fst (RecordAlertEvaluation (cw_ended cw 4) (cw_record_id cw) (cw_record_at cw) (ru_id rule) (evaluation_of cw rule outcome)
         (cw_rules cw 1 (fst (ClaimAlertRuleEvaluation (cw_ended cw 2) (ru_id rule) (cw_at cw) b)))) \<and>
       hb_instances h' = act_on_outcome sha cw silences rule outcome (cw_instances cw (hb_instances h))"
proof -
  define b where "b = cw_rules cw 0 (hb_rules h)"
  obtain c cl where c: "claimAutomaticAlertAttempt (cw_ended cw 2) (ru_id rule) (cw_at cw) b = (c, cl)" by fastforce
  have c': "fst (ClaimAlertRuleEvaluation (cw_ended cw 2) (ru_id rule) (cw_at cw) b) = c"
    "snd (ClaimAlertRuleEvaluation (cw_ended cw 2) (ru_id rule) (cw_at cw) b) = Inr True \<longleftrightarrow> cl"
    using claim_attempt_fst [of "cw_ended cw 2" "ru_id rule" "cw_at cw" b] claim_attempt_True [of "cw_ended cw 2" "ru_id rule" "cw_at cw" b]
    by (simp_all add: c)
  note A = assms [unfolded consider_rule_def Let_def b_def [symmetric] c prod.case]
  show ?thesis
  proof (cases cl)
    case False
    then show ?thesis using A c' by (intro unclaimed [OF b_def]) auto
  next
    case True
    show ?thesis
      by (rule claimed [OF b_def, of "cw_outcome cw rule (h\<lparr>hb_rules := c\<rparr>)"])
        (use A True c' in \<open>auto simp: evaluateSingleRuleAt_def Let_def split: if_splits\<close>)
  qed
qed

lemma consider_rule_ok:
  assumes "fair_consider used cw" "consider_rule sha cw silences rule h = (h', es)" "rules_ok (hb_rules h)"
  shows "rules_ok (hb_rules h')"
proof -
  have st: "rules_ok s \<Longrightarrow> rules_ok (cw_rules cw n s)" for n s
    using assms(1) rules_steps_ok unfolding fair_consider_def by blast
  from assms(2) show ?thesis
  proof (cases rule: consider_rule_parts)
    case (unclaimed b)
    then show ?thesis using st claim_rule_ok assms(3) by simp
  next
    case (claimed b outcome)
    then show ?thesis using st claim_rule_ok record_rule_ok assms(3) by metis
  qed
qed

section \<open>Sweeps\<close>

definition considered :: "sweep_event list \<Rightarrow> string list" where
  "considered es = List.map_filter (\<lambda>e. case e of Considered i \<Rightarrow> Some i | _ \<Rightarrow> None) es"

definition pages :: "sweep_event list \<Rightarrow> rule_store set" where
  "pages es = {s. PageRead s \<in> set es}"

definition is_active :: "rule_store \<Rightarrow> string \<Rightarrow> bool" where
  "is_active s i = (\<exists>r. rule_of s i = Some r \<and> ru_status r = ''active'')"

text \<open>A complete sweep: it considers rules in strictly increasing order of their ids, each active in some page read, and
  every rule that was active in all of them.\<close>

definition sweep_ok :: "sweep_event list \<Rightarrow> bool" where
  "sweep_ok es =
     (pages es \<noteq> {} \<and> sorted_wrt (<) (considered es) \<and> (\<forall>i \<in> set (considered es). \<exists>s \<in> pages es. is_active s i) \<and>
      (\<forall>i. (\<forall>s \<in> pages es. is_active s i) \<longrightarrow> i \<in> set (considered es)))"

text \<open>The sweeps of a trace that are complete, and the one that is not.\<close>

definition sweep_fold :: "sweep_event list list \<times> sweep_event list \<Rightarrow> sweep_event \<Rightarrow> sweep_event list list \<times> sweep_event list" where
  "sweep_fold acc e = (case acc of (finished, current) \<Rightarrow> if e = SweepEnd then (finished @ [current], []) else (finished, current @ [e]))"

definition sweeps :: "sweep_event list \<Rightarrow> sweep_event list list \<times> sweep_event list" where
  "sweeps es = foldl sweep_fold ([], []) es"

definition sweep_inv :: "eval_cursor \<Rightarrow> sweep_event list \<Rightarrow> bool" where
  "sweep_inv c es =
     ((cu_started c \<longleftrightarrow> pages es \<noteq> {}) \<and> (\<not> cu_started c \<longrightarrow> c = fresh_cursor \<and> considered es = []) \<and> cu_after c \<le> cu_through c \<and>
      (\<forall>s \<in> pages es. rules_ok s) \<and> sorted_wrt (<) (considered es) \<and>
      (\<forall>i \<in> set (considered es). i \<le> cu_after c \<and> (\<exists>s \<in> pages es. is_active s i)) \<and>
      (cu_started c \<longrightarrow> (\<forall>i. (\<forall>s \<in> pages es. is_active s i) \<longrightarrow> i \<le> cu_through c \<and> (i \<le> cu_after c \<longrightarrow> i \<in> set (considered es)))))"

definition remaining :: "rule_store \<Rightarrow> eval_cursor \<Rightarrow> string list \<Rightarrow> bool" where
  "remaining s c ids =
     (sorted_wrt (<) ids \<and> (\<forall>i. i \<in> set ids \<longleftrightarrow> is_active s i \<and> cu_after c < i \<and> i \<le> cu_through c))"

lemma considered_append: "considered (es @ es') = considered es @ considered es'"
  by (simp add: considered_def List.map_filter_def)

lemma considered_simps [simp]:
  "considered [] = []" "considered (PageRead s # es) = considered es" "considered (Considered i # es) = i # considered es"
  "considered (Claimed i a n # es) = considered es" "considered (SweepEnd # es) = considered es"
  by (simp_all add: considered_def List.map_filter_simps)

lemma pages_simps [simp]:
  "pages [] = {}" "pages (es @ es') = pages es \<union> pages es'" "pages (PageRead s # es) = insert s (pages es)"
  "pages (Considered i # es) = pages es" "pages (Claimed i a n # es) = pages es" "pages (SweepEnd # es) = pages es"
  by (auto simp: pages_def)

lemma sweep_fold_plain: "SweepEnd \<notin> set es \<Longrightarrow> foldl sweep_fold (f, cur) es = (f, cur @ es)"
  by (induction es arbitrary: cur) (auto simp: sweep_fold_def)

lemma active_nonempty: "rules_ok s \<Longrightarrow> is_active s i \<Longrightarrow> [] < i"
  using stored_rule_ok [of s i] by (cases i) (auto simp: is_active_def)

lemma sweep_inv_fresh: "sweep_inv fresh_cursor []"
  by (simp add: sweep_inv_def fresh_cursor_def)

lemma sweep_invI:
  assumes "cu_started c" "pages es \<noteq> {}" "cu_after c \<le> cu_through c" "\<forall>s \<in> pages es. rules_ok s" "sorted_wrt (<) (considered es)"
    "\<forall>i \<in> set (considered es). i \<le> cu_after c \<and> (\<exists>s \<in> pages es. is_active s i)"
    "\<forall>i. (\<forall>s \<in> pages es. is_active s i) \<longrightarrow> i \<le> cu_through c \<and> (i \<le> cu_after c \<longrightarrow> i \<in> set (considered es))"
  shows "sweep_inv c es"
  unfolding sweep_inv_def using assms(1,2) by (intro conjI impI assms) simp_all

lemma inv_read:
  assumes J: "sweep_inv c cur" and ok: "rules_ok s" and p: "PageActiveAlertRules ended c limit s = Inr page"
    and c': "c' = c\<lparr>cu_started := True, cu_through := pg_through page\<rparr>"
  shows "sweep_inv c' (cur @ [PageRead s])" "remaining s c' (due_ids c s)"
proof -
  note P = page_spec [OF ok p]
  have sel: "selected c (i, r) \<longleftrightarrow> ru_status r = ''active'' \<and> cu_after c' < i \<and> i \<le> cu_through c'" if "rule_of s i = Some r" for i r
    using P(4) P(5) [OF _ that] by (cases "cu_started c") (auto simp: selected_def c')
  show "remaining s c' (due_ids c s)"
    unfolding remaining_def using due_ids_props(1) [OF ok, of c] due_ids_props(2) [OF ok, of _ c] sel by (auto simp: is_active_def)
  note J' = J [unfolded sweep_inv_def]
  have le: "cu_after c \<le> pg_through page" using J' P(6) order_trans by blast
  have all: "i \<le> pg_through page \<and> (i \<le> cu_after c \<longrightarrow> i \<in> set (considered cur))"
    if a: "is_active s i" "\<forall>s \<in> pages cur. is_active s i" for i
  proof (cases "cu_started c")
    case True
    then show ?thesis using J' P(4) a(2) by simp
  next
    case False
    have "i \<le> pg_through page" using P(5) [OF False] a(1) by (auto simp: is_active_def)
    moreover have "[] < i" using active_nonempty [OF ok a(1)] .
    moreover have "cu_after c = []" using J' False by (simp add: fresh_cursor_def)
    ultimately show ?thesis by auto
  qed
  have old: "\<forall>i \<in> set (considered cur). i \<le> cu_after c \<and> (\<exists>s \<in> pages cur. is_active s i)" "\<forall>s \<in> pages cur. rules_ok s"
    "sorted_wrt (<) (considered cur)" using J' by simp_all
  show "sweep_inv c' (cur @ [PageRead s])"
  proof (rule sweep_invI)
    show "\<forall>i. (\<forall>t \<in> pages (cur @ [PageRead s]). is_active t i) \<longrightarrow>
        i \<le> cu_through c' \<and> (i \<le> cu_after c' \<longrightarrow> i \<in> set (considered (cur @ [PageRead s])))"
      using all by (simp add: c' considered_append)
  qed (use le old ok in \<open>auto simp: c' considered_append\<close>)
qed

lemma inv_consider:
  assumes J: "sweep_inv c cur" and s: "s \<in> pages cur" and R: "remaining s c (x # rest)"
    and e: "considered es = [x]" "pages es = {}"
  shows "sweep_inv (c\<lparr>cu_after := x\<rparr>) (cur @ es)" "remaining s (c\<lparr>cu_after := x\<rparr>) rest"
proof -
  have x: "is_active s x" "cu_after c < x" "x \<le> cu_through c" and m: "\<forall>y \<in> set rest. x < y"
    using R unfolding remaining_def by auto
  show "remaining s (c\<lparr>cu_after := x\<rparr>) rest"
    using R x(2) m unfolding remaining_def by (auto dest: less_trans)
  have st: "cu_started c" using J s unfolding sweep_inv_def by auto
  have all: "i \<le> cu_through c \<and> (i \<le> x \<longrightarrow> i \<in> insert x (set (considered cur)))" if a: "\<forall>s \<in> pages cur. is_active s i" for i
  proof -
    from J st a have t: "i \<le> cu_through c" "i \<le> cu_after c \<longrightarrow> i \<in> set (considered cur)" unfolding sweep_inv_def by blast+
    moreover have "i = x" if "i \<le> x" "cu_after c < i"
    proof -
      have "i \<in> set (x # rest)" using R that(2) t(1) a s unfolding remaining_def by blast
      with that(1) m show "i = x" by auto
    qed
    ultimately show ?thesis by (auto simp: not_le)
  qed
  have lt: "\<forall>i \<in> set (considered cur). i < x \<and> (\<exists>s \<in> pages cur. is_active s i)"
    using J x(2) unfolding sweep_inv_def by (auto dest: le_less_trans)
  have old: "\<forall>s \<in> pages cur. rules_ok s" "sorted_wrt (<) (considered cur)" using J by (simp_all add: sweep_inv_def)
  have ne: "pages cur \<noteq> {}" using s by blast
  show "sweep_inv (c\<lparr>cu_after := x\<rparr>) (cur @ es)"
  proof (rule sweep_invI)
    show "\<forall>i. (\<forall>t \<in> pages (cur @ es). is_active t i) \<longrightarrow> i \<le> cu_through (c\<lparr>cu_after := x\<rparr>) \<and>
        (i \<le> cu_after (c\<lparr>cu_after := x\<rparr>) \<longrightarrow> i \<in> set (considered (cur @ es)))"
      using all by (simp add: e considered_append)
  next
    show "\<forall>i \<in> set (considered (cur @ es)). i \<le> cu_after (c\<lparr>cu_after := x\<rparr>) \<and> (\<exists>t \<in> pages (cur @ es). is_active t i)"
      using lt x(1) s by (auto simp: e considered_append)
  qed (use st x lt old ne in \<open>auto simp: e considered_append sorted_wrt_append\<close>)
qed

lemma consider_rule_trace:
  assumes "consider_rule sha cw silences rule h = (h', es)"
  shows "considered es = [ru_id rule]" "pages es = {}" "SweepEnd \<notin> set es" "hb_cursor h' = (hb_cursor h)\<lparr>cu_after := ru_id rule\<rparr>"
  using assms by (cases rule: consider_rule_parts; simp)+

lemma consider_rules_sweep:
  assumes "consider_rules sha cws silences rules h = (h', es, stop)" "\<forall>cw \<in> set cws. fair_consider used cw" "rules_ok (hb_rules h)"
    "sweep_inv (hb_cursor h) cur" "s \<in> pages cur" "remaining s (hb_cursor h) (map ru_id rules @ tail)"
  shows "rules_ok (hb_rules h') \<and> SweepEnd \<notin> set es \<and> sweep_inv (hb_cursor h') (cur @ es) \<and> pages es = {} \<and>
    (\<not> stop \<longrightarrow> remaining s (hb_cursor h') tail)"
  using assms
proof (induction rules arbitrary: cws h h' es stop cur)
  case Nil
  then show ?case by simp
next
  case (Cons rule rules)
  show ?case
  proof (cases "cws = [] \<or> cw_ended (hd cws) 0 \<or> cw_ended (hd cws) 1")
    case True
    then have "h' = h \<and> es = [] \<and> stop" using Cons.prems(1) by (cases cws) auto
    with Cons.prems show ?thesis by simp
  next
    case False
    then obtain cw cws' where cw: "cws = cw # cws'" "\<not> cw_ended cw 0" "\<not> cw_ended cw 1" by (cases cws) auto
    obtain h1 es1 where r: "consider_rule sha cw silences rule h = (h1, es1)" by fastforce
    obtain es2 where r2: "consider_rules sha cws' silences rules h1 = (h', es2, stop)" "es = es1 @ es2"
      using Cons.prems(1) cw r by (auto split: prod.splits)
    note t = consider_rule_trace [OF r]
    note i = inv_consider [OF Cons.prems(4,5) Cons.prems(6) [unfolded list.map append_Cons] t(1,2)]
    have "rules_ok (hb_rules h1)" using consider_rule_ok [OF _ r Cons.prems(3), of used] Cons.prems(2) cw(1) by simp
    from Cons.IH [OF r2(1) _ this, of "cur @ es1"] i t Cons.prems(2,5) cw(1) r2(2) show ?thesis by simp
  qed
qed

definition sweeps_fine :: "hub \<Rightarrow> sweep_event list list \<times> sweep_event list \<Rightarrow> bool" where
  "sweeps_fine h acc = (rules_ok (hb_rules h) \<and> list_all sweep_ok (fst acc) \<and> sweep_inv (hb_cursor h) (snd acc))"

lemma sweep_complete:
  assumes "sweep_inv c cur" "s \<in> pages cur" "remaining s c []"
  shows "sweep_ok cur"
proof -
  have st: "cu_started c" "pages cur \<noteq> {}" using assms(1,2) by (auto simp: sweep_inv_def)
  have "i \<in> set (considered cur)" if "\<forall>s \<in> pages cur. is_active s i" for i
  proof -
    have t: "i \<le> cu_through c" "i \<le> cu_after c \<longrightarrow> i \<in> set (considered cur)" using assms(1) st that unfolding sweep_inv_def by blast+
    have "\<not> cu_after c < i" using assms(2,3) t(1) that unfolding remaining_def by auto
    with t(2) show ?thesis by (simp add: not_less)
  qed
  with assms(1) st show ?thesis unfolding sweep_ok_def sweep_inv_def by blast
qed

text \<open>One page: the rules it lists are the first of the remaining ones, and when it is the last page the sweep is complete.\<close>

lemma page_sweep:
  assumes ok: "rules_ok s" and J: "sweep_inv c cur" and p: "PageActiveAlertRules ended c AlertRuleEvaluationPageSize s = Inr page"
    and h: "hb_rules h = s" "hb_cursor h = c\<lparr>cu_started := True, cu_through := pg_through page\<rparr>"
    and r: "consider_rules sha cws silences (pg_rules page) h = (h', es, stop)" and fair: "\<forall>cw \<in> set cws. fair_consider used cw"
  shows "rules_ok (hb_rules h')" "SweepEnd \<notin> set es" "sweep_inv (hb_cursor h') (cur @ PageRead s # es)"
    "\<not> stop \<Longrightarrow> pg_done page \<Longrightarrow> sweep_ok (cur @ PageRead s # es)"
proof -
  note P = page_spec [OF ok p]
  define tail where "tail = drop AlertRuleEvaluationPageSize (due_ids c s)"
  have due: "due_ids c s = map ru_id (pg_rules page) @ tail" by (simp add: tail_def P(1))
  note R = inv_read [OF J ok p refl, unfolded due]
  have C: "rules_ok (hb_rules h') \<and> SweepEnd \<notin> set es \<and> sweep_inv (hb_cursor h') ((cur @ [PageRead s]) @ es) \<and> pages es = {} \<and>
      (\<not> stop \<longrightarrow> remaining s (hb_cursor h') tail)"
    by (rule consider_rules_sweep [OF r fair]) (use ok R h in simp_all)
  then show "rules_ok (hb_rules h')" "SweepEnd \<notin> set es" "sweep_inv (hb_cursor h') (cur @ PageRead s # es)" by simp_all
  assume "\<not> stop" "pg_done page"
  moreover from this have "tail = []" using P(2) by (simp add: tail_def)
  ultimately show "sweep_ok (cur @ PageRead s # es)"
    using C sweep_complete [of "hb_cursor h'" "cur @ PageRead s # es" s] by simp
qed

lemma slice_sweep:
  assumes "slice_loop sha silences pws h = (h', es)" "\<forall>pw \<in> set pws. fair_page used pw" "sweeps_fine h (f, cur)"
  shows "sweeps_fine h' (foldl sweep_fold (f, cur) es)"
  using assms
proof (induction pws arbitrary: h h' es cur)
  case (Cons pw pws)
  define h1 where "h1 = h\<lparr>hb_rules := pw_rules pw (hb_rules h)\<rparr>"
  define cur' where "cur' es = cur @ PageRead (hb_rules h1) # es" for es
  have ok: "rules_ok (hb_rules h1)"
    using Cons.prems(2,3) rules_steps_ok by (auto simp: h1_def sweeps_fine_def fair_page_def)
  have J: "sweep_inv (hb_cursor h1) cur" "list_all sweep_ok f" using Cons.prems(3) by (simp_all add: h1_def sweeps_fine_def)
  note S = Cons.prems(1) [unfolded slice_loop.simps Let_def h1_def [symmetric]]
  show ?case
  proof (cases "\<exists>page. PageActiveAlertRules (pw_ended pw) (hb_cursor h1) AlertRuleEvaluationPageSize (hb_rules h1) = Inr page \<and>
      validAlertRuleEvaluationPage (hb_cursor h1) page")
    case False
    with S have "h' = h1" "es = []" by (auto split: sum.splits)
    with ok J show ?thesis by (simp add: sweeps_fine_def)
  next
    case True
    then obtain page where p: "PageActiveAlertRules (pw_ended pw) (hb_cursor h1) AlertRuleEvaluationPageSize (hb_rules h1) = Inr page"
      and v: "validAlertRuleEvaluationPage (hb_cursor h1) page" by blast
    obtain h2 es2 stop where r: "consider_rules sha (pw_considers pw) silences (pg_rules page)
        (h1\<lparr>hb_cursor := (hb_cursor h1)\<lparr>cu_started := True, cu_through := pg_through page\<rparr>\<rparr>) = (h2, es2, stop)"
      by (metis prod_cases3)
    note C = page_sweep [OF ok J(1) p _ _ r, of used, folded cur'_def, simplified]
    have fair: "\<forall>cw \<in> set (pw_considers pw). fair_consider used cw" using Cons.prems(2) by (simp add: fair_page_def)
    have fine: "sweeps_fine h2 (f, cur' es2)" using C(1,3) fair J(2) by (simp add: sweeps_fine_def)
    have fold1: "foldl sweep_fold (f, cur) (PageRead (hb_rules h1) # es2) = (f, cur' es2)"
      unfolding cur'_def by (rule sweep_fold_plain) (use C(2) fair in simp)
    consider "stop" | "\<not> stop" "pg_done page" | "\<not> stop" "\<not> pg_done page" by blast
    then show ?thesis
    proof cases
      case 1
      with S p v r fine fold1 show ?thesis by simp
    next
      case 2
      then have "h' = h2\<lparr>hb_cursor := fresh_cursor\<rparr>" "es = (PageRead (hb_rules h1) # es2) @ [SweepEnd]" using S p v r by simp_all
      with C(1,4) fair 2 J(2) sweep_inv_fresh show ?thesis
        by (simp only: foldl_append fold1) (simp add: sweep_fold_def sweeps_fine_def)
    next
      case 3
      obtain h3 es3 where l: "slice_loop sha silences pws h2 = (h3, es3)" by fastforce
      with S p v r 3 have "h' = h3" "es = (PageRead (hb_rules h1) # es2) @ es3" by simp_all
      with Cons.IH [OF l _ fine] Cons.prems(2) show ?thesis by (simp only: foldl_append fold1) simp
    qed
  qed
qed simp

lemma tick_sweep:
  assumes "evaluateAlertRuleSlice sha ended now pws h = (h', es)" "\<forall>pw \<in> set pws. fair_page used pw" "sweeps_fine h (sweeps xs)"
  shows "sweeps_fine h' (sweeps (xs @ es))"
proof -
  have "es = [] \<and> h' = h \<or> (\<exists>silences. slice_loop sha silences pws h = (h', es))"
    using assms(1) by (auto simp: evaluateAlertRuleSlice_def split: if_splits sum.splits)
  then show ?thesis
  proof (elim disjE exE)
    fix silences
    assume "slice_loop sha silences pws h = (h', es)"
    from slice_sweep [OF this assms(2), of "fst (sweeps xs)" "snd (sweeps xs)"] assms(3) show ?thesis by (simp add: sweeps_def)
  qed (use assms(3) in simp)
qed

lemma run_sweeps:
  assumes "hub_run sha used new_hub es h"
  shows "sweeps_fine h (sweeps es)"
  using assms
proof (induction rule: hub_run.induct)
  case idle
  show ?case by (simp add: sweeps_fine_def sweeps_def new_hub_def NewMemoryAlertStore_def rules_ok_def sweep_inv_fresh)
next
  case (tick es h pws ended now h' es')
  from tick_sweep [OF tick.hyps(3,2) tick.IH] show ?case .
next
  case (rules es h rs)
  then show ?case using rules_step_ok by (auto simp: sweeps_fine_def)
next
  case (instances es h s)
  then show ?case by (simp add: sweeps_fine_def)
qed

text \<open>A page of the store always passes the check of the evaluator, so a sweep never stops on an invalid page.\<close>

lemma ascending_sorted:
  "sorted_wrt (<) (previous # map ru_id rules) \<Longrightarrow> \<forall>r \<in> set rules. ru_id r \<le> through \<and> ru_status r = ''active'' \<Longrightarrow>
   ascending_from previous through rules"
  by (induction rules arbitrary: previous) auto

lemma page_valid:
  assumes ok: "rules_ok s" and J: "sweep_inv c cur" and p: "PageActiveAlertRules ended c AlertRuleEvaluationPageSize s = Inr page"
  shows "validAlertRuleEvaluationPage c page"
proof -
  note P = page_spec [OF ok p]
  have R: "remaining s (c\<lparr>cu_started := True, cu_through := pg_through page\<rparr>) (due_ids c s)" by (rule inv_read(2) [OF J ok p refl])
  have l: "length (pg_rules page) = min AlertRuleEvaluationPageSize (length (due_ids c s))"
    using arg_cong [OF P(1), of length] by (simp add: min_def)
  have "sorted_wrt (<) (cu_after c # due_ids c s)" using R by (auto simp: remaining_def)
  then have "sorted_wrt (<) (take (Suc AlertRuleEvaluationPageSize) (cu_after c # due_ids c s))" by (rule sorted_wrt_take)
  then have asc: "sorted_wrt (<) (cu_after c # map ru_id (pg_rules page))" by (simp add: P(1))
  have "ru_id r \<in> set (due_ids c s)" if "r \<in> set (pg_rules page)" for r
    using that P(1) in_set_takeD by (metis image_eqI list.set_map)
  with R P(3) have "\<forall>r \<in> set (pg_rules page). ru_id r \<le> pg_through page \<and> ru_status r = ''active''" by (auto simp: remaining_def)
  note a = ascending_sorted [OF asc this]
  have "cu_after c \<le> pg_through page" using J P(6) by (auto simp: sweep_inv_def intro: order_trans)
  then show ?thesis
    using a l P(2,4) by (auto simp: validAlertRuleEvaluationPage_def AlertRuleEvaluationPageSize_def not_less)
qed

section \<open>The alerts of a run\<close>

lemma reach_handlers: "handler_steps s t \<Longrightarrow> alert_reach sha s \<Longrightarrow> alert_reach sha t"
  by (induction rule: rtranclp_induct) (auto intro: alert_reach.step alert_step.handled)

lemma act_reach:
  assumes "fair_world (cw_eval cw s) s" "alert_reach sha s"
  shows "alert_reach sha (act_on_outcome sha cw silences rule outcome s)"
proof (cases outcome)
  case (Inr oc)
  define w where "w = (cw_eval cw s)\<lparr>ew_prefetch := Some silences\<rparr>"
  have w: "fair_world w s" using assms(1) by (simp add: fair_world_def w_def)
  obtain t ns where f: "fireOrRefireAlertWithScopeAt sha w rule (cw_at cw) (oc_scope oc) s = (t, ns)" by fastforce
  obtain t' ns' k where r: "resolveStaleInstances w rule s = (t', ns', k)" by (metis prod_cases3)
  from alert_step.fires [OF w f] alert_step.resolves [OF w r] assms(2) have "alert_reach sha t" "alert_reach sha t'"
    by (blast intro: alert_reach.step)+
  then show ?thesis by (simp add: act_on_outcome_def w_def [symmetric] Inr f r)
qed (simp add: act_on_outcome_def assms(2))

lemma consider_reach:
  assumes "fair_consider used cw" "consider_rule sha cw silences rule h = (h', es)" "alert_reach sha (hb_instances h)"
  shows "alert_reach sha (hb_instances h')"
proof -
  have "alert_reach sha (cw_instances cw (hb_instances h))" using assms(1,3) reach_handlers unfolding fair_consider_def by blast
  then have "alert_reach sha (act_on_outcome sha cw silences rule outcome (cw_instances cw (hb_instances h)))" for outcome
    using act_reach assms(1) unfolding fair_consider_def by blast
  with assms(2,3) show ?thesis by (cases rule: consider_rule_parts) auto
qed

lemma consider_rules_reach:
  "consider_rules sha cws silences rules h = (h', es, stop) \<Longrightarrow> \<forall>cw \<in> set cws. fair_consider used cw \<Longrightarrow>
   alert_reach sha (hb_instances h) \<Longrightarrow> alert_reach sha (hb_instances h')"
  by (induction sha cws silences rules h arbitrary: h' es stop rule: consider_rules.induct)
    (auto split: if_splits prod.splits dest: consider_reach [rotated])

lemma slice_reach:
  assumes "slice_loop sha silences pws h = (h', es)" "\<forall>pw \<in> set pws. fair_page used pw" "alert_reach sha (hb_instances h)"
  shows "alert_reach sha (hb_instances h')"
  using assms
proof (induction pws arbitrary: h h' es)
  case (Cons pw pws)
  have fair: "\<forall>cw \<in> set (pw_considers pw). fair_consider used cw" using Cons.prems(2) by (simp add: fair_page_def)
  from Cons.prems show ?case
    by (auto simp: Let_def split: sum.splits if_splits prod.splits intro: Cons.IH dest!: consider_rules_reach [OF _ fair])
qed simp

lemma run_reach:
  assumes "hub_run sha used new_hub es h"
  shows "alert_reach sha (hb_instances h)"
  using assms
proof (induction rule: hub_run.induct)
  case idle
  show ?case by (simp add: new_hub_def alert_reach.start)
next
  case (tick es h pws ended now h' es')
  then have "h' = h \<or> (\<exists>silences. slice_loop sha silences pws h = (h', es'))"
    by (auto simp: evaluateAlertRuleSlice_def split: if_splits sum.splits)
  with tick slice_reach show ?case by blast
next
  case (rules es h rs)
  then show ?case by simp
next
  case (instances es h s)
  then show ?case using reach_handlers by auto
qed

section \<open>Claims\<close>

definition claims :: "string \<Rightarrow> sweep_event list \<Rightarrow> (gtime \<times> int) list" where
  "claims i es = List.map_filter (\<lambda>e. case e of Claimed j a n \<Rightarrow> if j = i then Some (a, n) else None | _ \<Rightarrow> None) es"

text \<open>Each claim comes at least the interval then in force after every earlier one.\<close>

definition spaced :: "(gtime \<times> int) list \<Rightarrow> bool" where
  "spaced cs = (sorted_wrt (\<lambda>(a, m) (b, n). a + n * second \<le> b) cs \<and> (\<forall>(a, n) \<in> set cs. 0 < n))"

definition claim_inv :: "string \<Rightarrow> rule_store \<Rightarrow> (gtime \<times> int) list \<Rightarrow> bool" where
  "claim_inv i s cs =
     (rules_ok s \<and> spaced cs \<and>
      (\<forall>r. rule_of s i = Some r \<longrightarrow> (\<forall>(a, n) \<in> set cs. \<exists>l. ru_last_auto_attempt_at r = Some l \<and> a \<le> l)))"

definition keeps_attempt :: "string \<Rightarrow> rule_store \<Rightarrow> rule_store \<Rightarrow> bool" where
  "keeps_attempt i s t =
     (\<forall>r'. rule_of t i = Some r' \<longrightarrow> (\<exists>r. rule_of s i = Some r \<and> ru_last_auto_attempt_at r' = ru_last_auto_attempt_at r))"

lemma claims_append: "claims i (es @ es') = claims i es @ claims i es'"
  by (simp add: claims_def List.map_filter_def)

lemma claims_simps [simp]:
  "claims i [] = []" "claims i (PageRead s # es) = claims i es" "claims i (Considered j # es) = claims i es" "claims i (SweepEnd # es) = claims i es"
  "claims i (Claimed j a n # es) = (if j = i then [(a, n)] else []) @ claims i es"
  by (simp_all add: claims_def List.map_filter_simps)

lemma record_keeps: "keeps_attempt i s (fst (RecordAlertEvaluation ended new_id now j e s))"
proof (cases "ended \<or> rule_of s (trim_space j) = None")
  case True
  then show ?thesis by (simp add: record_nothing keeps_attempt_def)
next
  case False
  then obtain r where "\<not> ended" "rule_of s (trim_space j) = Some r" by auto
  with record_rules [OF this, of new_id now e] show ?thesis by (auto simp: keeps_attempt_def update_conv' split: if_splits)
qed

lemma step_keeps:
  assumes "rules_step used s t" "i \<in> used"
  shows "keeps_attempt i s t"
  using assms
proof (induction rule: rules_step.induct)
  case (created j s target_id now req)
  then show ?case by (auto simp: CreateAlertRule_def keeps_attempt_def update_conv' Let_def split: option.splits if_splits)
next
  case (updated s j target_id now req)
  show ?case by (auto simp: UpdateAlertRule_def updated_rule_def keeps_attempt_def update_conv' Let_def split: option.split if_splits)
next
  case (deleted s j)
  show ?case by (simp add: DeleteAlertRule_def keeps_attempt_def delete_conv')
next
  case (tested s ended new_id now j e)
  show ?case by (rule record_keeps)
qed

lemma keep_claim_inv:
  assumes "keeps_attempt i s t" "rules_ok t" "claim_inv i s cs"
  shows "claim_inv i t cs"
proof -
  have "\<forall>(a, n) \<in> set cs. \<exists>l. ru_last_auto_attempt_at r' = Some l \<and> a \<le> l" if t: "rule_of t i = Some r'" for r'
  proof -
    obtain r where r: "rule_of s i = Some r" "ru_last_auto_attempt_at r' = ru_last_auto_attempt_at r"
      using assms(1) t by (auto simp: keeps_attempt_def)
    have "\<forall>(a, n) \<in> set cs. \<exists>l. ru_last_auto_attempt_at r = Some l \<and> a \<le> l" using assms(3) r(1) by (simp add: claim_inv_def)
    then show ?thesis by (simp only: r(2))
  qed
  with assms(2,3) show ?thesis by (simp add: claim_inv_def)
qed

lemma steps_claim_inv:
  assumes "rules_steps used s t" "i \<in> used" "claim_inv i s cs"
  shows "claim_inv i t cs"
  using assms
proof (induction rule: rtranclp_induct)
  case (step t u)
  then have "claim_inv i t cs" by blast
  moreover from this have "rules_ok u" using rules_step_ok step.hyps(2) by (auto simp: claim_inv_def)
  ultimately show ?case using keep_claim_inv step_keeps [OF step.hyps(2) assms(2)] by blast
qed simp

lemma claim_claim_inv:
  assumes "claim_inv i s cs" "trim_space j = j" and r_def: "r = ClaimAlertRuleEvaluation ended j at s"
  shows "snd r \<noteq> Inr True \<Longrightarrow> claim_inv i (fst r) cs"
    and "snd r = Inr True \<Longrightarrow> claim_inv i (fst r) (cs @ (if j = i then [(at, interval_of s j)] else []))"
proof -
  have ok: "rules_ok s" using assms(1) by (simp add: claim_inv_def)
  note C = claim_cases [OF ok, of ended j at, folded r_def, unfolded assms(2)]
  show "snd r \<noteq> Inr True \<Longrightarrow> claim_inv i (fst r) cs" using C assms(1) by auto
  assume "snd r = Inr True"
  with C obtain q where q: "rule_of s j = Some q" "\<forall>l. ru_last_auto_attempt_at q = Some l \<longrightarrow> l + ru_interval q * second \<le> at"
    "fst r = s\<lparr>rs_rules := AList.update j (q\<lparr>ru_last_auto_attempt_at := Some at\<rparr>) (rs_rules s)\<rparr>" by auto
  have n: "0 < ru_interval q" "interval_of s j = ru_interval q" using stored_rule_ok [OF ok q(1)] q(1) by (simp_all add: rule_ok_def interval_of_def)
  have ok': "rules_ok (fst r)" unfolding r_def by (rule claim_rule_ok [OF ok])
  show "claim_inv i (fst r) (cs @ (if j = i then [(at, interval_of s j)] else []))"
  proof (cases "j = i")
    case False
    then have "keeps_attempt i s (fst r)" by (simp add: keeps_attempt_def q(3) update_conv')
    from keep_claim_inv [OF this ok' assms(1)] False show ?thesis by simp
  next
    case True
    have old: "a + ru_interval q * second \<le> at" if "(a, m) \<in> set cs" for a m
    proof -
      have "\<forall>(a, n) \<in> set cs. \<exists>l. ru_last_auto_attempt_at q = Some l \<and> a \<le> l" using assms(1) q(1) True by (simp add: claim_inv_def)
      with that obtain l where "ru_last_auto_attempt_at q = Some l" "a \<le> l" by force
      with q(2) show ?thesis by force
    qed
    have "spaced (cs @ [(at, ru_interval q)])" using assms(1) old n(1) by (auto simp: claim_inv_def spaced_def sorted_wrt_append)
    moreover have "a \<le> at" if "(a, m) \<in> set cs" for a m using old [OF that] n(1) by simp
    ultimately show ?thesis using ok' True by (auto simp: claim_inv_def n(2) [unfolded True] q(3) update_conv')
  qed
qed

lemma consider_claim_inv:
  assumes "fair_consider used cw" "i \<in> used" "consider_rule sha cw silences rule h = (h', es)" "trim_space (ru_id rule) = ru_id rule"
    "claim_inv i (hb_rules h) cs"
  shows "claim_inv i (hb_rules h') (cs @ claims i es)"
proof -
  have st: "claim_inv i s xs \<Longrightarrow> claim_inv i (cw_rules cw n s) xs" for n s xs
    using assms(1,2) steps_claim_inv unfolding fair_consider_def by blast
  from assms(3) show ?thesis
  proof (cases rule: consider_rule_parts)
    case (unclaimed b)
    have "claim_inv i b cs" using st assms(5) unclaimed(1) by blast
    from claim_claim_inv(1) [OF this assms(4) refl unclaimed(5)] unclaimed(3,6) show ?thesis by simp
  next
    case (claimed b outcome)
    define c where "c = fst (ClaimAlertRuleEvaluation (cw_ended cw 2) (ru_id rule) (cw_at cw) b)"
    have "claim_inv i b cs" using st assms(5) claimed(1) by blast
    from claim_claim_inv(2) [OF this assms(4) refl claimed(4)] claimed(3) have c: "claim_inv i c (cs @ claims i es)" by (simp add: c_def)
    then have d: "claim_inv i (cw_rules cw 1 c) (cs @ claims i es)" by (rule st)
    then have "rules_ok (cw_rules cw 1 c)" by (simp add: claim_inv_def)
    from keep_claim_inv [OF record_keeps record_rule_ok [OF this] d] c claimed(5) show ?thesis by (auto simp: c_def)
  qed
qed

lemma consider_rules_claim_inv:
  assumes "consider_rules sha cws silences rules h = (h', es, stop)" "\<forall>cw \<in> set cws. fair_consider used cw" "i \<in> used"
    "\<forall>r \<in> set rules. trim_space (ru_id r) = ru_id r" "claim_inv i (hb_rules h) cs"
  shows "claim_inv i (hb_rules h') (cs @ claims i es)"
  using assms
proof (induction sha cws silences rules h arbitrary: h' es stop cs rule: consider_rules.induct)
  case (3 sha cw cws silences rule rules h)
  show ?case
  proof (cases "cw_ended cw 0 \<or> cw_ended cw 1")
    case False
    obtain h1 es1 where r: "consider_rule sha cw silences rule h = (h1, es1)" by fastforce
    obtain es2 where r2: "consider_rules sha cws silences rules h1 = (h', es2, stop)" "es = es1 @ es2"
      using "3.prems"(1) False r by (auto split: prod.splits)
    have "claim_inv i (hb_rules h1) (cs @ claims i es1)"
      using consider_claim_inv [OF _ "3.prems"(3) r _ "3.prems"(5)] "3.prems"(2,4) by simp
    from "3.IH" [OF False r [symmetric] r2(1) _ "3.prems"(3) _ this] "3.prems"(2,4) r2(2) show ?thesis by (simp add: claims_append)
  qed (use "3.prems" in auto)
qed auto

lemma slice_claim_inv:
  assumes "slice_loop sha silences pws h = (h', es)" "\<forall>pw \<in> set pws. fair_page used pw" "i \<in> used" "claim_inv i (hb_rules h) cs"
  shows "claim_inv i (hb_rules h') (cs @ claims i es)"
  using assms
proof (induction pws arbitrary: h h' es cs)
  case (Cons pw pws)
  define h1 where "h1 = h\<lparr>hb_rules := pw_rules pw (hb_rules h)\<rparr>"
  have i1: "claim_inv i (hb_rules h1) cs"
    using Cons.prems(2) steps_claim_inv [OF _ Cons.prems(3,4)] by (simp add: h1_def fair_page_def)
  then have ok: "rules_ok (hb_rules h1)" by (simp add: claim_inv_def)
  note S = Cons.prems(1) [unfolded slice_loop.simps Let_def h1_def [symmetric]]
  show ?case
  proof (cases "\<exists>page. PageActiveAlertRules (pw_ended pw) (hb_cursor h1) AlertRuleEvaluationPageSize (hb_rules h1) = Inr page \<and>
      validAlertRuleEvaluationPage (hb_cursor h1) page")
    case False
    with S i1 show ?thesis by (auto split: sum.splits)
  next
    case True
    then obtain page where p: "PageActiveAlertRules (pw_ended pw) (hb_cursor h1) AlertRuleEvaluationPageSize (hb_rules h1) = Inr page"
      and v: "validAlertRuleEvaluationPage (hb_cursor h1) page" by blast
    obtain h2 es2 stop where r: "consider_rules sha (pw_considers pw) silences (pg_rules page)
        (h1\<lparr>hb_cursor := (hb_cursor h1)\<lparr>cu_started := True, cu_through := pg_through page\<rparr>\<rparr>) = (h2, es2, stop)"
      by (metis prod_cases3)
    have "\<forall>r \<in> set (pg_rules page). trim_space (ru_id r) = ru_id r" using page_spec(3) [OF ok p] stored_rule_ok [OF ok] by blast
    from consider_rules_claim_inv [OF r _ Cons.prems(3) this, of cs] i1 Cons.prems(2) have i2: "claim_inv i (hb_rules h2) (cs @ claims i es2)"
      by (simp add: fair_page_def)
    obtain h3 es3 where l: "slice_loop sha silences pws h2 = (h3, es3)" by fastforce
    from Cons.IH [OF l _ Cons.prems(3) i2] Cons.prems(2) have "claim_inv i (hb_rules h3) (cs @ claims i es2 @ claims i es3)" by simp
    with S p v r l i2 show ?thesis by (auto simp: claims_append split: if_splits)
  qed
qed simp

lemma run_claims:
  assumes "hub_run sha used h0 es h" "i \<in> used" "rules_ok (hb_rules h0)"
  shows "claim_inv i (hb_rules h) (claims i es)"
  using assms
proof (induction rule: hub_run.induct)
  case idle
  then show ?case by (simp add: claim_inv_def spaced_def)
next
  case (tick es h pws ended now h' es')
  then have i: "claim_inv i (hb_rules h) (claims i es)" by blast
  from tick.hyps(3) have "es' = [] \<and> h' = h \<or> (\<exists>silences. slice_loop sha silences pws h = (h', es'))"
    by (auto simp: evaluateAlertRuleSlice_def split: if_splits sum.splits)
  then show ?case using slice_claim_inv [OF _ tick.hyps(2) assms(2) i] i by (auto simp: claims_append)
next
  case (rules es h rs)
  then have i: "claim_inv i (hb_rules h) (claims i es)" by blast
  have "rules_ok rs" using rules_step_ok [OF rules.hyps(2)] i by (simp add: claim_inv_def)
  with keep_claim_inv [OF step_keeps [OF rules.hyps(2) assms(2)] _ i] show ?case by simp
next
  case (instances es h s)
  then show ?case by simp
qed

end
