(* ===== verification/Alert_Background.thy ===== *)
theory Alert_Background
  imports Alert_Sweep
begin

text \<open>
  Properties of the background evaluator: what a composite condition decides, that a sweep misses no rule and considers
  none twice, that automatic evaluations of a rule keep its interval, and that the alerts of a whole run are alerts of
  the evaluator of \<open>Alert_Runs\<close>, so that its properties hold for them.
\<close>

section \<open>Composite conditions\<close>

definition fires_for :: "alert_store \<Rightarrow> string \<Rightarrow> alert_instance \<Rightarrow> bool" where
  "fires_for s i a = (a \<in> snd ` set (sto_instances s) \<and> in_rule_id a = i \<and> in_status a = Firing)"

lemma scope_ids_set: "scope_ids seen ids = Some out \<Longrightarrow> set out = set ids - set seen"
proof (induction ids arbitrary: seen out)
  case (Cons i ids)
  show ?case
  proof (cases "i \<in> set seen")
    case True
    with Cons.prems have "scope_ids seen ids = Some out" by (simp split: if_splits)
    from Cons.IH [OF this] True show ?thesis by auto
  next
    case False
    with Cons.prems obtain rest where r: "scope_ids (i # seen) ids = Some rest" "out = i # rest" by (auto split: if_splits)
    from Cons.IH [OF r(1)] r(2) False show ?thesis by auto
  qed
qed simp

lemma normalized_assets: "NormalizeFiringScope f = Some n \<Longrightarrow> set (fs_asset_ids n) = set (fs_asset_ids f)"
  by (auto simp: NormalizeFiringScope_def dest!: scope_ids_set split: if_splits option.splits)

lemma included_assets:
  "x \<in> set (fs_asset_ids (oc_scope (includeScope f oc))) \<Longrightarrow>
   x \<in> set (fs_asset_ids (oc_scope oc)) \<or> (\<exists>v. f = Some v \<and> x \<in> set (fs_asset_ids v))"
  using normalized_assets by (auto simp: includeScope_def split: option.splits)

definition vouched :: "string list \<Rightarrow> alert_instance list \<Rightarrow> string \<Rightarrow> bool" where
  "vouched ids insts x =
     (\<exists>a v. a \<in> set insts \<and> in_rule_id a \<in> set ids \<and> in_status a = Firing \<and> in_firing_scope a = Some v \<and> x \<in> set (fs_asset_ids v))"

lemma composite_visit_result:
  assumes "composite_visit ended ids n insts acc = Inr (matched, oc)"
  shows "set matched = set (fst acc) \<union> {in_rule_id a | a. a \<in> set insts \<and> in_rule_id a \<in> set ids \<and> in_status a = Firing} \<and>
    (\<forall>x \<in> set (fs_asset_ids (oc_scope oc)). x \<in> set (fs_asset_ids (oc_scope (snd acc))) \<or> vouched ids insts x)"
  using assms
proof (induction insts arbitrary: n acc)
  case (Cons inst insts)
  define acc' where "acc' = (if in_rule_id inst \<in> set ids \<and> in_status inst = Firing
      then (in_rule_id inst # fst acc, if in_first_fired_at inst \<noteq> None then includeScope (in_firing_scope inst) (snd acc) else snd acc) else acc)"
  have r: "composite_visit ended ids (Suc n) insts acc' = Inr (matched, oc)"
    using Cons.prems unfolding acc'_def by (cases "ended n") (simp_all only: composite_visit.simps if_True if_False sum.distinct)
  have a: "x \<in> set (fs_asset_ids (oc_scope (snd acc))) \<or> vouched ids (inst # insts) x"
    if "x \<in> set (fs_asset_ids (oc_scope (snd acc')))" for x
    using that included_assets [of x "in_firing_scope inst" "snd acc"] by (auto simp: acc'_def vouched_def split: if_splits)
  have b: "vouched ids insts x \<Longrightarrow> vouched ids (inst # insts) x" for x by (auto simp: vouched_def)
  have c: "set (fst acc') = set (fst acc) \<union> (if in_rule_id inst \<in> set ids \<and> in_status inst = Firing then {in_rule_id inst} else {})"
    by (simp add: acc'_def)
  note I = Cons.IH [OF r]
  have "set matched = set (fst acc) \<union> {in_rule_id a | a. a \<in> set (inst # insts) \<and> in_rule_id a \<in> set ids \<and> in_status a = Firing}"
    using conjunct1 [OF I] by (auto simp: c split: if_splits)
  with conjunct2 [OF I] a b show ?case by blast
qed simp

lemma read_firing:
  "ReadFiringAlertInstances ended (Some (sort ids)) s = Inr insts \<Longrightarrow>
   set insts = {a \<in> snd ` set (sto_instances s). in_rule_id a \<in> set ids \<and> in_status a = Firing}"
  by (auto simp: ReadFiringAlertInstances_def image_iff split: if_splits) force+

lemma composite_cases:
  assumes "evaluateCompositeOutcome ended fin rule None s = Inr oc"
  defines "ids \<equiv> composite_ids rule" and "is_or \<equiv> map_of (ru_condition rule) ''operator'' = Some (JString ''or'')"
  shows "(oc_triggered oc \<longleftrightarrow> ids \<noteq> [] \<and> (if is_or then \<exists>i \<in> set ids. Ex (fires_for s i) else \<forall>i \<in> set ids. Ex (fires_for s i))) \<and>
    (\<forall>x \<in> set (fs_asset_ids (oc_scope oc)). \<exists>i \<in> set ids. \<exists>a v. fires_for s i a \<and> in_firing_scope a = Some v \<and> x \<in> set (fs_asset_ids v))"
proof (cases "ids = []")
  case True
  with assms(1) show ?thesis by (auto simp: evaluateCompositeOutcome_def ids_def [symmetric] newAlertConditionOutcome_def)
next
  case False
  note E = assms(1) [unfolded evaluateCompositeOutcome_def ids_def [symmetric] is_or_def [symmetric] Let_def]
  from E False obtain insts matched oc1 where rd: "ReadFiringAlertInstances (ended 0) (Some (sort ids)) s = Inr insts"
    and v: "composite_visit ended ids 0 insts ([], newAlertConditionOutcome) = Inr (matched, oc1)"
    by (auto split: sum.splits prod.splits)
  note V = composite_visit_result [OF v] and F = read_firing [OF rd]
  have m: "i \<in> set matched \<longleftrightarrow> Ex (fires_for s i)" if "i \<in> set ids" for i
    using that unfolding conjunct1 [OF V] F fires_for_def by auto
  define count where "count = length (filter (\<lambda>i. i \<in> set matched) ids)"
  have some: "0 < count \<longleftrightarrow> (\<exists>i \<in> set ids. Ex (fires_for s i))" using m by (auto simp: count_def filter_empty_conv)
  have all: "count = length ids \<longleftrightarrow> (\<forall>i \<in> set ids. Ex (fires_for s i))"
    using m by (simp add: count_def) (metis length_filter_less nat_neq_iff filter_True)
  define triggered where "triggered = (is_or \<and> 0 < count \<or> \<not> is_or \<and> count = length ids)"
  have t: "triggered \<longleftrightarrow> (if is_or then \<exists>i \<in> set ids. Ex (fires_for s i) else \<forall>i \<in> set ids. Ex (fires_for s i))"
    using some all by (simp add: triggered_def)
  have oc: "if triggered then outcome_result (oc1\<lparr>oc_triggered := True\<rparr>) = Inr oc else oc = newAlertConditionOutcome"
    using E False rd v by (auto simp: count_def [symmetric] triggered_def split: if_splits)
  show ?thesis
  proof (cases triggered)
    case True
    with oc obtain n where n: "NormalizeFiringScope (oc_scope oc1) = Some n" "oc = oc1\<lparr>oc_triggered := True, oc_scope := n\<rparr>"
      by (auto simp: outcome_result_def split: option.splits)
    have vo: "vouched ids insts x" if "x \<in> set (fs_asset_ids (oc_scope oc))" for x
      using V that normalized_assets [OF n(1)] by (auto simp: n(2) newAlertConditionOutcome_def)
    have "\<exists>i \<in> set ids. \<exists>a v. fires_for s i a \<and> in_firing_scope a = Some v \<and> x \<in> set (fs_asset_ids v)"
      if "x \<in> set (fs_asset_ids (oc_scope oc))" for x
    proof -
      from vo [OF that] obtain a v where a: "a \<in> set insts" "in_rule_id a \<in> set ids" "in_firing_scope a = Some v" "x \<in> set (fs_asset_ids v)"
        unfolding vouched_def by blast
      from a(1) have "fires_for s (in_rule_id a) a" by (simp add: F fires_for_def)
      with a show ?thesis by blast
    qed
    with True t False n(2) show ?thesis by simp
  next
    case no: False
    with oc t False show ?thesis by (simp add: newAlertConditionOutcome_def)
  qed
qed

section \<open>A run\<close>

text \<open>Two rules are created; ticks at 1000, 1010 and 1030 seconds consider both. Both have an interval of 30 seconds.\<close>

definition demo_fresh :: "alert_store \<Rightarrow> string" where
  "demo_fresh s = replicate (Suc (sum_list (map (length \<circ> fst) (sto_instances s)))) (CHR ''a'')"

definition demo_consider :: "gtime \<Rightarrow> consider_world" where
  "demo_consider at = \<lparr>cw_ended = (\<lambda>_. False), cw_at = at, cw_outcome = (\<lambda>_ _. Inr \<lparr>oc_triggered = True, oc_scope = demo_scope\<rparr>),
     cw_rules = (\<lambda>_ s. s), cw_instances = (\<lambda>s. s), cw_eval = (\<lambda>s. demo_world (demo_fresh s) at), cw_error_text = (\<lambda>_. []),
     cw_record_id = ''e'', cw_record_at = at, cw_duration = 1\<rparr>"

definition demo_page :: "gtime \<Rightarrow> page_world" where
  "demo_page at = \<lparr>pw_ended = False, pw_rules = (\<lambda>s. s), pw_considers = [demo_consider at, demo_consider at]\<rparr>"

definition demo_create :: create_rule where
  "demo_create = \<lparr>cr_name = ''disk'', cr_description = [], cr_status = [], cr_kind = ''heartbeat_stale'', cr_severity = ''high'',
     cr_target_scope = ''global'', cr_cooldown = None, cr_reopen = None, cr_interval = None, cr_window = None, cr_condition = [],
     cr_labels = [], cr_metadata = [], cr_targets = [], cr_created_by = []\<rparr>"

definition demo_rules1 :: rule_store where "demo_rules1 = fst (CreateAlertRule ''r1'' (\<lambda>_. []) 0 demo_create NewMemoryAlertStore)"

definition demo_rules2 :: rule_store where "demo_rules2 = fst (CreateAlertRule ''r2'' (\<lambda>_. []) 0 demo_create demo_rules1)"

definition demo_hub :: hub where "demo_hub = new_hub\<lparr>hb_rules := demo_rules2\<rparr>"

definition demo_tick :: "gtime \<Rightarrow> hub \<Rightarrow> hub \<times> sweep_event list" where
  "demo_tick at = evaluateAlertRuleSlice demo_sha (\<lambda>_. False) at [demo_page at]"

definition demo_hub1 :: hub where "demo_hub1 = fst (demo_tick (1000 * second) demo_hub)"
definition demo_hub2 :: hub where "demo_hub2 = fst (demo_tick (1010 * second) demo_hub1)"

definition demo_trace :: "sweep_event list" where
  "demo_trace = snd (demo_tick (1000 * second) demo_hub) @ snd (demo_tick (1010 * second) demo_hub1) @ snd (demo_tick (1030 * second) demo_hub2)"

definition demo_composite :: "string \<Rightarrow> alert_rule" where
  "demo_composite op = demo_rule\<lparr>ru_kind := ''composite'',
     ru_condition := [(''operator'', JString op), (''rule_ids'', JArray [JString ''r'', JString ''q'', JString ''r''])]\<rparr>"

lemma demo_fresh_ok: "fair_world (demo_world (demo_fresh s) at) s"
proof (rule demo_fair)
  show "demo_fresh s \<notin> fst ` set (sto_instances s)"
  proof
    assume "demo_fresh s \<in> fst ` set (sto_instances s)"
    then have "length (demo_fresh s) \<le> sum_list (map (length \<circ> fst) (sto_instances s))"
      by (intro member_le_sum_list) (auto simp: image_iff intro!: bexI)
    then show False by (simp add: demo_fresh_def)
  qed
  have "\<not> is_space (CHR ''a'')" by code_simp
  then show "trim_space (demo_fresh s) = demo_fresh s" by (intro trim_space_fixed) (simp_all add: demo_fresh_def)
qed

lemma demo_page_fair: "\<forall>pw \<in> set [demo_page at]. fair_page used pw"
  by (simp add: fair_page_def demo_page_def fair_consider_def demo_consider_def demo_fresh_ok)

lemma demo_hub_run: "hub_run sha {} new_hub [] demo_hub"
proof -
  have "rules_step {} NewMemoryAlertStore demo_rules1"
    unfolding demo_rules1_def by (rule rules_step.created) (simp_all add: NewMemoryAlertStore_def, code_simp)
  then have 1: "hub_run sha {} new_hub [] (new_hub\<lparr>hb_rules := demo_rules1\<rparr>)"
    by (intro hub_run.rules [OF hub_run.idle]) (simp add: new_hub_def)
  have "rules_step {} demo_rules1 demo_rules2"
    unfolding demo_rules2_def by (rule rules_step.created) (simp, code_simp+)
  then show ?thesis using hub_run.rules [OF 1, of demo_rules2] by (simp add: demo_hub_def)
qed

lemma demo_ticks:
  assumes "hub_run demo_sha used h0 es h"
  shows "hub_run demo_sha used h0 (es @ snd (demo_tick at h)) (fst (demo_tick at h))"
  by (rule hub_run.tick [OF assms demo_page_fair, of "\<lambda>_. False" at "at"]) (simp add: demo_tick_def)

lemma demo_trace_run:
  assumes "hub_run demo_sha used h0 [] demo_hub"
  shows "\<exists>h. hub_run demo_sha used h0 demo_trace h"
  using demo_ticks [OF demo_ticks [OF demo_ticks [OF assms, of "1000 * second"], folded demo_hub1_def, of "1010 * second"],
      folded demo_hub2_def, of "1030 * second"]
  unfolding demo_trace_def by auto

lemma demo_computed:
  "map considered (fst (sweeps demo_trace)) = [[''r1'', ''r2''], [''r1'', ''r2''], [''r1'', ''r2'']]"
  "claims ''r1'' demo_trace = [(1000 * second, 30), (1030 * second, 30)]"
  by code_simp+

text \<open>A request that pauses a rule while the evaluator is between its claim and its firing resolves the open alerts first;
  the alert that the evaluator then fires stays open, since a paused rule is not evaluated again.\<close>

definition demo_pause :: "rule_store \<Rightarrow> rule_store" where
  "demo_pause s = fst (UpdateAlertRule ''r1'' (\<lambda>_. []) 0 \<lparr>up_name = None, up_description = None, up_status = Some ''paused'', up_severity = None,
     up_cooldown = None, up_reopen = None, up_interval = None, up_window = None, up_condition = None, up_labels = None, up_metadata = None,
     up_targets = None\<rparr> s)"

definition demo_pausing :: page_world where
  "demo_pausing = \<lparr>pw_ended = False, pw_rules = (\<lambda>s. s),
     pw_considers = [(demo_consider (1000 * second))\<lparr>cw_rules := (\<lambda>n s. if n = 1 then demo_pause s else s)\<rparr>]\<rparr>"

definition demo_paused :: hub where
  "demo_paused = fst (evaluateAlertRuleSlice demo_sha (\<lambda>_. False) (1000 * second) [demo_pausing] demo_hub)"

lemma paused_rule_keeps_open_alert:
  "\<exists>es. hub_run demo_sha {} new_hub es demo_paused"
  "map_option ru_status (rule_of (hb_rules demo_paused) ''r1'') = Some ''paused''"
  "map (\<lambda>(i, a). (in_rule_id a, in_status a)) (sto_instances (hb_instances demo_paused)) = [(''r1'', Firing)]"
proof -
  have "rules_steps {} s (demo_pause s)" for s unfolding demo_pause_def by (intro r_into_rtranclp rules_step.updated)
  then have "\<forall>pw \<in> set [demo_pausing]. fair_page {} pw"
    by (simp add: fair_page_def demo_pausing_def fair_consider_def demo_consider_def demo_fresh_ok)
  from hub_run.tick [OF demo_hub_run this, of demo_sha "\<lambda>_. False" "1000 * second"] show "\<exists>es. hub_run demo_sha {} new_hub es demo_paused"
    unfolding demo_paused_def by (metis prod.collapse)
qed code_simp+

section \<open>Properties\<close>

text \<open>C37: No rule is missed and none is considered twice. In every run of ticks, with rules created, changed, paused and
  deleted in between, each complete sweep of the evaluator, which may take several pages and several ticks, considers
  rules in strictly increasing order of their ids, considers only rules that were active in a page it read, and
  considers every rule that was active in all of them.\<close>

theorem sweep_considers_each_rule_once:
  assumes "hub_run sha used new_hub es h" "sw \<in> set (fst (sweeps es))"
  shows "pages sw \<noteq> {} \<and> sorted_wrt (<) (considered sw) \<and> (\<forall>i \<in> set (considered sw). \<exists>s \<in> pages sw. is_active s i) \<and>
    (\<forall>i. (\<forall>s \<in> pages sw. is_active s i) \<longrightarrow> i \<in> set (considered sw))"
  using run_sweeps [OF assms(1)] assms(2) by (simp add: sweeps_fine_def list_all_iff sweep_ok_def)

theorem sweep_considers_each_rule_once_witness:
  "fst (sweeps demo_trace) \<noteq> [] \<and> sorted_wrt (<) (considered (hd (fst (sweeps demo_trace)))) \<and> considered (hd (fst (sweeps demo_trace))) = [''r1'', ''r2'']"
proof -
  have c: "map considered (fst (sweeps demo_trace)) = [[''r1'', ''r2''], [''r1'', ''r2''], [''r1'', ''r2'']]" by (rule demo_computed)
  then obtain sw sws where sw: "fst (sweeps demo_trace) = sw # sws" "considered sw = [''r1'', ''r2'']" by (cases "fst (sweeps demo_trace)") auto
  obtain h where "hub_run demo_sha {} new_hub demo_trace h" using demo_trace_run [OF demo_hub_run] by blast
  from sweep_considers_each_rule_once [OF this, of sw] sw show ?thesis by simp
qed

text \<open>C38: Automatic evaluations keep the interval of their rule. In every run after the creation of a rule, whatever
  requests change, pause, resume or delete it, two claims of the rule lie at least the interval apart that is in force at
  the later one, and that interval is positive.\<close>

theorem automatic_evaluations_keep_interval:
  assumes "hub_run sha {} new_hub es0 h0" "hub_run sha {i} h0 es h"
  shows "sorted_wrt (\<lambda>(a, m) (b, n). a + n * second \<le> b) (claims i es) \<and> (\<forall>(a, n) \<in> set (claims i es). 0 < n)"
proof -
  have "rules_ok (hb_rules h0)" using run_sweeps [OF assms(1)] by (simp add: sweeps_fine_def)
  from run_claims [OF assms(2) singletonI this] show ?thesis by (simp add: claim_inv_def spaced_def)
qed

theorem automatic_evaluations_keep_interval_witness:
  "claims ''r1'' demo_trace = [(1000 * second, 30), (1030 * second, 30)] \<and>
   sorted_wrt (\<lambda>(a, m) (b, n). a + n * second \<le> b) (claims ''r1'' demo_trace)"
proof -
  obtain h where "hub_run demo_sha {''r1''} demo_hub demo_trace h" using demo_trace_run [OF hub_run.idle] by blast
  from automatic_evaluations_keep_interval [OF demo_hub_run this] demo_computed(2) show ?thesis by blast
qed

text \<open>C39: The background evaluator refines the evaluator of alerts: the instances of every run of ticks and requests are a
  store that single evaluations and handler requests reach, so in every run a rule has at most one active alert per
  fingerprint and every instance is consistent.\<close>

theorem background_refines_evaluator:
  assumes "hub_run sha used new_hub es h"
  shows "alert_reach sha (hb_instances h) \<and> single_active (hb_instances h) \<and> instances_ok (hb_instances h)"
  using run_reach [OF assms] reach_good by blast

theorem background_refines_evaluator_witness: "single_active (hb_instances demo_paused) \<and> sto_instances (hb_instances demo_paused) \<noteq> []"
proof -
  obtain es where "hub_run demo_sha {} new_hub es demo_paused" using paused_rule_keeps_open_alert(1) by blast
  from background_refines_evaluator [OF this] paused_rule_keeps_open_alert(3) show ?thesis by auto
qed

text \<open>C40: What a composite rule decides. When its evaluation over the stored alerts succeeds, it triggers exactly when it
  names rules and any of them (operator or) or all of them (otherwise) have a firing alert, and every asset in the scope
  of the outcome comes from the firing scope of such an alert.\<close>

theorem composite_condition_exact:
  assumes "evaluateCompositeOutcome ended fin rule None s = Inr oc"
  shows "(oc_triggered oc \<longleftrightarrow> composite_ids rule \<noteq> [] \<and>
      (if map_of (ru_condition rule) ''operator'' = Some (JString ''or'') then \<exists>i \<in> set (composite_ids rule). \<exists>a. fires_for s i a
       else \<forall>i \<in> set (composite_ids rule). \<exists>a. fires_for s i a)) \<and>
    (\<forall>x \<in> set (fs_asset_ids (oc_scope oc)). \<exists>i \<in> set (composite_ids rule). \<exists>a v. fires_for s i a \<and> in_firing_scope a = Some v \<and> x \<in> set (fs_asset_ids v))"
  using composite_cases [OF assms] by simp

theorem composite_condition_exact_witness:
  "(\<exists>i \<in> set (composite_ids (demo_composite ''or'')). \<exists>a. fires_for demo1 i a) \<and>
   \<not> (\<forall>i \<in> set (composite_ids (demo_composite ''and'')). \<exists>a. fires_for demo1 i a)"
proof -
  have t: "map_sum id oc_triggered (evaluateCompositeOutcome (\<lambda>_. False) False (demo_composite ''or'') None demo1) = Inr True"
    "map_sum id oc_triggered (evaluateCompositeOutcome (\<lambda>_. False) False (demo_composite ''and'') None demo1) = Inr False"
    "composite_ids (demo_composite ''and'') \<noteq> []"
    "map_of (ru_condition (demo_composite ''or'')) ''operator'' = Some (JString ''or'')"
    "map_of (ru_condition (demo_composite ''and'')) ''operator'' \<noteq> Some (JString ''or'')"
    by code_simp+
  from t(1,2) obtain a b where
    ab: "evaluateCompositeOutcome (\<lambda>_. False) False (demo_composite ''or'') None demo1 = Inr a" "oc_triggered a"
      "evaluateCompositeOutcome (\<lambda>_. False) False (demo_composite ''and'') None demo1 = Inr b" "\<not> oc_triggered b"
    by (cases "evaluateCompositeOutcome (\<lambda>_. False) False (demo_composite ''or'') None demo1";
        cases "evaluateCompositeOutcome (\<lambda>_. False) False (demo_composite ''and'') None demo1") auto
  show ?thesis
    using composite_condition_exact [OF ab(1)] composite_condition_exact [OF ab(3)] ab(2,4) t(3-5) by simp
qed

end
