(* ===== verification/Spec2Isabelle.thy ===== *)
theory Spec2Isabelle
  imports Command_Policy Job_Worker Power_Control Agent_Lifecycle Challenge_Store Stream_Revocation Group_Handlers
    Reliability_History Enrollment_Identity Terminal_Scrollback Command_Executor Alert_Background
begin

text \<open>
  A verification development of the LabTether hub: the Go server that lets an operator manage the
  machines of a home lab through agents, connectors and a web console.

  \<^bold>\<open>The program.\<close> Requests of browsers, scripts and agents pass \<open>withAuth\<close>
  (\<open>cmd/labtether/request_auth_middleware.go\<close>), which finds the credential (cookie session, API key, owner
  token, stream ticket), its role, scopes and assets, and enforces rate limits. Handlers
  (\<open>internal/hubapi\<close>) check scopes and assets again and work on the stores (\<open>internal/persistence\<close>).
  Agents enroll with tokens, hold a connection that the agent manager registers
  (\<open>internal/agentmgr\<close>) and send heartbeats that maintain the asset inventory. Work that may take long goes
  through a job queue in Postgres (\<open>internal/jobqueue\<close>). Browsers open streams and an event socket that
  are bound to the credential they were opened with, so that revoking the credential ends them.

  \<^bold>\<open>Conventions.\<close> A Go string is a list of bytes, time is an integer number of nanoseconds, a result with
  an error is a sum type with the error on the left, a map is an association list (its order is the
  order of iteration, so a statement for all lists covers all iteration orders), a pointer is a number
  that indexes a heap of the model. What a lock protects is one step; goroutines are interleaved steps
  of an inductive relation, and the properties are about all runs. The clock and the results of
  callbacks, random generators, hashes and time formatting are arguments of the definitions. Integers are
  unbounded where the code cannot overflow them; where it can (back-off shifts, poll intervals) the
  wrap-around is written out.

  \<^bold>\<open>Theories.\<close>

    \<^item> \<open>LT_Prelude\<close>: strings, trimming, decimal numerals, association lists, results, time, machine
      integers and the rule for invariants of runs.
    \<^item> \<open>Command_Policy\<close> (\<open>internal/commandpolicy\<close>, \<open>internal/policy\<close>): parsing and quoting of commands, the rules
      of the allowlist and the policy decision. Quoting and parsing are inverse, and the default list
      admits only harmless uses of interpreters.
    \<^item> \<open>Access_Control\<close> (\<open>internal/auth/roles.go\<close>, \<open>internal/apikeys\<close>, \<open>internal/apiv2\<close>): roles, scopes and asset
      lists of a principal.
    \<^item> \<open>Auth_Store\<close> (\<open>memory_auth_store.go\<close>), \<open>API_Keys\<close> (\<open>memory_apikeys.go\<close>, \<open>apikey_handlers.go\<close>): users, sessions,
      recovery codes and keys. \<open>auth_contract\<close> is the interface of the authentication store; the memory
      store interprets it.
    \<^item> \<open>Rate_Limit\<close> (\<open>http_helpers.go\<close>), \<open>Request_Auth\<close> (\<open>request_auth_middleware.go\<close>, \<open>host_data_access_policy.go\<close>,
      \<open>stream_ticket_principal.go\<close>, \<open>request_origin_policy.go\<close>): what a request must carry to reach a handler
      and what the handler then sees.
    \<^item> \<open>Job_Queue\<close>, \<open>Job_Worker\<close> (\<open>internal/jobqueue\<close>): the statements on the table of jobs, and one pass of the
      worker over the interface \<open>process_queue_contract\<close>, which the table interprets.
    \<^item> \<open>Agent_Manager\<close>, \<open>Power_Control\<close>: connections, their registry and admission limits, and power actions
      over the interface \<open>power_sender\<close>, which the manager interprets.
    \<^item> \<open>Keyed_Locks\<close>: reference-counted locks under a key as a locale with their threads; interpreted by
      \<open>Agent_Lifecycle\<close> (asset lifecycles), \<open>Challenge_Store\<close> (users) and \<open>Session_Streams\<close> (sessions).
    \<^item> \<open>Challenge_Store\<close> (\<open>internal/auth/challenge.go\<close>): login challenges of the second factor.
    \<^item> \<open>Stream_Principals\<close>, \<open>Session_Streams\<close>, \<open>Event_Broadcast\<close>, \<open>Stream_Revocation\<close> (\<open>internal/hubapi/shared\<close>): the
      streams of browsers, the event feed, and the end of both when a session or a credential ends.
    \<^item> \<open>Asset_Store\<close>, \<open>Group_Store\<close>, \<open>Group_Tree\<close>, \<open>Group_Access\<close>, \<open>Group_Handlers\<close>, \<open>Reliability_History\<close>: the
      inventory, the tree of groups, what an asset-restricted key may see of it, its HTTP handlers and
      the scores kept per group.
    \<^item> \<open>Enrollment\<close> (\<open>memory_enrollment_store.go\<close>, \<open>memory_agent_enrollment_transactions.go\<close>), \<open>Enrollment_Runs\<close>,
      \<open>Enrollment_Credentials\<close>, \<open>Enrollment_Identity\<close>: the enrollment store; then, over all of its runs, the use of
      tokens, the life of credentials, and the identities with their verified anchors.
    \<^item> \<open>Terminal_Scrollback\<close> (\<open>internal/terminal/scrollback.go\<close>, \<open>scrollback_merge.go\<close>, \<open>stream_ssh_replay.go\<close>): the ring
      buffer of terminal lines as a refinement of the last lines written, and the merge after a reconnect.
    \<^item> \<open>Net_Address\<close>: IP addresses of the Go library (parsing, text, classes, prefixes).
    \<^item> \<open>Outbound_Policy\<close> (\<open>internal/securityruntime\<close>, \<open>internal/protocols/host_validation.go\<close>): which hosts and addresses
      the hub may connect to; \<open>Outbound_Host\<close>: the form of canonical hosts; \<open>Outbound_Safety\<close>: the address
      classes as networks and the interface \<open>address_guard\<close> of a dialler, interpreted by its four checks;
      \<open>Outbound_Clients\<close>: what the clients reach, for all DNS answers.
    \<^item> \<open>Exec_Policy\<close> (\<open>internal/securityruntime/command.go\<close>), \<open>Command_Executor\<close> (\<open>worker_command_executor.go\<close>): which
      programs and commands may run, and the executor that runs them locally or over SSH, from the text of
      a job to what the remote shell receives.
    \<^item> \<open>Alert_Instances\<close> (\<open>internal/alerts\<close>, \<open>memory_alert_instance_store.go\<close>), \<open>Alert_Rules\<close> (\<open>memory_alert_store.go\<close>): the
      stores of alert instances, silences, rules and evaluations; \<open>Alert_Evaluator\<close> (\<open>alert_evaluator_instances.go\<close>,
      \<open>alert_instances_handlers.go\<close>): how alerts fire and resolve while handlers run in between; \<open>Alert_Runs\<close>: one
      active alert per fingerprint, permanent records and hold-off times over all runs; \<open>Alert_Sweep\<close>
      (\<open>alert_rule_evaluation_cursor.go\<close>, \<open>alert_condition_composite.go\<close>), \<open>Alert_Background\<close>: the background evaluator,
      its sweeps over pages of rules, its claims and composite conditions.

  \<^bold>\<open>Bounds and fuel.\<close> \<open>runSessionStreamOwner\<close> runs with fuel one above the number of the owner and
  \<open>toTreeNode\<close> with fuel one above the length of the heap; the lemmas next to them show that this is
  enough for the result. \<open>computeDepth\<close>, which does not return on a cycle of groups, is a partial function, and
  that the tree view returns is a property. All other loops are structural or proved to terminate.

  \<^bold>\<open>Not modelled.\<close> The Postgres stores other than the job queue (their logic is SQL text run by the
  database), the connectors and collectors (clients of other products' HTTP interfaces), telemetry
  export, notifications, certificates, discovery, the desktop and file protocols, the MCP server, the
  web console, the push relay and the migrator: they are input and output with little state of their
  own, or are written in other languages. Of the HTTP handlers only those of authentication, keys, groups,
  alert instances and silences are modelled; the others apply the same guards to stores that are not modelled.
\<close>

end
